(* ===== verification/Prelude.thy ===== *)
theory Prelude
  imports Complex_Main "HOL-Library.Word" "HOL-Library.List_Lexorder" "HOL-Library.AList"
begin

text \<open>
  What every component of the development shares: JavaScript strings as lists of UTF-16
  code units, insertion-ordered maps and sets, results that may be an error, and the
  lemma collections the component theories extend.
\<close>

named_theorems js_simps \<open>rewrite rules for JavaScript strings, maps and sets\<close>
named_theorems run_simps \<open>rewrite rules for the rows of the run ledgers\<close>

section \<open>Strings\<close>

text \<open>
  A JavaScript string is a sequence of 16-bit code units. The lexicographic order of
  \<open>List_Lexorder\<close> on such lists is the order \<open>Array.prototype.sort\<close> and \<open>>\<close> use on strings.
  \<open>js\<close> turns an ASCII literal into a string.
\<close>

type_synonym code_unit = "16 word"
type_synonym jsstr = "code_unit list"

definition cu :: "char \<Rightarrow> code_unit" where
  "cu c = of_char c"

definition js :: "string \<Rightarrow> jsstr" where
  "js s = map cu s"

lemma js_Nil [simp]: "js [] = []"
  and js_Cons: "js (c # s) = cu c # js s"
  and js_append: "js (s @ t) = js s @ js t"
  and length_js [simp]: "length (js s) = length s"
  by (simp_all add: js_def)

lemmas js_eval = js_def cu_def

text \<open>\<open>/\s/u\<close>, which is also what \<open>trim\<close> removes, and the general category \<open>Cc\<close>.\<close>

definition is_space :: "code_unit \<Rightarrow> bool" where
  "is_space c \<longleftrightarrow>
     (9 \<le> c \<and> c \<le> 13) \<or> c = 32 \<or> c = 0xA0 \<or> c = 0x1680 \<or> (0x2000 \<le> c \<and> c \<le> 0x200A)
     \<or> c = 0x2028 \<or> c = 0x2029 \<or> c = 0x202F \<or> c = 0x205F \<or> c = 0x3000 \<or> c = 0xFEFF"

definition is_control :: "code_unit \<Rightarrow> bool" where
  "is_control c \<longleftrightarrow> c \<le> 0x1F \<or> (0x7F \<le> c \<and> c \<le> 0x9F)"

definition is_digit :: "code_unit \<Rightarrow> bool" where
  "is_digit c \<longleftrightarrow> 48 \<le> c \<and> c \<le> 57"

definition is_upper :: "code_unit \<Rightarrow> bool" where
  "is_upper c \<longleftrightarrow> 65 \<le> c \<and> c \<le> 90"

definition is_lower :: "code_unit \<Rightarrow> bool" where
  "is_lower c \<longleftrightarrow> 97 \<le> c \<and> c \<le> 122"

definition is_alpha :: "code_unit \<Rightarrow> bool" where
  "is_alpha c \<longleftrightarrow> is_upper c \<or> is_lower c"

definition ascii_upper :: "jsstr \<Rightarrow> jsstr" where
  "ascii_upper = map (\<lambda>c. if is_lower c then c - 32 else c)"

definition ascii_lower :: "jsstr \<Rightarrow> jsstr" where
  "ascii_lower = map (\<lambda>c. if is_upper c then c + 32 else c)"

lemmas char_class_defs =
  is_space_def is_control_def is_digit_def is_upper_def is_lower_def is_alpha_def

definition trimStart :: "jsstr \<Rightarrow> jsstr" where
  "trimStart s = dropWhile is_space s"

definition trimEnd :: "jsstr \<Rightarrow> jsstr" where
  "trimEnd s = rev (dropWhile is_space (rev s))"

definition trim :: "jsstr \<Rightarrow> jsstr" where
  "trim s = trimEnd (trimStart s)"

lemma trimEnd_Nil_iff [js_simps]: "trimEnd s = [] \<longleftrightarrow> (\<forall>c \<in> set s. is_space c)"
  by (simp add: trimEnd_def)

lemma dropWhile_cong_all: "(\<forall>c \<in> set (dropWhile P s). P c) \<longleftrightarrow> (\<forall>c \<in> set s. P c)"
  by (induction s) auto

lemma trim_Nil_iff [js_simps]: "trim s = [] \<longleftrightarrow> (\<forall>c \<in> set s. is_space c)"
  by (simp add: trim_def trimEnd_Nil_iff trimStart_def dropWhile_cong_all)

lemma length_trimEnd: "length (trimEnd s) \<le> length s"
  using length_dropWhile_le [of is_space "rev s"] by (simp add: trimEnd_def)

lemma length_trim: "length (trim s) \<le> length s"
proof -
  have "length (trim s) \<le> length (trimStart s)"
    by (simp add: trim_def length_trimEnd)
  also have "\<dots> \<le> length s"
    by (simp add: trimStart_def length_dropWhile_le)
  finally show ?thesis .
qed

lemma trimEnd_snoc: "\<not> is_space c \<Longrightarrow> trimEnd (s @ [c]) = s @ [c]"
  by (simp add: trimEnd_def)

lemma trimEnd_prefix: "\<exists>p. s = trimEnd s @ p"
proof -
  have "rev s = takeWhile is_space (rev s) @ dropWhile is_space (rev s)" by simp
  then have "s = rev (dropWhile is_space (rev s)) @ rev (takeWhile is_space (rev s))"
    by (metis rev_append rev_rev_ident)
  then show ?thesis by (auto simp: trimEnd_def)
qed

lemma trim_ends:
  assumes ne: "trim s \<noteq> []"
  shows "\<not> is_space (hd (trim s))" and "\<not> is_space (last (trim s))"
proof -
  let ?t = "trimStart s"
  obtain p where p: "?t = trim s @ p"
    using trimEnd_prefix [of ?t] by (auto simp: trim_def)
  with ne have t: "?t \<noteq> []" and hd: "hd (trim s) = hd ?t"
    by (auto simp: hd_append)
  show "\<not> is_space (hd (trim s))"
    using t hd by (simp add: trimStart_def hd_dropWhile)
  have d: "dropWhile is_space (rev ?t) \<noteq> []"
    using ne by (simp add: trim_def trimEnd_def)
  have "last (trim s) = hd (dropWhile is_space (rev ?t))"
    using d by (simp add: trim_def trimEnd_def last_rev)
  then show "\<not> is_space (last (trim s))"
    using hd_dropWhile [OF d] by simp
qed

lemma dropWhile_id: "s = [] \<or> \<not> P (hd s) \<Longrightarrow> dropWhile P s = s"
  by (cases s) auto

lemma trim_id: "s \<noteq> [] \<Longrightarrow> \<not> is_space (hd s) \<Longrightarrow> \<not> is_space (last s) \<Longrightarrow> trim s = s"
  by (simp add: trim_def trimStart_def trimEnd_def dropWhile_id hd_rev)

lemma trim_Nil [simp]: "trim [] = []"
  by (simp add: trim_def trimStart_def trimEnd_def)

lemma trim_idem [simp]: "trim (trim s) = trim s"
proof (cases "trim s = []")
  case True
  then show ?thesis by simp
next
  case False
  then show ?thesis using trim_ends [OF False] trim_id by blast
qed

text \<open>
  The length in bytes of the UTF-8 encoding. The iteration is by code point: a high
  surrogate followed by a low one is one code point above \<open>0xFFFF\<close>; every other unit is a
  code point of its own.
\<close>

definition is_high :: "code_unit \<Rightarrow> bool" where
  "is_high c \<longleftrightarrow> 0xD800 \<le> c \<and> c \<le> 0xDBFF"

definition is_low :: "code_unit \<Rightarrow> bool" where
  "is_low c \<longleftrightarrow> 0xDC00 \<le> c \<and> c \<le> 0xDFFF"

definition pair_code_point :: "code_unit \<Rightarrow> code_unit \<Rightarrow> nat" where
  "pair_code_point h l = (unat h - 0xD800) * 0x400 + (unat l - 0xDC00) + 0x10000"

fun code_points :: "jsstr \<Rightarrow> nat list" where
  "code_points [] = []"
| "code_points [c] = [unat c]"
| "code_points (c # d # s) =
     (if is_high c \<and> is_low d then pair_code_point c d # code_points s
      else unat c # code_points (d # s))"

section \<open>Insertion-ordered maps and sets\<close>

text \<open>
  A \<open>Map\<close> is the association list of its entries in insertion order; \<open>AList.update\<close>
  keeps the place of a key that is already there and appends a new one, as \<open>Map.set\<close>
  does. A \<open>Set\<close> is the list of its members in insertion order.
\<close>

definition get_or :: "'v \<Rightarrow> ('k \<times> 'v) list \<Rightarrow> 'k \<Rightarrow> 'v" where
  "get_or d m k = (case map_of m k of None \<Rightarrow> d | Some v \<Rightarrow> v)"

lemma get_or_update [simp]:
  "get_or d (AList.update k v m) k' = (if k' = k then v else get_or d m k')"
  by (simp add: get_or_def update_conv')

lemma get_or_Nil [simp]: "get_or d [] k = d"
  by (simp add: get_or_def)

lemma get_or_map_pair [simp]:
  "get_or d (map (\<lambda>x. (x, f x)) xs) k = (if k \<in> set xs then f k else d)"
  by (simp add: get_or_def map_of_map_restrict restrict_map_def)

definition map_from :: "('k \<times> 'v) list \<Rightarrow> ('k \<times> 'v) list" where
  "map_from entries = fold (\<lambda>(k, v) m. AList.update k v m) entries []"

definition set_add :: "'a \<Rightarrow> 'a list \<Rightarrow> 'a list" where
  "set_add x xs = (if x \<in> set xs then xs else xs @ [x])"

definition set_from :: "'a list \<Rightarrow> 'a list" where
  "set_from xs = fold set_add xs []"

lemma set_set_add [simp]: "set (set_add x xs) = insert x (set xs)"
  by (auto simp: set_add_def)

lemma distinct_set_add [simp]: "distinct (set_add x xs) = distinct xs"
  by (auto simp: set_add_def)

lemma set_fold_set_add: "set (fold set_add xs ys) = set ys \<union> set xs"
  by (induction xs arbitrary: ys) auto

lemma distinct_fold_set_add: "distinct ys \<Longrightarrow> distinct (fold set_add xs ys)"
  by (induction xs arbitrary: ys) auto

lemma set_set_from [simp]: "set (set_from xs) = set xs"
  by (simp add: set_from_def set_fold_set_add)

lemma distinct_set_from [simp]: "distinct (set_from xs)"
  by (simp add: set_from_def distinct_fold_set_add)

lemma fold_set_add_id: "distinct (ys @ xs) \<Longrightarrow> fold set_add xs ys = ys @ xs"
proof (induction xs arbitrary: ys)
  case Nil
  then show ?case by simp
next
  case (Cons x xs)
  then have "set_add x ys = ys @ [x]" by (simp add: set_add_def)
  with Cons show ?case by simp
qed

lemma set_from_distinct: "distinct xs \<Longrightarrow> set_from xs = xs"
  by (simp add: set_from_def fold_set_add_id)

lemma length_set_from_eq_iff: "length (set_from xs) = length xs \<longleftrightarrow> distinct xs"
proof
  assume "length (set_from xs) = length xs"
  then have "card (set xs) = length xs"
    by (metis distinct_card distinct_set_from set_set_from)
  then show "distinct xs" by (rule card_distinct)
qed (simp add: set_from_distinct)

text \<open>A map from keys to lists of successors, as the graph it stands for.\<close>

definition out_rel :: "(jsstr \<times> jsstr list) list \<Rightarrow> (jsstr \<times> jsstr) set" where
  "out_rel out = {(a, b). b \<in> set (get_or [] out a)}"

lemma get_or_targets: "set (get_or [] out n) \<subseteq> \<Union> (set ` snd ` set out)"
proof (cases "map_of out n")
  case None
  then show ?thesis by (simp add: get_or_def)
next
  case (Some ts)
  then have "(n, ts) \<in> set out" by (rule map_of_SomeD)
  with Some show ?thesis by (force simp: get_or_def)
qed

lemma update_append_other: "k \<notin> fst ` set m \<Longrightarrow> AList.update k v m = m @ [(k, v)]"
  by (induction m) auto

lemma keys_map_from:
  assumes "distinct (map f xs)"
  shows "map_from (map (\<lambda>x. (f x, x)) xs) = map (\<lambda>x. (f x, x)) xs"
proof -
  have "fold (\<lambda>(k, v) m. AList.update k v m) (map (\<lambda>x. (f x, x)) xs) m = m @ map (\<lambda>x. (f x, x)) xs"
    if "distinct (map f xs)" "fst ` set m \<inter> f ` set xs = {}" for m
    using that
  proof (induction xs arbitrary: m)
    case Nil
    then show ?case by simp
  next
    case (Cons x xs)
    have up: "AList.update (f x) x m = m @ [(f x, x)]"
      using Cons.prems(2) by (intro update_append_other) (auto simp: image_iff)
    have "fold (\<lambda>(k, v) m. AList.update k v m) (map (\<lambda>x. (f x, x)) xs) (m @ [(f x, x)])
        = (m @ [(f x, x)]) @ map (\<lambda>x. (f x, x)) xs"
      by (rule Cons.IH) (use Cons.prems in auto)
    then show ?case by (simp add: up)
  qed
  from this [OF assms, of "[]"] show ?thesis by (simp add: map_from_def)
qed

section \<open>Results that may be an error\<close>

text \<open>A computation that may throw is a sum: \<open>Inl\<close> holds what is thrown.\<close>

fun and_then :: "'e + 'a \<Rightarrow> ('a \<Rightarrow> 'e + 'b) \<Rightarrow> 'e + 'b" where
  "and_then (Inl e) f = Inl e"
| "and_then (Inr x) f = f x"

lemma and_then_eq_Inr: "and_then m f = Inr y \<longleftrightarrow> (\<exists>x. m = Inr x \<and> f x = Inr y)"
  by (cases m) auto

lemma and_then_eq_Inl: "and_then m f = Inl e \<longleftrightarrow> m = Inl e \<or> (\<exists>x. m = Inr x \<and> f x = Inl e)"
  by (cases m) auto

fun map_result :: "('a \<Rightarrow> 'e + 'b) \<Rightarrow> 'a list \<Rightarrow> 'e + 'b list" where
  "map_result f [] = Inr []"
| "map_result f (x # xs) =
     and_then (f x) (\<lambda>y. and_then (map_result f xs) (\<lambda>ys. Inr (y # ys)))"

lemma map_result_cong [fundef_cong]:
  "xs = ys \<Longrightarrow> (\<And>x. x \<in> set ys \<Longrightarrow> f x = g x) \<Longrightarrow> map_result f xs = map_result g ys"
proof (induction ys arbitrary: xs)
  case Nil
  then show ?case by simp
next
  case (Cons y ys)
  then show ?case by simp
qed

lemma map_result_Inr_length: "map_result f xs = Inr ys \<Longrightarrow> length ys = length xs"
  by (induction xs arbitrary: ys) (auto simp: and_then_eq_Inr)

lemma map_result_Inr_iff:
  "map_result f xs = Inr ys \<longleftrightarrow> list_all2 (\<lambda>x y. f x = Inr y) xs ys"
  by (induction xs arbitrary: ys) (auto simp: and_then_eq_Inr list_all2_Cons1)

text \<open>A loop whose body may throw.\<close>

fun fold_result :: "('a \<Rightarrow> 's \<Rightarrow> 'e + 's) \<Rightarrow> 'a list \<Rightarrow> 's \<Rightarrow> 'e + 's" where
  "fold_result f [] s = Inr s"
| "fold_result f (x # xs) s = and_then (f x s) (fold_result f xs)"

lemma fold_result_append: "fold_result f (xs @ ys) s = and_then (fold_result f xs s) (fold_result f ys)"
  by (induction xs arbitrary: s) (auto split: sum.splits intro: and_then.simps, metis and_then.simps(1) and_then.simps(2) sum.exhaust)

lemma fold_result_keeps:
  assumes "\<And>x s s'. x \<in> set xs \<Longrightarrow> I s \<Longrightarrow> f x s = Inr s' \<Longrightarrow> I s'"
  shows "fold_result f xs s = Inr s' \<Longrightarrow> I s \<Longrightarrow> I s'"
  using assms by (induction xs arbitrary: s) (auto simp: and_then_eq_Inr)

lemma fold_result_total:
  assumes "\<And>x s. x \<in> set xs \<Longrightarrow> I s \<Longrightarrow> \<exists>s'. f x s = Inr s' \<and> I s'"
  shows "I s \<Longrightarrow> \<exists>s'. fold_result f xs s = Inr s' \<and> I s'"
  using assms
proof (induction xs arbitrary: s)
  case (Cons x xs)
  then obtain s' where s': "f x s = Inr s'" "I s'" by (meson list.set_intros(1))
  have "\<exists>t. fold_result f xs s' = Inr t \<and> I t" by (rule Cons.IH [OF s'(2)]) (use Cons.prems(2) in auto)
  then show ?case using s'(1) by simp
qed simp

text \<open>A check on a field that may be absent (\<open>.optional()\<close>, \<open>.nullable()\<close>).\<close>

fun if_present :: "('a \<Rightarrow> bool) \<Rightarrow> 'a option \<Rightarrow> bool" where
  "if_present P None = True"
| "if_present P (Some x) = P x"

section \<open>The host environment\<close>

text \<open>
  The Unicode tables, the locale's collation and the implementation-defined part of
  \<open>Date.parse\<close> belong to the JavaScript engine's data files, not to the program: they are
  parameters. \<open>toLocaleLowerCase\<close> is the call without an argument, in the locale of the process,
  \<open>toLocaleLowerCaseEnUS\<close> the call with \<open>'en-US'\<close>. \<open>valid_uuid\<close> and \<open>iso_datetime\<close> are format checks of the schema library.
\<close>

record host =
  nfkc :: "jsstr \<Rightarrow> jsstr"
  toLocaleLowerCase :: "jsstr \<Rightarrow> jsstr"
  toLocaleLowerCaseEnUS :: "jsstr \<Rightarrow> jsstr"
  toLocaleUpperCase :: "jsstr \<Rightarrow> jsstr"
  localeCompare :: "jsstr \<Rightarrow> jsstr \<Rightarrow> int"
  date_parse :: "jsstr \<Rightarrow> int option"
  valid_uuid :: "jsstr \<Rightarrow> bool"
  iso_datetime :: "jsstr \<Rightarrow> bool"

text \<open>A concrete host for ASCII text, at which the parametric statements are evaluated.\<close>

definition compare_units :: "jsstr \<Rightarrow> jsstr \<Rightarrow> int" where
  "compare_units a b = (if a < b then -1 else if b < a then 1 else 0)"

definition ascii_host :: host where
  "ascii_host = \<lparr>nfkc = id, toLocaleLowerCase = ascii_lower, toLocaleLowerCaseEnUS = ascii_lower, toLocaleUpperCase = ascii_upper,
     localeCompare = compare_units, date_parse = (\<lambda>_. None), valid_uuid = (\<lambda>s. s \<noteq> []), iso_datetime = (\<lambda>s. s \<noteq> [])\<rparr>"

end
