(* ===== verification/JsNumber.thy ===== *)
theory JsNumber
  imports Prelude "HOL-Library.Log_Nat"
begin

text \<open>
  JavaScript numbers: IEEE 754 binary64 values. A finite value is the rational it denotes;
  the two zeros are one value, because nothing in the modelled code tells them apart
  (\<open>String(-0)\<close> is \<open>"0"\<close>, \<open>JSON.stringify(-0)\<close> is \<open>"0"\<close>, \<open>-0 === 0\<close>). Arithmetic is the exact
  rational operation followed by rounding to nearest, ties to even.
\<close>

datatype jsnum = NaN | Infinity | NegInfinity | Fin rat

section \<open>Powers and logarithms\<close>

definition pow_int :: "rat \<Rightarrow> int \<Rightarrow> rat" where
  "pow_int b e = (if 0 \<le> e then b ^ nat e else 1 / b ^ nat (- e))"

lemma pow_int_pos [simp]: "0 < b \<Longrightarrow> 0 < pow_int b e"
  by (simp add: pow_int_def)

lemma pow_int_nonzero [simp]: "0 < b \<Longrightarrow> pow_int b e \<noteq> 0"
  using pow_int_pos [of b e] by linarith

lemma pow_int_0 [simp]: "pow_int b 0 = 1"
  by (simp add: pow_int_def)

lemma pow_int_powi: "0 < b \<Longrightarrow> pow_int b e = b powi e"
  by (simp add: pow_int_def power_int_def divide_inverse power_inverse)

lemma pow_int_add: "0 < b \<Longrightarrow> pow_int b (d + e) = pow_int b d * pow_int b e"
  by (simp add: pow_int_powi power_int_add)

lemma pow_int_diff: "0 < b \<Longrightarrow> pow_int b (d - e) = pow_int b d / pow_int b e"
  by (simp add: pow_int_powi power_int_diff)

lemma pow_int_abs [simp]: "0 < b \<Longrightarrow> \<bar>pow_int b e\<bar> = pow_int b e"
  using pow_int_pos [of b e] by linarith

lemma pow_int_less: "1 < b \<Longrightarrow> d < e \<Longrightarrow> pow_int b d < pow_int b e"
  by (simp add: pow_int_powi power_int_strict_increasing)

lemma pow_int_strict_mono: "1 < b \<Longrightarrow> pow_int b d < pow_int b e \<longleftrightarrow> d < e"
  by (metis pow_int_less less_asym linorder_neqE_linordered_idom order_less_irrefl)

lemma pow_int_mono: "1 < b \<Longrightarrow> pow_int b d \<le> pow_int b e \<longleftrightarrow> d \<le> e"
  by (simp add: pow_int_strict_mono flip: not_less)

lemma pow_int_nat: "pow_int b (int n) = b ^ n"
  by (simp add: pow_int_def)

lemma pow_int_Ints: "0 \<le> e \<Longrightarrow> pow_int (of_int b) e \<in> \<int>"
  by (simp add: pow_int_def)

text \<open>\<open>ilog b r\<close> is the exponent of the leading base-\<open>b\<close> digit of a positive \<open>r\<close>.\<close>

definition ilog :: "nat \<Rightarrow> rat \<Rightarrow> int" where
  "ilog b r = (let (p, q) = quotient_of r;
                   e = int (floorlog b (nat p)) - int (floorlog b (nat q))
               in if pow_int (of_nat b) e \<le> r then e else e - 1)"

abbreviation ilog2 :: "rat \<Rightarrow> int" where
  "ilog2 \<equiv> ilog 2"

lemma floorlog_pow_int:
  assumes "0 < n" "1 < b"
  defines "l \<equiv> int (floorlog b (nat n))"
  shows "pow_int (of_nat b) (l - 1) \<le> of_int n" and "of_int n < pow_int (of_nat b) l"
proof -
  have k: "0 < floorlog b (nat n)" using assms floorlog_eq_zero_iff [of b "nat n"] by auto
  have "b ^ (floorlog b (nat n) - 1) \<le> nat n" "nat n < b ^ floorlog b (nat n)"
    using floorlog_bounds [of "nat n" b] assms by auto
  then have "of_nat (b ^ (floorlog b (nat n) - 1)) \<le> (of_nat (nat n) :: rat)"
    "(of_nat (nat n) :: rat) < of_nat (b ^ floorlog b (nat n))"
    by (auto simp only: of_nat_le_iff of_nat_less_iff)
  then show "pow_int (of_nat b) (l - 1) \<le> of_int n" "of_int n < pow_int (of_nat b) l"
    using assms k by (auto simp: pow_int_def of_nat_nat nat_diff_distrib)
qed

lemma ilog_bounds:
  assumes "0 < r" and b: "1 < b"
  shows "pow_int (of_nat b) (ilog b r) \<le> r" and "r < pow_int (of_nat b) (ilog b r + 1)"
proof -
  obtain p q where pq: "quotient_of r = (p, q)" by fastforce
  have q: "0 < q" using quotient_of_denom_pos [OF pq] .
  have r: "r = of_int p / of_int q" using quotient_of_div [OF pq] .
  with assms q have p: "0 < p" by (simp add: zero_less_divide_iff)
  let ?B = "of_nat b :: rat"
  have B: "0 < ?B" "1 < ?B" using b by simp_all
  define u where "u = int (floorlog b (nat p))"
  define v where "v = int (floorlog b (nat q))"
  note P = floorlog_pow_int [OF p b, folded u_def] and Q = floorlog_pow_int [OF q b, folded v_def]
  have e: "ilog b r = (if pow_int ?B (u - v) \<le> r then u - v else u - v - 1)"
    by (simp add: ilog_def pq u_def v_def Let_def)
  have "r < pow_int ?B u / pow_int ?B (v - 1)"
    unfolding r using P Q p q B by (intro frac_less) auto
  then have up: "r < pow_int ?B (u - v + 1)"
    using B by (simp flip: pow_int_diff add: algebra_simps)
  have "pow_int ?B (u - 1) / pow_int ?B v \<le> r"
    unfolding r using P Q p q B by (intro frac_le) auto
  then have low: "pow_int ?B (u - v - 1) \<le> r"
    using B by (simp flip: pow_int_diff add: algebra_simps)
  show "pow_int ?B (ilog b r) \<le> r" using low by (simp add: e)
  show "r < pow_int ?B (ilog b r + 1)" using up by (simp add: e)
qed

lemma ilog2_bounds:
  assumes "0 < r"
  shows "pow_int 2 (ilog2 r) \<le> r" and "r < pow_int 2 (ilog2 r + 1)"
  using ilog_bounds [OF assms, of 2] by simp_all

lemma ilog10_bounds:
  assumes "0 < r"
  shows "pow_int 10 (ilog 10 r) \<le> r" and "r < pow_int 10 (ilog 10 r + 1)"
  using ilog_bounds [OF assms, of 10] by simp_all

section \<open>Rounding\<close>

definition round_half_even :: "rat \<Rightarrow> int" where
  "round_half_even x =
     (let f = \<lfloor>x\<rfloor>; d = x - of_int f
      in if d < 1 / 2 then f else if 1 / 2 < d then f + 1 else if even f then f else f + 1)"

lemma round_half_even_int [simp]: "round_half_even (of_int n) = n"
  by (simp add: round_half_even_def)

lemma round_half_even_near: "\<bar>of_int (round_half_even x) - x\<bar> \<le> 1 / 2"
proof -
  have "of_int \<lfloor>x\<rfloor> \<le> x" "x < of_int \<lfloor>x\<rfloor> + 1" by linarith+
  then show ?thesis by (auto simp: round_half_even_def Let_def abs_le_iff)
qed

lemma round_half_even_le_int: "x \<le> of_int n \<Longrightarrow> round_half_even x \<le> n"
proof -
  assume "x \<le> of_int n"
  with round_half_even_near [of x] have "of_int (round_half_even x) < (of_int (n + 1) :: rat)"
    unfolding abs_le_iff of_int_add of_int_1 by linarith
  then show ?thesis by (simp only: of_int_less_iff)
qed

lemma round_half_even_ge_int: "of_int n \<le> x \<Longrightarrow> n \<le> round_half_even x"
proof -
  assume "of_int n \<le> x"
  with round_half_even_near [of x] have "(of_int (n - 1) :: rat) < of_int (round_half_even x)"
    unfolding abs_le_iff of_int_diff of_int_1 by linarith
  then show ?thesis by (simp only: of_int_less_iff)
qed

definition unit_exponent :: "rat \<Rightarrow> int" where
  "unit_exponent r = max (- 1074) (ilog2 \<bar>r\<bar> - 52)"

definition to_double :: "rat \<Rightarrow> jsnum" where
  "to_double r =
     (if r = 0 then Fin 0
      else let u = pow_int 2 (unit_exponent r);
               y = of_int (round_half_even (r / u)) * u
           in if pow_int 2 1024 \<le> y then Infinity
              else if y \<le> - pow_int 2 1024 then NegInfinity
              else Fin y)"

text \<open>The rationals that are finite binary64 values.\<close>

definition is_double :: "rat \<Rightarrow> bool" where
  "is_double x \<longleftrightarrow> \<bar>x\<bar> < pow_int 2 1024 \<and>
     (\<exists>m e. x = of_int m * pow_int 2 e \<and> \<bar>m\<bar> < 2 ^ 53 \<and> - 1074 \<le> e)"

fun finite_num :: "jsnum \<Rightarrow> bool" where
  "finite_num (Fin x) = True"
| "finite_num _ = False"

fun valid_num :: "jsnum \<Rightarrow> bool" where
  "valid_num (Fin x) = is_double x"
| "valid_num _ = True"

lemma is_double_0 [simp]: "is_double 0"
  unfolding is_double_def by (auto intro!: exI [of _ 0])

lemma is_double_of_int:
  assumes "\<bar>n\<bar> < 2 ^ 53"
  shows "is_double (of_int n)"
proof -
  have "\<bar>of_int n :: rat\<bar> < of_int (2 ^ 53)"
    using assms by (simp only: of_int_abs [symmetric] of_int_less_iff)
  also have "\<dots> = pow_int 2 53" by (simp add: pow_int_def)
  also have "\<dots> < pow_int 2 1024" by (simp add: pow_int_strict_mono)
  finally show ?thesis
    using assms unfolding is_double_def by (intro conjI exI [of _ n] exI [of _ 0]) auto
qed

text \<open>A value that is already representable is not changed by rounding.\<close>

lemma to_double_exact:
  assumes "is_double x"
  shows "to_double x = Fin x"
proof (cases "x = 0")
  case True
  then show ?thesis by (simp add: to_double_def)
next
  case False
  from assms obtain m e where x: "x = of_int m * pow_int 2 e" and m: "\<bar>m\<bar> < 2 ^ 53"
    and e: "- 1074 \<le> e" and big: "\<bar>x\<bar> < pow_int 2 1024"
    by (auto simp: is_double_def)
  define u where "u = unit_exponent x"
  have "\<bar>of_int m :: rat\<bar> < of_int (2 ^ 53)"
    using m by (simp only: of_int_abs [symmetric] of_int_less_iff)
  then have "\<bar>x\<bar> < pow_int 2 53 * pow_int 2 e"
    by (simp add: x abs_mult pow_int_nat [of 2 53, simplified])
  also have "\<dots> = pow_int 2 (53 + e)" by (simp add: pow_int_add)
  finally have lt: "\<bar>x\<bar> < pow_int 2 (53 + e)" .
  have "pow_int 2 (ilog2 \<bar>x\<bar>) < pow_int 2 (53 + e)"
    using ilog2_bounds(1) [of "\<bar>x\<bar>"] False lt by simp
  then have "ilog2 \<bar>x\<bar> < 53 + e" by (simp add: pow_int_strict_mono)
  then have ue: "u \<le> e" using e by (simp add: u_def unit_exponent_def)
  have "x / pow_int 2 u = of_int m * pow_int 2 (e - u)"
    by (simp add: x pow_int_diff)
  also have "\<dots> = of_int (m * 2 ^ nat (e - u))"
    using ue by (simp add: pow_int_def)
  finally have q: "x / pow_int 2 u = of_int (m * 2 ^ nat (e - u))" .
  then have "of_int (round_half_even (x / pow_int 2 u)) * pow_int 2 u = x / pow_int 2 u * pow_int 2 u"
    by (simp only: round_half_even_int)
  then have y: "of_int (round_half_even (x / pow_int 2 u)) * pow_int 2 u = x" by simp
  have "\<not> pow_int 2 1024 \<le> x" "\<not> x \<le> - pow_int 2 1024"
    using big by linarith+
  then show ?thesis
    using False unfolding to_double_def by (simp add: Let_def y [unfolded u_def])
qed

lemma quotient_bound:
  assumes "r \<noteq> 0"
  shows "\<bar>r / pow_int 2 (unit_exponent r)\<bar> \<le> of_int (2 ^ 53)"
proof -
  have "\<bar>r\<bar> < pow_int 2 (ilog2 \<bar>r\<bar> + 1)" using ilog2_bounds(2) [of "\<bar>r\<bar>"] assms by simp
  also have "\<dots> \<le> pow_int 2 (53 + unit_exponent r)"
    by (simp add: pow_int_mono unit_exponent_def)
  also have "\<dots> = 2 ^ 53 * pow_int 2 (unit_exponent r)"
    by (simp add: pow_int_add pow_int_def [of 2 53])
  finally have le: "\<bar>r\<bar> \<le> 2 ^ 53 * pow_int 2 (unit_exponent r)" by (rule less_imp_le)
  have "\<bar>r / pow_int 2 (unit_exponent r)\<bar> = \<bar>r\<bar> / pow_int 2 (unit_exponent r)"
    by (simp only: abs_divide pow_int_abs)
  also have "\<dots> \<le> 2 ^ 53"
    using le by (subst pos_divide_le_eq) (simp_all only: pow_int_pos)
  finally show ?thesis by (simp only: of_int_power of_int_numeral)
qed

lemma is_double_scaled:
  assumes "\<bar>n\<bar> \<le> 2 ^ 53" and "- 1074 \<le> e" and "\<bar>of_int n * pow_int 2 e\<bar> < pow_int 2 1024"
  shows "is_double (of_int n * pow_int 2 e)"
proof (cases "\<bar>n\<bar> = 2 ^ 53")
  case False
  with assms show ?thesis unfolding is_double_def by force
next
  case True
  have "n = sgn n * 2 ^ 53" using True by (metis mult_sgn_abs)
  then have "of_int n = (of_int (sgn n) * 2 ^ 53 :: rat)" by (metis of_int_mult of_int_numeral of_int_power)
  then have eq: "of_int n * pow_int 2 e = of_int (sgn n * 2 ^ 52) * pow_int 2 (e + 1)"
    by (simp add: pow_int_add pow_int_def [of 2 1])
  have "\<bar>sgn n * 2 ^ 52\<bar> < (2 ^ 53 :: int)" by (simp add: abs_mult abs_sgn_eq)
  then show ?thesis using assms(2,3) eq unfolding is_double_def
    by (intro conjI exI [of _ "sgn n * 2 ^ 52"] exI [of _ "e + 1"]) auto
qed

text \<open>Rounding produces a double or overflows.\<close>

lemma to_double_valid: "valid_num (to_double r)"
proof (cases "r = 0")
  case True
  then show ?thesis by (simp add: to_double_def)
next
  case False
  let ?q = "r / pow_int 2 (unit_exponent r)"
  have "?q \<le> of_int (2 ^ 53)" "of_int (- (2 ^ 53)) \<le> ?q"
    using quotient_bound [OF False] unfolding abs_le_iff of_int_minus by linarith+
  then have "round_half_even ?q \<le> 2 ^ 53" "- (2 ^ 53) \<le> round_half_even ?q"
    using round_half_even_le_int round_half_even_ge_int by blast+
  then have n: "\<bar>round_half_even ?q\<bar> \<le> 2 ^ 53" by linarith
  have e: "- 1074 \<le> unit_exponent r" by (simp add: unit_exponent_def)
  show ?thesis
    unfolding to_double_def using False is_double_scaled [OF n e] by (simp add: Let_def abs_less_iff)
qed

text \<open>The doubles are the fixed points of rounding.\<close>

lemma is_double_code [code]: "is_double x \<longleftrightarrow> to_double x = Fin x"
  using to_double_exact to_double_valid [of x] by auto

section \<open>Arithmetic\<close>

fun num_neg :: "jsnum \<Rightarrow> jsnum" where
  "num_neg NaN = NaN"
| "num_neg Infinity = NegInfinity"
| "num_neg NegInfinity = Infinity"
| "num_neg (Fin x) = Fin (- x)"

text \<open>
  The operators on finite operands, the only ones the program applies: it leaves the
  reduction as soon as an operand is not finite, and an overflow on the way is carried by
  the equations for the infinities.
\<close>

definition infinity_of :: "rat \<Rightarrow> jsnum" where
  "infinity_of s = (if s = 0 then NaN else if 0 < s then Infinity else NegInfinity)"

fun num_sign :: "jsnum \<Rightarrow> rat" where
  "num_sign NaN = 0"
| "num_sign Infinity = 1"
| "num_sign NegInfinity = -1"
| "num_sign (Fin x) = sgn x"

fun num_add :: "jsnum \<Rightarrow> jsnum \<Rightarrow> jsnum" where
  "num_add (Fin x) (Fin y) = to_double (x + y)"
| "num_add NaN _ = NaN"
| "num_add _ NaN = NaN"
| "num_add Infinity NegInfinity = NaN"
| "num_add NegInfinity Infinity = NaN"
| "num_add Infinity _ = Infinity"
| "num_add NegInfinity _ = NegInfinity"
| "num_add (Fin _) y = y"

definition num_sub :: "jsnum \<Rightarrow> jsnum \<Rightarrow> jsnum" where
  "num_sub x y = num_add x (num_neg y)"

fun num_mul :: "jsnum \<Rightarrow> jsnum \<Rightarrow> jsnum" where
  "num_mul (Fin x) (Fin y) = to_double (x * y)"
| "num_mul NaN _ = NaN"
| "num_mul _ NaN = NaN"
| "num_mul x y = infinity_of (num_sign x * num_sign y)"

text \<open>Division by a nonzero divisor; the program tests the divisor for zero first.\<close>

fun num_div :: "jsnum \<Rightarrow> jsnum \<Rightarrow> jsnum" where
  "num_div (Fin x) (Fin y) =
     (if y = 0 then infinity_of (sgn x) else to_double (x / y))"
| "num_div NaN _ = NaN"
| "num_div _ NaN = NaN"
| "num_div (Fin x) _ = Fin 0"
| "num_div Infinity (Fin y) = (if y < 0 then NegInfinity else Infinity)"
| "num_div NegInfinity (Fin y) = (if y < 0 then Infinity else NegInfinity)"
| "num_div _ _ = NaN"

lemma valid_infinity_of [simp]: "valid_num (infinity_of s)"
  by (simp add: infinity_of_def)

lemma valid_num_neg: "valid_num x \<Longrightarrow> valid_num (num_neg x)"
proof (cases x)
  case (Fin r)
  assume "valid_num x"
  then obtain m e where "r = of_int m * pow_int 2 e" "\<bar>m\<bar> < 2 ^ 53" "- 1074 \<le> e"
    "\<bar>r\<bar> < pow_int 2 1024" by (auto simp: Fin is_double_def)
  then show ?thesis unfolding Fin num_neg.simps valid_num.simps is_double_def
    by (intro conjI exI [of _ "- m"] exI [of _ e]) auto
qed auto

lemma valid_num_add: "valid_num x \<Longrightarrow> valid_num y \<Longrightarrow> valid_num (num_add x y)"
  by (cases x; cases y) (auto simp: to_double_valid)

lemma valid_num_sub: "valid_num x \<Longrightarrow> valid_num y \<Longrightarrow> valid_num (num_sub x y)"
  by (simp add: num_sub_def valid_num_add valid_num_neg)

lemma valid_num_mul: "valid_num (num_mul x y)"
  by (cases x; cases y) (auto simp: to_double_valid)

lemma valid_num_div: "valid_num (num_div x y)"
  by (cases x; cases y) (auto simp: to_double_valid)

end
