(* ===== verification/JsNumeral.thy ===== *)
theory JsNumeral
  imports JsNumber
begin

text \<open>
  Number-to-string and string-to-number conversion as ECMAScript specifies them:
  \<open>String(x)\<close> prints the shortest digits that read back as \<open>x\<close>, \<open>Number(s)\<close> reads a decimal,
  hexadecimal, octal or binary literal between white space. That what \<open>String\<close> prints, \<open>Number\<close> and
  the grammar of numbers read back is shown in \<open>NumeralRoundTrip\<close>.
\<close>

section \<open>Digits\<close>

fun decimal_digits :: "nat \<Rightarrow> jsstr" where
  "decimal_digits n =
     (if n < 10 then [of_nat (48 + n)] else decimal_digits (n div 10) @ [of_nat (48 + n mod 10)])"

declare decimal_digits.simps [simp del]

definition digit_value :: "code_unit \<Rightarrow> nat" where
  "digit_value c = unat c - 48"

definition digits_value :: "jsstr \<Rightarrow> nat" where
  "digits_value s = foldl (\<lambda>a c. 10 * a + digit_value c) 0 s"

lemma unat_digit: "d < 10 \<Longrightarrow> unat (of_nat (48 + d) :: code_unit) = 48 + d"
  by (simp add: unat_of_nat del: of_nat_add)

lemma is_digit_of_nat: "d < 10 \<Longrightarrow> is_digit (of_nat (48 + d))"
  unfolding is_digit_def word_le_nat_alt by (simp add: unat_digit del: of_nat_add)

lemma digit_value_of_nat: "d < 10 \<Longrightarrow> digit_value (of_nat (48 + d)) = d"
  unfolding digit_value_def by (simp only: unat_digit)

lemma digits_value_snoc [simp]: "digits_value (s @ [c]) = 10 * digits_value s + digit_value c"
  by (simp add: digits_value_def)

lemma digits_value_Nil [simp]: "digits_value [] = 0"
  by (simp add: digits_value_def)

lemma digits_value_append: "digits_value (s @ t) = digits_value s * 10 ^ length t + digits_value t"
proof (induction t rule: rev_induct)
  case Nil
  then show ?case by simp
next
  case (snoc c t)
  have "digits_value (s @ t @ [c]) = 10 * digits_value (s @ t) + digit_value c"
    by (simp flip: append_assoc)
  with snoc show ?case by (simp add: algebra_simps)
qed

lemma digits_value_decimal [simp]: "digits_value (decimal_digits n) = n"
proof (induction n rule: decimal_digits.induct)
  case (1 n)
  show ?case
  proof (cases "n < 10")
    case True
    then show ?thesis
      by (subst decimal_digits.simps) (simp add: digits_value_def digit_value_of_nat del: of_nat_add)
  next
    case False
    with 1 show ?thesis
      by (subst decimal_digits.simps) (simp add: digit_value_of_nat del: of_nat_add)
  qed
qed

lemma decimal_digits_digits: "c \<in> set (decimal_digits n) \<Longrightarrow> is_digit c"
proof (induction n rule: decimal_digits.induct)
  case (1 n)
  show ?case
  proof (cases "n < 10")
    case True
    with "1.prems" show ?thesis
      by (subst (asm) decimal_digits.simps) (simp add: is_digit_of_nat del: of_nat_add)
  next
    case False
    with 1 show ?thesis
      by (subst (asm) (2) decimal_digits.simps) (auto simp: is_digit_of_nat simp del: of_nat_add)
  qed
qed

lemma length_decimal_digits:
  "10 ^ j \<le> n \<Longrightarrow> n < 10 ^ Suc j \<Longrightarrow> length (decimal_digits n) = Suc j"
proof (induction j arbitrary: n)
  case 0
  then show ?case by (subst decimal_digits.simps) simp
next
  case (Suc j)
  have "10 ^ 1 \<le> (10::nat) ^ Suc j" by (intro power_increasing) auto
  from order_trans [OF this Suc.prems(1)] have big: "\<not> n < 10" by simp
  have "10 ^ j \<le> n div 10" using div_le_mono [OF Suc.prems(1), of 10] by simp
  moreover have "n div 10 < 10 ^ Suc j"
    using Suc.prems(2) by (intro less_mult_imp_div_less) simp
  ultimately have "length (decimal_digits (n div 10)) = Suc j" by (rule Suc.IH)
  with big show ?case by (subst decimal_digits.simps) simp
qed

lemma decimal_digits_nonempty [simp]: "decimal_digits n \<noteq> []"
  by (subst decimal_digits.simps) simp

lemma hd_decimal_digits: "0 < n \<Longrightarrow> hd (decimal_digits n) \<noteq> 48"
proof (induction n rule: decimal_digits.induct)
  case (1 n)
  show ?case
  proof (cases "n < 10")
    case True
    have "unat (of_nat (48 + n) :: code_unit) \<noteq> unat (48 :: code_unit)"
      using True "1.prems" by (simp add: unat_digit del: of_nat_add)
    with True show ?thesis by (subst decimal_digits.simps) (auto simp del: of_nat_add)
  next
    case False
    with 1 show ?thesis by (subst decimal_digits.simps) (simp add: hd_append)
  qed
qed

section \<open>\<open>String(x)\<close>\<close>

definition scaled :: "int \<Rightarrow> int \<Rightarrow> nat \<Rightarrow> rat" where
  "scaled s n k = of_int s * pow_int 10 (n - int k)"

definition reads_as :: "rat \<Rightarrow> int \<Rightarrow> int \<Rightarrow> nat \<Rightarrow> bool" where
  "reads_as x s n k \<longleftrightarrow> to_double (scaled s n k) = Fin x"

text \<open>
  The specification asks for integers \<open>s\<close>, \<open>n\<close>, \<open>k\<close> with \<open>10 ^ (k - 1) \<le> s < 10 ^ k\<close>, \<open>s * 10 ^ (n - k)\<close>
  reading as \<open>x\<close> and \<open>k\<close> as small as possible, the nearest such \<open>s\<close>. For a given \<open>k\<close> only the
  two neighbours of \<open>x / 10 ^ (n - k)\<close> can do.
\<close>

fun shortest :: "nat \<Rightarrow> rat \<Rightarrow> int \<Rightarrow> nat \<Rightarrow> (int \<times> nat) option" where
  "shortest 0 x n k = None"
| "shortest (Suc fuel) x n k =
     (let t = x / pow_int 10 (n - int k);
          near = round_half_even t;
          far = (if of_int near \<le> t then near + 1 else near - 1)
      in if reads_as x near n k then Some (near, k)
         else if reads_as x far n k then Some (far, k)
         else shortest fuel x n (Suc k))"

text \<open>Every double has at most 1100 significant decimal digits.\<close>

definition digit_fuel :: nat where
  "digit_fuel = 1100"

definition place_point :: "jsstr \<Rightarrow> int \<Rightarrow> jsstr" where
  "place_point ds n =
     (let k = int (length ds) in
      if k \<le> n \<and> n \<le> 21 then ds @ replicate (nat (n - k)) 48
      else if 0 < n \<and> n \<le> 21 then take (nat n) ds @ [46] @ drop (nat n) ds
      else if - 6 < n \<and> n \<le> 0 then [48, 46] @ replicate (nat (- n)) 48 @ ds
      else let e = n - 1;
               tail = [101, (if 0 \<le> e then 43 else 45)] @ decimal_digits (nat \<bar>e\<bar>)
           in if k = 1 then ds @ tail else take 1 ds @ [46] @ drop 1 ds @ tail)"

definition positive_to_string :: "rat \<Rightarrow> jsstr" where
  "positive_to_string x =
     (let n = ilog 10 x + 1
      in case shortest digit_fuel x n 1 of
           None \<Rightarrow> []
         | Some (s, k) \<Rightarrow>
             if s = 10 ^ k then place_point (decimal_digits (10 ^ (k - 1))) (n + 1)
             else place_point (decimal_digits (nat s)) n)"

fun number_to_string :: "jsnum \<Rightarrow> jsstr" where
  "number_to_string NaN = js ''NaN''"
| "number_to_string Infinity = js ''Infinity''"
| "number_to_string NegInfinity = js ''-Infinity''"
| "number_to_string (Fin x) =
     (if x = 0 then js ''0''
      else if x < 0 then 45 # positive_to_string (- x)
      else positive_to_string x)"

section \<open>The number grammar of JSON and of formulas\<close>

text \<open>
  \<open>-?(?:0|[1-9]\d*)(?:\.\d+)?(?:[eE][+-]?\d+)?\<close>: the longest prefix that matches, and the
  rest. An optional group that does not match is skipped.
\<close>

definition scan_integer :: "jsstr \<Rightarrow> (jsstr \<times> jsstr) option" where
  "scan_integer s =
     (case s of
        [] \<Rightarrow> None
      | c # r \<Rightarrow>
          if c = 48 then Some ([48], r)
          else if is_digit c then Some (takeWhile is_digit s, dropWhile is_digit s)
          else None)"

definition scan_fraction :: "jsstr \<Rightarrow> jsstr \<times> jsstr" where
  "scan_fraction s =
     (case s of
        c # r \<Rightarrow> if c = 46 \<and> takeWhile is_digit r \<noteq> []
                 then (c # takeWhile is_digit r, dropWhile is_digit r) else ([], s)
      | [] \<Rightarrow> ([], s))"

definition scan_sign :: "jsstr \<Rightarrow> jsstr \<times> jsstr" where
  "scan_sign s = (case s of c # r \<Rightarrow> if c = 43 \<or> c = 45 then ([c], r) else ([], s) | [] \<Rightarrow> ([], s))"

definition scan_exponent :: "jsstr \<Rightarrow> jsstr \<times> jsstr" where
  "scan_exponent s =
     (case s of
        c # r \<Rightarrow>
          if c = 101 \<or> c = 69
          then let (sign, r') = scan_sign r
               in if takeWhile is_digit r' \<noteq> []
                  then (c # sign @ takeWhile is_digit r', dropWhile is_digit r')
                  else ([], s)
          else ([], s)
      | [] \<Rightarrow> ([], s))"

definition scan_number :: "jsstr \<Rightarrow> (jsstr \<times> jsstr) option" where
  "scan_number s =
     (let (minus, r) = (case s of c # r \<Rightarrow> if c = 45 then ([c], r) else ([], s) | [] \<Rightarrow> ([], s))
      in case scan_integer r of
           None \<Rightarrow> None
         | Some (ip, r1) \<Rightarrow>
             let (fp, r2) = scan_fraction r1; (ep, r3) = scan_exponent r2
             in Some (minus @ ip @ fp @ ep, r3))"

section \<open>\<open>Number(s)\<close>\<close>

text \<open>The value of an unsigned decimal literal: digits, an optional point and exponent.\<close>

definition exponent_value :: "jsstr \<Rightarrow> int option" where
  "exponent_value s =
     (case s of
        [] \<Rightarrow> Some 0
      | c # r \<Rightarrow>
          if c = 101 \<or> c = 69
          then let (sign, ds) = scan_sign r
               in if ds \<noteq> [] \<and> list_all is_digit ds
                  then Some ((if sign = [45] then -1 else 1) * int (digits_value ds)) else None
          else None)"

definition decimal_value :: "jsstr \<Rightarrow> rat option" where
  "decimal_value s =
     (let ip = takeWhile is_digit s; r = dropWhile is_digit s;
          (fp, r') = (case r of
                        c # q \<Rightarrow> if c = 46 then (takeWhile is_digit q, dropWhile is_digit q) else ([], r)
                      | [] \<Rightarrow> ([], r))
      in if ip = [] \<and> fp = [] then None
         else map_option (\<lambda>e. of_nat (digits_value (ip @ fp)) * pow_int 10 (e - int (length fp)))
                (exponent_value r'))"

definition hex_value :: "code_unit \<Rightarrow> nat option" where
  "hex_value c =
     (if is_digit c then Some (unat c - 48)
      else if 97 \<le> c \<and> c \<le> 102 then Some (unat c - 87)
      else if 65 \<le> c \<and> c \<le> 70 then Some (unat c - 55)
      else None)"

fun radix_value :: "nat \<Rightarrow> nat \<Rightarrow> jsstr \<Rightarrow> nat option" where
  "radix_value b a [] = Some a"
| "radix_value b a (c # s) =
     (case hex_value c of
        None \<Rightarrow> None
      | Some d \<Rightarrow> if d < b then radix_value b (b * a + d) s else None)"

definition unsigned_number :: "jsstr \<Rightarrow> jsnum" where
  "unsigned_number s =
     (if s = js ''Infinity'' then Infinity
      else case decimal_value s of None \<Rightarrow> NaN | Some v \<Rightarrow> to_double v)"

definition radix_of :: "code_unit \<Rightarrow> nat option" where
  "radix_of c =
     (if c = cu CHR ''x'' \<or> c = cu CHR ''X'' then Some 16
      else if c = cu CHR ''o'' \<or> c = cu CHR ''O'' then Some 8
      else if c = cu CHR ''b'' \<or> c = cu CHR ''B'' then Some 2
      else None)"

definition string_to_number :: "jsstr \<Rightarrow> jsnum" where
  "string_to_number text =
     (let s = trim text in
      case s of
        [] \<Rightarrow> Fin 0
      | c # r \<Rightarrow>
          if c = 45 then num_neg (unsigned_number r)
          else if c = 43 then unsigned_number r
          else (case (c, r) of
                  (_, x # ds) \<Rightarrow>
                    (case (if c = 48 then radix_of x else None) of
                       Some b \<Rightarrow> (if ds = [] then NaN
                                  else case radix_value b 0 ds of
                                         None \<Rightarrow> NaN | Some v \<Rightarrow> to_double (of_nat v))
                     | None \<Rightarrow> unsigned_number s)
                | (_, []) \<Rightarrow> unsigned_number s))"

end
