(* ===== verification/JsJson.thy ===== *)
theory JsJson
  imports JsNumeral
begin

text \<open>
  JSON values with \<open>JSON.stringify\<close> and \<open>JSON.parse\<close>. An object is the list of its own
  properties in enumeration order: array-index keys in ascending order, then the others in
  the order of their creation.
\<close>

datatype json =
    JNull
  | JBool bool
  | JNum jsnum
  | JStr jsstr
  | JArr "json list"
  | JObj "(jsstr \<times> json) list"

section \<open>Property order\<close>

definition array_index :: "jsstr \<Rightarrow> nat option" where
  "array_index k =
     (if k \<noteq> [] \<and> list_all is_digit k \<and> (k = [48] \<or> hd k \<noteq> 48) \<and> digits_value k < 4294967295
      then Some (digits_value k) else None)"

fun put_index :: "nat \<Rightarrow> jsstr \<times> 'v \<Rightarrow> (jsstr \<times> 'v) list \<Rightarrow> (jsstr \<times> 'v) list" where
  "put_index i p [] = [p]"
| "put_index i p (q # qs) =
     (case array_index (fst q) of
        Some j \<Rightarrow> if i < j then p # q # qs else q # put_index i p qs
      | None \<Rightarrow> p # q # qs)"

text \<open>\<open>object[k] = v\<close> for an own data property.\<close>

definition obj_put :: "jsstr \<Rightarrow> 'v \<Rightarrow> (jsstr \<times> 'v) list \<Rightarrow> (jsstr \<times> 'v) list" where
  "obj_put k v obj =
     (if k \<in> fst ` set obj then AList.update k v obj
      else case array_index k of
             Some i \<Rightarrow> put_index i (k, v) obj
           | None \<Rightarrow> obj @ [(k, v)])"

lemma set_put_index: "set (put_index i p obj) = insert p (set obj)"
  by (induction obj) (auto split: option.splits)

lemma distinct_put_index:
  "distinct (map fst obj) \<Longrightarrow> fst p \<notin> fst ` set obj \<Longrightarrow> distinct (map fst (put_index i p obj))"
proof (induction obj)
  case Nil
  then show ?case by simp
next
  case (Cons q qs)
  then show ?case by (auto simp: set_put_index image_iff split: option.splits)
qed

lemma distinct_obj_put: "distinct (map fst obj) \<Longrightarrow> distinct (map fst (obj_put k v obj))"
  by (auto simp: obj_put_def distinct_update distinct_put_index split: option.splits)

lemma map_of_put_index:
  "fst p \<notin> fst ` set obj \<Longrightarrow> map_of (put_index i p obj) = (map_of obj)(fst p \<mapsto> snd p)"
proof (induction obj)
  case Nil
  then show ?case by (cases p) simp
next
  case (Cons q qs)
  then show ?case by (cases p; cases q) (auto split: option.splits)
qed

lemma map_of_obj_put: "map_of (obj_put k v obj) = (map_of obj)(k \<mapsto> v)"
proof (cases "k \<in> fst ` set obj")
  case True
  then show ?thesis by (simp add: obj_put_def update_conv' fun_upd_def)
next
  case False
  moreover have "map_of (obj @ [(k, v)]) = (map_of obj)(k \<mapsto> v)"
  proof -
    have "map_of obj k = None" using False by (simp add: map_of_eq_None_iff)
    then show ?thesis by (intro ext) (auto simp: map_add_def split: option.split)
  qed
  ultimately show ?thesis
    by (simp add: obj_put_def map_of_put_index split: option.splits)
qed

section \<open>\<open>JSON.stringify\<close>\<close>

definition hex_digit :: "nat \<Rightarrow> code_unit" where
  "hex_digit d = (if d < 10 then of_nat (48 + d) else of_nat (87 + d))"

definition unicode_escape :: "code_unit \<Rightarrow> jsstr" where
  "unicode_escape c =
     (let n = unat c
      in [92, 117, hex_digit (n div 4096), hex_digit (n div 256 mod 16),
          hex_digit (n div 16 mod 16), hex_digit (n mod 16)])"

definition escape_unit :: "code_unit \<Rightarrow> jsstr" where
  "escape_unit c =
     (if c = 34 then [92, 34]
      else if c = 92 then [92, 92]
      else if c = 8 then [92, 98]
      else if c = 12 then [92, 102]
      else if c = 10 then [92, 110]
      else if c = 13 then [92, 114]
      else if c = 9 then [92, 116]
      else if c < 32 then unicode_escape c
      else [c])"

fun escape_units :: "jsstr \<Rightarrow> jsstr" where
  "escape_units [] = []"
| "escape_units [c] = (if is_high c \<or> is_low c then unicode_escape c else escape_unit c)"
| "escape_units (c # d # s) =
     (if is_high c \<and> is_low d then c # d # escape_units s
      else (if is_high c \<or> is_low c then unicode_escape c else escape_unit c) @ escape_units (d # s))"

definition quote_string :: "jsstr \<Rightarrow> jsstr" where
  "quote_string s = [34] @ escape_units s @ [34]"

fun join_with :: "jsstr \<Rightarrow> jsstr list \<Rightarrow> jsstr" where
  "join_with sep [] = []"
| "join_with sep [x] = x"
| "join_with sep (x # y # xs) = x @ sep @ join_with sep (y # xs)"

fun stringify :: "json \<Rightarrow> jsstr" where
  "stringify JNull = js ''null''"
| "stringify (JBool b) = (if b then js ''true'' else js ''false'')"
| "stringify (JNum x) = (case x of Fin _ \<Rightarrow> number_to_string x | _ \<Rightarrow> js ''null'')"
| "stringify (JStr s) = quote_string s"
| "stringify (JArr vs) = [91] @ join_with [44] (map stringify vs) @ [93]"
| "stringify (JObj kvs) =
     [123] @ join_with [44] (map (\<lambda>(k, v). quote_string k @ [58] @ stringify v) kvs) @ [125]"

section \<open>\<open>JSON.parse\<close>\<close>

definition json_space :: "code_unit \<Rightarrow> bool" where
  "json_space c \<longleftrightarrow> c = 9 \<or> c = 10 \<or> c = 13 \<or> c = 32"

definition skip_json :: "jsstr \<Rightarrow> jsstr" where
  "skip_json = dropWhile json_space"

definition simple_escape :: "code_unit \<Rightarrow> code_unit option" where
  "simple_escape c =
     (if c = 34 \<or> c = 92 \<or> c = 47 then Some c
      else if c = 98 then Some 8
      else if c = 102 then Some 12
      else if c = 110 then Some 10
      else if c = 114 then Some 13
      else if c = 116 then Some 9
      else None)"

definition unicode_unit :: "code_unit \<Rightarrow> code_unit \<Rightarrow> code_unit \<Rightarrow> code_unit \<Rightarrow> code_unit option" where
  "unicode_unit a b c d =
     (case (hex_value a, hex_value b, hex_value c, hex_value d) of
        (Some w, Some x, Some y, Some z) \<Rightarrow> Some (of_nat (((w * 16 + x) * 16 + y) * 16 + z))
      | _ \<Rightarrow> None)"

text \<open>The characters of a string literal after its opening quote, and what follows the closing one.\<close>

fun string_chars :: "jsstr \<Rightarrow> (jsstr \<times> jsstr) option" where
  "string_chars [] = None"
| "string_chars (c # s) =
     (if c = 34 then Some ([], s)
      else if c = 92
      then (case s of
              [] \<Rightarrow> None
            | e # r \<Rightarrow>
                (if e = 117
                 then (case r of
                         h1 # h2 # h3 # h4 # q \<Rightarrow>
                           (case unicode_unit h1 h2 h3 h4 of
                              None \<Rightarrow> None
                            | Some u \<Rightarrow> map_option (\<lambda>(cs, q'). (u # cs, q')) (string_chars q))
                       | _ \<Rightarrow> None)
                 else (case simple_escape e of
                         None \<Rightarrow> None
                       | Some u \<Rightarrow> map_option (\<lambda>(cs, q'). (u # cs, q')) (string_chars r))))
      else if c < 32 then None
      else map_option (\<lambda>(cs, q). (c # cs, q)) (string_chars s))"

fun strip_prefix :: "jsstr \<Rightarrow> jsstr \<Rightarrow> jsstr option" where
  "strip_prefix [] s = Some s"
| "strip_prefix (p # ps) (c # s) = (if p = c then strip_prefix ps s else None)"
| "strip_prefix (p # ps) [] = None"

text \<open>
  The recursive descent over values, elements and members. Every call spends one unit of
  fuel and every value takes at least one code unit, so the length of the text plus one is
  enough.
\<close>

fun parse_value :: "nat \<Rightarrow> jsstr \<Rightarrow> (json \<times> jsstr) option"
  and parse_elements :: "nat \<Rightarrow> json list \<Rightarrow> jsstr \<Rightarrow> (json \<times> jsstr) option"
  and parse_members :: "nat \<Rightarrow> (jsstr \<times> json) list \<Rightarrow> jsstr \<Rightarrow> (json \<times> jsstr) option" where
  "parse_value 0 s = None"
| "parse_value (Suc n) s =
     (case skip_json s of
        [] \<Rightarrow> None
      | c # r \<Rightarrow>
          if c = 34 then map_option (\<lambda>(cs, q). (JStr cs, q)) (string_chars r)
          else if c = 91
          then (case skip_json r of
                  d # q \<Rightarrow> if d = 93 then Some (JArr [], q) else parse_elements n [] (d # q)
                | [] \<Rightarrow> None)
          else if c = 123
          then (case skip_json r of
                  d # q \<Rightarrow> if d = 125 then Some (JObj [], q) else parse_members n [] (d # q)
                | [] \<Rightarrow> None)
          else (case strip_prefix (js ''true'') (c # r) of
                  Some q \<Rightarrow> Some (JBool True, q)
                | None \<Rightarrow>
                    (case strip_prefix (js ''false'') (c # r) of
                       Some q \<Rightarrow> Some (JBool False, q)
                     | None \<Rightarrow>
                         (case strip_prefix (js ''null'') (c # r) of
                            Some q \<Rightarrow> Some (JNull, q)
                          | None \<Rightarrow> map_option (\<lambda>(lexeme, q). (JNum (string_to_number lexeme), q))
                                      (scan_number (c # r))))))"
| "parse_elements 0 acc s = None"
| "parse_elements (Suc n) acc s =
     (case parse_value n s of
        None \<Rightarrow> None
      | Some (v, r) \<Rightarrow>
          (case skip_json r of
             c # q \<Rightarrow> if c = 93 then Some (JArr (acc @ [v]), q)
                      else if c = 44 then parse_elements n (acc @ [v]) q
                      else None
           | [] \<Rightarrow> None))"
| "parse_members 0 acc s = None"
| "parse_members (Suc n) acc s =
     (case skip_json s of
        c # r \<Rightarrow>
          if c = 34
          then (case string_chars r of
                  None \<Rightarrow> None
                | Some (k, r1) \<Rightarrow>
                    (case skip_json r1 of
                       d # r2 \<Rightarrow>
                         if d = 58
                         then (case parse_value n r2 of
                                 None \<Rightarrow> None
                               | Some (v, r3) \<Rightarrow>
                                   (case skip_json r3 of
                                      e # q \<Rightarrow>
                                        if e = 125 then Some (JObj (obj_put k v acc), q)
                                        else if e = 44 then parse_members n (obj_put k v acc) q
                                        else None
                                    | [] \<Rightarrow> None))
                         else None
                     | [] \<Rightarrow> None))
          else None
      | [] \<Rightarrow> None)"

definition json_parse :: "jsstr \<Rightarrow> json option" where
  "json_parse s =
     (case parse_value (Suc (2 * length s)) s of
        Some (v, r) \<Rightarrow> if skip_json r = [] then Some v else None
      | None \<Rightarrow> None)"

text \<open>\<open>z.json()\<close>: every number in the value is finite.\<close>

fun json_finite :: "json \<Rightarrow> bool" where
  "json_finite (JNum x) = finite_num x"
| "json_finite (JArr vs) = list_all json_finite vs"
| "json_finite (JObj kvs) = list_all (\<lambda>kv. json_finite (snd kv)) kvs"
| "json_finite _ = True"

section \<open>String literals read back\<close>

lemma hex_value_digit: "d < 16 \<Longrightarrow> hex_value (hex_digit d) = Some d"
proof -
  assume d: "d < 16"
  have u: "unat (hex_digit d) = (if d < 10 then 48 + d else 87 + d)"
    using d by (simp add: hex_digit_def unat_of_nat del: of_nat_add)
  show ?thesis
    using d u by (auto simp: hex_value_def is_digit_def word_le_nat_alt)
qed

lemma hex_recompose: "((n div 4096 * 16 + n div 256 mod 16) * 16 + n div 16 mod 16) * 16 + n mod 16 = (n::nat)"
proof -
  have a: "n div 4096 = n div 256 div 16" by (simp flip: div_mult2_eq)
  have b: "n div 256 = n div 16 div 16" by (simp flip: div_mult2_eq)
  have "n div 256 div 16 * 16 + n div 256 mod 16 = n div 256" by (rule div_mult_mod_eq)
  moreover have "n div 16 div 16 * 16 + n div 16 mod 16 = n div 16" by (rule div_mult_mod_eq)
  moreover have "n div 16 * 16 + n mod 16 = n" by (rule div_mult_mod_eq)
  ultimately show ?thesis unfolding a by (simp only: b)
qed

lemma unicode_unit_digits:
  "unicode_unit (hex_digit (unat c div 4096)) (hex_digit (unat c div 256 mod 16))
     (hex_digit (unat c div 16 mod 16)) (hex_digit (unat c mod 16)) = Some c"
proof -
  have "unat c < 65536" using unsigned_less [of c] by simp
  then have d: "unat c div 4096 < 16" by (simp add: less_mult_imp_div_less)
  have m: "k mod 16 < 16" for k :: nat by simp
  show ?thesis
    unfolding unicode_unit_def hex_value_digit [OF d] hex_value_digit [OF m] prod.case option.case
      hex_recompose by simp
qed

lemma string_chars_unicode:
  "string_chars (unicode_escape c @ s) = map_option (\<lambda>(cs, q). (c # cs, q)) (string_chars s)"
  by (simp add: unicode_escape_def Let_def unicode_unit_digits)

lemma string_chars_plain:
  "c \<noteq> 34 \<Longrightarrow> c \<noteq> 92 \<Longrightarrow> \<not> c < 32 \<Longrightarrow>
    string_chars (c # s) = map_option (\<lambda>(cs, q). (c # cs, q)) (string_chars s)"
  by simp

lemma string_chars_simple:
  "e \<noteq> 117 \<Longrightarrow> simple_escape e = Some u \<Longrightarrow>
    string_chars (92 # e # s) = map_option (\<lambda>(cs, q). (u # cs, q)) (string_chars s)"
  by simp

lemma string_chars_escape:
  "string_chars (escape_unit c @ s) = map_option (\<lambda>(cs, q). (c # cs, q)) (string_chars s)"
proof -
  consider (simple) e where "escape_unit c = [92, e]" "e \<noteq> 117" "simple_escape e = Some c"
    | (unicode) "escape_unit c = unicode_escape c"
    | (plain) "escape_unit c = [c]" "c \<noteq> 34" "c \<noteq> 92" "\<not> c < 32"
    unfolding escape_unit_def
    by (cases "c = 34"; cases "c = 92"; cases "c = 8"; cases "c = 12"; cases "c = 10";
        cases "c = 13"; cases "c = 9"; cases "c < 32") (auto simp: simple_escape_def)
  then show ?thesis
  proof cases
    case (simple e)
    show ?thesis using string_chars_simple [OF simple(2,3)] by (simp only: simple(1) append_Cons append_Nil)
  next
    case unicode
    show ?thesis by (simp only: unicode string_chars_unicode)
  next
    case plain
    show ?thesis using string_chars_plain [OF plain(2-4)] by (simp only: plain(1) append_Cons append_Nil)
  qed
qed

lemma surrogate_plain: "is_high c \<or> is_low c \<Longrightarrow> c \<noteq> 34 \<and> c \<noteq> 92 \<and> \<not> c < 32"
  by (auto simp: is_high_def is_low_def not_less intro: order_trans [rotated])

text \<open>What \<open>JSON.stringify\<close> writes for a string, the scanner of string literals reads back.\<close>

lemma string_chars_escape_units:
  "string_chars (escape_units s @ 34 # rest) = Some (s, rest)"
proof (induction s rule: escape_units.induct)
  case 1
  then show ?case by simp
next
  case (2 c)
  have "string_chars (34 # rest) = Some ([], rest)" by simp
  then show ?case
    by (simp add: string_chars_unicode string_chars_escape del: string_chars.simps)
next
  case (3 c d s)
  show ?case
  proof (cases "is_high c \<and> is_low d")
    case True
    then have p: "c \<noteq> 34 \<and> c \<noteq> 92 \<and> \<not> c < 32" "d \<noteq> 34 \<and> d \<noteq> 92 \<and> \<not> d < 32"
      using surrogate_plain by blast+
    have "string_chars (escape_units (c # d # s) @ 34 # rest)
        = string_chars (c # d # (escape_units s @ 34 # rest))"
      using True by simp
    also have "\<dots> = Some (c # d # s, rest)"
      using "3.IH"(1) [OF True] p by (simp add: string_chars_plain)
    finally show ?thesis .
  next
    case False
    let ?one = "if is_high c \<or> is_low c then unicode_escape c else escape_unit c"
    have "string_chars (escape_units (c # d # s) @ 34 # rest) =
       string_chars (?one @ (escape_units (d # s) @ 34 # rest))"
      by (simp only: escape_units.simps False if_False append_assoc)
    also have "\<dots> = map_option (\<lambda>(cs, q). (c # cs, q)) (string_chars (escape_units (d # s) @ 34 # rest))"
      by (cases "is_high c \<or> is_low c") (simp_all only: if_True if_False string_chars_unicode string_chars_escape)
    also have "\<dots> = Some (c # d # s, rest)" by (simp only: "3.IH"(2) [OF False]) simp
    finally show ?thesis .
  qed
qed

end
