(* ===== verification/NumeralRoundTrip.thy ===== *)
theory NumeralRoundTrip
  imports JsNumeral
begin

text \<open>
  What \<open>String\<close> prints for a finite number, \<open>Number\<close> and the number grammar of JSON and of formulas
  read back: the search for the shortest digits ends within its fuel, and every layout of the digits
  (plain, with a point, with an exponent) is a numeral with the same value.
\<close>

section \<open>The search for the shortest digits\<close>

lemma pow_int_10_int: "0 \<le> e \<Longrightarrow> pow_int 10 e = of_int (10 ^ nat e)"
  by (simp add: pow_int_def)

lemma scaled_quotient:
  assumes "x / pow_int 10 (n - int k) = of_int s"
  shows "scaled s n k = x"
proof -
  have "x = of_int s * pow_int 10 (n - int k)" using assms pow_int_nonzero [of 10 "n - int k"] by (simp add: field_simps)
  then show ?thesis by (simp add: scaled_def)
qed

lemma quotient_bounds:
  assumes x: "pow_int 10 (n - 1) \<le> x" "x < pow_int 10 n" and k: "1 \<le> k"
  shows "of_int (10 ^ (k - 1)) \<le> x / pow_int 10 (n - int k)" and "x / pow_int 10 (n - int k) < of_int (10 ^ k)"
proof -
  have "pow_int 10 (n - 1) = pow_int 10 (int k - 1) * pow_int 10 (n - int k)" by (simp flip: pow_int_add)
  then have "pow_int 10 (int k - 1) \<le> x / pow_int 10 (n - int k)" using x(1) by (simp add: pos_le_divide_eq)
  then show "of_int (10 ^ (k - 1)) \<le> x / pow_int 10 (n - int k)"
    using k pow_int_10_int [of "int k - 1"] by (simp add: nat_diff_distrib)
  have "pow_int 10 n = pow_int 10 (int k) * pow_int 10 (n - int k)" by (simp flip: pow_int_add)
  then have "x / pow_int 10 (n - int k) < pow_int 10 (int k)" using x(2) by (simp add: pos_divide_less_eq)
  then show "x / pow_int 10 (n - int k) < of_int (10 ^ k)" by (simp add: pow_int_nat)
qed

text \<open>What the search returns reads as the number and has the digits it says.\<close>

lemma shortest_sound:
  assumes x: "pow_int 10 (n - 1) \<le> x" "x < pow_int 10 n"
  shows "1 \<le> k \<Longrightarrow> shortest f x n k = Some (s, j) \<Longrightarrow> reads_as x s n j \<and> 1 \<le> j \<and> 10 ^ (j - 1) \<le> s \<and> s \<le> 10 ^ j"
proof (induction f arbitrary: k)
  case (Suc f)
  let ?t = "x / pow_int 10 (n - int k)"
  note b = quotient_bounds [OF x Suc.prems(1)]
  have near: "10 ^ (k - 1) \<le> round_half_even ?t" "round_half_even ?t \<le> 10 ^ k"
    using round_half_even_ge_int [OF b(1)] round_half_even_le_int [of ?t "10 ^ k"] b(2) by simp_all
  have up: "round_half_even ?t + 1 \<le> 10 ^ k" if "of_int (round_half_even ?t) \<le> ?t"
  proof -
    have "of_int (round_half_even ?t) < (of_int (10 ^ k) :: rat)" using that b(2) by linarith
    then show ?thesis by (simp only: of_int_less_iff)
  qed
  have down: "10 ^ (k - 1) \<le> round_half_even ?t - 1" if "\<not> of_int (round_half_even ?t) \<le> ?t"
  proof -
    have "of_int (10 ^ (k - 1)) < (of_int (round_half_even ?t) :: rat)" using that b(1) by linarith
    then show ?thesis by (simp only: of_int_less_iff)
  qed
  show ?case
    using Suc.prems Suc.IH [of "Suc k"] near up down by (auto simp: Let_def split: if_splits)
qed simp

text \<open>It ends: once the number is an integer in the unit of the last digit, that integer reads as it.\<close>

lemma shortest_complete:
  "x / pow_int 10 (n - int K) = of_int s \<Longrightarrow> to_double x = Fin x \<Longrightarrow> k \<le> K \<Longrightarrow> K < k + f
    \<Longrightarrow> shortest f x n k \<noteq> None"
proof (induction f arbitrary: k)
  case (Suc f)
  show ?case
  proof (cases "k = K")
    case True
    then have "reads_as x (round_half_even (x / pow_int 10 (n - int k))) n k"
      using Suc.prems scaled_quotient [OF Suc.prems(1)] by (simp add: reads_as_def)
    then show ?thesis by (simp add: Let_def)
  next
    case False
    then show ?thesis using Suc.prems Suc.IH [of "Suc k"] by (auto simp: Let_def)
  qed
qed simp

text \<open>A double has an integer number of units in the 1074th digit after its leading one.\<close>

lemma pow_int_2_10: "0 < e \<Longrightarrow> pow_int 2 e < pow_int 10 e"
  by (simp add: pow_int_def power_strict_mono)

lemma double_digits:
  assumes d: "is_double x" and pos: "0 < x" and n: "pow_int 10 (n - 1) \<le> x"
  obtains s where "x / pow_int 10 (n - int 1074) = of_int s"
proof -
  obtain m e where x: "x = of_int m * pow_int 2 e" and m: "\<bar>m\<bar> < 2 ^ 53" and e: "- 1074 \<le> e" and big: "x < pow_int 2 1024"
    using d pos by (auto simp: is_double_def)
  have quotient: "x / pow_int 10 (n - int 1074) = of_int m * pow_int 2 e * pow_int 10 (1074 - n)"
    using pow_int_add [of 10 "n - 1074" "1074 - n"] by (simp add: x field_simps)
  have "\<bar>of_int m :: rat\<bar> < of_int (2 ^ 53)" using m by (simp only: of_int_abs [symmetric] of_int_less_iff)
  then have "x < pow_int 2 53 * pow_int 2 e"
    using pos by (simp add: x pow_int_nat [of 2 53, simplified] abs_if split: if_splits)
  then have small: "x < pow_int 2 (53 + e)" by (simp add: pow_int_add)
  show thesis
  proof (cases "0 \<le> e")
    case True
    have "pow_int 10 (n - 1) < pow_int 10 1024"
    proof -
      have "pow_int 2 1024 < pow_int 10 1024" by (rule pow_int_2_10) simp
      then show ?thesis using n big by linarith
    qed
    then have "n \<le> 1074" by (simp add: pow_int_strict_mono)
    then have "pow_int 10 (1074 - n) = of_int (10 ^ nat (1074 - n))" "pow_int 2 e = of_int (2 ^ nat e)"
      using True by (simp_all add: pow_int_def)
    then have "x / pow_int 10 (n - int 1074) = of_int (m * 2 ^ nat e * 10 ^ nat (1074 - n))"
      unfolding quotient by simp
    then show thesis by (rule that)
  next
    case False
    have "n - e \<le> 1074"
    proof (cases "e \<le> - 53")
      case True
      then have "pow_int 2 (53 + e) \<le> pow_int 2 0" by (simp only: pow_int_mono)
      then have "pow_int 10 (n - 1) < pow_int 10 0" using n small by simp
      then have "n - 1 < 0" by (subst (asm) pow_int_strict_mono) simp_all
      then show ?thesis using e by simp
    next
      case e': False
      have "pow_int 2 (53 + e) \<le> pow_int 2 53" using False by (simp only: pow_int_mono)
      also have "\<dots> < pow_int 10 53" by (rule pow_int_2_10) simp
      finally have "pow_int 10 (n - 1) < pow_int 10 53" using n small by linarith
      then have "n - 1 < 53" by (subst (asm) pow_int_strict_mono) simp_all
      then show ?thesis using e' by simp
    qed
    then have k: "0 \<le> 1074 - n + e" by simp
    have "pow_int 10 (1074 - n) = pow_int 10 (- e) * pow_int 10 (1074 - n + e)" by (simp flip: pow_int_add)
    moreover have "pow_int 2 e * pow_int 10 (- e) = pow_int 5 (- e)"
      using False by (simp add: pow_int_def flip: power_divide)
    ultimately have "x / pow_int 10 (n - int 1074) = of_int m * pow_int 5 (- e) * pow_int 10 (1074 - n + e)"
      unfolding quotient by (metis mult.assoc)
    also have "\<dots> = of_int (m * 5 ^ nat (- e) * 10 ^ nat (1074 - n + e))"
      using k False by (simp add: pow_int_def)
    finally show thesis by (rule that)
  qed
qed

lemma shortest_digits:
  assumes d: "is_double x" and pos: "0 < x"
  obtains s k where "shortest digit_fuel x (ilog 10 x + 1) 1 = Some (s, k)" "reads_as x s (ilog 10 x + 1) k"
    "1 \<le> k" "10 ^ (k - 1) \<le> s" "s \<le> 10 ^ k"
proof -
  let ?n = "ilog 10 x + 1"
  have x: "pow_int 10 (?n - 1) \<le> x" "x < pow_int 10 ?n" using ilog10_bounds [OF pos] by simp_all
  obtain s where "x / pow_int 10 (?n - int 1074) = of_int s" by (rule double_digits [OF d pos x(1)])
  from shortest_complete [OF this to_double_exact [OF d], of 1 digit_fuel]
  obtain s k where r: "shortest digit_fuel x ?n 1 = Some (s, k)" by (auto simp: digit_fuel_def)
  from shortest_sound [OF x _ r] show thesis by (intro that [OF r]) simp_all
qed

section \<open>Numerals\<close>

text \<open>An integer part, the digits of an optional fraction and an optional exponent.\<close>

definition exponent_text :: "int option \<Rightarrow> jsstr" where
  "exponent_text e = (case e of None \<Rightarrow> [] | Some i \<Rightarrow> [101, (if 0 \<le> i then 43 else 45)] @ decimal_digits (nat \<bar>i\<bar>))"

definition fraction_text :: "jsstr \<Rightarrow> jsstr" where
  "fraction_text fd = (if fd = [] then [] else 46 # fd)"

definition numeral_text :: "jsstr \<Rightarrow> jsstr \<Rightarrow> int option \<Rightarrow> jsstr" where
  "numeral_text ip fd e = ip @ fraction_text fd @ exponent_text e"

definition well_formed_parts :: "jsstr \<Rightarrow> jsstr \<Rightarrow> bool" where
  "well_formed_parts ip fd \<longleftrightarrow> ip \<noteq> [] \<and> list_all is_digit ip \<and> (ip = [48] \<or> hd ip \<noteq> 48) \<and> list_all is_digit fd"

text \<open>What may follow a numeral without being taken for a part of it.\<close>

definition ends_numeral :: "jsstr \<Rightarrow> bool" where
  "ends_numeral rest \<longleftrightarrow> rest = [] \<or> (\<not> is_digit (hd rest) \<and> hd rest \<noteq> 46 \<and> hd rest \<noteq> 101 \<and> hd rest \<noteq> 69)"

lemma digits_until:
  "list_all is_digit ds \<Longrightarrow> rest = [] \<or> \<not> is_digit (hd rest) \<Longrightarrow> takeWhile is_digit (ds @ rest) = ds \<and> dropWhile is_digit (ds @ rest) = rest"
  by (induction ds) (cases rest, auto)

lemma decimal_digits_all: "list_all is_digit (decimal_digits n)"
  by (simp add: list_all_iff decimal_digits_digits)

lemma no_digits [simp]: "\<not> is_digit 46" "\<not> is_digit 101" "\<not> is_digit 43" "\<not> is_digit 45" "is_digit 48"
  by (simp_all add: is_digit_def)

lemma exponent_start: "exponent_text e = [] \<or> (\<exists>q. exponent_text e = 101 # q)"
  by (simp add: exponent_text_def split: option.split)

lemma after_digits:
  "ends_numeral rest \<Longrightarrow> exponent_text e @ rest = [] \<or> \<not> is_digit (hd (exponent_text e @ rest)) \<and> hd (exponent_text e @ rest) \<noteq> 46"
  using exponent_start [of e] by (auto simp: ends_numeral_def)

lemma scan_exponent_text: "ends_numeral rest \<Longrightarrow> scan_exponent (exponent_text e @ rest) = (exponent_text e, rest)"
proof (cases e)
  case None
  assume "ends_numeral rest"
  then show ?thesis using None by (cases rest) (simp_all add: exponent_text_def scan_exponent_def ends_numeral_def)
next
  case (Some i)
  assume "ends_numeral rest"
  then have "takeWhile is_digit (decimal_digits (nat \<bar>i\<bar>) @ rest) = decimal_digits (nat \<bar>i\<bar>)
      \<and> dropWhile is_digit (decimal_digits (nat \<bar>i\<bar>) @ rest) = rest"
    by (intro digits_until decimal_digits_all) (auto simp: ends_numeral_def)
  then show ?thesis
    by (simp add: exponent_text_def scan_exponent_def scan_sign_def Some del: takeWhile_append dropWhile_append)
qed

lemma scan_fraction_text:
  assumes "list_all is_digit fd" and "rest = [] \<or> \<not> is_digit (hd rest) \<and> hd rest \<noteq> 46"
  shows "scan_fraction (fraction_text fd @ rest) = (fraction_text fd, rest)"
proof -
  have "takeWhile is_digit (fd @ rest) = fd" "dropWhile is_digit (fd @ rest) = rest"
    using assms digits_until [of fd rest] by auto
  then show ?thesis using assms(2)
    by (cases rest) (simp_all add: fraction_text_def scan_fraction_def del: takeWhile_append dropWhile_append append_Nil2)
qed

lemma scan_integer_text:
  assumes "well_formed_parts ip fd" and "rest = [] \<or> \<not> is_digit (hd rest)"
  shows "scan_integer (ip @ rest) = Some (ip, rest)"
proof -
  obtain c q where c: "ip = c # q" "is_digit c" "c = 48 \<longrightarrow> q = []"
    using assms(1) by (cases ip) (auto simp: well_formed_parts_def)
  then show ?thesis
    using assms digits_until [of ip rest]
    by (auto simp: scan_integer_def well_formed_parts_def simp del: takeWhile.simps dropWhile.simps)
qed

lemma after_integer:
  "ends_numeral rest \<Longrightarrow> fraction_text fd @ exponent_text e @ rest = [] \<or> \<not> is_digit (hd (fraction_text fd @ exponent_text e @ rest))"
  using after_digits [of rest e] by (auto simp: fraction_text_def)

lemma scan_unsigned_text:
  assumes w: "well_formed_parts ip fd" and r: "ends_numeral rest"
  shows "scan_number (numeral_text ip fd e @ rest) = Some (numeral_text ip fd e, rest)"
proof -
  obtain c q where c: "ip = c # q" "is_digit c" using w by (cases ip) (auto simp: well_formed_parts_def)
  then have "c \<noteq> 45" by auto
  moreover have f: "list_all is_digit fd" using w by (simp add: well_formed_parts_def)
  ultimately show ?thesis
    using scan_integer_text [OF w after_integer [OF r, of fd e]] scan_fraction_text [OF f after_digits [OF r, of e]]
      scan_exponent_text [OF r, of e]
    by (simp add: scan_number_def numeral_text_def c(1))
qed

lemma scan_negative_text:
  assumes w: "well_formed_parts ip fd" and r: "ends_numeral rest"
  shows "scan_number (45 # numeral_text ip fd e @ rest) = Some (45 # numeral_text ip fd e, rest)"
proof -
  have f: "list_all is_digit fd" using w by (simp add: well_formed_parts_def)
  show ?thesis
    using scan_integer_text [OF w after_integer [OF r, of fd e]] scan_fraction_text [OF f after_digits [OF r, of e]]
      scan_exponent_text [OF r, of e]
    by (simp add: scan_number_def numeral_text_def)
qed

definition exponent_of :: "int option \<Rightarrow> int" where
  "exponent_of e = (case e of None \<Rightarrow> 0 | Some i \<Rightarrow> i)"

lemma exponent_value_text: "exponent_value (exponent_text e) = Some (exponent_of e)"
  by (auto simp: exponent_value_def exponent_text_def exponent_of_def scan_sign_def decimal_digits_all split: option.split)

lemma decimal_value_text:
  assumes w: "well_formed_parts ip fd"
  shows "decimal_value (numeral_text ip fd e) = Some (of_nat (digits_value (ip @ fd)) * pow_int 10 (exponent_of e - int (length fd)))"
proof -
  have a: "list_all is_digit ip" "list_all is_digit fd" "ip \<noteq> []" using w by (simp_all add: well_formed_parts_def)
  have ip: "takeWhile is_digit (ip @ fraction_text fd @ exponent_text e) = ip"
    "dropWhile is_digit (ip @ fraction_text fd @ exponent_text e) = fraction_text fd @ exponent_text e"
    using digits_until [OF a(1), of "fraction_text fd @ exponent_text e"] after_integer [of "[]" fd e]
    by (simp_all add: ends_numeral_def)
  have fd: "takeWhile is_digit (fd @ exponent_text e) = fd" "dropWhile is_digit (fd @ exponent_text e) = exponent_text e"
    using digits_until [OF a(2), of "exponent_text e"] after_digits [of "[]" e] by (auto simp: ends_numeral_def)
  show ?thesis
    unfolding decimal_value_def numeral_text_def ip Let_def
    using fd exponent_start [of e] exponent_value_text [of e]
    by (auto simp: fraction_text_def a(3) simp del: takeWhile_append dropWhile_append)
qed

section \<open>Numbers read back\<close>

lemma digits_value_replicate: "digits_value (replicate n 48 @ ds) = digits_value ds"
  by (induction n) (simp_all add: digits_value_def digit_value_def)

lemma digits_value_zeros: "digits_value (replicate n 48) = 0"
  using digits_value_replicate [of n "[]"] by simp

lemma pow_int_of_nat: "0 \<le> i \<Longrightarrow> of_nat (10 ^ nat i) = pow_int 10 i"
  by (simp add: pow_int_def)

text \<open>Every layout of the digits is a numeral with the value of the digits at their place.\<close>

lemma place_point_numeral:
  assumes ds: "ds \<noteq> []" "list_all is_digit ds" "hd ds \<noteq> 48"
  obtains ip fd e where "place_point ds n = numeral_text ip fd e" "well_formed_parts ip fd"
    "of_nat (digits_value (ip @ fd)) * pow_int 10 (exponent_of e - int (length fd)) = of_nat (digits_value ds) * pow_int 10 (n - int (length ds))"
proof -
  obtain d q where dq: "ds = d # q" using ds(1) by (cases ds) auto
  let ?k = "int (length ds)"
  consider (plain) "?k \<le> n" "n \<le> 21" | (point) "n < ?k" "0 < n" "n \<le> 21" | (zeros) "- 6 < n" "n \<le> 0"
    | (exponent) "\<not> (?k \<le> n \<and> n \<le> 21)" "\<not> (0 < n \<and> n \<le> 21)" "\<not> (- 6 < n \<and> n \<le> 0)"
    by linarith
  then show thesis
  proof cases
    case plain
    show thesis
    proof (rule that [of "ds @ replicate (nat (n - ?k)) 48" "[]" None])
      show "place_point ds n = numeral_text (ds @ replicate (nat (n - ?k)) 48) [] None"
        using plain by (simp add: place_point_def Let_def numeral_text_def fraction_text_def exponent_text_def)
      show "well_formed_parts (ds @ replicate (nat (n - ?k)) 48) []"
        using ds by (auto simp: well_formed_parts_def list_all_iff)
      show "of_nat (digits_value ((ds @ replicate (nat (n - ?k)) 48) @ [])) * pow_int 10 (exponent_of None - int (length [])) =
          of_nat (digits_value ds) * pow_int 10 (n - ?k)"
        using plain pow_int_of_nat [of "n - ?k"]
        by (simp add: digits_value_append digits_value_zeros exponent_of_def)
    qed
  next
    case point
    have cut: "take (nat n) ds @ drop (nat n) ds = ds" "int (length (drop (nat n) ds)) = ?k - n" using point by simp_all
    show thesis
    proof (rule that [of "take (nat n) ds" "drop (nat n) ds" None])
      show "place_point ds n = numeral_text (take (nat n) ds) (drop (nat n) ds) None"
        using point by (simp add: place_point_def Let_def numeral_text_def fraction_text_def exponent_text_def)
      show "well_formed_parts (take (nat n) ds) (drop (nat n) ds)"
        using ds point by (auto simp: well_formed_parts_def list_all_iff hd_take dest: in_set_takeD in_set_dropD)
      show "of_nat (digits_value (take (nat n) ds @ drop (nat n) ds)) * pow_int 10 (exponent_of None - int (length (drop (nat n) ds))) =
          of_nat (digits_value ds) * pow_int 10 (n - ?k)"
        unfolding cut by (simp add: exponent_of_def)
    qed
  next
    case zeros
    let ?z = "replicate (nat (- n)) 48"
    show thesis
    proof (rule that [of "[48]" "?z @ ds" None])
      show "place_point ds n = numeral_text [48] (?z @ ds) None"
        using zeros dq by (simp add: place_point_def Let_def numeral_text_def fraction_text_def exponent_text_def)
      show "well_formed_parts [48] (?z @ ds)" using ds by (auto simp add: well_formed_parts_def list_all_iff)
      have "[48] @ ?z @ ds = replicate (Suc (nat (- n))) 48 @ ds" by simp
      then show "of_nat (digits_value ([48] @ ?z @ ds)) * pow_int 10 (exponent_of None - int (length (?z @ ds))) =
          of_nat (digits_value ds) * pow_int 10 (n - ?k)"
        using zeros by (simp only: digits_value_replicate) (simp add: exponent_of_def)
    qed
  next
    case exponent
    have p: "place_point ds n = (if ?k = 1 then ds else take 1 ds @ [46] @ drop 1 ds) @ exponent_text (Some (n - 1))"
      unfolding place_point_def Let_def if_not_P [OF exponent(1)] if_not_P [OF exponent(2)] if_not_P [OF exponent(3)]
      by (simp add: exponent_text_def)
    show thesis
    proof (rule that [of "[d]" q "Some (n - 1)"])
      show "place_point ds n = numeral_text [d] q (Some (n - 1))"
        unfolding p by (auto simp: dq numeral_text_def fraction_text_def)
      show "well_formed_parts [d] q" using ds by (simp add: dq well_formed_parts_def)
      show "of_nat (digits_value ([d] @ q)) * pow_int 10 (exponent_of (Some (n - 1)) - int (length q)) =
          of_nat (digits_value ds) * pow_int 10 (n - ?k)"
        by (simp add: dq exponent_of_def algebra_simps)
    qed
  qed
qed

text \<open>What is printed for a positive double is a numeral whose value rounds to it.\<close>

lemma positive_numeral:
  assumes "is_double x" and "0 < x"
  obtains ip fd e v where "positive_to_string x = numeral_text ip fd e" "well_formed_parts ip fd"
    "decimal_value (numeral_text ip fd e) = Some v" "to_double v = Fin x"
proof -
  let ?n = "ilog 10 x + 1"
  obtain s k where s: "shortest digit_fuel x ?n 1 = Some (s, k)" "reads_as x s ?n k" "1 \<le> k" "10 ^ (k - 1) \<le> s" "s \<le> 10 ^ k"
    by (rule shortest_digits [OF assms])
  obtain d n where d: "positive_to_string x = place_point (decimal_digits d) n" "0 < d"
      "of_nat d * pow_int 10 (n - int (length (decimal_digits d))) = scaled s ?n k"
  proof (cases "s = 10 ^ k")
    case True
    have p: "positive_to_string x = place_point (decimal_digits (10 ^ (k - 1))) (?n + 1)"
      unfolding positive_to_string_def Let_def s(1) by (simp add: True del: One_nat_def)
    have "length (decimal_digits (10 ^ (k - 1))) = k" using length_decimal_digits [of "k - 1" "10 ^ (k - 1)"] s(3) by simp
    moreover have "pow_int 10 (int (k - 1)) * pow_int 10 (?n + 1 - int k) = pow_int 10 (int k) * pow_int 10 (?n - int k)"
      using s(3) by (simp add: of_nat_diff add.commute flip: pow_int_add)
    ultimately have q: "of_nat (10 ^ (k - 1)) * pow_int 10 (?n + 1 - int (length (decimal_digits (10 ^ (k - 1))))) = scaled s ?n k"
      by (simp add: True scaled_def pow_int_nat)
    show thesis by (rule that [OF p _ q]) simp
  next
    case False
    have pos: "0 < s" using s(4) zero_less_power [of "10 :: int" "k - 1"] by linarith
    have "int (10 ^ (k - 1)) \<le> int (nat s)" "int (nat s) < int (10 ^ k)" using s(4,5) False pos by simp_all
    then have "10 ^ (k - 1) \<le> nat s" "nat s < 10 ^ k" by (simp_all only: of_nat_le_iff of_nat_less_iff)
    then have "length (decimal_digits (nat s)) = k" using length_decimal_digits [of "k - 1" "nat s"] s(3) by simp
    moreover have "positive_to_string x = place_point (decimal_digits (nat s)) ?n"
      unfolding positive_to_string_def Let_def s(1) by (simp add: False)
    ultimately show thesis
      using pos by (intro that [of "nat s" ?n]) (simp_all add: scaled_def)
  qed
  obtain ip fd e where p: "place_point (decimal_digits d) n = numeral_text ip fd e" "well_formed_parts ip fd"
      "of_nat (digits_value (ip @ fd)) * pow_int 10 (exponent_of e - int (length fd)) =
       of_nat (digits_value (decimal_digits d)) * pow_int 10 (n - int (length (decimal_digits d)))"
    by (rule place_point_numeral [of "decimal_digits d" n]) (simp_all add: decimal_digits_all hd_decimal_digits d(2))
  show thesis
  proof (rule that [OF _ p(2)])
    show "positive_to_string x = numeral_text ip fd e" by (simp add: d(1) p(1))
    show "decimal_value (numeral_text ip fd e) = Some (scaled s ?n k)"
      unfolding decimal_value_text [OF p(2)] p(3) by (simp add: d(3))
    show "to_double (scaled s ?n k) = Fin x" using s(2) by (simp add: reads_as_def)
  qed
qed

lemma numeral_plain:
  assumes "well_formed_parts ip fd" and "c \<in> set (numeral_text ip fd e)"
  shows "is_digit c \<or> c \<in> {43, 45, 46, 101}"
  using assms decimal_digits_digits
  by (auto simp: numeral_text_def fraction_text_def exponent_text_def well_formed_parts_def list_all_iff split: option.splits if_splits)

lemma numeral_start:
  assumes "well_formed_parts ip fd"
  obtains c q where "numeral_text ip fd e = c # q" "is_digit c" "c = 48 \<longrightarrow> q = [] \<or> hd q \<in> {46, 101}"
proof -
  obtain c q where c: "ip = c # q" "is_digit c" "c = 48 \<longrightarrow> q = []" using assms by (cases ip) (auto simp: well_formed_parts_def)
  then show thesis
    using exponent_start [of e] by (intro that [of c "q @ fraction_text fd @ exponent_text e"]) (auto simp: numeral_text_def fraction_text_def)
qed

lemma digit_not_space: "is_digit c \<Longrightarrow> \<not> is_space c"
  by (auto simp: is_digit_def is_space_def char_class_defs word_le_nat_alt)

lemma plain_trim: "\<forall>c \<in> set s. \<not> is_space c \<Longrightarrow> trim s = s"
proof (cases s rule: rev_cases)
  case (snoc q c)
  assume "\<forall>c \<in> set s. \<not> is_space c"
  moreover from this have "trimStart s = s" by (cases s) (simp_all add: trimStart_def)
  ultimately show ?thesis using snoc by (simp add: trim_def trimEnd_snoc)
qed (simp add: trim_def trimStart_def trimEnd_def)

lemma unsigned_reads:
  assumes w: "well_formed_parts ip fd" and v: "decimal_value (numeral_text ip fd e) = Some v"
  shows "unsigned_number (numeral_text ip fd e) = to_double v"
proof -
  obtain c q where "numeral_text ip fd e = c # q" "is_digit c" by (rule numeral_start [OF w])
  then have "numeral_text ip fd e \<noteq> js ''Infinity''" by (auto simp: js_eval is_digit_def)
  then show ?thesis by (simp add: unsigned_number_def v)
qed

lemma numeral_reads:
  assumes w: "well_formed_parts ip fd" and v: "decimal_value (numeral_text ip fd e) = Some v"
  shows "string_to_number (numeral_text ip fd e) = to_double v" and "string_to_number (45 # numeral_text ip fd e) = num_neg (to_double v)"
proof -
  let ?t = "numeral_text ip fd e"
  have spaces: "\<forall>c \<in> set (45 # ?t). \<not> is_space c"
    using numeral_plain [OF w] digit_not_space by (fastforce simp: is_space_def char_class_defs)
  obtain c q where c: "?t = c # q" "is_digit c" "c = 48 \<longrightarrow> q = [] \<or> hd q \<in> {46, 101}" by (rule numeral_start [OF w])
  have sign: "c \<noteq> 45" "c \<noteq> 43" using c(2) by auto
  have radix: "(if c = 48 then radix_of x else None) = None" if "q = x # ds" for x ds
    using c(3) that by (auto simp: radix_of_def js_eval)
  have "trim ?t = c # q" using plain_trim [of ?t] spaces c(1) by simp
  then show "string_to_number ?t = to_double v"
    using sign radix unsigned_reads [OF w v] c(1) by (cases q) (simp_all add: string_to_number_def)
  have "trim (45 # ?t) = 45 # ?t" by (rule plain_trim [OF spaces])
  then show "string_to_number (45 # ?t) = num_neg (to_double v)"
    using unsigned_reads [OF w v] by (simp add: string_to_number_def)
qed

text \<open>A finite number is printed as \<open>0\<close>, a numeral, or a numeral after a minus sign.\<close>

lemma number_text:
  assumes "is_double x"
  obtains ip fd e v where "well_formed_parts ip fd" "decimal_value (numeral_text ip fd e) = Some v"
      "number_to_string (Fin x) = numeral_text ip fd e" "to_double v = Fin x"
    | ip fd e v where "well_formed_parts ip fd" "decimal_value (numeral_text ip fd e) = Some v"
      "number_to_string (Fin x) = 45 # numeral_text ip fd e" "to_double v = Fin (- x)"
proof -
  consider "x = 0" | "0 < x" | "x < 0" by linarith
  then show thesis
  proof cases
    case 1
    have w: "well_formed_parts [48] []" by (simp add: well_formed_parts_def)
    show thesis
      by (rule that(1) [OF w decimal_value_text [OF w, of None]])
        (simp_all add: 1 js_eval numeral_text_def fraction_text_def exponent_text_def exponent_of_def digits_value_def digit_value_def to_double_def)
  next
    case 2
    obtain ip fd e v where p: "positive_to_string x = numeral_text ip fd e" "well_formed_parts ip fd"
      "decimal_value (numeral_text ip fd e) = Some v" "to_double v = Fin x" by (rule positive_numeral [OF assms 2])
    show thesis by (rule that(1) [OF p(2,3) _ p(4)]) (use 2 p(1) in simp)
  next
    case 3
    have neg: "is_double (- x)" "0 < - x" using valid_num_neg [of "Fin x"] assms 3 by simp_all
    obtain ip fd e v where p: "positive_to_string (- x) = numeral_text ip fd e" "well_formed_parts ip fd"
      "decimal_value (numeral_text ip fd e) = Some v" "to_double v = Fin (- x)" by (rule positive_numeral [OF neg])
    show thesis by (rule that(2) [OF p(2,3) _ p(4)]) (use 3 p(1) in simp)
  qed
qed

lemma number_reads:
  assumes "is_double x"
  shows "string_to_number (number_to_string (Fin x)) = Fin x"
proof (rule number_text [OF assms])
  fix ip fd e v
  assume "well_formed_parts ip fd" "decimal_value (numeral_text ip fd e) = Some v"
  note r = numeral_reads [OF this]
  assume "number_to_string (Fin x) = numeral_text ip fd e" "to_double v = Fin x"
  then show ?thesis using r(1) by simp
next
  fix ip fd e v
  assume "well_formed_parts ip fd" "decimal_value (numeral_text ip fd e) = Some v"
  note r = numeral_reads [OF this]
  assume "number_to_string (Fin x) = 45 # numeral_text ip fd e" "to_double v = Fin (- x)"
  then show ?thesis using r(2) by simp
qed

lemma number_scans:
  "is_double x \<Longrightarrow> ends_numeral rest \<Longrightarrow> scan_number (number_to_string (Fin x) @ rest) = Some (number_to_string (Fin x), rest)"
  by (erule number_text) (simp_all only: scan_unsigned_text scan_negative_text append_Cons)

lemma number_start:
  assumes "is_double x"
  obtains c q where "number_to_string (Fin x) = c # q" "c = 45 \<or> is_digit c"
proof (rule number_text [OF assms])
  fix ip fd e v
  assume w: "well_formed_parts ip fd" and n: "number_to_string (Fin x) = numeral_text ip fd e"
  obtain c q where "numeral_text ip fd e = c # q" "is_digit c" by (rule numeral_start [OF w])
  then show thesis using n by (intro that [of c q]) simp_all
qed (rule that, assumption, simp)

lemma number_not_spaced:
  assumes "is_double x"
  shows "\<forall>c \<in> set (number_to_string (Fin x)). \<not> is_space c"
proof (rule number_text [OF assms])
  fix ip fd e
  assume "well_formed_parts ip fd"
  from numeral_plain [OF this] have "\<not> is_space c" if "c \<in> set (numeral_text ip fd e)" for c
    using that digit_not_space by (fastforce simp: is_space_def char_class_defs)
  moreover assume "number_to_string (Fin x) = numeral_text ip fd e"
  ultimately show ?thesis by simp
next
  fix ip fd e
  assume "well_formed_parts ip fd"
  from numeral_plain [OF this] have "\<not> is_space c" if "c \<in> set (numeral_text ip fd e)" for c
    using that digit_not_space by (fastforce simp: is_space_def char_class_defs)
  moreover assume "number_to_string (Fin x) = 45 # numeral_text ip fd e"
  ultimately show ?thesis by (simp add: is_space_def char_class_defs)
qed

declare no_digits [simp del]

end
