(* ===== verification/JsonRoundTrip.thy ===== *)
theory JsonRoundTrip
  imports JsJson NumeralRoundTrip
begin

text \<open>
  \<open>JSON.parse\<close> inverts \<open>JSON.stringify\<close> on every JSON value: finite numbers, any strings, arrays,
  and objects whose members are in the order in which an object enumerates them.
\<close>

section \<open>JSON values\<close>

declare no_digits [simp]

text \<open>The order of an object's keys: array indexes ascending, then the other keys, none twice.\<close>

definition key_before :: "jsstr \<Rightarrow> jsstr \<Rightarrow> bool" where
  "key_before k l \<longleftrightarrow> k \<noteq> l \<and>
     (case (array_index k, array_index l) of (Some i, Some j) \<Rightarrow> i < j | (None, Some _) \<Rightarrow> False | _ \<Rightarrow> True)"

fun json_value :: "json \<Rightarrow> bool" where
  "json_value (JNum x) = (case x of Fin r \<Rightarrow> is_double r | _ \<Rightarrow> False)"
| "json_value (JArr vs) = list_all json_value vs"
| "json_value (JObj kvs) = (sorted_wrt key_before (map fst kvs) \<and> list_all (\<lambda>kv. json_value (snd kv)) kvs)"
| "json_value _ = True"

lemma put_index_last:
  "\<forall>q \<in> set obj. key_before (fst q) (fst p) \<Longrightarrow> array_index (fst p) = Some i \<Longrightarrow> put_index i p obj = obj @ [p]"
  by (induction obj) (auto simp: key_before_def split: option.splits)

lemma obj_put_last:
  assumes "\<forall>q \<in> set obj. key_before (fst q) k"
  shows "obj_put k v obj = obj @ [(k, v)]"
proof -
  have "k \<notin> fst ` set obj" using assms by (auto simp: key_before_def)
  then show ?thesis using assms put_index_last [of obj "(k, v)"] by (auto simp: obj_put_def split: option.split)
qed

section \<open>What follows a value\<close>

definition delimited :: "jsstr \<Rightarrow> bool" where
  "delimited rest \<longleftrightarrow> rest = [] \<or> hd rest \<in> {44, 93, 125}"

lemma delimited_simps [simp]: "delimited []" "delimited (44 # s)" "delimited (93 # s)" "delimited (125 # s)"
  by (simp_all add: delimited_def)

lemma delimited_stops: "delimited rest \<Longrightarrow> ends_numeral rest"
  by (auto simp: delimited_def ends_numeral_def is_digit_def)

lemma skip_token [simp]:
  "skip_json (34 # s) = 34 # s" "skip_json (44 # s) = 44 # s" "skip_json (58 # s) = 58 # s" "skip_json (91 # s) = 91 # s"
  "skip_json (93 # s) = 93 # s" "skip_json (123 # s) = 123 # s" "skip_json (125 # s) = 125 # s" "skip_json [] = []"
  by (simp_all add: skip_json_def json_space_def)

lemma stringify_start:
  assumes "json_value v"
  obtains c q where "stringify v = c # q" "\<And>s. skip_json (c # s) = c # s" "c \<noteq> 93" "\<not> is_space c"
proof (cases v)
  case (JBool b)
  then show thesis using that by (cases b) (auto simp: js_eval skip_json_def json_space_def is_space_def char_class_defs)
next
  case (JNum x)
  then obtain r where r: "x = Fin r" "is_double r" using assms by (cases x) auto
  obtain c q where c: "number_to_string (Fin r) = c # q" "c = 45 \<or> is_digit c" by (rule number_start [OF r(2)])
  then have "skip_json (c # s) = c # s" "c \<noteq> 93" "\<not> is_space c" for s
    using digit_not_space [of c] by (auto simp: skip_json_def json_space_def is_digit_def is_space_def char_class_defs)
  then show thesis using c(1) that by (simp add: JNum r(1))
qed (use that in \<open>auto simp: js_eval quote_string_def skip_json_def json_space_def is_space_def char_class_defs split: if_splits\<close>)

section \<open>Values read back\<close>

lemma parse_number:
  assumes x: "is_double x" and d: "delimited rest"
  shows "parse_value (Suc n) (number_to_string (Fin x) @ rest) = Some (JNum (Fin x), rest)"
proof -
  obtain c q where c: "number_to_string (Fin x) = c # q" "c = 45 \<or> is_digit c" by (rule number_start [OF x])
  have "c \<noteq> 34" "c \<noteq> 91" "c \<noteq> 123" "c \<noteq> 116" "c \<noteq> 102" "c \<noteq> 110" "skip_json (c # s) = c # s" for s
    using c(2) by (auto simp: is_digit_def skip_json_def json_space_def)
  moreover have "scan_number (c # q @ rest) = Some (c # q, rest)" "string_to_number (c # q) = Fin x"
    using number_scans [OF x delimited_stops [OF d]] number_reads [OF x] c(1) by simp_all
  ultimately show ?thesis by (simp add: c(1) js_eval del: number_to_string.simps)
qed

lemma parse_string: "parse_value (Suc n) (quote_string s @ rest) = Some (JStr s, rest)"
  using string_chars_escape_units [of s rest] by (simp add: quote_string_def)

lemma parse_elements_text:
  assumes "\<forall>v \<in> set vs. json_value v \<and> (\<forall>n rest. length (stringify v) \<le> n \<longrightarrow> delimited rest \<longrightarrow> parse_value n (stringify v @ rest) = Some (v, rest))"
  shows "vs \<noteq> [] \<Longrightarrow> length (join_with [44] (map stringify vs)) < n
    \<Longrightarrow> parse_elements n acc (join_with [44] (map stringify vs) @ 93 # rest) = Some (JArr (acc @ vs), rest)"
  using assms
proof (induction vs arbitrary: n acc)
  case (Cons v vs)
  obtain m where m: "n = Suc m" using Cons.prems(2) by (cases n) auto
  show ?case
  proof (cases vs)
    case Nil
    then show ?thesis using Cons.prems by (simp add: m)
  next
    case (Cons w ws)
    then have "length (stringify v) \<le> m" "length (join_with [44] (map stringify vs)) < m" using Cons.prems(2) m by simp_all
    then show ?thesis using Cons.IH [of m "acc @ [v]"] Cons.prems Cons by (simp add: m)
  qed
qed simp

definition member_text :: "jsstr \<times> json \<Rightarrow> jsstr" where
  "member_text kv = quote_string (fst kv) @ [58] @ stringify (snd kv)"

lemma parse_members_text:
  assumes "\<forall>kv \<in> set kvs. \<forall>n rest. length (stringify (snd kv)) \<le> n \<longrightarrow> delimited rest
      \<longrightarrow> parse_value n (stringify (snd kv) @ rest) = Some (snd kv, rest)"
  shows "kvs \<noteq> [] \<Longrightarrow> length (join_with [44] (map member_text kvs)) < n \<Longrightarrow> sorted_wrt key_before (map fst (acc @ kvs))
    \<Longrightarrow> parse_members n acc (join_with [44] (map member_text kvs) @ 125 # rest) = Some (JObj (acc @ kvs), rest)"
  using assms
proof (induction kvs arbitrary: n acc)
  case (Cons kv kvs)
  obtain m where m: "n = Suc m" using Cons.prems(2) by (cases n) auto
  obtain k v where kv: "kv = (k, v)" by fastforce
  have put: "obj_put k v acc = acc @ [(k, v)]"
    using Cons.prems(3) by (intro obj_put_last) (auto simp: kv sorted_wrt_append)
  have chars: "string_chars (escape_units k @ 34 # s) = Some (k, s)" for s by (rule string_chars_escape_units)
  show ?case
  proof (cases kvs)
    case Nil
    have "length (stringify v) \<le> m" using Cons.prems(2) Nil by (simp add: m kv member_text_def)
    then show ?thesis using Cons.prems(4) Nil by (simp add: m kv member_text_def quote_string_def chars put)
  next
    case (Cons w ws)
    then have join: "join_with [44] (map member_text (kv # kvs)) = member_text kv @ [44] @ join_with [44] (map member_text kvs)" by simp
    have "length (stringify v) \<le> m" "length (join_with [44] (map member_text kvs)) < m"
      using Cons.prems(2) unfolding join by (simp_all add: m kv member_text_def [of "(k, v)"])
    then show ?thesis using Cons.IH [of m "acc @ [kv]"] Cons.prems Cons unfolding join
      by (simp add: m kv member_text_def [of "(k, v)"] quote_string_def chars put)
  qed
qed simp

lemma stringify_object: "stringify (JObj kvs) = [123] @ join_with [44] (map member_text kvs) @ [125]"
  by (simp add: member_text_def [abs_def] case_prod_unfold)

lemma parse_stringify:
  "json_value v \<Longrightarrow> length (stringify v) \<le> n \<Longrightarrow> delimited rest \<Longrightarrow> parse_value n (stringify v @ rest) = Some (v, rest)"
proof (induction v arbitrary: n rest)
  case (JNum x)
  obtain r where r: "x = Fin r" "is_double r" using JNum.prems(1) by (cases x) auto
  obtain c q where "number_to_string (Fin r) = c # q" by (rule number_start [OF r(2)])
  then obtain m where "n = Suc m" using JNum.prems(2) by (cases n) (auto simp: r(1))
  then show ?case using parse_number [OF r(2) JNum.prems(3)] by (simp add: r(1) del: parse_value.simps)
next
  case (JStr s)
  then obtain m where "n = Suc m" by (cases n) (auto simp: quote_string_def)
  then show ?case by (simp add: parse_string del: parse_value.simps)
next
  case (JArr vs)
  obtain m where m: "n = Suc m" using JArr.prems(2) by (cases n) auto
  show ?case
  proof (cases vs)
    case Nil
    then show ?thesis by (simp add: m)
  next
    case (Cons w ws)
    then have "json_value w" using JArr.prems(1) by simp
    obtain c q where "join_with [44] (map stringify vs) @ 93 # rest = c # q" "skip_json (c # q) = c # q" "c \<noteq> 93"
    proof -
      obtain t where "join_with [44] (map stringify vs) @ 93 # rest = stringify w @ t" by (cases ws) (simp_all add: Cons)
      moreover obtain c q where "stringify w = c # q" "\<And>s. skip_json (c # s) = c # s" "c \<noteq> 93"
        using stringify_start [OF \<open>json_value w\<close>] by metis
      ultimately show thesis by (intro that [of c "q @ t"]) simp_all
    qed
    moreover have "parse_elements m [] (join_with [44] (map stringify vs) @ 93 # rest) = Some (JArr vs, rest)"
      using parse_elements_text [of vs m "[]" rest] JArr Cons by (simp add: m list_all_iff)
    ultimately show ?thesis by (simp add: m)
  qed
next
  case (JObj kvs)
  obtain m where m: "n = Suc m" using JObj.prems(2) by (cases n) auto
  show ?case
  proof (cases kvs)
    case Nil
    then show ?thesis by (simp add: m)
  next
    case (Cons w ws)
    obtain q where q: "join_with [44] (map member_text kvs) @ 125 # rest = 34 # q"
      by (cases ws) (simp_all add: Cons member_text_def quote_string_def)
    have read: "parse_value i (stringify (snd kv) @ t) = Some (snd kv, t)" if "kv \<in> set kvs" "length (stringify (snd kv)) \<le> i" "delimited t" for kv i t
      using JObj.IH [OF that(1), of "snd kv" i t] JObj.prems(1) that by (auto simp: list_all_iff snds.simps prod_set_simps)
    have "parse_members m [] (join_with [44] (map member_text kvs) @ 125 # rest) = Some (JObj kvs, rest)"
    proof (rule parse_members_text [of kvs m "[]" rest, simplified])
      show "length (join_with [44] (map member_text kvs)) < m" using JObj.prems(2) unfolding stringify_object by (simp add: m)
    qed (use JObj.prems(1) Cons read in \<open>auto\<close>)
    then show ?thesis unfolding stringify_object by (simp add: m q)
  qed
next
  case JNull
  then obtain m where "n = Suc m" by (cases n) (auto simp: js_eval)
  then show ?case by (simp add: js_eval skip_json_def json_space_def)
next
  case (JBool b)
  then obtain m where "n = Suc m" by (cases n) (auto simp: js_eval split: if_splits)
  then show ?case by (cases b) (simp_all add: js_eval skip_json_def json_space_def)
qed

lemma json_reads_back: "json_value v \<Longrightarrow> json_parse (stringify v) = Some v"
  using parse_stringify [of v "Suc (2 * length (stringify v))" "[]"] by (simp add: json_parse_def)

declare no_digits [simp del] skip_token [simp del]

end
