(* ===== verification/CellValues.thy ===== *)
theory CellValues
  imports JsonRoundTrip
begin

text \<open>
  Typed cell values (\<open>packages/domain/src/cell-values.ts\<close>), the parsing and printing of
  drafts typed into the grid, and the conversion of a cell to another column type
  (\<open>column-conversion-policy.ts\<close>).
\<close>

section \<open>Values\<close>

datatype value_type = TEmpty | TText | TNumber | TBoolean | TTimestamp | TJson

datatype cell_value =
    CEmpty
  | CText jsstr
  | CNumber jsnum
  | CBoolean bool
  | CTimestamp jsstr
  | CJson json

fun type_of :: "cell_value \<Rightarrow> value_type" where
  "type_of CEmpty = TEmpty"
| "type_of (CText _) = TText"
| "type_of (CNumber _) = TNumber"
| "type_of (CBoolean _) = TBoolean"
| "type_of (CTimestamp _) = TTimestamp"
| "type_of (CJson _) = TJson"

fun type_name :: "value_type \<Rightarrow> jsstr" where
  "type_name TEmpty = js ''empty''"
| "type_name TText = js ''text''"
| "type_name TNumber = js ''number''"
| "type_name TBoolean = js ''boolean''"
| "type_name TTimestamp = js ''timestamp''"
| "type_name TJson = js ''json''"

definition editable_types :: "value_type list" where
  "editable_types = [TText, TNumber, TBoolean, TTimestamp, TJson]"

text \<open>\<open>cellValueSchema\<close>: what the schema checks beyond the type of the payload.\<close>

fun valid_cell_value :: "host \<Rightarrow> cell_value \<Rightarrow> bool" where
  "valid_cell_value h (CNumber x) = finite_num x"
| "valid_cell_value h (CTimestamp t) = iso_datetime h t"
| "valid_cell_value h (CJson v) = json_finite v"
| "valid_cell_value h _ = True"

section \<open>Sizes\<close>

definition utf8_width :: "nat \<Rightarrow> nat" where
  "utf8_width p = (if p \<le> 0x7F then 1 else if p \<le> 0x7FF then 2 else if p \<le> 0xFFFF then 3 else 4)"

definition utf8ByteLength :: "jsstr \<Rightarrow> nat" where
  "utf8ByteLength s = sum_list (map utf8_width (code_points s))"

lemma utf8_width_bounds: "1 \<le> utf8_width p \<and> utf8_width p \<le> 4"
  by (simp add: utf8_width_def)

lemma length_code_points: "length (code_points s) \<le> length s \<and> length s \<le> 2 * length (code_points s)"
  by (induction s rule: code_points.induct) auto

lemma utf8_width_unit: "utf8_width (unat (c :: code_unit)) \<le> 3"
proof -
  have "unat c < 65536" using unsigned_less [of c] by simp
  then show ?thesis by (simp add: utf8_width_def)
qed

lemma utf8_width_pair: "is_high c \<Longrightarrow> is_low d \<Longrightarrow> utf8_width (pair_code_point c d) = 4"
  by (simp add: utf8_width_def pair_code_point_def)

text \<open>A code unit takes between one and three bytes, a surrogate pair four.\<close>

lemma utf8ByteLength_bounds: "length s \<le> utf8ByteLength s \<and> utf8ByteLength s \<le> 3 * length s"
proof (induction s rule: code_points.induct)
  case 1
  then show ?case by (simp add: utf8ByteLength_def)
next
  case (2 c)
  then show ?case using utf8_width_unit [of c] utf8_width_bounds [of "unat c"]
    by (simp add: utf8ByteLength_def)
next
  case (3 c d s)
  then show ?case using utf8_width_unit [of c] utf8_width_bounds [of "unat c"] utf8_width_pair [of c d]
    by (cases "is_high c \<and> is_low d") (auto simp: utf8ByteLength_def)
qed

definition MAXIMUM_EDITABLE_CELL_BYTES :: nat where
  "MAXIMUM_EDITABLE_CELL_BYTES = 256 * 1024"

definition bool_to_string :: "bool \<Rightarrow> jsstr" where
  "bool_to_string b = (if b then js ''true'' else js ''false'')"

text \<open>\<open>value.type === 'json' ? JSON.stringify(value.value) : String(value.value)\<close>.\<close>

fun serialized_value :: "cell_value \<Rightarrow> jsstr" where
  "serialized_value CEmpty = js ''null''"
| "serialized_value (CText s) = s"
| "serialized_value (CNumber x) = number_to_string x"
| "serialized_value (CBoolean b) = bool_to_string b"
| "serialized_value (CTimestamp t) = t"
| "serialized_value (CJson v) = stringify v"

definition editableCellByteLength :: "cell_value \<Rightarrow> nat" where
  "editableCellByteLength v = (if v = CEmpty then 0 else utf8ByteLength (serialized_value v))"

definition editable_cell_value :: "host \<Rightarrow> cell_value \<Rightarrow> bool" where
  "editable_cell_value h v \<longleftrightarrow>
     valid_cell_value h v \<and> editableCellByteLength v \<le> MAXIMUM_EDITABLE_CELL_BYTES"

section \<open>Dates\<close>

text \<open>
  \<open>Date.prototype.toISOString\<close> on a time value in milliseconds: the proleptic Gregorian
  calendar by the era method, four-digit years, six digits with a sign outside 0..9999.
\<close>

definition max_time :: int where
  "max_time = 8640000000000000"

definition civil_from_days :: "int \<Rightarrow> int \<times> int \<times> int" where
  "civil_from_days days =
     (let z = days + 719468;
          era = z div 146097;
          doe = z mod 146097;
          yoe = (doe - doe div 1460 + doe div 36524 - doe div 146096) div 365;
          doy = doe - (365 * yoe + yoe div 4 - yoe div 100);
          mp = (5 * doy + 2) div 153;
          d = doy - (153 * mp + 2) div 5 + 1;
          m = (if mp < 10 then mp + 3 else mp - 9);
          y = yoe + era * 400
      in ((if m \<le> 2 then y + 1 else y), m, d))"

definition pad :: "nat \<Rightarrow> int \<Rightarrow> jsstr" where
  "pad w n = (let ds = decimal_digits (nat n) in replicate (w - length ds) 48 @ ds)"

definition year_string :: "int \<Rightarrow> jsstr" where
  "year_string y =
     (if 0 \<le> y \<and> y \<le> 9999 then pad 4 y
      else if y < 0 then [45] @ pad 6 (- y) else [43] @ pad 6 y)"

definition toISOString :: "int \<Rightarrow> jsstr" where
  "toISOString t =
     (let (y, m, d) = civil_from_days (t div 86400000);
          ms = t mod 86400000
      in year_string y @ [45] @ pad 2 m @ [45] @ pad 2 d @ [84]
         @ pad 2 (ms div 3600000) @ [58] @ pad 2 (ms div 60000 mod 60) @ [58]
         @ pad 2 (ms div 1000 mod 60) @ [46] @ pad 3 (ms mod 1000) @ [90])"

text \<open>\<open>new Date(text).getTime()\<close>: \<open>None\<close> is \<open>NaN\<close>.\<close>

definition new_date :: "host \<Rightarrow> jsstr \<Rightarrow> int option" where
  "new_date h s = (case date_parse h s of Some t \<Rightarrow> if \<bar>t\<bar> \<le> max_time then Some t else None | None \<Rightarrow> None)"

section \<open>Drafts\<close>

datatype draft_error =
    CellTooLarge
  | EnterFiniteNumber
  | ChooseBoolean
  | EnterValidDate
  | EnterValidJson
  | CellSchemaError

definition normalizeEditableTimestamp :: "host \<Rightarrow> jsstr \<Rightarrow> draft_error + jsstr" where
  "normalizeEditableTimestamp h draft =
     (case new_date h draft of None \<Rightarrow> Inl EnterValidDate | Some t \<Rightarrow> Inr (toISOString t))"

fun draft_candidate :: "host \<Rightarrow> value_type \<Rightarrow> jsstr \<Rightarrow> draft_error + cell_value" where
  "draft_candidate h TText draft = Inr (CText draft)"
| "draft_candidate h TNumber draft =
     (let value = string_to_number draft
      in if finite_num value then Inr (CNumber value) else Inl EnterFiniteNumber)"
| "draft_candidate h TBoolean draft =
     (if draft \<noteq> js ''true'' \<and> draft \<noteq> js ''false'' then Inl ChooseBoolean
      else Inr (CBoolean (draft = js ''true'')))"
| "draft_candidate h TTimestamp draft =
     and_then (normalizeEditableTimestamp h draft) (\<lambda>t. Inr (CTimestamp t))"
| "draft_candidate h TJson draft =
     (case json_parse draft of
        Some v \<Rightarrow> if json_finite v then Inr (CJson v) else Inl EnterValidJson
      | None \<Rightarrow> Inl EnterValidJson)"
| "draft_candidate h TEmpty draft = Inl CellSchemaError"

definition parseEditableCellDraft :: "host \<Rightarrow> value_type \<Rightarrow> jsstr \<Rightarrow> draft_error + cell_value" where
  "parseEditableCellDraft h valueType draft =
     (if MAXIMUM_EDITABLE_CELL_BYTES < utf8ByteLength draft then Inl CellTooLarge
      else if draft = [] \<or> (valueType \<noteq> TText \<and> trim draft = []) then Inr CEmpty
      else and_then (draft_candidate h valueType draft)
             (\<lambda>candidate. if editable_cell_value h candidate then Inr candidate
                          else Inl CellSchemaError))"

definition formatEditableCellDraft :: "cell_value option \<Rightarrow> jsstr" where
  "formatEditableCellDraft value =
     (case value of
        None \<Rightarrow> []
      | Some v \<Rightarrow> if v = CEmpty then [] else serialized_value v)"

lemma draft_candidate_type: "draft_candidate h t draft = Inr v \<Longrightarrow> type_of v = t"
  by (cases t) (auto simp: Let_def and_then_eq_Inr split: if_splits option.splits)

section \<open>Column conversion\<close>

datatype conversion_error =
    AmbiguousConversion
  | InvalidBoolean
  | InvalidJson
  | InvalidNumber
  | InvalidTimestamp
  | ValueTooLarge

definition validateConvertedValue :: "host \<Rightarrow> cell_value \<Rightarrow> conversion_error + cell_value" where
  "validateConvertedValue h v = (if editable_cell_value h v then Inr v else Inl ValueTooLarge)"

text \<open>The JSON value of a cell's payload (\<open>{ type: 'json', value: source.value }\<close>).\<close>

fun payload_json :: "cell_value \<Rightarrow> json" where
  "payload_json CEmpty = JNull"
| "payload_json (CText s) = JStr s"
| "payload_json (CNumber x) = JNum x"
| "payload_json (CBoolean b) = JBool b"
| "payload_json (CTimestamp t) = JStr t"
| "payload_json (CJson v) = v"

text \<open>\<open>/(?:z|[+-]\d{2}:\d{2})$/iu\<close>.\<close>

definition has_zone_suffix :: "jsstr \<Rightarrow> bool" where
  "has_zone_suffix s =
     (case rev s of
        z # r \<Rightarrow>
          z = 122 \<or> z = 90 \<or>
          (case z # r of
             a # b # c # d # e # f # _ \<Rightarrow>
               is_digit a \<and> is_digit b \<and> c = 58 \<and> is_digit d \<and> is_digit e \<and> (f = 43 \<or> f = 45)
           | _ \<Rightarrow> False)
      | [] \<Rightarrow> False)"

fun convert_text :: "host \<Rightarrow> jsstr \<Rightarrow> value_type \<Rightarrow> conversion_error + cell_value" where
  "convert_text h s TNumber =
     (if trim s = [] then Inl InvalidNumber
      else let value = string_to_number s
           in if finite_num value then Inr (CNumber value) else Inl InvalidNumber)"
| "convert_text h s TBoolean =
     (if s \<noteq> js ''true'' \<and> s \<noteq> js ''false'' then Inl InvalidBoolean
      else Inr (CBoolean (s = js ''true'')))"
| "convert_text h s TTimestamp =
     (let value = trim s
      in if \<not> has_zone_suffix value then Inl InvalidTimestamp
         else case new_date h value of
                None \<Rightarrow> Inl InvalidTimestamp
              | Some t \<Rightarrow> Inr (CTimestamp (toISOString t)))"
| "convert_text h s TJson =
     (case json_parse s of
        None \<Rightarrow> Inl InvalidJson
      | Some v \<Rightarrow> validateConvertedValue h (CJson v))"
| "convert_text h s TText = Inr (CText s)"
| "convert_text h s TEmpty = Inl AmbiguousConversion"

fun convert_json :: "host \<Rightarrow> json \<Rightarrow> value_type \<Rightarrow> conversion_error + cell_value" where
  "convert_json h (JStr s) target = convert_text h s target"
| "convert_json h (JNum x) target =
     (if target = TNumber then validateConvertedValue h (CNumber x) else Inl AmbiguousConversion)"
| "convert_json h (JBool b) target =
     (if target = TBoolean then Inr (CBoolean b) else Inl AmbiguousConversion)"
| "convert_json h _ target = Inl AmbiguousConversion"

definition convertColumnCellValue :: "host \<Rightarrow> cell_value \<Rightarrow> value_type \<Rightarrow> conversion_error + cell_value" where
  "convertColumnCellValue h source target =
     (if source = CEmpty \<or> type_of source = target then Inr source
      else if target = TText then validateConvertedValue h (CText (serialized_value source))
      else if target = TJson
      then (case source of
              CText s \<Rightarrow> convert_text h s TJson
            | _ \<Rightarrow> validateConvertedValue h (CJson (payload_json source)))
      else (case source of
              CJson v \<Rightarrow> convert_json h v target
            | CText s \<Rightarrow> convert_text h s target
            | _ \<Rightarrow> Inl AmbiguousConversion))"

lemma type_of_TEmpty [simp]: "type_of v = TEmpty \<longleftrightarrow> v = CEmpty"
  by (cases v) auto

lemma convert_text_type: "convert_text h s t = Inr v \<Longrightarrow> type_of v = t"
  by (cases t) (auto simp: Let_def validateConvertedValue_def split: if_splits option.splits)

lemma convert_json_type: "convert_json h j t = Inr v \<Longrightarrow> type_of v = t"
  by (cases j) (auto simp: validateConvertedValue_def convert_text_type split: if_splits)

lemma short_text_fits [simp]: "length s \<le> 87381 \<Longrightarrow> utf8ByteLength s \<le> MAXIMUM_EDITABLE_CELL_BYTES"
  using utf8ByteLength_bounds [of s] by (simp add: MAXIMUM_EDITABLE_CELL_BYTES_def)

lemma bool_text: "length (bool_to_string b) \<le> 5" "bool_to_string b \<noteq> []" "trim (bool_to_string b) \<noteq> []"
    "(bool_to_string b = js ''true'') = b" "(bool_to_string b = js ''false'') = (\<not> b)"
  by (cases b; simp add: bool_to_string_def trim_Nil_iff js_eval is_space_def)+

lemma editable_bool: "editable_cell_value h (CBoolean b)"
  by (simp add: editable_cell_value_def editableCellByteLength_def bool_text(1) le_trans [OF bool_text(1)])

lemma parse_bool: "parseEditableCellDraft h TBoolean (bool_to_string b) = Inr (CBoolean b)"
  using bool_text(1) [of b]
  by (simp add: parseEditableCellDraft_def not_less bool_text(2-) editable_bool)

section \<open>Values in the form the program gives them\<close>

text \<open>
  Numbers are doubles, JSON values have the members of their objects in enumeration order, and
  timestamps are what \<open>toISOString\<close> prints for the time that \<open>Date.parse\<close> reads in them.
\<close>

fun canonical_value :: "host \<Rightarrow> cell_value \<Rightarrow> bool" where
  "canonical_value h (CNumber x) = json_value (JNum x)"
| "canonical_value h (CTimestamp s) = (map_option toISOString (new_date h s) = Some s)"
| "canonical_value h (CJson v) = json_value v"
| "canonical_value h _ = True"

lemma json_value_finite: "json_value v \<Longrightarrow> json_finite v"
proof (induction v)
  case (JNum x)
  then show ?case by (cases x) simp_all
next
  case (JObj kvs)
  have "json_finite (snd kv)" if "kv \<in> set kvs" for kv
    using JObj.IH [OF that, of "snd kv"] JObj.prems that by (cases kv) (auto simp: list_all_iff)
  then show ?case by (simp add: list_all_iff)
qed (auto simp: list_all_iff)

lemma canonical_number:
  assumes "canonical_value h (CNumber x)"
  obtains r where "x = Fin r" "is_double r"
  using assms by (cases x) auto

lemma iso_date_shape: "\<exists>a b. toISOString t = a @ 84 # b @ [90]"
proof -
  obtain y m d where "civil_from_days (t div 86400000) = (y, m, d)" by (metis prod_cases3)
  then show ?thesis unfolding toISOString_def Let_def by simp (metis append.assoc append_Cons append_Nil)
qed

lemma canonical_zone: "canonical_value h (CTimestamp s) \<Longrightarrow> has_zone_suffix s"
proof -
  assume "canonical_value h (CTimestamp s)"
  then obtain u where "s = toISOString u" by auto
  then obtain a b where "s = a @ 84 # b @ [90]" using iso_date_shape by metis
  then show ?thesis by (simp add: has_zone_suffix_def)
qed

text \<open>Only the empty text is printed as a blank that the editor takes for an empty cell.\<close>

lemma canonical_not_blank:
  assumes "canonical_value h v"
  shows "serialized_value v = [] \<or> type_of v \<noteq> TText \<and> trim (serialized_value v) = [] \<longleftrightarrow> v = CText []"
proof (cases v)
  case (CNumber x)
  obtain r where r: "x = Fin r" "is_double r" using assms CNumber canonical_number by blast
  obtain c q where "number_to_string (Fin r) = c # q" by (rule number_start [OF r(2)])
  moreover from this have "\<not> is_space c" using number_not_spaced [OF r(2)] by simp
  ultimately show ?thesis by (simp add: CNumber r(1) trim_Nil_iff del: number_to_string.simps)
next
  case (CBoolean b)
  then show ?thesis using bool_text(2-) [of b] by simp
next
  case (CTimestamp s)
  obtain a b t where "s = a @ 84 # b @ [90]" using assms CTimestamp iso_date_shape by fastforce
  moreover have "\<not> is_space 84" by (simp add: is_space_def char_class_defs)
  ultimately show ?thesis by (auto simp: CTimestamp trim_Nil_iff)
next
  case (CJson w)
  have "\<exists>c q. stringify w = c # q \<and> \<not> is_space c" using assms CJson stringify_start [of w] by (metis canonical_value.simps(3))
  then show ?thesis by (auto simp: CJson trim_Nil_iff)
next
  case CEmpty
  have "\<not> is_space 110" by (simp add: is_space_def char_class_defs)
  then show ?thesis by (auto simp: CEmpty trim_Nil_iff js_eval)
qed simp

lemma canonical_reads:
  assumes "canonical_value h v" and "v \<noteq> CEmpty"
  shows "draft_candidate h (type_of v) (serialized_value v) = Inr v"
proof (cases v)
  case (CNumber x)
  obtain r where "x = Fin r" "is_double r" using assms(1) CNumber canonical_number by blast
  then show ?thesis using number_reads [of r] by (simp add: CNumber del: number_to_string.simps)
next
  case (CTimestamp s)
  then show ?thesis using assms by (auto simp: normalizeEditableTimestamp_def split: option.split)
next
  case (CJson w)
  then show ?thesis using assms json_reads_back json_value_finite by simp
qed (use assms bool_text in auto)

section \<open>Properties\<close>

text \<open>
  C7. A parsed draft is empty or a value of the column's type, it passes the schema and its
  serialized form is within the byte limit; only a blank draft gives the empty value.
\<close>

theorem parsed_draft_type:
  assumes "parseEditableCellDraft h t draft = Inr v"
  shows "editable_cell_value h v \<and> (if v = CEmpty then draft = [] \<or> trim draft = [] else type_of v = t)"
proof -
  have empty: "editable_cell_value h CEmpty"
    by (simp add: editable_cell_value_def editableCellByteLength_def)
  have typed: "draft_candidate h t draft = Inr w \<Longrightarrow> w \<noteq> CEmpty" for w
    using draft_candidate_type [of h t draft w] by (cases t) auto
  show ?thesis
    using assms empty draft_candidate_type [of h t draft v] typed
    by (auto simp: parseEditableCellDraft_def and_then_eq_Inr split: if_splits)
qed

theorem parsed_draft_type_witness:
  "type_of (CBoolean True) = TBoolean \<and> editable_cell_value ascii_host (CBoolean True)"
proof -
  from parsed_draft_type [OF parse_bool] show ?thesis by simp
qed

text \<open>
  C8. What is shown for a cell, the editor reads back unchanged, as long as the cell is within the
  byte limit: any text, boolean, finite number or JSON value, and a timestamp in the form that
  \<open>toISOString\<close> gives and \<open>Date.parse\<close> reads. The one exception is the empty text, which is shown like
  an empty cell and reads back as one.
\<close>

theorem draft_round_trip:
  assumes "editable_cell_value h v" and "canonical_value h v" and "v = CEmpty \<or> type_of v = t"
  shows "parseEditableCellDraft h t (formatEditableCellDraft (Some v)) = Inr (if v = CText [] then CEmpty else v)"
proof -
  have short: "utf8ByteLength (serialized_value v) \<le> MAXIMUM_EDITABLE_CELL_BYTES" if "v \<noteq> CEmpty"
    using assms(1) that by (simp add: editable_cell_value_def editableCellByteLength_def)
  have typed: "type_of v = t" if "v \<noteq> CEmpty" using assms(3) that by simp
  show ?thesis
    using short typed assms(1) canonical_not_blank [OF assms(2)] canonical_reads [OF assms(2)]
    by (cases v) (auto simp: parseEditableCellDraft_def formatEditableCellDraft_def not_le utf8ByteLength_def [of "[]"])
qed

theorem draft_round_trip_witness:
  "parseEditableCellDraft ascii_host TText (js ''  a\<newline>'') = Inr (CText (js ''  a\<newline>''))"
proof -
  have "editable_cell_value ascii_host (CText (js ''  a\<newline>''))" "canonical_value ascii_host (CText (js ''  a\<newline>''))"
    by (simp_all add: editable_cell_value_def editableCellByteLength_def)
  from draft_round_trip [OF this, of TText] show ?thesis
    by (simp add: formatEditableCellDraft_def js_Cons)
qed

text \<open>
  C9. A column conversion never invents a type: a converted value has the target type, an
  empty cell stays empty, and a value that already has the type is unchanged.
\<close>

theorem converted_value_type:
  assumes "convertColumnCellValue h source target = Inr v"
  shows "(if source = CEmpty then v = CEmpty else type_of v = target)
    \<and> (type_of source = target \<longrightarrow> v = source)"
proof (cases "source = CEmpty \<or> type_of source = target")
  case True
  then show ?thesis using assms by (auto simp: convertColumnCellValue_def)
next
  case False
  then show ?thesis using assms convert_text_type convert_json_type
    by (auto simp: convertColumnCellValue_def validateConvertedValue_def
        split: if_splits cell_value.splits)
qed

theorem converted_value_type_witness:
  "type_of (CJson (JBool True)) = TJson
   \<and> convertColumnCellValue ascii_host (CJson (JBool True)) TBoolean = Inr (CBoolean True)"
proof -
  have "convertColumnCellValue ascii_host (CBoolean True) TJson = Inr (CJson (JBool True))"
    by (simp add: convertColumnCellValue_def validateConvertedValue_def editable_cell_value_def
        editableCellByteLength_def json_finite.simps stringify.simps)
  from converted_value_type [OF this] show ?thesis
    by (simp add: convertColumnCellValue_def)
qed

end
