(* ===== verification/GridView.thy ===== *)
theory GridView
  imports CellValues
begin

text \<open>
  Saved-view filters (\<open>packages/domain/src/grid-view-policy.ts\<close>): the typed operator
  language, the bounded \<open>and\<close>/\<open>or\<close> trees, their validation, and the meaning the SQL
  predicates of \<open>packages/db/src/sqlite/grid-view-query.ts\<close> give them on the cells of a row.
\<close>

section \<open>Filters and trees\<close>

datatype cell_status = Idle | Queued | Running | Succeeded | Failed | Stale | Cancelled

datatype empty_op = Is_empty | Is_not_empty
datatype text_op = Text_contains | Text_equals
datatype number_op = Number_equals | Number_gt | Number_lt
datatype time_op = Timestamp_after | Timestamp_before

datatype grid_filter =
    EmptyFilter jsstr empty_op
  | TextFilter jsstr text_op jsstr
  | NumberFilter jsstr number_op jsnum
  | BooleanFilter jsstr bool
  | TimestampFilter jsstr time_op jsstr
  | StatusFilter jsstr cell_status

fun filter_column :: "grid_filter \<Rightarrow> jsstr" where
  "filter_column (EmptyFilter c _) = c"
| "filter_column (TextFilter c _ _) = c"
| "filter_column (NumberFilter c _ _) = c"
| "filter_column (BooleanFilter c _) = c"
| "filter_column (TimestampFilter c _ _) = c"
| "filter_column (StatusFilter c _) = c"

fun operator_name :: "grid_filter \<Rightarrow> jsstr" where
  "operator_name (EmptyFilter _ Is_empty) = js ''is_empty''"
| "operator_name (EmptyFilter _ Is_not_empty) = js ''is_not_empty''"
| "operator_name (TextFilter _ Text_contains _) = js ''text_contains''"
| "operator_name (TextFilter _ Text_equals _) = js ''text_equals''"
| "operator_name (NumberFilter _ Number_equals _) = js ''number_equals''"
| "operator_name (NumberFilter _ Number_gt _) = js ''number_gt''"
| "operator_name (NumberFilter _ Number_lt _) = js ''number_lt''"
| "operator_name (BooleanFilter _ _) = js ''boolean_is''"
| "operator_name (TimestampFilter _ Timestamp_after _) = js ''timestamp_after''"
| "operator_name (TimestampFilter _ Timestamp_before _) = js ''timestamp_before''"
| "operator_name (StatusFilter _ _) = js ''status_is''"

datatype combinator = And | Or

datatype filter_node = Leaf grid_filter | Group filter_group
  and filter_group = FilterGroup "filter_node list" combinator

fun children :: "filter_group \<Rightarrow> filter_node list" where
  "children (FilterGroup cs _) = cs"

definition MAXIMUM_GRID_VIEW_FILTERS :: nat where
  "MAXIMUM_GRID_VIEW_FILTERS = 12"

definition MAXIMUM_GRID_VIEW_FILTER_DEPTH :: nat where
  "MAXIMUM_GRID_VIEW_FILTER_DEPTH = 3"

definition MAXIMUM_GRID_VIEW_GROUP_CHILDREN :: nat where
  "MAXIMUM_GRID_VIEW_GROUP_CHILDREN = 8"

section \<open>Validation\<close>

fun filter_shape :: "host \<Rightarrow> grid_filter \<Rightarrow> bool" where
  "filter_shape h (TextFilter c _ value) = (valid_uuid h c \<and> length value \<le> 4096)"
| "filter_shape h (NumberFilter c _ value) = (valid_uuid h c \<and> finite_num value)"
| "filter_shape h (TimestampFilter c _ value) = (valid_uuid h c \<and> iso_datetime h value)"
| "filter_shape h f = valid_uuid h (filter_column f)"

text \<open>\<open>recursiveGridViewFilterGroupSchema\<close>: at most eight children in every group.\<close>

fun node_shape :: "host \<Rightarrow> filter_node \<Rightarrow> bool"
  and group_shape :: "host \<Rightarrow> filter_group \<Rightarrow> bool" where
  "node_shape h (Leaf f) = filter_shape h f"
| "node_shape h (Group g) = group_shape h g"
| "group_shape h (FilterGroup cs c) =
     (length cs \<le> MAXIMUM_GRID_VIEW_GROUP_CHILDREN \<and> list_all (node_shape h) cs)"

datatype filter_issue = FilterTooDeep | EmptyNestedGroup | TooManyFilters

text \<open>
  The visitor of \<open>superRefine\<close>: it returns the issues it adds and what it adds to
  \<open>predicateCount\<close>. A group below the depth limit is reported and not entered.
\<close>

fun visit_node :: "nat \<Rightarrow> filter_node \<Rightarrow> filter_issue list \<times> nat"
  and visit_group :: "nat \<Rightarrow> filter_group \<Rightarrow> filter_issue list \<times> nat"
  and visit_nodes :: "nat \<Rightarrow> filter_node list \<Rightarrow> filter_issue list \<times> nat" where
  "visit_node depth (Leaf f) = ([], 1)"
| "visit_node depth (Group g) = visit_group (depth + 1) g"
| "visit_group depth (FilterGroup cs c) =
     (if MAXIMUM_GRID_VIEW_FILTER_DEPTH < depth then ([FilterTooDeep], 0)
      else let (issues, n) = visit_nodes depth cs
           in ((if 1 < depth \<and> cs = [] then [EmptyNestedGroup] else []) @ issues, n))"
| "visit_nodes depth [] = ([], 0)"
| "visit_nodes depth (c # cs) =
     (let (i, n) = visit_node depth c; (j, m) = visit_nodes depth cs in (i @ j, n + m))"

definition filter_tree_issues :: "filter_group \<Rightarrow> filter_issue list" where
  "filter_tree_issues tree =
     (let (issues, predicateCount) = visit_group 1 tree
      in issues @ (if MAXIMUM_GRID_VIEW_FILTERS < predicateCount then [TooManyFilters] else []))"

definition gridViewFilterTree :: "host \<Rightarrow> filter_group \<Rightarrow> bool" where
  "gridViewFilterTree h tree \<longleftrightarrow> group_shape h tree \<and> filter_tree_issues tree = []"

text \<open>Stored filters are a tree or, in old rows, a flat list of at most five filters.\<close>

datatype persisted_filters = CanonicalTree filter_group | LegacyFilters "grid_filter list"

definition normalizeGridViewFilterTree :: "host \<Rightarrow> persisted_filters \<Rightarrow> filter_group option" where
  "normalizeGridViewFilterTree h p =
     (case p of
        CanonicalTree tree \<Rightarrow> if gridViewFilterTree h tree then Some tree else None
      | LegacyFilters fs \<Rightarrow>
          if length fs \<le> 5 \<and> list_all (filter_shape h) fs
          then Some (FilterGroup (map Leaf fs) And) else None)"

section \<open>Reading a tree\<close>

fun node_leaves :: "filter_node \<Rightarrow> grid_filter list"
  and gridViewFilterLeaves :: "filter_group \<Rightarrow> grid_filter list" where
  "node_leaves (Leaf f) = [f]"
| "node_leaves (Group g) = gridViewFilterLeaves g"
| "gridViewFilterLeaves (FilterGroup cs c) = concat (map node_leaves cs)"

definition filterOperatorRequiresValue :: "grid_filter \<Rightarrow> bool" where
  "filterOperatorRequiresValue f \<longleftrightarrow>
     operator_name f \<noteq> js ''is_empty'' \<and> operator_name f \<noteq> js ''is_not_empty''"

definition gridViewFilterAcceptsValueType :: "grid_filter \<Rightarrow> value_type \<Rightarrow> bool" where
  "gridViewFilterAcceptsValueType f t \<longleftrightarrow>
     (let expected = takeWhile (\<lambda>c. c \<noteq> 95) (operator_name f)
      in expected = js ''is'' \<or> expected = js ''status'' \<or> expected = type_name t)"

text \<open>The specification of the visitor: depth, nested groups and leaves of a tree.\<close>

fun node_depth :: "filter_node \<Rightarrow> nat"
  and group_depth :: "filter_group \<Rightarrow> nat" where
  "node_depth (Leaf f) = 0"
| "node_depth (Group g) = group_depth g"
| "group_depth (FilterGroup cs c) = Suc (fold max (map node_depth cs) 0)"

fun nested_nonempty :: "filter_node \<Rightarrow> bool"
  and group_nested_nonempty :: "filter_group \<Rightarrow> bool" where
  "nested_nonempty (Leaf f) = True"
| "nested_nonempty (Group g) = (children g \<noteq> [] \<and> group_nested_nonempty g)"
| "group_nested_nonempty (FilterGroup cs c) = list_all nested_nonempty cs"

lemma fold_max_le: "fold max xs a \<le> (b::nat) \<longleftrightarrow> a \<le> b \<and> (\<forall>x \<in> set xs. x \<le> b)"
  by (induction xs arbitrary: a) auto

lemma visit_spec:
  "1 \<le> d \<Longrightarrow> d \<le> 3 \<Longrightarrow> fst (visit_node d nd) = [] \<longleftrightarrow> d + node_depth nd \<le> 3 \<and> nested_nonempty nd"
  "1 \<le> d \<Longrightarrow> d \<le> 4 \<Longrightarrow> fst (visit_group d g) = [] \<longleftrightarrow>
     d + group_depth g \<le> 4 \<and> group_nested_nonempty g \<and> (1 < d \<longrightarrow> children g \<noteq> [])"
  "1 \<le> d \<Longrightarrow> d \<le> 3 \<Longrightarrow> fst (visit_nodes d nds) = [] \<longleftrightarrow>
     (\<forall>nd \<in> set nds. d + node_depth nd \<le> 3 \<and> nested_nonempty nd)"
proof (induction d nd and d g and d nds rule: visit_node_visit_group_visit_nodes.induct)
  case (3 depth cs c)
  show ?case
  proof (cases "3 < depth")
    case True
    with 3 show ?thesis by (simp add: MAXIMUM_GRID_VIEW_FILTER_DEPTH_def)
  next
    case False
    then have "fst (visit_nodes depth cs) = [] \<longleftrightarrow>
        (\<forall>nd \<in> set cs. depth + node_depth nd \<le> 3 \<and> nested_nonempty nd)"
      using 3 by (simp add: MAXIMUM_GRID_VIEW_FILTER_DEPTH_def)
    moreover have "depth + group_depth (FilterGroup cs c) \<le> 4 \<longleftrightarrow>
        (\<forall>nd \<in> set cs. depth + node_depth nd \<le> 3)" if "depth \<le> 3"
    proof -
      have "depth + group_depth (FilterGroup cs c) \<le> 4 \<longleftrightarrow> fold max (map node_depth cs) 0 \<le> 3 - depth"
        using that by auto
      also have "\<dots> \<longleftrightarrow> (\<forall>nd \<in> set cs. depth + node_depth nd \<le> 3)"
        using that by (auto simp: fold_max_le)
      finally show ?thesis .
    qed
    ultimately show ?thesis using False
      by (auto simp: MAXIMUM_GRID_VIEW_FILTER_DEPTH_def list_all_iff split: prod.splits)
  qed
next
  case (5 depth c cs)
  then show ?case by (auto split: prod.splits)
qed auto

lemma visit_count:
  "fst (visit_node d nd) = [] \<Longrightarrow> snd (visit_node d nd) = length (node_leaves nd)"
  "fst (visit_group d g) = [] \<Longrightarrow> snd (visit_group d g) = length (gridViewFilterLeaves g)"
  "fst (visit_nodes d nds) = [] \<Longrightarrow> snd (visit_nodes d nds) = length (concat (map node_leaves nds))"
  by (induction d nd and d g and d nds rule: visit_node_visit_group_visit_nodes.induct)
    (auto split: prod.splits if_splits)

text \<open>
  The issues of a tree are empty exactly when it has at most twelve leaves, at most three
  levels of groups and no empty group below the root.
\<close>

lemma filter_tree_issues_iff:
  "filter_tree_issues tree = [] \<longleftrightarrow>
     length (gridViewFilterLeaves tree) \<le> 12 \<and> group_depth tree \<le> 3 \<and> group_nested_nonempty tree"
proof -
  obtain issues n where v: "visit_group (Suc 0) tree = (issues, n)" by fastforce
  have i: "issues = [] \<longleftrightarrow> group_depth tree \<le> 3 \<and> group_nested_nonempty tree"
    using visit_spec(2) [of 1 tree] v by auto
  have "issues = [] \<Longrightarrow> n = length (gridViewFilterLeaves tree)"
    using visit_count(2) [of 1 tree] v by simp
  then show ?thesis
    using i by (auto simp: filter_tree_issues_def v MAXIMUM_GRID_VIEW_FILTERS_def)
qed

section \<open>The meaning of a filter on a row\<close>

text \<open>
  A row of the table \<open>cells\<close>: its status, the type tag and the column that holds a value
  of that type. SQLite's \<open>lower\<close> folds the ASCII letters and no others.
\<close>

record cell_row =
  cell_value :: cell_value
  cell_status :: cell_status

type_synonym row_cells = "(jsstr \<times> cell_row) list"

text \<open>\<open>instr(haystack, needle) > 0\<close>.\<close>

fun sql_contains :: "jsstr \<Rightarrow> jsstr \<Rightarrow> bool" where
  "sql_contains [] needle = (needle = [])"
| "sql_contains (c # s) needle = (strip_prefix needle (c # s) \<noteq> None \<or> sql_contains s needle)"

fun num_less :: "jsnum \<Rightarrow> jsnum \<Rightarrow> bool" where
  "num_less (Fin x) (Fin y) = (x < y)"
| "num_less _ _ = False"

definition exists_cell :: "row_cells \<Rightarrow> jsstr \<Rightarrow> (cell_row \<Rightarrow> bool) \<Rightarrow> bool" where
  "exists_cell cells col P = list_ex (\<lambda>(c, cell). c = col \<and> P cell) cells"

fun number_holds :: "number_op \<Rightarrow> jsnum \<Rightarrow> jsnum \<Rightarrow> bool" where
  "number_holds Number_equals x value = (x = value)"
| "number_holds Number_gt x value = num_less value x"
| "number_holds Number_lt x value = num_less x value"

fun time_holds :: "time_op \<Rightarrow> int option \<Rightarrow> int option \<Rightarrow> bool" where
  "time_holds Timestamp_after (Some t) (Some u) = (u < t)"
| "time_holds Timestamp_before (Some t) (Some u) = (t < u)"
| "time_holds _ _ _ = False"

fun filterPredicate :: "host \<Rightarrow> row_cells \<Rightarrow> grid_filter \<Rightarrow> bool" where
  "filterPredicate h cells (EmptyFilter col Is_empty) =
     (\<not> exists_cell cells col (\<lambda>c. type_of (cell_value c) \<noteq> TEmpty))"
| "filterPredicate h cells (EmptyFilter col Is_not_empty) =
     exists_cell cells col (\<lambda>c. type_of (cell_value c) \<noteq> TEmpty)"
| "filterPredicate h cells (TextFilter col Text_contains value) =
     exists_cell cells col (\<lambda>c. case cell_value c of
        CText s \<Rightarrow> sql_contains (ascii_lower s) (ascii_lower value) | _ \<Rightarrow> False)"
| "filterPredicate h cells (TextFilter col Text_equals value) =
     exists_cell cells col (\<lambda>c. case cell_value c of
        CText s \<Rightarrow> ascii_lower s = ascii_lower value | _ \<Rightarrow> False)"
| "filterPredicate h cells (NumberFilter col op value) =
     exists_cell cells col (\<lambda>c. case cell_value c of
        CNumber x \<Rightarrow> number_holds op x value | _ \<Rightarrow> False)"
| "filterPredicate h cells (BooleanFilter col value) =
     exists_cell cells col (\<lambda>c. case cell_value c of CBoolean b \<Rightarrow> b = value | _ \<Rightarrow> False)"
| "filterPredicate h cells (TimestampFilter col op value) =
     exists_cell cells col (\<lambda>c. case cell_value c of
        CTimestamp t \<Rightarrow> time_holds op (new_date h t) (new_date h value) | _ \<Rightarrow> False)"
| "filterPredicate h cells (StatusFilter col value) =
     exists_cell cells col (\<lambda>c. cell_status c = value)"

text \<open>A group without children is \<open>true\<close>, whatever its combinator.\<close>

fun nodePredicate :: "host \<Rightarrow> row_cells \<Rightarrow> filter_node \<Rightarrow> bool"
  and filterTreePredicate :: "host \<Rightarrow> row_cells \<Rightarrow> filter_group \<Rightarrow> bool" where
  "nodePredicate h cells (Leaf f) = filterPredicate h cells f"
| "nodePredicate h cells (Group g) = filterTreePredicate h cells g"
| "filterTreePredicate h cells (FilterGroup cs c) =
     (let predicates = map (nodePredicate h cells) cs
      in if predicates = [] then True
         else if c = And then list_all id predicates else list_ex id predicates)"

lemma exists_cell_iff: "exists_cell cells col P \<longleftrightarrow> (\<exists>cell. (col, cell) \<in> set cells \<and> P cell)"
  by (auto simp: exists_cell_def list_ex_iff)

text \<open>Only the cells in the columns of the tree's leaves decide.\<close>

lemma filterPredicate_cong:
  "(\<And>cell. (filter_column f, cell) \<in> set cells \<longleftrightarrow> (filter_column f, cell) \<in> set cells') \<Longrightarrow>
     filterPredicate h cells f = filterPredicate h cells' f"
  by (cases "(h, cells, f)" rule: filterPredicate.cases) (auto simp: exists_cell_iff)

lemma tree_predicate_cong:
  "(\<And>f cell. f \<in> set (node_leaves nd) \<Longrightarrow>
      (filter_column f, cell) \<in> set cells \<longleftrightarrow> (filter_column f, cell) \<in> set cells') \<Longrightarrow>
     nodePredicate h cells nd = nodePredicate h cells' nd"
  "(\<And>f cell. f \<in> set (gridViewFilterLeaves g) \<Longrightarrow>
      (filter_column f, cell) \<in> set cells \<longleftrightarrow> (filter_column f, cell) \<in> set cells') \<Longrightarrow>
     filterTreePredicate h cells g = filterTreePredicate h cells' g"
proof (induction nd and g)
  case (FilterGroup cs c)
  have "nodePredicate h cells x = nodePredicate h cells' x" if x: "x \<in> set cs" for x
  proof (rule FilterGroup.IH [OF x])
    fix f cell
    assume "f \<in> set (node_leaves x)"
    with x have "f \<in> set (gridViewFilterLeaves (FilterGroup cs c))" by auto
    then show "(filter_column f, cell) \<in> set cells \<longleftrightarrow> (filter_column f, cell) \<in> set cells'"
      by (rule FilterGroup.prems)
  qed
  then have "map (nodePredicate h cells) cs = map (nodePredicate h cells') cs"
    by (intro map_cong) simp_all
  then show ?case by (simp only: filterTreePredicate.simps)
next
  case (Leaf f)
  have "filterPredicate h cells f = filterPredicate h cells' f"
    by (rule filterPredicate_cong) (rule Leaf.prems, simp)
  then show ?case by simp
next
  case (Group g)
  have "filterTreePredicate h cells g = filterTreePredicate h cells' g"
    by (rule Group.IH) (rule Group.prems, simp)
  then show ?case by simp
qed

section \<open>Properties\<close>

text \<open>
  C10. The limits of a filter tree: the refinement reports no issue exactly when the tree has
  at most twelve leaves, at most three levels of groups and no empty group below the root;
  in particular the early return on groups that are too deep never hides a surplus leaf.
\<close>

theorem filter_tree_accepted_iff:
  "gridViewFilterTree h tree \<longleftrightarrow> group_shape h tree
     \<and> length (gridViewFilterLeaves tree) \<le> MAXIMUM_GRID_VIEW_FILTERS
     \<and> group_depth tree \<le> MAXIMUM_GRID_VIEW_FILTER_DEPTH \<and> group_nested_nonempty tree"
  by (simp add: gridViewFilterTree_def filter_tree_issues_iff MAXIMUM_GRID_VIEW_FILTERS_def
      MAXIMUM_GRID_VIEW_FILTER_DEPTH_def)

end
