(* ===== verification/Worklist.thy ===== *)
theory Worklist
  imports Prelude "HOL-Library.Multiset"
begin

text \<open>
  Kahn's algorithm, which the program contains three times with different disciplines for
  the list of ready nodes: the draft validator pops a stack, the workflow compiler keeps a
  sorted queue, the formula recomputation pushes and sorts again. The interface
  \<open>kahn_loop\<close> states what the three loops share; what they guarantee (a topological
  order, complete exactly on acyclic graphs) is proved once against it.
\<close>

section \<open>The shared inner loop\<close>

text \<open>
  \<open>for (const targetId of targets)\<close>: lower the counter of each target and add it to the
  ready list when the counter reaches zero. A missing counter reads as zero (\<open>?? 0\<close>).
\<close>

fun relax :: "('a \<Rightarrow> 'a list \<Rightarrow> 'a list) \<Rightarrow> 'a list \<Rightarrow> ('a \<times> int) list \<Rightarrow> 'a list
    \<Rightarrow> ('a \<times> int) list \<times> 'a list" where
  "relax add [] cnt ready = (cnt, ready)"
| "relax add (t # ts) cnt ready =
     (let next = get_or 0 cnt t - 1
      in relax add ts (AList.update t next cnt) (if next = 0 then add t ready else ready))"

definition positives :: "('a \<times> int) list \<Rightarrow> 'a set" where
  "positives cnt = {k. 0 < get_or 0 cnt k}"

lemma finite_positives [simp]: "finite (positives cnt)"
proof -
  have "positives cnt \<subseteq> fst ` set cnt"
    by (force simp: positives_def get_or_def split: option.splits dest: map_of_SomeD)
  then show ?thesis by (rule finite_subset) simp
qed

definition work :: "('a \<times> int) list \<Rightarrow> 'a list \<Rightarrow> nat" where
  "work cnt ready = card (positives cnt) + length ready"

lemma positives_update:
  "positives (AList.update t v cnt) = (if 0 < v then insert t (positives cnt) else positives cnt - {t})"
  by (auto simp: positives_def)

lemma work_relax:
  assumes "\<And>t r. length (add t r) = Suc (length r)"
  shows "relax add ts cnt ready = (cnt', ready') \<Longrightarrow> work cnt' ready' \<le> work cnt ready"
proof (induction ts arbitrary: cnt ready)
  case Nil
  then show ?case by simp
next
  case (Cons t ts)
  let ?next = "get_or 0 cnt t - 1"
  let ?ready = "if ?next = 0 then add t ready else ready"
  have "work cnt' ready' \<le> work (AList.update t ?next cnt) ?ready"
    using Cons by (auto simp: Let_def)
  also have "\<dots> \<le> work cnt ready"
  proof (cases "?next = 0")
    case True
    then have "t \<in> positives cnt" by (simp add: positives_def)
    with True have "Suc (card (positives cnt - {t})) = card (positives cnt)"
      by (intro card_Suc_Diff1) simp_all
    with True show ?thesis by (simp add: work_def positives_update assms)
  next
    case False
    then have "t \<in> positives cnt" if "0 < ?next"
      using that by (simp add: positives_def)
    with False show ?thesis
      by (auto simp: work_def positives_update insert_absorb card_Diff1_le)
  qed
  finally show ?case .
qed

lemma get_or_relax:
  "relax add ts cnt ready = (cnt', ready') \<Longrightarrow>
     get_or 0 cnt' k = get_or 0 cnt k - int (count_list ts k)"
  by (induction ts arbitrary: cnt ready) (auto simp: Let_def split: if_splits)

definition finished :: "'a list \<Rightarrow> ('a \<times> int) list \<Rightarrow> 'a set" where
  "finished ts cnt = {t \<in> set ts. get_or 0 cnt t = int (count_list ts t)}"

lemma finished_Cons:
  assumes "int (count_list (t # ts) t) \<le> get_or 0 cnt t"
  shows "finished (t # ts) cnt =
     (if get_or 0 cnt t = 1 then insert t (finished ts (AList.update t 0 cnt))
      else finished ts (AList.update t (get_or 0 cnt t - 1) cnt))"
    and "get_or 0 cnt t = 1 \<Longrightarrow> t \<notin> finished ts (AList.update t 0 cnt)"
proof -
  have one: "count_list ts t = 0 \<longleftrightarrow> t \<notin> set ts" by (simp add: count_list_0_iff)
  show "finished (t # ts) cnt =
     (if get_or 0 cnt t = 1 then insert t (finished ts (AList.update t 0 cnt))
      else finished ts (AList.update t (get_or 0 cnt t - 1) cnt))"
    using assms one by (auto simp: finished_def split: if_splits)
  show "t \<notin> finished ts (AList.update t 0 cnt)" if "get_or 0 cnt t = 1"
    using assms one that by (auto simp: finished_def)
qed

lemma distinct_mset_set: "mset xs = mset_set A \<Longrightarrow> finite A \<Longrightarrow> distinct xs"
proof -
  assume m: "mset xs = mset_set A" and f: "finite A"
  then have "set xs = A" by (metis finite_set_mset_mset_set set_mset_mset)
  with m f show "distinct xs" by (simp add: distinct_count_atmost_1)
qed

lemma mset_relax:
  assumes add: "\<And>t r. mset (add t r) = add_mset t (mset r)"
  shows "relax add ts cnt ready = (cnt', ready') \<Longrightarrow>
    (\<And>t. t \<in> set ts \<Longrightarrow> int (count_list ts t) \<le> get_or 0 cnt t) \<Longrightarrow>
    mset ready' = mset ready + mset_set (finished ts cnt)"
proof (induction ts arbitrary: cnt ready)
  case Nil
  then show ?case by (simp add: finished_def)
next
  case (Cons t ts)
  let ?next = "get_or 0 cnt t - 1"
  let ?cnt = "AList.update t ?next cnt"
  let ?ready = "if ?next = 0 then add t ready else ready"
  have le: "int (count_list ts t') \<le> get_or 0 ?cnt t'" if "t' \<in> set ts" for t'
    using Cons.prems(2) [of t'] that by (auto split: if_splits)
  have t: "int (count_list (t # ts) t) \<le> get_or 0 cnt t"
    using Cons.prems(2) [of t] by simp
  have fin: "finite (finished ts c)" for c
    by (simp add: finished_def)
  have "mset ready' = mset ?ready + mset_set (finished ts ?cnt)"
    using Cons.IH [of ?cnt ?ready] Cons.prems(1) le by (simp add: Let_def)
  also have "\<dots> = mset ready + mset_set (finished (t # ts) cnt)"
    using finished_Cons [OF t] fin by (auto simp: add)
  finally show ?case .
qed

section \<open>Orders and edges\<close>

text \<open>\<open>outs m\<close> lists the targets of the edges that leave \<open>m\<close>, with repetitions.\<close>

definition graph_edges :: "'a list \<Rightarrow> ('a \<Rightarrow> 'a list) \<Rightarrow> ('a \<times> 'a) set" where
  "graph_edges N outs = {(m, n). m \<in> set N \<and> n \<in> set N \<and> n \<in> set (outs m)}"

definition topological :: "'a list \<Rightarrow> ('a \<Rightarrow> 'a list) \<Rightarrow> 'a list \<Rightarrow> bool" where
  "topological N outs ord \<longleftrightarrow>
     (\<forall>i < length ord. \<forall>m \<in> set N. ord ! i \<in> set (outs m) \<longrightarrow> m \<in> set (take i ord))"

definition in_count :: "'a set \<Rightarrow> ('a \<Rightarrow> 'a list) \<Rightarrow> 'a \<Rightarrow> int" where
  "in_count S outs n = (\<Sum>m \<in> S. int (count_list (outs m) n))"

lemma in_count_zero: "finite S \<Longrightarrow> in_count S outs n = 0 \<longleftrightarrow> (\<forall>m \<in> S. n \<notin> set (outs m))"
  by (simp add: in_count_def sum_nonneg_eq_0_iff count_list_0_iff)

lemma in_count_remove:
  "finite S \<Longrightarrow> x \<in> S \<Longrightarrow> in_count (S - {x}) outs n = in_count S outs n - int (count_list (outs x) n)"
  by (simp add: in_count_def sum_diff1)

lemma in_count_ge: "finite S \<Longrightarrow> x \<in> S \<Longrightarrow> int (count_list (outs x) n) \<le> in_count S outs n"
  unfolding in_count_def by (rule member_le_sum) auto

lemma topological_Nil [simp]: "topological N outs []"
  by (simp add: topological_def)

lemma topological_snoc:
  "topological N outs (ord @ [x]) \<longleftrightarrow>
     topological N outs ord \<and> (\<forall>m \<in> set N. x \<in> set (outs m) \<longrightarrow> m \<in> set ord)"
  by (auto simp: topological_def less_Suc_eq nth_append)

lemma position_less: "x \<in> set (take i xs) \<Longrightarrow> length (takeWhile (\<lambda>y. y \<noteq> x) xs) < i"
proof (induction xs arbitrary: i)
  case Nil
  then show ?case by simp
next
  case (Cons a xs)
  then show ?case by (cases i) auto
qed

lemma position_nth:
  "distinct xs \<Longrightarrow> i < length xs \<Longrightarrow> length (takeWhile (\<lambda>y. y \<noteq> xs ! i) xs) = i"
proof (induction xs arbitrary: i)
  case Nil
  then show ?case by simp
next
  case (Cons a xs)
  then show ?case by (cases i) (auto simp: nth_Cons')
qed

lemma topological_acyclic:
  assumes "topological N outs ord" "distinct ord" "set ord = set N"
  shows "acyclic (graph_edges N outs)"
proof (rule acyclicI_order)
  fix m n
  assume "(m, n) \<in> graph_edges N outs"
  then have m: "m \<in> set N" and n: "n \<in> set ord" and e: "n \<in> set (outs m)"
    using assms(3) by (auto simp: graph_edges_def)
  from n obtain i where i: "i < length ord" "ord ! i = n" by (auto simp: in_set_conv_nth)
  with assms(1) m e have "m \<in> set (take i ord)" by (auto simp: topological_def)
  then have "length (takeWhile (\<lambda>y. y \<noteq> m) ord) < i" by (rule position_less)
  also have "i = length (takeWhile (\<lambda>y. y \<noteq> n) ord)"
    using position_nth [OF assms(2) i(1)] i(2) by simp
  finally show "- int (length (takeWhile (\<lambda>y. y \<noteq> n) ord))
      < - int (length (takeWhile (\<lambda>y. y \<noteq> m) ord))" by simp
qed

section \<open>The interface of the loops\<close>

locale kahn_loop =
  fixes loop :: "'a list \<Rightarrow> ('a \<times> int) list \<Rightarrow> 'a list \<Rightarrow> 'a list"
    and outs :: "'a \<Rightarrow> 'a list"
    and pick :: "'a list \<Rightarrow> 'a \<times> 'a list"
    and add :: "'a \<Rightarrow> 'a list \<Rightarrow> 'a list"
    and settle :: "'a list \<Rightarrow> 'a list"
  assumes loop_empty: "loop [] cnt acc = acc"
    and loop_step: "ready \<noteq> [] \<Longrightarrow> pick ready = (x, rest) \<Longrightarrow>
      relax add (outs x) cnt rest = (cnt', ready') \<Longrightarrow>
      loop ready cnt acc = loop (settle ready') cnt' (acc @ [x])"
    and pick_mset: "ready \<noteq> [] \<Longrightarrow> pick ready = (x, rest) \<Longrightarrow> mset ready = add_mset x (mset rest)"
    and add_mset: "mset (add t ready) = add_mset t (mset ready)"
    and settle_mset: "mset (settle ready) = mset ready"
begin

definition invariant :: "'a list \<Rightarrow> 'a list \<Rightarrow> ('a \<times> int) list \<Rightarrow> 'a list \<Rightarrow> bool" where
  "invariant N ready cnt acc \<longleftrightarrow>
     distinct (acc @ ready) \<and> set (acc @ ready) \<subseteq> set N \<and> topological N outs acc
     \<and> (\<forall>n \<in> set N. get_or 0 cnt n = in_count (set N - set acc) outs n)
     \<and> (\<forall>n \<in> set N. n \<in> set (acc @ ready) \<longleftrightarrow> get_or 0 cnt n = 0)"

lemma add_length: "length (add t ready) = Suc (length ready)"
  by (metis add_mset size_add_mset size_mset)

lemma invariant_step:
  assumes inv: "invariant N ready cnt acc" and ne: "ready \<noteq> []"
    and closed: "\<And>m. m \<in> set N \<Longrightarrow> set (outs m) \<subseteq> set N"
    and pick: "pick ready = (x, rest)"
    and relax: "relax add (outs x) cnt rest = (cnt', ready')"
  shows "invariant N (settle ready') cnt' (acc @ [x])"
proof -
  let ?R = "set N - set acc" and ?R' = "set N - set (acc @ [x])"
  have mr: "mset ready = add_mset x (mset rest)" using pick_mset [OF ne pick] .
  then have sr: "set ready = insert x (set rest)" by (metis set_mset_add_mset_insert set_mset_mset)
  have dis: "distinct (acc @ ready)" and sub: "set (acc @ ready) \<subseteq> set N"
    and topo: "topological N outs acc"
    and cnt: "\<And>n. n \<in> set N \<Longrightarrow> get_or 0 cnt n = in_count ?R outs n"
    and zero: "\<And>n. n \<in> set N \<Longrightarrow> n \<in> set (acc @ ready) \<longleftrightarrow> get_or 0 cnt n = 0"
    using inv by (auto simp: invariant_def)
  have x: "x \<in> set N" "x \<in> ?R" "x \<notin> set acc" using sr dis sub by auto
  have dr: "distinct (x # rest)"
    using mr dis by (metis distinct_append mset.simps(2) mset_eq_imp_distinct_iff)
  have R': "?R' = ?R - {x}" by auto
  have le: "int (count_list (outs x) t) \<le> get_or 0 cnt t" if "t \<in> set (outs x)" for t
    using closed [OF x(1)] that cnt x(2) in_count_ge [of ?R x outs t] by auto
  have cnt': "get_or 0 cnt' n = in_count ?R' outs n" if "n \<in> set N" for n
    using get_or_relax [OF relax] cnt [OF that] in_count_remove [of ?R x outs n] x(2) R' by simp
  have preds: "\<forall>m \<in> set N. x \<in> set (outs m) \<longrightarrow> m \<in> set acc"
    using zero [OF x(1)] cnt [OF x(1)] in_count_zero [of ?R outs x] sr by auto
  have m': "mset (settle ready') = mset rest + mset_set (finished (outs x) cnt)"
    using mset_relax [OF add_mset relax le] by (simp add: settle_mset)
  have fin: "finite (finished (outs x) cnt)" by (simp add: finished_def)
  have s': "set (settle ready') = set rest \<union> finished (outs x) cnt"
    using arg_cong [OF m', of set_mset] fin by simp
  have pos: "t \<notin> set (acc @ ready)" if "t \<in> finished (outs x) cnt" for t
  proof -
    have "t \<in> set N" "0 < get_or 0 cnt t"
      using that closed [OF x(1)] by (auto simp: finished_def count_list_0_iff zero_less_iff_neq_zero)
    then show ?thesis using zero by fastforce
  qed
  have "mset (settle ready') = mset_set (set rest \<union> finished (outs x) cnt)"
  proof -
    have "set rest \<inter> finished (outs x) cnt = {}" using pos sr by auto
    then show ?thesis using m' dr fin by (simp add: mset_set_Union mset_set_set)
  qed
  then have "distinct (settle ready')"
    by (rule distinct_mset_set) (simp add: fin)
  moreover have "set (acc @ [x] @ settle ready') \<subseteq> set N"
    using s' sub sr x closed [OF x(1)] by (auto simp: finished_def)
  moreover have "distinct (acc @ [x])" using dis x by simp
  moreover have "set (acc @ [x]) \<inter> set (settle ready') = {}"
    using s' dr dis sr pos by auto
  moreover have "n \<in> set (acc @ [x] @ settle ready') \<longleftrightarrow> get_or 0 cnt' n = 0" if n: "n \<in> set N" for n
  proof (cases "n \<in> set (acc @ ready)")
    case True
    then have z: "get_or 0 cnt n = 0" using zero n by blast
    with le have "n \<notin> set (outs x)" by (force simp: count_list_0_iff)
    then have "get_or 0 cnt' n = 0" using z get_or_relax [OF relax] by (simp add: count_list_0_iff)
    moreover have "n \<in> set (acc @ [x] @ settle ready')" using True sr s' by auto
    ultimately show ?thesis by simp
  next
    case False
    then have nz: "get_or 0 cnt n \<noteq> 0" using zero n by blast
    have "n \<in> set (acc @ [x] @ settle ready') \<longleftrightarrow> n \<in> finished (outs x) cnt"
      using False sr s' by auto
    also have "\<dots> \<longleftrightarrow> get_or 0 cnt' n = 0"
      using get_or_relax [OF relax, of n] nz
      by (cases "n \<in> set (outs x)") (simp_all add: finished_def)
    finally show ?thesis .
  qed
  ultimately show ?thesis
    using topo preds cnt' by (simp add: invariant_def topological_snoc)
qed

lemma loop_invariant:
  assumes "\<And>m. m \<in> set N \<Longrightarrow> set (outs m) \<subseteq> set N"
  shows "invariant N ready cnt acc \<Longrightarrow> \<exists>cnt'. invariant N [] cnt' (loop ready cnt acc)"
proof (induction "work cnt ready" arbitrary: ready cnt acc rule: less_induct)
  case less
  show ?case
  proof (cases "ready = []")
    case True
    with less.prems show ?thesis by (auto simp: loop_empty)
  next
    case False
    obtain x rest where pick: "pick ready = (x, rest)" by fastforce
    obtain cnt' ready' where relax: "relax add (outs x) cnt rest = (cnt', ready')" by fastforce
    have "length (settle ready') = length ready'" by (metis settle_mset size_mset)
    moreover have "length ready = Suc (length rest)"
      using pick_mset [OF False pick] by (metis size_add_mset size_mset)
    ultimately have "work cnt' (settle ready') < work cnt ready"
      using work_relax [OF add_length relax] by (simp add: work_def)
    moreover have "invariant N (settle ready') cnt' (acc @ [x])"
      by (rule invariant_step [OF less.prems False assms pick relax])
    ultimately have "\<exists>c. invariant N [] c (loop (settle ready') cnt' (acc @ [x]))"
      by (rule less.hyps)
    then show ?thesis by (simp add: loop_step [OF False pick relax])
  qed
qed

text \<open>
  What a client starts from: the counters of the in-edges and the nodes whose counter is
  zero, in any order.
\<close>

lemma start_invariant:
  assumes "distinct N" and "\<And>n. n \<in> set N \<Longrightarrow> get_or 0 cnt n = in_count (set N) outs n"
    and "mset ready = mset (filter (\<lambda>n. get_or 0 cnt n = 0) N)"
  shows "invariant N ready cnt []"
proof -
  have "distinct ready"
    using assms(1,3) by (metis distinct_filter mset_eq_imp_distinct_iff)
  moreover have "set ready = set (filter (\<lambda>n. get_or 0 cnt n = 0) N)"
    using assms(3) by (metis set_mset_mset)
  ultimately show ?thesis using assms(2) by (auto simp: invariant_def)
qed

theorem loop_topological:
  assumes "distinct N" and "\<And>m. m \<in> set N \<Longrightarrow> set (outs m) \<subseteq> set N"
    and "\<And>n. n \<in> set N \<Longrightarrow> get_or 0 cnt n = in_count (set N) outs n"
    and "mset ready = mset (filter (\<lambda>n. get_or 0 cnt n = 0) N)"
  shows "distinct (loop ready cnt [])" and "set (loop ready cnt []) \<subseteq> set N"
    and "topological N outs (loop ready cnt [])"
    and "set (loop ready cnt []) = set N \<longleftrightarrow> acyclic (graph_edges N outs)"
proof -
  let ?ord = "loop ready cnt []"
  obtain c where inv: "invariant N [] c ?ord"
    using loop_invariant [OF assms(2) start_invariant] assms(1,3,4) by blast
  then show d: "distinct ?ord" and sub: "set ?ord \<subseteq> set N" and t: "topological N outs ?ord"
    by (auto simp: invariant_def)
  show "set ?ord = set N \<longleftrightarrow> acyclic (graph_edges N outs)"
  proof
    assume "set ?ord = set N"
    then show "acyclic (graph_edges N outs)" by (rule topological_acyclic [OF t d])
  next
    assume acyc: "acyclic (graph_edges N outs)"
    have "finite (graph_edges N outs)"
      by (rule finite_subset [of _ "set N \<times> set N"]) (auto simp: graph_edges_def)
    then have wf: "wf (graph_edges N outs)" using acyc by (rule finite_acyclic_wf)
    show "set ?ord = set N"
    proof (rule ccontr)
      assume "set ?ord \<noteq> set N"
      with sub obtain n0 where "n0 \<in> set N - set ?ord" by blast
      then obtain n where n: "n \<in> set N - set ?ord"
        and min: "\<And>m. (m, n) \<in> graph_edges N outs \<Longrightarrow> m \<notin> set N - set ?ord"
        using wfE_min [OF wf] by metis
      have "get_or 0 c n \<noteq> 0" using inv n by (auto simp: invariant_def)
      then have "in_count (set N - set ?ord) outs n \<noteq> 0"
        using inv n by (auto simp: invariant_def)
      then obtain m where "m \<in> set N - set ?ord" "n \<in> set (outs m)"
        using in_count_zero [of "set N - set ?ord" outs n] by auto
      with min [of m] n show False by (auto simp: graph_edges_def)
    qed
  qed
qed

lemma loop_length:
  assumes "distinct N" and "\<And>m. m \<in> set N \<Longrightarrow> set (outs m) \<subseteq> set N"
    and "\<And>n. n \<in> set N \<Longrightarrow> get_or 0 cnt n = in_count (set N) outs n"
    and "mset ready = mset (filter (\<lambda>n. get_or 0 cnt n = 0) N)"
  shows "length (loop ready cnt []) = length N \<longleftrightarrow> acyclic (graph_edges N outs)"
proof -
  note t = loop_topological [OF assms]
  have "length (loop ready cnt []) = card (set (loop ready cnt []))"
    using t(1) by (simp add: distinct_card)
  moreover have "length N = card (set N)" using assms(1) by (simp add: distinct_card)
  ultimately have "length (loop ready cnt []) = length N \<longleftrightarrow> set (loop ready cnt []) = set N"
    using t(2) by (metis List.finite_set card_subset_eq)
  with t(4) show ?thesis by simp
qed

end

end
