(* ===== verification/WorkflowPolicy.thy ===== *)
theory WorkflowPolicy
  imports GridView Worklist
begin

text \<open>
  Workflow graphs (\<open>packages/domain/src/workflow-policy.ts\<close>): nodes with typed ports, edges
  between handles, the structural validation every draft passes and the stricter one a
  published graph passes. Both validators return the list of issues the schema library
  would collect; a graph is accepted when the list is empty.
\<close>

section \<open>Graphs\<close>

datatype workflow_node_kind =
    Trigger_table_rows
  | Action_enrich_column
  | Logic_filter
  | Destination_write_table
  | Destination_send_webhook

datatype bulk_run_mode = Pending | All

record column_mapping =
  sourceColumnId :: jsstr
  targetColumnId :: jsstr

datatype configuration =
    TableRows "jsstr option" jsstr "jsstr option"
  | EnrichColumn jsstr bulk_run_mode
  | FilterRows filter_group
  | WriteTable "column_mapping list" jsstr
  | SendWebhook jsstr

fun kind_of :: "configuration \<Rightarrow> workflow_node_kind" where
  "kind_of (TableRows _ _ _) = Trigger_table_rows"
| "kind_of (EnrichColumn _ _) = Action_enrich_column"
| "kind_of (FilterRows _) = Logic_filter"
| "kind_of (WriteTable _ _) = Destination_write_table"
| "kind_of (SendWebhook _) = Destination_send_webhook"

fun kind_name :: "workflow_node_kind \<Rightarrow> jsstr" where
  "kind_name Trigger_table_rows = js ''trigger.table_rows''"
| "kind_name Action_enrich_column = js ''action.enrich_column''"
| "kind_name Logic_filter = js ''logic.filter''"
| "kind_name Destination_write_table = js ''destination.write_table''"
| "kind_name Destination_send_webhook = js ''destination.send_webhook''"

record workflow_node =
  node_id :: jsstr
  node_name :: jsstr
  position :: "rat \<times> rat"
  configuration :: configuration

definition node_kind :: "workflow_node \<Rightarrow> workflow_node_kind" where
  "node_kind n = kind_of (configuration n)"

record workflow_edge =
  edge_id :: jsstr
  sourceHandle :: jsstr
  sourceNodeId :: jsstr
  targetHandle :: jsstr
  targetNodeId :: jsstr

record workflow_graph =
  edges :: "workflow_edge list"
  nodes :: "workflow_node list"
  viewport :: "rat \<times> rat \<times> rat"

section \<open>The shape of a graph\<close>

definition MAXIMUM_WORKFLOW_NODES :: nat where
  "MAXIMUM_WORKFLOW_NODES = 100"

definition MAXIMUM_WORKFLOW_EDGES :: nat where
  "MAXIMUM_WORKFLOW_EDGES = 200"

text \<open>\<open>workflowNameSchema\<close>: trimmed, normalised, then 1 to 80 code units.\<close>

definition workflowName :: "host \<Rightarrow> jsstr \<Rightarrow> jsstr option" where
  "workflowName h value =
     (let name = nfkc h (trim value) in if 1 \<le> length name \<and> length name \<le> 80 then Some name else None)"

text \<open>
  \<open>gridSearchQuerySchema\<close>: normalised, trimmed, each run of white space one blank, then 3 to
  120 code units.
\<close>

fun collapse_spaces :: "jsstr \<Rightarrow> jsstr" where
  "collapse_spaces [] = []"
| "collapse_spaces (c # s) =
     (if is_space c then 32 # (case s of
          d # _ \<Rightarrow> if is_space d then tl (collapse_spaces s) else collapse_spaces s
        | [] \<Rightarrow> [])
      else c # collapse_spaces s)"

definition gridSearchQuery :: "host \<Rightarrow> jsstr \<Rightarrow> jsstr option" where
  "gridSearchQuery h value =
     (let query = collapse_spaces (trim (nfkc h value))
      in if 3 \<le> length query \<and> length query \<le> 120 then Some query else None)"

text \<open>The normal form of a search query is stable.\<close>

definition single_spaced :: "jsstr \<Rightarrow> bool" where
  "single_spaced s \<longleftrightarrow> (\<forall>c \<in> set s. is_space c \<longrightarrow> c = 32) \<and> successively (\<lambda>c d. \<not> (is_space c \<and> is_space d)) s"

lemma is_space_32 [simp]: "is_space 32" by (simp add: is_space_def)

lemma collapse_id: "single_spaced s \<Longrightarrow> collapse_spaces s = s"
proof (induction s)
  case Nil
  then show ?case by simp
next
  case (Cons c s)
  have IH: "collapse_spaces s = s" using Cons by (cases s) (simp_all add: single_spaced_def)
  show ?case
  proof (cases s)
    case Nil
    then show ?thesis using Cons.prems by (simp add: single_spaced_def)
  next
    case (Cons d r)
    then have "is_space c \<Longrightarrow> c = 32 \<and> \<not> is_space d" using Cons.prems by (simp add: single_spaced_def)
    then show ?thesis using IH Cons by (simp del: collapse_spaces.simps add: collapse_spaces.simps(2) [of c])
  qed
qed

lemma collapse_hd: "s \<noteq> [] \<Longrightarrow> collapse_spaces s \<noteq> [] \<and> hd (collapse_spaces s) = (if is_space (hd s) then 32 else hd s)"
  by (cases s) auto

lemma collapse_single: "single_spaced (collapse_spaces s)"
proof (induction s rule: collapse_spaces.induct)
  case 1
  then show ?case by (simp add: single_spaced_def)
next
  case (2 c s)
  show ?case
  proof (cases s)
    case Nil
    then show ?thesis by (auto simp: single_spaced_def)
  next
    case (Cons d r)
    have ne: "collapse_spaces s \<noteq> []" and hd: "hd (collapse_spaces s) = (if is_space d then 32 else d)"
      using collapse_hd [of s] Cons by auto
    show ?thesis
    proof (cases "is_space c")
      case True
      then show ?thesis
      proof (cases "is_space d")
        case True
        obtain t where "collapse_spaces s = 32 # t" using ne hd True by (cases "collapse_spaces s") auto
        then show ?thesis using 2 \<open>is_space c\<close> True Cons by simp
      next
        case False
        then have "collapse_spaces (c # s) = 32 # collapse_spaces s" using \<open>is_space c\<close> Cons by simp
        then show ?thesis using 2 \<open>is_space c\<close> False Cons hd ne
          by (auto simp: single_spaced_def successively_Cons)
      qed
    next
      case False
      then show ?thesis using 2 by (auto simp: single_spaced_def successively_Cons)
    qed
  qed
qed

lemma collapse_last: "s \<noteq> [] \<Longrightarrow> \<not> is_space (last s) \<Longrightarrow> last (collapse_spaces s) = last s"
proof (induction s rule: collapse_spaces.induct)
  case (2 c s)
  show ?case
  proof (cases s)
    case (Cons d r)
    have ne: "collapse_spaces s \<noteq> []" and hd: "hd (collapse_spaces s) = (if is_space d then 32 else d)"
      using collapse_hd [of s] Cons by auto
    have l: "last (collapse_spaces s) = last s" using 2 Cons by (cases "is_space c"; cases "is_space d") auto
    show ?thesis
    proof (cases "is_space c \<and> is_space d")
      case True
      then obtain t where t: "collapse_spaces s = 32 # t" using ne hd by (cases "collapse_spaces s") auto
      have "t \<noteq> []"
      proof
        assume "t = []"
        then have "last s = 32" using l t by simp
        then show False using "2.prems"(2) Cons by simp
      qed
      then show ?thesis using True l t Cons by simp
    next
      case False
      then have "collapse_spaces (c # s) = (if is_space c then 32 else c) # collapse_spaces s"
        using Cons by auto
      then show ?thesis using l ne Cons by simp
    qed
  qed (use 2 in auto)
qed simp

lemma collapse_trimmed: "trim (collapse_spaces (trim s)) = collapse_spaces (trim s)"
proof (cases "trim s = []")
  case True
  then show ?thesis by simp
next
  case False
  have "hd (collapse_spaces (trim s)) = hd (trim s)" "collapse_spaces (trim s) \<noteq> []"
    using collapse_hd [OF False] trim_ends(1) [OF False] by auto
  then show ?thesis
    using trim_ends [OF False] collapse_last [OF False] by (intro trim_id) auto
qed

text \<open>\<open>/^[a-z][a-z0-9_]{0,31}$/\<close>.\<close>

definition is_handle :: "jsstr \<Rightarrow> bool" where
  "is_handle s = (case s of
       c # r \<Rightarrow> is_lower c \<and> length r \<le> 31 \<and> list_all (\<lambda>d. is_lower d \<or> is_digit d \<or> d = 95) r
     | [] \<Rightarrow> False)"

definition position_ok :: "rat \<times> rat \<Rightarrow> bool" where
  "position_ok p \<longleftrightarrow> \<bar>fst p\<bar> \<le> 1000000 \<and> \<bar>snd p\<bar> \<le> 1000000"

fun configuration_ok :: "host \<Rightarrow> configuration \<Rightarrow> bool" where
  "configuration_ok h (TableRows query table view) =
     (if_present (\<lambda>q. gridSearchQuery h q \<noteq> None) query \<and> valid_uuid h table
      \<and> if_present (valid_uuid h) view)"
| "configuration_ok h (EnrichColumn column mode) = valid_uuid h column"
| "configuration_ok h (FilterRows tree) = gridViewFilterTree h tree"
| "configuration_ok h (WriteTable mappings table) =
     (1 \<le> length mappings \<and> length mappings \<le> 256
      \<and> list_all (\<lambda>m. valid_uuid h (sourceColumnId m) \<and> valid_uuid h (targetColumnId m)) mappings
      \<and> valid_uuid h table)"
| "configuration_ok h (SendWebhook destination) = valid_uuid h destination"

definition node_ok :: "host \<Rightarrow> workflow_node \<Rightarrow> bool" where
  "node_ok h n \<longleftrightarrow> valid_uuid h (node_id n) \<and> workflowName h (node_name n) \<noteq> None
     \<and> position_ok (position n) \<and> configuration_ok h (configuration n)"

definition edge_shape_ok :: "host \<Rightarrow> workflow_edge \<Rightarrow> bool" where
  "edge_shape_ok h e \<longleftrightarrow> valid_uuid h (edge_id e) \<and> is_handle (sourceHandle e)
     \<and> valid_uuid h (sourceNodeId e) \<and> is_handle (targetHandle e) \<and> valid_uuid h (targetNodeId e)"

definition workflowGraphShape :: "host \<Rightarrow> workflow_graph \<Rightarrow> bool" where
  "workflowGraphShape h g \<longleftrightarrow>
     length (edges g) \<le> MAXIMUM_WORKFLOW_EDGES \<and> list_all (edge_shape_ok h) (edges g)
     \<and> length (nodes g) \<le> MAXIMUM_WORKFLOW_NODES \<and> list_all (node_ok h) (nodes g)
     \<and> (case viewport g of (x, y, zoom) \<Rightarrow> 1 / 10 \<le> zoom \<and> zoom \<le> 4)"

text \<open>
  What parsing returns for a graph of this shape: the names and the search queries are
  replaced by their normal forms, everything else is kept.
\<close>

fun parsed_configuration :: "host \<Rightarrow> configuration \<Rightarrow> configuration" where
  "parsed_configuration h (TableRows (Some query) table view) = TableRows (gridSearchQuery h query) table view"
| "parsed_configuration h c = c"

definition parsed_node :: "host \<Rightarrow> workflow_node \<Rightarrow> workflow_node" where
  "parsed_node h n =
     n\<lparr>node_name := (case workflowName h (node_name n) of Some name \<Rightarrow> name | None \<Rightarrow> node_name n),
       configuration := parsed_configuration h (configuration n)\<rparr>"

definition parsed_graph :: "host \<Rightarrow> workflow_graph \<Rightarrow> workflow_graph" where
  "parsed_graph h g = g\<lparr>nodes := map (parsed_node h) (nodes g)\<rparr>"

section \<open>Ports\<close>

datatype port_type = Rows

record workflow_port =
  port_id :: jsstr
  port_type :: port_type

record node_ports =
  inputs :: "workflow_port list"
  outputs :: "workflow_port list"

definition rows_port :: "string \<Rightarrow> workflow_port" where
  "rows_port name = \<lparr>port_id = js name, port_type = Rows\<rparr>"

fun workflowNodePorts :: "workflow_node_kind \<Rightarrow> node_ports" where
  "workflowNodePorts Trigger_table_rows = \<lparr>inputs = [], outputs = [rows_port ''rows'']\<rparr>"
| "workflowNodePorts Action_enrich_column =
     \<lparr>inputs = [rows_port ''rows''], outputs = [rows_port ''rows'']\<rparr>"
| "workflowNodePorts Logic_filter =
     \<lparr>inputs = [rows_port ''rows''], outputs = [rows_port ''matched'', rows_port ''rejected'']\<rparr>"
| "workflowNodePorts Destination_write_table = \<lparr>inputs = [rows_port ''rows''], outputs = []\<rparr>"
| "workflowNodePorts Destination_send_webhook = \<lparr>inputs = [rows_port ''rows''], outputs = []\<rparr>"

section \<open>The structural validation\<close>

datatype workflow_issue =
    DuplicateNodeId nat
  | DuplicateEdgeId nat
  | MissingEndpoint nat
  | SelfConnection nat
  | IncompatiblePorts nat
  | OccupiedInput nat
  | WorkflowCycle
  | MissingTrigger
  | MissingDestination
  | MissingInput nat
  | UnreachableNode

fun scan_nodes :: "nat \<Rightarrow> workflow_node list \<Rightarrow> (jsstr \<times> workflow_node) list
    \<Rightarrow> workflow_issue list \<times> (jsstr \<times> workflow_node) list" where
  "scan_nodes i [] byId = ([], byId)"
| "scan_nodes i (n # ns) byId =
     (let issue = (if map_of byId (node_id n) \<noteq> None then [DuplicateNodeId i] else []);
          (issues, byId') = scan_nodes (Suc i) ns (AList.update (node_id n) n byId)
      in (issue @ issues, byId'))"

record edge_scan =
  edgeIds :: "jsstr list"
  occupiedInputs :: "jsstr list"
  outgoing :: "(jsstr \<times> jsstr list) list"
  incomingCount :: "(jsstr \<times> int) list"
  scan_issues :: "workflow_issue list"

definition find_port :: "jsstr \<Rightarrow> workflow_port list \<Rightarrow> workflow_port option" where
  "find_port handle ports = find (\<lambda>p. port_id p = handle) ports"

definition add_issue :: "workflow_issue \<Rightarrow> edge_scan \<Rightarrow> edge_scan" where
  "add_issue i st = st\<lparr>scan_issues := scan_issues st @ [i]\<rparr>"

text \<open>One turn of the loop over the edges; \<open>continue\<close> ends the turn early.\<close>

definition scan_edge :: "(jsstr \<times> workflow_node) list \<Rightarrow> nat \<Rightarrow> workflow_edge \<Rightarrow> edge_scan \<Rightarrow> edge_scan" where
  "scan_edge byId i edge st =
     (let st = (if edge_id edge \<in> set (edgeIds st) then add_issue (DuplicateEdgeId i) st else st);
          st = st\<lparr>edgeIds := set_add (edge_id edge) (edgeIds st)\<rparr>
      in case (map_of byId (sourceNodeId edge), map_of byId (targetNodeId edge)) of
           (Some source, Some target) \<Rightarrow>
             if node_id source = node_id target then add_issue (SelfConnection i) st
             else (case (find_port (sourceHandle edge) (outputs (workflowNodePorts (node_kind source))),
                         find_port (targetHandle edge) (inputs (workflowNodePorts (node_kind target)))) of
                     (Some sourcePort, Some targetPort) \<Rightarrow>
                       if port_type sourcePort \<noteq> port_type targetPort then add_issue (IncompatiblePorts i) st
                       else let inputKey = node_id target @ [58] @ port_id targetPort;
                                st = (if inputKey \<in> set (occupiedInputs st)
                                      then add_issue (OccupiedInput i) st else st)
                            in st\<lparr>occupiedInputs := set_add inputKey (occupiedInputs st),
                                  outgoing := AList.update (node_id source)
                                    (get_or [] (outgoing st) (node_id source) @ [node_id target]) (outgoing st),
                                  incomingCount := AList.update (node_id target)
                                    (get_or 0 (incomingCount st) (node_id target) + 1) (incomingCount st)\<rparr>
                   | _ \<Rightarrow> add_issue (IncompatiblePorts i) st)
         | _ \<Rightarrow> add_issue (MissingEndpoint i) st)"

fun scan_edges :: "(jsstr \<times> workflow_node) list \<Rightarrow> nat \<Rightarrow> workflow_edge list \<Rightarrow> edge_scan \<Rightarrow> edge_scan" where
  "scan_edges byId i [] st = st"
| "scan_edges byId i (e # es) st = scan_edges byId (Suc i) es (scan_edge byId i e st)"

definition start_scan :: "workflow_node list \<Rightarrow> edge_scan" where
  "start_scan ns =
     \<lparr>edgeIds = [], occupiedInputs = [], outgoing = [],
      incomingCount = map_from (map (\<lambda>n. (node_id n, 0)) ns), scan_issues = []\<rparr>"

text \<open>
  The cycle check pops a stack of nodes without remaining in-edges. The code counts the
  visited nodes; the model keeps them, so that the count is the length.
\<close>

function acyclic_visit :: "(jsstr \<times> jsstr list) list \<Rightarrow> jsstr list \<Rightarrow> (jsstr \<times> int) list
    \<Rightarrow> jsstr list \<Rightarrow> jsstr list" where
  "acyclic_visit out queue remaining visited =
     (if queue = [] then visited
      else let nodeId = last queue;
               (remaining', queue') =
                 relax (\<lambda>t q. q @ [t]) (get_or [] out nodeId) remaining (butlast queue)
           in acyclic_visit out queue' remaining' (visited @ [nodeId]))"
  by pat_completeness auto
termination
proof (relation "measure (\<lambda>(out, queue, remaining, visited). work remaining queue)", goal_cases)
  case 1
  then show ?case by simp
next
  case (2 out queue remaining visited nodeId p remaining' queue')
  then have "work remaining' queue' \<le> work remaining (butlast queue)"
    by (intro work_relax [where add = "\<lambda>t q. q @ [t]"]) auto
  also have "\<dots> < work remaining queue" using 2 by (simp add: work_def)
  finally show ?case by simp
qed

declare acyclic_visit.simps [simp del]

definition validateWorkflowGraphStructure :: "workflow_graph \<Rightarrow> workflow_issue list" where
  "validateWorkflowGraphStructure g =
     (let (nodeIssues, nodesById) = scan_nodes 0 (nodes g) [];
          st = scan_edges nodesById 0 (edges g) (start_scan (nodes g));
          queue = map node_id (filter (\<lambda>n. get_or 0 (incomingCount st) (node_id n) = 0) (nodes g));
          visited = acyclic_visit (outgoing st) queue (incomingCount st) []
      in nodeIssues @ scan_issues st
         @ (if length visited \<noteq> length (nodes g) then [WorkflowCycle] else []))"

section \<open>The validation for publishing\<close>

definition link_edges :: "(jsstr \<times> workflow_node) list \<Rightarrow> workflow_edge list \<Rightarrow> workflow_edge list" where
  "link_edges byId es =
     filter (\<lambda>e. map_of byId (sourceNodeId e) \<noteq> None \<and> map_of byId (targetNodeId e) \<noteq> None) es"

fun collect_links :: "workflow_edge list \<Rightarrow> (jsstr \<times> jsstr list) list \<Rightarrow> (jsstr \<times> int) list
    \<Rightarrow> (jsstr \<times> jsstr list) list \<times> (jsstr \<times> int) list" where
  "collect_links [] out cnt = (out, cnt)"
| "collect_links (e # es) out cnt =
     collect_links es
       (AList.update (sourceNodeId e) (get_or [] out (sourceNodeId e) @ [targetNodeId e]) out)
       (AList.update (targetNodeId e) (get_or 0 cnt (targetNodeId e) + 1) cnt)"

text \<open>The depth-first search from the triggers, with its stack of pending nodes.\<close>

definition unseen :: "(jsstr \<times> jsstr list) list \<Rightarrow> jsstr list \<Rightarrow> jsstr list \<Rightarrow> jsstr set" where
  "unseen out pending reachable = (set pending \<union> \<Union> (set ` snd ` set out)) - set reachable"

lemma finite_unseen [simp]: "finite (unseen out pending reachable)"
  by (simp add: unseen_def)

function reach_visit :: "(jsstr \<times> jsstr list) list \<Rightarrow> jsstr list \<Rightarrow> jsstr list \<Rightarrow> jsstr list" where
  "reach_visit out pending reachable =
     (if pending = [] then reachable
      else let nodeId = last pending; rest = butlast pending
           in if nodeId \<in> set reachable then reach_visit out rest reachable
              else reach_visit out (rest @ get_or [] out nodeId) (set_add nodeId reachable))"
  by pat_completeness auto
termination
proof (relation "measures [\<lambda>(out, pending, reachable). card (unseen out pending reachable),
    \<lambda>(out, pending, reachable). length pending]", goal_cases)
  case 1
  then show ?case by simp
next
  case (2 out pending reachable nodeId rest)
  then have "unseen out rest reachable \<subseteq> unseen out pending reachable"
    by (auto simp: unseen_def dest: in_set_butlastD)
  then have "card (unseen out rest reachable) \<le> card (unseen out pending reachable)"
    by (rule card_mono [OF finite_unseen])
  moreover have "length rest < length pending" using 2 by (cases pending) auto
  ultimately show ?case by auto
next
  case (3 out pending reachable nodeId rest)
  then have "unseen out (rest @ get_or [] out nodeId) (set_add nodeId reachable)
      \<subset> unseen out pending reachable"
    using get_or_targets [of out nodeId] by (auto simp: unseen_def dest: in_set_butlastD)
  then have "card (unseen out (rest @ get_or [] out nodeId) (set_add nodeId reachable))
      < card (unseen out pending reachable)"
    by (rule psubset_card_mono [OF finite_unseen])
  then show ?case by simp
qed

declare reach_visit.simps [simp del]

definition is_destination :: "workflow_node_kind \<Rightarrow> bool" where
  "is_destination k \<longleftrightarrow> strip_prefix (js ''destination.'') (kind_name k) \<noteq> None"

fun missing_inputs :: "(jsstr \<times> int) list \<Rightarrow> nat \<Rightarrow> workflow_node list \<Rightarrow> workflow_issue list" where
  "missing_inputs cnt i [] = []"
| "missing_inputs cnt i (n # ns) =
     (if node_kind n \<noteq> Trigger_table_rows \<and> get_or 0 cnt (node_id n) = 0 then [MissingInput i] else [])
     @ missing_inputs cnt (Suc i) ns"

definition validatePublishableWorkflowGraph :: "workflow_graph \<Rightarrow> workflow_issue list" where
  "validatePublishableWorkflowGraph g =
     (let nodesById = map_from (map (\<lambda>n. (node_id n, n)) (nodes g));
          (out, cnt) = collect_links (link_edges nodesById (edges g)) []
                         (map_from (map (\<lambda>n. (node_id n, 0)) (nodes g)));
          triggers = filter (\<lambda>n. node_kind n = Trigger_table_rows) (nodes g);
          destinations = filter (\<lambda>n. is_destination (node_kind n)) (nodes g);
          reachable = reach_visit out (map node_id triggers) []
      in (if triggers = [] then [MissingTrigger] else [])
         @ (if destinations = [] then [MissingDestination] else [])
         @ missing_inputs cnt 0 (nodes g)
         @ (if length reachable \<noteq> length (nodes g) then [UnreachableNode] else []))"

definition workflowDraftGraph :: "host \<Rightarrow> workflow_graph \<Rightarrow> bool" where
  "workflowDraftGraph h g \<longleftrightarrow> workflowGraphShape h g \<and> validateWorkflowGraphStructure g = []"

definition workflowGraph :: "host \<Rightarrow> workflow_graph \<Rightarrow> bool" where
  "workflowGraph h g \<longleftrightarrow> workflowGraphShape h g
     \<and> validateWorkflowGraphStructure g @ validatePublishableWorkflowGraph g = []"

end
