(* ===== verification/WorkflowGraphs.thy ===== *)
theory WorkflowGraphs
  imports WorkflowPolicy
begin

text \<open>
  What the two validators of \<open>WorkflowPolicy\<close> decide: a draft has unique identifiers, edges
  between compatible ports, at most one edge into each node, and no cycle; a publishable
  graph moreover has a trigger, a destination, and every node is fed by a trigger.
\<close>

section \<open>Node lookup\<close>

definition node_at :: "workflow_node list \<Rightarrow> jsstr \<Rightarrow> workflow_node option" where
  "node_at ns k =
     (if k \<in> node_id ` set ns then Some (last (filter (\<lambda>n. node_id n = k) ns)) else None)"

lemma filter_id_empty: "k \<notin> node_id ` set ns \<Longrightarrow> filter (\<lambda>n. node_id n = k) ns = []"
  by (auto simp: filter_empty_conv)

lemma filter_id_nonempty: "k \<in> node_id ` set ns \<Longrightarrow> filter (\<lambda>n. node_id n = k) ns \<noteq> []"
  by (auto simp: filter_empty_conv)

lemma node_at_Cons:
  "node_at (n # ns) k = (if k \<in> node_id ` set ns then node_at ns k
     else if k = node_id n then Some n else None)"
  by (auto simp: node_at_def filter_id_empty filter_id_nonempty)

lemma node_at_Some:
  assumes "node_at ns k = Some n"
  shows "n \<in> set ns" and "node_id n = k"
proof -
  from assms have "k \<in> node_id ` set ns" and n: "n = last (filter (\<lambda>n. node_id n = k) ns)"
    by (auto simp: node_at_def split: if_splits)
  then have "n \<in> set (filter (\<lambda>n. node_id n = k) ns)"
    using last_in_set [OF filter_id_nonempty] by blast
  then show "n \<in> set ns" "node_id n = k" by auto
qed

lemma node_at_None: "node_at ns k = None \<longleftrightarrow> k \<notin> node_id ` set ns"
  by (simp add: node_at_def)

lemma node_at_mem: "node_at ns k = Some n \<Longrightarrow> k \<in> node_id ` set ns"
  by (metis node_at_None option.distinct(1))

lemma node_at_outside [simp]: "k \<notin> node_id ` set ns \<Longrightarrow> node_at ns k = None"
  by (simp add: node_at_None)

lemma node_at_inside:
  assumes "k \<in> node_id ` set ns"
  obtains n where "node_at ns k = Some n" "n \<in> set ns" "node_id n = k"
  using assms node_at_None node_at_Some by (metis not_None_eq)

lemma node_at_distinct:
  assumes "distinct (map node_id ns)"
  shows "node_at ns k = Some n \<longleftrightarrow> n \<in> set ns \<and> node_id n = k"
proof
  assume n: "n \<in> set ns \<and> node_id n = k"
  then obtain m where m: "node_at ns k = Some m" "m \<in> set ns" "node_id m = k"
    using node_at_inside [of k ns] by blast
  with n assms have "m = n" by (auto simp: distinct_map dest: inj_onD)
  with m show "node_at ns k = Some n" by simp
qed (auto dest: node_at_Some)

lemma scan_nodes_snd: "snd (scan_nodes i (n # ns) byId) = snd (scan_nodes (Suc i) ns (AList.update (node_id n) n byId))"
  by (simp split: prod.splits)

lemma scan_nodes_lookup:
  "map_of (snd (scan_nodes i ns byId)) k =
     (case node_at ns k of Some n \<Rightarrow> Some n | None \<Rightarrow> map_of byId k)"
proof (induction ns arbitrary: i byId)
  case (Cons n ns)
  show ?case
  proof (cases "k \<in> node_id ` set ns")
    case True
    then obtain m where "node_at ns k = Some m" by (rule node_at_inside)
    with True show ?thesis by (simp add: scan_nodes_snd Cons.IH node_at_Cons del: scan_nodes.simps)
  next
    case False
    then show ?thesis
      by (simp add: scan_nodes_snd Cons.IH node_at_Cons update_conv' del: scan_nodes.simps)
  qed
qed simp

lemma scan_nodes_issues:
  "fst (scan_nodes i ns byId) = [] \<longleftrightarrow>
     distinct (map node_id ns) \<and> (\<forall>n \<in> set ns. map_of byId (node_id n) = None)"
proof (induction ns arbitrary: i byId)
  case (Cons n ns)
  have "fst (scan_nodes i (n # ns) byId) = [] \<longleftrightarrow> map_of byId (node_id n) = None
      \<and> fst (scan_nodes (Suc i) ns (AList.update (node_id n) n byId)) = []"
    by (simp split: prod.splits)
  then show ?case unfolding Cons.IH by (auto simp: update_conv' image_iff split: if_splits)
qed simp

lemma map_of_fold_update:
  fixes ns :: "workflow_node list"
  shows "map_of (fold (\<lambda>(k, v) m. AList.update k v m) (map (\<lambda>n. (node_id n, f n)) ns) m) k =
     (case node_at ns k of Some n \<Rightarrow> Some (f n) | None \<Rightarrow> map_of m k)"
proof (induction ns arbitrary: m)
  case (Cons n ns)
  show ?case
  proof (cases "k \<in> node_id ` set ns")
    case True
    then obtain m' where "node_at ns k = Some m'" by (rule node_at_inside)
    with True show ?thesis by (simp add: Cons.IH node_at_Cons)
  next
    case False
    then show ?thesis by (simp add: Cons.IH node_at_Cons update_conv')
  qed
qed simp

lemma map_of_map_from:
  fixes ns :: "workflow_node list"
  shows "map_of (map_from (map (\<lambda>n. (node_id n, f n)) ns)) k = map_option f (node_at ns k)"
  by (simp add: map_from_def map_of_fold_update split: option.splits)

lemma get_or_zeros [simp]:
  fixes ns :: "workflow_node list"
  shows "get_or 0 (map_from (map (\<lambda>n. (node_id n, 0)) ns)) k = (0::int)"
  using map_of_map_from [of "\<lambda>_. 0 :: int" ns k] by (cases "node_at ns k") (simp_all add: get_or_def)

section \<open>The scan of the edges\<close>

definition connects :: "workflow_node list \<Rightarrow> workflow_edge \<Rightarrow> bool" where
  "connects ns e \<longleftrightarrow>
     (case (node_at ns (sourceNodeId e), node_at ns (targetNodeId e)) of
        (Some s, Some t) \<Rightarrow>
          sourceNodeId e \<noteq> targetNodeId e
          \<and> (case (find_port (sourceHandle e) (outputs (workflowNodePorts (node_kind s))),
                   find_port (targetHandle e) (inputs (workflowNodePorts (node_kind t)))) of
               (Some p, Some q) \<Rightarrow> port_type p = port_type q
             | _ \<Rightarrow> False)
      | _ \<Rightarrow> False)"

definition input_key :: "workflow_edge \<Rightarrow> jsstr" where
  "input_key e = targetNodeId e @ [58] @ targetHandle e"

lemma find_port_Some: "find_port hnd ports = Some p \<Longrightarrow> p \<in> set ports \<and> port_id p = hnd"
  by (auto simp: find_port_def find_Some_iff)

lemma scan_edge_issues_mono: "scan_issues (scan_edge byId i e st) = [] \<Longrightarrow> scan_issues st = []"
  by (auto simp: scan_edge_def Let_def add_issue_def split: option.splits if_splits)

lemma scan_edge_rejects:
  assumes "map_of byId = node_at ns" and "\<not> connects ns e"
  shows "outgoing (scan_edge byId i e st) = outgoing st"
    and "incomingCount (scan_edge byId i e st) = incomingCount st"
    and "scan_issues (scan_edge byId i e st) \<noteq> []"
  using assms(2)
  by (auto simp: scan_edge_def connects_def assms(1) Let_def add_issue_def
      dest!: node_at_Some(2) split: option.splits if_splits)

lemma scan_edge_accepts:
  assumes "map_of byId = node_at ns" and "connects ns e"
  shows "scan_edge byId i e st =
    st\<lparr>edgeIds := set_add (edge_id e) (edgeIds st),
       occupiedInputs := set_add (input_key e) (occupiedInputs st),
       outgoing := AList.update (sourceNodeId e)
         (get_or [] (outgoing st) (sourceNodeId e) @ [targetNodeId e]) (outgoing st),
       incomingCount := AList.update (targetNodeId e)
         (get_or 0 (incomingCount st) (targetNodeId e) + 1) (incomingCount st),
       scan_issues := scan_issues st
         @ (if edge_id e \<in> set (edgeIds st) then [DuplicateEdgeId i] else [])
         @ (if input_key e \<in> set (occupiedInputs st) then [OccupiedInput i] else [])\<rparr>"
proof -
  obtain s t p q where s: "node_at ns (sourceNodeId e) = Some s" "node_id s = sourceNodeId e"
    and t: "node_at ns (targetNodeId e) = Some t" "node_id t = targetNodeId e"
    and ne: "sourceNodeId e \<noteq> targetNodeId e"
    and p: "find_port (sourceHandle e) (outputs (workflowNodePorts (node_kind s))) = Some p"
    and q: "find_port (targetHandle e) (inputs (workflowNodePorts (node_kind t))) = Some q"
      "port_id q = targetHandle e"
    and pq: "port_type p = port_type q"
  proof -
    from assms(2) obtain s t where s: "node_at ns (sourceNodeId e) = Some s"
      and t: "node_at ns (targetNodeId e) = Some t"
      by (auto simp: connects_def split: option.splits)
    with assms(2) obtain p q where
      "find_port (sourceHandle e) (outputs (workflowNodePorts (node_kind s))) = Some p"
      "find_port (targetHandle e) (inputs (workflowNodePorts (node_kind t))) = Some q"
      "sourceNodeId e \<noteq> targetNodeId e" "port_type p = port_type q"
      by (auto simp: connects_def split: option.splits)
    then show ?thesis
      using that s t node_at_Some(2) [OF s] node_at_Some(2) [OF t] find_port_Some by blast
  qed
  show ?thesis
    by (simp add: scan_edge_def assms(1) s t ne p q pq Let_def input_key_def add_issue_def)
qed

lemma scan_edges_spec:
  assumes "map_of byId = node_at ns"
  shows "get_or [] (outgoing (scan_edges byId i es st)) n =
      get_or [] (outgoing st) n @ map targetNodeId (filter (\<lambda>e. connects ns e \<and> sourceNodeId e = n) es)"
    and "get_or 0 (incomingCount (scan_edges byId i es st)) n =
      get_or 0 (incomingCount st) n + int (length (filter (\<lambda>e. connects ns e \<and> targetNodeId e = n) es))"
proof (induction es arbitrary: i st)
  case (Cons e es)
  {
    case 1
    then show ?case
      by (cases "connects ns e") (simp_all add: Cons scan_edge_accepts [OF assms] scan_edge_rejects [OF assms])
  next
    case 2
    then show ?case
      by (cases "connects ns e") (simp_all add: Cons scan_edge_accepts [OF assms] scan_edge_rejects [OF assms])
  }
qed simp_all

lemma scan_edges_issues_mono: "scan_issues (scan_edges byId i es st) = [] \<Longrightarrow> scan_issues st = []"
  by (induction es arbitrary: i st) (auto dest: scan_edge_issues_mono)

lemma scan_edges_issues:
  assumes "map_of byId = node_at ns"
  shows "scan_issues (scan_edges byId i es st) = [] \<longleftrightarrow>
     scan_issues st = [] \<and> (\<forall>e \<in> set es. connects ns e)
     \<and> distinct (map edge_id es) \<and> edge_id ` set es \<inter> set (edgeIds st) = {}
     \<and> distinct (map input_key es) \<and> input_key ` set es \<inter> set (occupiedInputs st) = {}"
proof (induction es arbitrary: i st)
  case Nil
  then show ?case by simp
next
  case (Cons e es)
  show ?case
  proof (cases "connects ns e")
    case True
    show ?thesis
      by (simp add: Cons.IH scan_edge_accepts [OF assms True]) (use True in auto)
  next
    case False
    then show ?thesis
      using scan_edge_rejects(3) [OF assms False, of i st] by (auto dest: scan_edges_issues_mono)
  qed
qed

section \<open>The cycle check\<close>

interpretation acyclic_loop: kahn_loop
  "acyclic_visit out" "\<lambda>n. get_or [] out n" "\<lambda>q. (last q, butlast q)" "\<lambda>t q. q @ [t]" "\<lambda>q. q"
  for out
proof (unfold_locales, goal_cases)
  case (1 cnt acc)
  show ?case by (subst acyclic_visit.simps) simp
next
  case (2 ready x rest cnt cnt' ready' acc)
  then show ?case by (subst acyclic_visit.simps) (auto simp: Let_def)
next
  case (3 ready x rest)
  have "mset (butlast ready @ [last ready]) = add_mset (last ready) (mset (butlast ready))"
    by (simp only: mset_append mset.simps union_mset_add_mset_right add_0_right)
  with 3 append_butlast_last_id [OF 3(1)] show ?case by (metis prod.inject)
qed simp_all

lemma count_links:
  assumes "finite S"
  shows "(\<Sum>m\<in>S. int (count_list (map f (filter (\<lambda>e. P e \<and> src e = m) es)) n)) =
     int (length (filter (\<lambda>e. P e \<and> src e \<in> S \<and> f e = n) es))"
proof (induction es)
  case Nil
  then show ?case by simp
next
  case (Cons e es)
  have one: "int (count_list (map f (filter (\<lambda>e. P e \<and> src e = m) (e # es))) n) =
      (if P e \<and> src e = m \<and> f e = n then 1 else 0)
      + int (count_list (map f (filter (\<lambda>e. P e \<and> src e = m) es)) n)" for m
    by simp
  have "(\<Sum>m\<in>S. if P e \<and> src e = m \<and> f e = n then 1 else 0) =
      (if P e \<and> src e \<in> S \<and> f e = n then 1 else (0::int))"
    using assms by (cases "P e \<and> f e = n") (auto simp: sum.delta')
  then show ?case unfolding one sum.distrib Cons.IH by simp
qed

definition edge_rel :: "workflow_edge list \<Rightarrow> (jsstr \<times> jsstr) set" where
  "edge_rel es = (\<lambda>e. (sourceNodeId e, targetNodeId e)) ` set es"

definition well_structured :: "workflow_graph \<Rightarrow> bool" where
  "well_structured g \<longleftrightarrow>
     distinct (map node_id (nodes g)) \<and> distinct (map edge_id (edges g))
     \<and> (\<forall>e \<in> set (edges g). connects (nodes g) e)
     \<and> distinct (map targetNodeId (edges g)) \<and> acyclic (edge_rel (edges g))"

lemma connects_nodes:
  "connects ns e \<Longrightarrow> sourceNodeId e \<in> node_id ` set ns \<and> targetNodeId e \<in> node_id ` set ns"
  by (auto simp: connects_def dest: node_at_mem split: option.splits)

lemma input_port_rows: "find_port hnd (inputs (workflowNodePorts k)) = Some q \<Longrightarrow> hnd = js ''rows''"
  by (cases k) (auto simp: find_port_def rows_port_def split: if_splits)

lemma connects_rows: "connects ns e \<Longrightarrow> targetHandle e = js ''rows''"
  by (auto simp: connects_def dest!: input_port_rows split: option.splits)

lemma distinct_input_key:
  assumes "\<forall>e \<in> set es. connects ns e"
  shows "distinct (map input_key es) \<longleftrightarrow> distinct (map targetNodeId es)"
proof -
  have "map input_key es = map (\<lambda>t. t @ [58] @ js ''rows'') (map targetNodeId es)"
    using assms by (auto simp: input_key_def connects_rows)
  then show ?thesis by (simp add: distinct_map inj_on_def)
qed

lemma structure_issues_iff:
  "validateWorkflowGraphStructure g = [] \<longleftrightarrow> well_structured g"
proof -
  let ?ns = "nodes g" and ?es = "edges g"
  let ?N = "map node_id ?ns"
  obtain nodeIssues byId where sn: "scan_nodes 0 ?ns [] = (nodeIssues, byId)" by fastforce
  have byId: "map_of byId = node_at ?ns"
    using scan_nodes_lookup [of 0 ?ns "[]"] sn by (auto simp: fun_eq_iff split: option.splits)
  have ni: "nodeIssues = [] \<longleftrightarrow> distinct ?N"
    using scan_nodes_issues [of 0 ?ns "[]"] sn by simp
  define st where "st = scan_edges byId 0 ?es (start_scan ?ns)"
  have out: "get_or [] (outgoing st) n = map targetNodeId (filter (\<lambda>e. connects ?ns e \<and> sourceNodeId e = n) ?es)" for n
    using scan_edges_spec(1) [OF byId, of 0 ?es "start_scan ?ns" n] by (simp add: st_def start_scan_def)
  have cnt: "get_or 0 (incomingCount st) n = int (length (filter (\<lambda>e. connects ?ns e \<and> targetNodeId e = n) ?es))" for n
    using scan_edges_spec(2) [OF byId, of 0 ?es "start_scan ?ns" n] by (simp add: st_def start_scan_def)
  have si: "scan_issues st = [] \<longleftrightarrow> (\<forall>e \<in> set ?es. connects ?ns e) \<and> distinct (map edge_id ?es)
      \<and> distinct (map input_key ?es)"
    using scan_edges_issues [OF byId, of 0 ?es "start_scan ?ns"] by (auto simp: st_def start_scan_def)
  let ?queue = "map node_id (filter (\<lambda>n. get_or 0 (incomingCount st) (node_id n) = 0) ?ns)"
  have v: "validateWorkflowGraphStructure g = nodeIssues @ scan_issues st
      @ (if length (acyclic_visit (outgoing st) ?queue (incomingCount st) []) \<noteq> length ?ns
         then [WorkflowCycle] else [])"
    by (simp add: validateWorkflowGraphStructure_def sn st_def Let_def)
  have cyc: "length (acyclic_visit (outgoing st) ?queue (incomingCount st) []) = length ?ns \<longleftrightarrow>
      acyclic (edge_rel ?es)"
    if d: "distinct ?N" and all: "\<forall>e \<in> set ?es. connects ?ns e"
  proof -
    have closed: "set (get_or [] (outgoing st) m) \<subseteq> set ?N" if "m \<in> set ?N" for m
      using all by (auto simp: out dest: connects_nodes)
    have count: "get_or 0 (incomingCount st) n = in_count (set ?N) (\<lambda>n. get_or [] (outgoing st) n) n" for n
    proof -
      have "in_count (set ?N) (\<lambda>n. get_or [] (outgoing st) n) n =
          int (length (filter (\<lambda>e. connects ?ns e \<and> sourceNodeId e \<in> set ?N \<and> targetNodeId e = n) ?es))"
        unfolding in_count_def out by (rule count_links) simp
      also have "filter (\<lambda>e. connects ?ns e \<and> sourceNodeId e \<in> set ?N \<and> targetNodeId e = n) ?es =
          filter (\<lambda>e. connects ?ns e \<and> targetNodeId e = n) ?es"
        by (rule filter_cong) (auto dest: connects_nodes)
      finally show ?thesis by (simp add: cnt)
    qed
    have start: "mset ?queue = mset (filter (\<lambda>n. get_or 0 (incomingCount st) n = 0) ?N)"
      by (simp add: filter_map o_def)
    have "graph_edges ?N (\<lambda>n. get_or [] (outgoing st) n) = edge_rel ?es"
      using all by (force simp: graph_edges_def edge_rel_def out dest: connects_nodes)
    then show ?thesis
      using acyclic_loop.loop_length [OF d closed count start] by simp
  qed
  show ?thesis
    using cyc distinct_input_key [of ?es ?ns] by (auto simp: v ni si well_structured_def)
qed

section \<open>Reachability\<close>

lemma set_last_butlast: "xs \<noteq> [] \<Longrightarrow> set xs = insert (last xs) (set (butlast xs))"
  by (metis append_butlast_last_id list.simps(15) rotate1.simps(2) set_rotate1)

lemma reach_visit_superset: "set reachable \<union> set pending \<subseteq> set (reach_visit out pending reachable)"
proof (induction out pending reachable rule: reach_visit.induct)
  case (1 out pending reachable)
  show ?case
  proof (cases "pending = []")
    case True
    then show ?thesis by (subst reach_visit.simps) simp
  next
    case False
    with 1 set_last_butlast [OF False] show ?thesis
      by (subst reach_visit.simps) (auto simp: Let_def)
  qed
qed

lemma reach_visit_closed:
  "(\<forall>x \<in> set reachable. set (get_or [] out x) \<subseteq> set reachable \<union> set pending) \<Longrightarrow>
     \<forall>x \<in> set (reach_visit out pending reachable). set (get_or [] out x) \<subseteq> set (reach_visit out pending reachable)"
proof (induction out pending reachable rule: reach_visit.induct)
  case (1 out pending reachable)
  show ?case
  proof (cases "pending = []")
    case True
    with "1.prems" show ?thesis by (subst (1 2) reach_visit.simps) simp
  next
    case False
    note set = set_last_butlast [OF False]
    show ?thesis
    proof (cases "last pending \<in> set reachable")
      case True
      then have "\<forall>x \<in> set reachable. set (get_or [] out x) \<subseteq> set reachable \<union> set (butlast pending)"
        using "1.prems" set by auto
      then show ?thesis
        using "1.IH"(1) [OF False refl refl True] False True
        by (subst (1 2) reach_visit.simps) (simp add: Let_def)
    next
      case new: False
      have "\<forall>x \<in> set (set_add (last pending) reachable). set (get_or [] out x)
          \<subseteq> set (set_add (last pending) reachable) \<union> set (butlast pending @ get_or [] out (last pending))"
        using "1.prems" set by auto
      then show ?thesis
        using "1.IH"(2) [OF False refl refl new] False new
        by (subst (1 2) reach_visit.simps) (simp add: Let_def)
    qed
  qed
qed

lemma reach_visit_sound:
  "x \<in> set (reach_visit out pending reachable) \<Longrightarrow>
     x \<in> set reachable \<or> (\<exists>p \<in> set pending. (p, x) \<in> (out_rel out)\<^sup>*)"
proof (induction out pending reachable rule: reach_visit.induct)
  case (1 out pending reachable)
  show ?case
  proof (cases "pending = []")
    case True
    with "1.prems" show ?thesis by (subst (asm) reach_visit.simps) simp
  next
    case False
    note set = set_last_butlast [OF False]
    show ?thesis
    proof (cases "last pending \<in> set reachable")
      case True
      then show ?thesis
        using "1.IH"(1) [OF False refl refl True] False "1.prems" set
        by (subst (asm) reach_visit.simps) (auto simp: Let_def)
    next
      case new: False
      have step: "(last pending, p) \<in> out_rel out" if "p \<in> set (get_or [] out (last pending))" for p
        using that by (simp add: out_rel_def)
      have "x \<in> set (reach_visit out (butlast pending @ get_or [] out (last pending)) (set_add (last pending) reachable))"
        using "1.prems" False new by (subst (asm) reach_visit.simps) (simp add: Let_def)
      from "1.IH"(2) [OF False refl refl new this] show ?thesis
        using set step by (auto intro: converse_rtrancl_into_rtrancl)
    qed
  qed
qed

lemma reach_visit_distinct: "distinct reachable \<Longrightarrow> distinct (reach_visit out pending reachable)"
proof (induction out pending reachable rule: reach_visit.induct)
  case (1 out pending reachable)
  then show ?case by (subst reach_visit.simps) (auto simp: Let_def)
qed

lemma reach_visit_set:
  "set (reach_visit out pending []) = {x. \<exists>p \<in> set pending. (p, x) \<in> (out_rel out)\<^sup>*}"
proof
  show "set (reach_visit out pending []) \<subseteq> {x. \<exists>p \<in> set pending. (p, x) \<in> (out_rel out)\<^sup>*}"
    using reach_visit_sound [of _ out pending "[]"] by auto
  have closed: "\<forall>x \<in> set (reach_visit out pending []). set (get_or [] out x) \<subseteq> set (reach_visit out pending [])"
    using reach_visit_closed [of "[]" out pending] by simp
  have "x \<in> set (reach_visit out pending [])" if "(p, x) \<in> (out_rel out)\<^sup>*" "p \<in> set pending" for p x
    using that
  proof (induction rule: rtrancl_induct)
    case base
    then show ?case using reach_visit_superset [of "[]" pending out] by auto
  next
    case (step y z)
    then show ?case using closed by (auto simp: out_rel_def)
  qed
  then show "{x. \<exists>p \<in> set pending. (p, x) \<in> (out_rel out)\<^sup>*} \<subseteq> set (reach_visit out pending [])"
    by auto
qed

section \<open>Publishable graphs\<close>

lemma collect_links_spec:
  "collect_links es out cnt = (out', cnt') \<Longrightarrow>
     get_or [] out' n = get_or [] out n @ map targetNodeId (filter (\<lambda>e. sourceNodeId e = n) es)
     \<and> get_or 0 cnt' n = get_or 0 cnt n + int (length (filter (\<lambda>e. targetNodeId e = n) es))"
  by (induction es arbitrary: out cnt) (auto split: if_splits)

lemma is_destination_iff:
  "is_destination k \<longleftrightarrow> k = Destination_write_table \<or> k = Destination_send_webhook"
  by (cases k) (simp_all add: is_destination_def js_eval)

lemma missing_inputs_Nil:
  "missing_inputs cnt i ns = [] \<longleftrightarrow>
     (\<forall>n \<in> set ns. node_kind n \<noteq> Trigger_table_rows \<longrightarrow> get_or 0 cnt (node_id n) \<noteq> 0)"
  by (induction ns arbitrary: i) auto

definition trigger_ids :: "workflow_graph \<Rightarrow> jsstr set" where
  "trigger_ids g = node_id ` {n \<in> set (nodes g). node_kind n = Trigger_table_rows}"

definition publishable :: "workflow_graph \<Rightarrow> bool" where
  "publishable g \<longleftrightarrow>
     trigger_ids g \<noteq> {}
     \<and> (\<exists>n \<in> set (nodes g). is_destination (node_kind n))
     \<and> (\<forall>n \<in> set (nodes g). node_kind n \<noteq> Trigger_table_rows \<longrightarrow>
          node_id n \<in> targetNodeId ` set (edges g))
     \<and> (\<forall>n \<in> set (nodes g). \<exists>t \<in> trigger_ids g. (t, node_id n) \<in> (edge_rel (edges g))\<^sup>*)"

lemma edge_rel_closed:
  assumes "\<forall>e \<in> set es. connects ns e" and "(a, b) \<in> (edge_rel es)\<^sup>*" and "a \<in> node_id ` set ns"
  shows "b \<in> node_id ` set ns"
  using assms(2,3)
proof (induction rule: rtrancl_induct)
  case (step y z)
  then show ?case using assms(1) by (auto simp: edge_rel_def dest: connects_nodes)
qed

lemma publishable_issues_iff:
  assumes ws: "well_structured g"
  shows "validatePublishableWorkflowGraph g = [] \<longleftrightarrow> publishable g"
proof -
  let ?ns = "nodes g" and ?es = "edges g"
  have d: "distinct (map node_id ?ns)" and all: "\<forall>e \<in> set ?es. connects ?ns e"
    using ws by (auto simp: well_structured_def)
  have links: "link_edges (map_from (map (\<lambda>n. (node_id n, n)) ?ns)) ?es = ?es"
    unfolding link_edges_def map_of_map_from
    by (rule filter_True) (use all in \<open>auto simp: node_at_None dest: connects_nodes\<close>)
  obtain out cnt where c: "collect_links ?es [] (map_from (map (\<lambda>n. (node_id n, 0)) ?ns)) = (out, cnt)"
    by fastforce
  have out: "set (get_or [] out n) = targetNodeId ` {e \<in> set ?es. sourceNodeId e = n}" for n
    using collect_links_spec [OF c, of n] by auto
  have cnt: "get_or 0 cnt n = 0 \<longleftrightarrow> n \<notin> targetNodeId ` set ?es" for n
    using collect_links_spec [OF c, of n] by (auto simp: filter_empty_conv)
  have rel: "out_rel out = edge_rel ?es"
    by (auto simp: out_rel_def out edge_rel_def)
  let ?triggers = "filter (\<lambda>n. node_kind n = Trigger_table_rows) ?ns"
  let ?reach = "reach_visit out (map node_id ?triggers) []"
  have reach: "set ?reach = {x. \<exists>t \<in> trigger_ids g. (t, x) \<in> (edge_rel ?es)\<^sup>*}"
    by (auto simp: reach_visit_set rel trigger_ids_def)
  have sub: "set ?reach \<subseteq> set (map node_id ?ns)"
    using edge_rel_closed [OF all] by (auto simp: reach trigger_ids_def)
  have "length ?reach = card (set ?reach)"
    using distinct_card [OF reach_visit_distinct [of "[]"]] by simp
  moreover have "length ?ns = card (set (map node_id ?ns))"
    using distinct_card [OF d] by simp
  ultimately have len: "length ?reach = length ?ns \<longleftrightarrow> set (map node_id ?ns) \<subseteq> set ?reach"
  proof -
    assume len: "length ?reach = card (set ?reach)" "length ?ns = card (set (map node_id ?ns))"
    show ?thesis
    proof
      assume "length ?reach = length ?ns"
      with len have "set ?reach = set (map node_id ?ns)"
        using card_subset_eq [OF List.finite_set sub] by simp
      then show "set (map node_id ?ns) \<subseteq> set ?reach" by simp
    next
      assume "set (map node_id ?ns) \<subseteq> set ?reach"
      with sub have "set ?reach = set (map node_id ?ns)" by (rule subset_antisym)
      with len show "length ?reach = length ?ns" by simp
    qed
  qed
  show ?thesis
    unfolding validatePublishableWorkflowGraph_def Let_def links c prod.case
    by (simp add: missing_inputs_Nil cnt len publishable_def reach filter_empty_conv)
      (auto simp: image_subset_iff trigger_ids_def)
qed

lemma workflowGraph_iff:
  "workflowGraph h g \<longleftrightarrow> workflowGraphShape h g \<and> well_structured g \<and> publishable g"
  using publishable_issues_iff structure_issues_iff by (auto simp: workflowGraph_def)

section \<open>Parsing keeps the structure\<close>

lemma parsed_configuration_kind [simp]: "kind_of (parsed_configuration h c) = kind_of c"
  by (cases "(h, c)" rule: parsed_configuration.cases) simp_all

lemma parsed_node_sel [simp]:
  "node_id (parsed_node h n) = node_id n" "node_kind (parsed_node h n) = node_kind n"
  by (simp_all add: parsed_node_def node_kind_def)

lemma parsed_graph_sel [simp]:
  "edges (parsed_graph h g) = edges g" "nodes (parsed_graph h g) = map (parsed_node h) (nodes g)"
  by (simp_all add: parsed_graph_def)

lemma node_ids_parsed: "node_id ` parsed_node h ` A = node_id ` A"
  by (simp add: image_image)

lemma node_at_parsed: "node_at (map (parsed_node h) ns) k = map_option (parsed_node h) (node_at ns k)"
proof (induction ns)
  case Nil
  then show ?case by (simp add: node_at_def)
next
  case (Cons n ns)
  have "node_id ` set (map (parsed_node h) ns) = node_id ` set ns" by (simp add: image_image)
  then show ?case by (simp only: list.map node_at_Cons Cons.IH parsed_node_sel) simp
qed

lemma connects_parsed [simp]: "connects (map (parsed_node h) ns) e = connects ns e"
  by (simp add: connects_def node_at_parsed split: option.splits)

lemma well_structured_parsed [simp]: "well_structured (parsed_graph h g) = well_structured g"
  by (simp add: well_structured_def o_def)

lemma trigger_ids_parsed:
  "trigger_ids (parsed_graph h g) = node_id ` {n \<in> set (nodes g). node_kind n = Trigger_table_rows}"
  unfolding trigger_ids_def by (force simp: image_iff)

lemma publishable_parsed [simp]: "publishable (parsed_graph h g) = publishable g"
proof -
  have "trigger_ids (parsed_graph h g) = trigger_ids g"
    by (simp add: trigger_ids_parsed trigger_ids_def [of g])
  then show ?thesis by (simp add: publishable_def)
qed

end
