(* ===== verification/Comparators.thy ===== *)
theory Comparators
  imports Prelude "HOL-Library.Multiset"
begin

text \<open>
  Sorting by a comparator (\<open>Array.prototype.sort\<close> with a function, \<open>order by\<close> with several
  keys), and what a consistent comparator guarantees.
\<close>

section \<open>Sorting by a comparator\<close>

text \<open>
  \<open>Array.prototype.sort\<close> is stable, so its result is the stable insertion sort's whenever
  the comparator is consistent.
\<close>

fun insert_by :: "('a \<Rightarrow> 'a \<Rightarrow> int) \<Rightarrow> 'a \<Rightarrow> 'a list \<Rightarrow> 'a list" where
  "insert_by cmp x [] = [x]"
| "insert_by cmp x (y # ys) = (if cmp x y \<le> 0 then x # y # ys else y # insert_by cmp x ys)"

definition sort_by :: "('a \<Rightarrow> 'a \<Rightarrow> int) \<Rightarrow> 'a list \<Rightarrow> 'a list" where
  "sort_by cmp xs = foldr (insert_by cmp) xs []"

text \<open>\<open>a || b\<close> on comparison results.\<close>

definition or_else :: "('a \<Rightarrow> 'a \<Rightarrow> int) \<Rightarrow> ('a \<Rightarrow> 'a \<Rightarrow> int) \<Rightarrow> 'a \<Rightarrow> 'a \<Rightarrow> int" where
  "or_else c d x y = (if c x y \<noteq> 0 then c x y else d x y)"

definition on_field :: "(jsstr \<Rightarrow> jsstr \<Rightarrow> int) \<Rightarrow> ('a \<Rightarrow> jsstr) \<Rightarrow> 'a \<Rightarrow> 'a \<Rightarrow> int" where
  "on_field cmp f x y = cmp (f x) (f y)"

section \<open>Consistent comparators\<close>

lemma mset_insert_by [simp]: "mset (insert_by cmp x ys) = add_mset x (mset ys)"
  by (induction ys) auto

lemma mset_sort_by [simp]: "mset (sort_by cmp xs) = mset xs"
  by (induction xs) (auto simp: sort_by_def)

lemma set_sort_by [simp]: "set (sort_by cmp xs) = set xs"
  by (metis mset_sort_by set_mset_mset)

definition comparator :: "('a \<Rightarrow> 'a \<Rightarrow> int) \<Rightarrow> bool" where
  "comparator c \<longleftrightarrow> (\<forall>x y. sgn (c x y) = - sgn (c y x))
     \<and> (\<forall>x y z. c x y \<le> 0 \<longrightarrow> c y z \<le> 0 \<longrightarrow> c x z \<le> 0)"

lemma comparator_sgn: "comparator c \<Longrightarrow> sgn (c x y) = - sgn (c y x)"
  unfolding comparator_def by blast

lemma comparator_flip: "comparator c \<Longrightarrow> c x y \<le> 0 \<longleftrightarrow> 0 \<le> c y x"
  using comparator_sgn [of c x y] by (simp add: sgn_if split: if_splits)

lemma comparator_zero: "comparator c \<Longrightarrow> c x y = 0 \<Longrightarrow> c y x = 0"
  using comparator_sgn [of c x y] by (simp add: sgn_if split: if_splits)

lemma comparator_total: "comparator c \<Longrightarrow> c x y \<le> 0 \<or> c y x \<le> 0"
  using comparator_sgn [of c x y] by (simp add: sgn_if split: if_splits)

lemma comparator_trans: "comparator c \<Longrightarrow> c x y \<le> 0 \<Longrightarrow> c y z \<le> 0 \<Longrightarrow> c x z \<le> 0"
  unfolding comparator_def by blast

lemma comparator_strict:
  assumes c: "comparator c" and xy: "c x y \<le> 0" and yz: "c y z \<le> 0" and xz: "c x z = 0"
  shows "c x y = 0 \<and> c y z = 0"
proof -
  have zx: "c z x \<le> 0" using comparator_zero [OF c xz] by simp
  have "c y x \<le> 0" by (rule comparator_trans [OF c yz zx])
  then have "0 \<le> c x y" using comparator_flip [OF c, of y x] by simp
  moreover have "c z y \<le> 0" by (rule comparator_trans [OF c zx xy])
  then have "0 \<le> c y z" using comparator_flip [OF c, of z y] by simp
  ultimately show ?thesis using xy yz by simp
qed

lemma or_else_sgn:
  assumes c: "comparator c" and d: "comparator d"
  shows "sgn (or_else c d x y) = - sgn (or_else c d y x)"
proof (cases "c x y = 0")
  case True
  then show ?thesis using comparator_zero [OF c True] comparator_sgn [OF d, of x y]
    by (simp add: or_else_def)
next
  case False
  moreover have "c y x \<noteq> 0" using comparator_zero [OF c, of y x] False by blast
  ultimately show ?thesis using comparator_sgn [OF c, of x y] by (simp add: or_else_def)
qed

lemma comparator_or_else:
  assumes c: "comparator c" and d: "comparator d"
  shows "comparator (or_else c d)"
  unfolding comparator_def
proof (intro conjI allI impI)
  show "sgn (or_else c d x y) = - sgn (or_else c d y x)" for x y
    by (rule or_else_sgn [OF c d])
next
  fix x y z
  assume 1: "or_else c d x y \<le> 0" and 2: "or_else c d y z \<le> 0"
  have xy: "c x y \<le> 0" "c x y = 0 \<Longrightarrow> d x y \<le> 0"
    using 1 by (cases "c x y = 0"; simp add: or_else_def)+
  have yz: "c y z \<le> 0" "c y z = 0 \<Longrightarrow> d y z \<le> 0"
    using 2 by (cases "c y z = 0"; simp add: or_else_def)+
  have xz: "c x z \<le> 0" by (rule comparator_trans [OF c xy(1) yz(1)])
  show "or_else c d x z \<le> 0"
  proof (cases "c x z = 0")
    case True
    then have "c x y = 0 \<and> c y z = 0" by (rule comparator_strict [OF c xy(1) yz(1)])
    then have "d x z \<le> 0" using comparator_trans [OF d] xy(2) yz(2) by blast
    then show ?thesis using True by (simp add: or_else_def)
  qed (use xz in \<open>simp add: or_else_def\<close>)
qed

lemma comparator_on_field: "comparator c \<Longrightarrow> comparator (on_field c f)"
  unfolding comparator_def on_field_def by blast

lemma sorted_insert_by:
  "comparator c \<Longrightarrow> sorted_wrt (\<lambda>x y. c x y \<le> 0) ys \<Longrightarrow> sorted_wrt (\<lambda>x y. c x y \<le> 0) (insert_by c x ys)"
proof (induction ys)
  case Nil
  then show ?case by simp
next
  case (Cons y ys)
  have set: "set (insert_by c x ys) = insert x (set ys)"
    by (metis mset_insert_by set_mset_add_mset_insert set_mset_mset)
  show ?case
  proof (cases "c x y \<le> 0")
    case True
    then have "\<forall>z \<in> set ys. c x z \<le> 0"
      using Cons.prems(2) comparator_trans [OF Cons.prems(1) True] by simp
    with True Cons.prems(2) show ?thesis by simp
  next
    case False
    then have "c y x \<le> 0" using comparator_total [OF Cons.prems(1), of x y] by simp
    with False Cons set show ?thesis by simp
  qed
qed

lemma sorted_sort_by: "comparator c \<Longrightarrow> sorted_wrt (\<lambda>x y. c x y \<le> 0) (sort_by c xs)"
  by (induction xs) (auto simp: sort_by_def sorted_insert_by)

lemma sorted_unique_on:
  assumes anti: "\<And>x y. x \<in> A \<Longrightarrow> y \<in> A \<Longrightarrow> le x y \<Longrightarrow> le y x \<Longrightarrow> x = y"
  shows "sorted_wrt le xs \<Longrightarrow> sorted_wrt le ys \<Longrightarrow> mset xs = mset ys \<Longrightarrow> set xs \<subseteq> A \<Longrightarrow> xs = ys"
proof (induction xs arbitrary: ys)
  case Nil
  then show ?case by simp
next
  case (Cons x xs)
  then obtain y ys' where ys: "ys = y # ys'" by (cases ys) auto
  have same: "set (x # xs) = set ys" using Cons.prems(3) by (metis set_mset_mset)
  have "x = y"
  proof (rule ccontr)
    assume ne: "x \<noteq> y"
    with same ys have "x \<in> set ys'" "y \<in> set xs" by auto
    with Cons.prems(1,2,4) ys have "le x y" "le y x" "x \<in> A" "y \<in> A" by auto
    with anti ne show False by blast
  qed
  with Cons ys show ?case by auto
qed

lemma sorted_unique:
  "(\<And>x y. le x y \<Longrightarrow> le y x \<Longrightarrow> x = y) \<Longrightarrow> sorted_wrt le xs \<Longrightarrow> sorted_wrt le ys \<Longrightarrow> mset xs = mset ys \<Longrightarrow> xs = ys"
  by (rule sorted_unique_on [of UNIV le]) simp_all

lemma comparator_same: "comparator c \<Longrightarrow> c x x = 0"
  using comparator_sgn [of c x x] by (simp add: sgn_if split: if_splits)

text \<open>What comes after an element of a strictly sorted list.\<close>

lemma filter_after:
  assumes c: "comparator c"
  shows "sorted_wrt (\<lambda>x y. c x y < 0) xs \<Longrightarrow> i < length xs \<Longrightarrow> filter (\<lambda>y. c (xs ! i) y < 0) xs = drop (Suc i) xs"
proof (induction xs arbitrary: i)
  case (Cons x xs)
  show ?case
  proof (cases i)
    case 0
    then show ?thesis using Cons.prems comparator_same [OF c, of x] by (simp add: filter_id_conv)
  next
    case (Suc j)
    then have "c x (xs ! j) < 0" using Cons.prems by simp
    then have "\<not> c (xs ! j) x < 0" using comparator_sgn [OF c, of x "xs ! j"] by (simp add: sgn_if split: if_splits)
    then show ?thesis using Cons Suc by simp
  qed
qed simp

section \<open>Comparing keys\<close>

definition compare_with :: "('a \<Rightarrow> 'k :: linorder) \<Rightarrow> 'a \<Rightarrow> 'a \<Rightarrow> int" where
  "compare_with f x y = (if f x < f y then -1 else if f y < f x then 1 else 0)"

definition reversed :: "('a \<Rightarrow> 'a \<Rightarrow> int) \<Rightarrow> 'a \<Rightarrow> 'a \<Rightarrow> int" where
  "reversed c x y = c y x"

lemma comparator_compare_with [simp]: "comparator (compare_with f)"
  unfolding comparator_def compare_with_def by (auto split: if_splits)

lemma comparator_reversed: "comparator c \<Longrightarrow> comparator (reversed c)"
  unfolding comparator_def reversed_def by (metis minus_equation_iff)

lemma compare_with_iff:
  "compare_with f x y < 0 \<longleftrightarrow> f x < f y" "compare_with f x y = 0 \<longleftrightarrow> f x = f y"
  by (auto simp: compare_with_def)

lemma reversed_iff:
  "reversed (compare_with f) x y < 0 \<longleftrightarrow> f y < f x" "reversed (compare_with f) x y = 0 \<longleftrightarrow> f x = f y"
  by (auto simp: reversed_def compare_with_def)

lemma or_else_iff:
  "or_else c d x y < 0 \<longleftrightarrow> c x y < 0 \<or> c x y = 0 \<and> d x y < 0"
  "or_else c d x y = 0 \<longleftrightarrow> c x y = 0 \<and> d x y = 0"
  by (auto simp: or_else_def)

end
