(* ===== verification/WorkflowCompiler.thy ===== *)
theory WorkflowCompiler
  imports WorkflowPolicy Comparators
begin

text \<open>
  The compiler from an authoring graph to an execution plan
  (\<open>packages/domain/src/workflow-compiler.ts\<close>): sorted routes, their grouping by either
  end, a topological order with a sorted queue of ready nodes, one step per node.
\<close>

section \<open>Plans\<close>

record compiled_route =
  edgeId :: jsstr
  route_sourceHandle :: jsstr
  sourceStepId :: jsstr
  route_targetHandle :: jsstr
  targetStepId :: jsstr

record compiled_step =
  step_configuration :: configuration
  dependencyStepIds :: "jsstr list"
  inboundRoutes :: "compiled_route list"
  step_kind :: workflow_node_kind
  step_name :: jsstr
  outboundRoutes :: "compiled_route list"
  stepId :: jsstr

record compiled_plan =
  entryStepIds :: "jsstr list"
  schemaVersion :: nat
  steps :: "compiled_step list"
  terminalStepIds :: "jsstr list"

datatype compile_error = InvalidGraph | UndefinedNode | NotOrdered

section \<open>The order of routes\<close>

definition compareRoutes :: "host \<Rightarrow> compiled_route \<Rightarrow> compiled_route \<Rightarrow> int" where
  "compareRoutes h =
     or_else (on_field (localeCompare h) sourceStepId)
     (or_else (on_field (localeCompare h) route_sourceHandle)
     (or_else (on_field (localeCompare h) targetStepId)
     (or_else (on_field (localeCompare h) route_targetHandle)
       (on_field (localeCompare h) edgeId))))"

section \<open>Routes\<close>

definition route_of :: "workflow_edge \<Rightarrow> compiled_route" where
  "route_of e = \<lparr>edgeId = edge_id e, route_sourceHandle = sourceHandle e,
     sourceStepId = sourceNodeId e, route_targetHandle = targetHandle e,
     targetStepId = targetNodeId e\<rparr>"

definition compileRoutes :: "host \<Rightarrow> workflow_graph \<Rightarrow> compiled_route list" where
  "compileRoutes h g = sort_by (compareRoutes h) (map route_of (edges g))"

definition groupRoutes :: "compiled_route list \<Rightarrow> (compiled_route \<Rightarrow> jsstr)
    \<Rightarrow> (jsstr \<times> compiled_route list) list" where
  "groupRoutes routes field =
     fold (\<lambda>r grouped. AList.update (field r) (get_or [] grouped (field r) @ [r]) grouped) routes []"

section \<open>The order of the steps\<close>

definition insertSorted :: "jsstr \<Rightarrow> jsstr list \<Rightarrow> jsstr list" where
  "insertSorted value values =
     takeWhile (\<lambda>candidate. \<not> value < candidate) values @ [value]
     @ dropWhile (\<lambda>candidate. \<not> value < candidate) values"

definition route_targets :: "(jsstr \<times> compiled_route list) list \<Rightarrow> jsstr \<Rightarrow> jsstr list" where
  "route_targets outbound nodeId = sort (set_from (map targetStepId (get_or [] outbound nodeId)))"

lemma length_insertSorted: "length (insertSorted v vs) = Suc (length vs)"
proof -
  let ?P = "\<lambda>candidate. \<not> v < candidate"
  have "length (takeWhile ?P vs) + length (dropWhile ?P vs) = length vs"
    by (metis length_append takeWhile_dropWhile_id)
  then show ?thesis by (simp add: insertSorted_def)
qed

function order_visit :: "(jsstr \<times> compiled_route list) list \<Rightarrow> jsstr list \<Rightarrow> (jsstr \<times> int) list
    \<Rightarrow> jsstr list \<Rightarrow> jsstr list" where
  "order_visit outbound ready remaining ordered =
     (case ready of
        [] \<Rightarrow> ordered
      | nodeId # rest \<Rightarrow>
          (case relax insertSorted (route_targets outbound nodeId) remaining rest of
             (remaining', ready') \<Rightarrow> order_visit outbound ready' remaining' (ordered @ [nodeId])))"
  by pat_completeness auto
termination
proof (relation "measure (\<lambda>(outbound, ready, remaining, ordered). work remaining ready)", goal_cases)
  case 1
  then show ?case by simp
next
  case (2 outbound ready remaining ordered nodeId rest remaining' ready')
  then have "work remaining' ready' \<le> work remaining rest"
    by (intro work_relax [where add = insertSorted]) (auto simp: length_insertSorted)
  then show ?case using 2 by (simp add: work_def)
qed

declare order_visit.simps [simp del]

definition deterministicTopologicalOrder :: "(jsstr \<times> workflow_node) list
    \<Rightarrow> (jsstr \<times> compiled_route list) list \<Rightarrow> (jsstr \<times> compiled_route list) list
    \<Rightarrow> compile_error + jsstr list" where
  "deterministicTopologicalOrder nodesById inboundByNode outboundByNode =
     (let keys = map fst nodesById;
          remainingDependencies =
            map (\<lambda>nodeId. (nodeId, int (length (set_from
                   (map sourceStepId (get_or [] inboundByNode nodeId)))))) keys;
          ready = sort (filter (\<lambda>nodeId. get_or 0 remainingDependencies nodeId = 0) keys);
          ordered = order_visit outboundByNode ready remainingDependencies []
      in if length ordered \<noteq> length nodesById then Inl NotOrdered else Inr ordered)"

section \<open>Compilation\<close>

definition compile_step :: "(jsstr \<times> workflow_node) list \<Rightarrow> (jsstr \<times> compiled_route list) list
    \<Rightarrow> (jsstr \<times> compiled_route list) list \<Rightarrow> jsstr \<Rightarrow> compile_error + compiled_step" where
  "compile_step nodesById inboundByNode outboundByNode sid =
     (case map_of nodesById sid of
        None \<Rightarrow> Inl UndefinedNode
      | Some node \<Rightarrow>
          let inbound = get_or [] inboundByNode sid
          in Inr \<lparr>step_configuration = configuration node,
                  dependencyStepIds = sort (set_from (map sourceStepId inbound)),
                  inboundRoutes = inbound,
                  step_kind = node_kind node,
                  step_name = node_name node,
                  outboundRoutes = get_or [] outboundByNode sid,
                  stepId = sid\<rparr>)"

definition plan_of :: "compiled_step list \<Rightarrow> compiled_plan" where
  "plan_of ss = \<lparr>entryStepIds = map stepId (filter (\<lambda>s. inboundRoutes s = []) ss),
     schemaVersion = 1, steps = ss,
     terminalStepIds = map stepId (filter (\<lambda>s. outboundRoutes s = []) ss)\<rparr>"

definition compileWorkflowGraph :: "host \<Rightarrow> workflow_graph \<Rightarrow> compile_error + compiled_plan" where
  "compileWorkflowGraph h graphInput =
     (if \<not> workflowGraph h graphInput then Inl InvalidGraph
      else let graph = parsed_graph h graphInput;
               routes = compileRoutes h graph;
               nodesById = map_from (map (\<lambda>n. (node_id n, n)) (nodes graph));
               inboundByNode = groupRoutes routes targetStepId;
               outboundByNode = groupRoutes routes sourceStepId
           in and_then (deterministicTopologicalOrder nodesById inboundByNode outboundByNode)
                (\<lambda>orderedStepIds.
                   and_then (map_result (compile_step nodesById inboundByNode outboundByNode) orderedStepIds)
                     (\<lambda>ss. Inr (plan_of ss))))"

end
