(* ===== verification/WorkflowPlans.thy ===== *)
theory WorkflowPlans
  imports WorkflowGraphs WorkflowCompiler
begin

text \<open>
  What the compiler guarantees: every accepted graph compiles, the steps of the plan are
  the nodes in a topological order, and the plan does not depend on how the graph lists
  its nodes and edges nor on the layout.
\<close>

section \<open>Grouping\<close>

lemma get_or_groupRoutes: "get_or [] (groupRoutes routes field) k = filter (\<lambda>r. field r = k) routes"
proof -
  have "get_or [] (fold (\<lambda>r grouped. AList.update (field r) (get_or [] grouped (field r) @ [r]) grouped) routes m) k
      = get_or [] m k @ filter (\<lambda>r. field r = k) routes" for m
    by (induction routes arbitrary: m) auto
  then show ?thesis by (simp add: groupRoutes_def)
qed

section \<open>The topological order\<close>

lemma mset_insertSorted: "mset (insertSorted v vs) = add_mset v (mset vs)"
proof -
  let ?P = "\<lambda>candidate. \<not> v < candidate"
  have "mset (takeWhile ?P vs) + mset (dropWhile ?P vs) = mset vs"
    by (metis mset_append takeWhile_dropWhile_id)
  then show ?thesis by (simp add: insertSorted_def)
qed

interpretation order_loop: kahn_loop
  "order_visit outbound" "route_targets outbound" "\<lambda>q. (hd q, tl q)" insertSorted "\<lambda>q. q"
  for outbound
proof (unfold_locales, goal_cases)
  case (1 cnt acc)
  show ?case by (subst order_visit.simps) simp
next
  case (2 ready x rest cnt cnt' ready' acc)
  then obtain "ready = x # rest" by (cases ready) simp_all
  with 2 show ?case by (subst order_visit.simps) simp
next
  case (3 ready x rest)
  then show ?case by (cases ready) auto
qed (simp_all add: mset_insertSorted)

definition node_ids :: "workflow_graph \<Rightarrow> jsstr list" where
  "node_ids g = map node_id (nodes g)"

definition target_relation :: "compiled_route list \<Rightarrow> (jsstr \<times> jsstr) set" where
  "target_relation routes = (\<lambda>r. (sourceStepId r, targetStepId r)) ` set routes"

lemma set_route_targets:
  "set (route_targets (groupRoutes routes sourceStepId) m) =
     {targetStepId r | r. r \<in> set routes \<and> sourceStepId r = m}"
  by (auto simp: route_targets_def get_or_groupRoutes)

lemma distinct_route_targets [simp]: "distinct (route_targets outbound m)"
  by (simp add: route_targets_def)

lemma count_list_distinct: "distinct xs \<Longrightarrow> int (count_list xs x) = (if x \<in> set xs then 1 else 0)"
  by (induction xs) (auto simp: count_list_0_iff)

text \<open>The counters the order starts from are the numbers of distinct predecessors.\<close>

lemma in_count_routes:
  assumes N: "\<forall>r \<in> set routes. sourceStepId r \<in> set N"
  shows "in_count (set N) (route_targets (groupRoutes routes sourceStepId)) n =
     int (length (set_from (map sourceStepId (get_or [] (groupRoutes routes targetStepId) n))))"
proof -
  let ?out = "groupRoutes routes sourceStepId"
  have one: "int (count_list (route_targets ?out m) n) =
      (if n \<in> set (route_targets ?out m) then 1 else 0)" for m
    by (rule count_list_distinct) simp
  let ?S = "{m \<in> set N. n \<in> set (route_targets ?out m)}"
  have "in_count (set N) (route_targets ?out) n = int (card ?S)"
    unfolding in_count_def one by (simp add: sum.If_cases Int_def)
  also have "?S = set (map sourceStepId (filter (\<lambda>r. targetStepId r = n) routes))"
    using N by (auto simp: set_route_targets)
  also have "card \<dots> = length (set_from (map sourceStepId (filter (\<lambda>r. targetStepId r = n) routes)))"
    by (metis distinct_card distinct_set_from set_set_from)
  finally show ?thesis by (simp add: get_or_groupRoutes)
qed

section \<open>Every accepted graph compiles\<close>

lemma set_compileRoutes: "set (compileRoutes h g) = route_of ` set (edges g)"
  by (simp add: compileRoutes_def)

lemma route_of_sel [simp]:
  "sourceStepId (route_of e) = sourceNodeId e" "targetStepId (route_of e) = targetNodeId e"
  "edgeId (route_of e) = edge_id e" "route_sourceHandle (route_of e) = sourceHandle e"
  "route_targetHandle (route_of e) = targetHandle e"
  by (simp_all add: route_of_def)

lemma set_outbound:
  "set (route_targets (groupRoutes (compileRoutes h g) sourceStepId) m) =
     targetNodeId ` {e \<in> set (edges g). sourceNodeId e = m}"
  unfolding set_route_targets set_compileRoutes by (force simp: image_iff)

abbreviation nodes_by_id :: "workflow_graph \<Rightarrow> (jsstr \<times> workflow_node) list" where
  "nodes_by_id g \<equiv> map_from (map (\<lambda>n. (node_id n, n)) (nodes g))"

abbreviation inbound_of :: "host \<Rightarrow> workflow_graph \<Rightarrow> (jsstr \<times> compiled_route list) list" where
  "inbound_of h g \<equiv> groupRoutes (compileRoutes h g) targetStepId"

abbreviation outbound_of :: "host \<Rightarrow> workflow_graph \<Rightarrow> (jsstr \<times> compiled_route list) list" where
  "outbound_of h g \<equiv> groupRoutes (compileRoutes h g) sourceStepId"

definition order_of :: "host \<Rightarrow> workflow_graph \<Rightarrow> jsstr list" where
  "order_of h g =
     (let cnt = map (\<lambda>n. (n, int (length (set_from
            (map sourceStepId (get_or [] (inbound_of h g) n)))))) (node_ids g)
      in order_visit (outbound_of h g) (sort (filter (\<lambda>n. get_or 0 cnt n = 0) (node_ids g))) cnt [])"

lemma order_of_spec:
  assumes ws: "well_structured g"
  shows "distinct (order_of h g)" and "set (order_of h g) = set (node_ids g)"
    and "topological (node_ids g) (route_targets (outbound_of h g)) (order_of h g)"
proof -
  let ?N = "node_ids g" and ?R = "compileRoutes h g" and ?outs = "route_targets (outbound_of h g)"
  let ?cnt = "map (\<lambda>n. (n, int (length (set_from (map sourceStepId (get_or [] (inbound_of h g) n)))))) ?N"
  let ?ready = "sort (filter (\<lambda>n. get_or 0 ?cnt n = 0) ?N)"
  have d: "distinct ?N" and conn: "\<forall>e \<in> set (edges g). connects (nodes g) e"
    and ac: "acyclic (edge_rel (edges g))"
    using ws by (auto simp: well_structured_def node_ids_def)
  have ends: "sourceNodeId e \<in> set ?N" "targetNodeId e \<in> set ?N" if "e \<in> set (edges g)" for e
    using conn that by (auto simp: node_ids_def dest: connects_nodes)
  have closed: "set (?outs m) \<subseteq> set ?N" for m
    using ends by (auto simp: set_outbound)
  have src: "\<forall>r \<in> set ?R. sourceStepId r \<in> set ?N"
    using ends by (auto simp: set_compileRoutes)
  have count: "get_or 0 ?cnt n = in_count (set ?N) ?outs n" if "n \<in> set ?N" for n
    using that in_count_routes [OF src, of n] by simp
  have start: "mset ?ready = mset (filter (\<lambda>n. get_or 0 ?cnt n = 0) ?N)"
    by simp
  have E: "graph_edges ?N ?outs = edge_rel (edges g)"
    using ends by (auto simp: graph_edges_def edge_rel_def set_outbound)
  note t = order_loop.loop_topological [OF d closed count start]
  have o: "order_of h g = order_visit (outbound_of h g) ?ready ?cnt []"
    by (simp add: order_of_def Let_def)
  show "distinct (order_of h g)" unfolding o by (rule t(1))
  show "set (order_of h g) = set ?N" unfolding o using t(4) E ac by simp
  show "topological ?N ?outs (order_of h g)" unfolding o by (rule t(3))
qed

lemma deterministicTopologicalOrder_ok:
  assumes ws: "well_structured g"
  shows "deterministicTopologicalOrder (nodes_by_id g) (inbound_of h g) (outbound_of h g) = Inr (order_of h g)"
proof -
  have d: "distinct (map node_id (nodes g))" using ws by (simp add: well_structured_def)
  have len: "length (order_of h g) = length (nodes g)"
    using order_of_spec [OF ws, of h] d
    by (metis distinct_card length_map node_ids_def)
  have keys: "map fst (nodes_by_id g) = node_ids g"
    by (simp add: keys_map_from [OF d] node_ids_def)
  show ?thesis
    unfolding deterministicTopologicalOrder_def keys Let_def
    using len keys_map_from [OF d] by (simp add: order_of_def Let_def)
qed

lemma map_of_nodes_by_id:
  assumes "well_structured g"
  shows "map_of (nodes_by_id g) k = Some n \<longleftrightarrow> n \<in> set (nodes g) \<and> node_id n = k"
  using assms by (simp add: map_of_map_from well_structured_def node_at_distinct)

definition step_of :: "host \<Rightarrow> workflow_graph \<Rightarrow> jsstr \<Rightarrow> compiled_step" where
  "step_of h g sid =
     (let node = the (node_at (nodes g) sid); inbound = get_or [] (inbound_of h g) sid
      in \<lparr>step_configuration = configuration node,
          dependencyStepIds = sort (set_from (map sourceStepId inbound)),
          inboundRoutes = inbound, step_kind = node_kind node, step_name = node_name node,
          outboundRoutes = get_or [] (outbound_of h g) sid, stepId = sid\<rparr>)"

definition graph_plan :: "host \<Rightarrow> workflow_graph \<Rightarrow> compiled_plan" where
  "graph_plan h g = plan_of (map (step_of h g) (order_of h g))"

lemma map_result_Inr: "(\<And>x. x \<in> set xs \<Longrightarrow> f x = Inr (g x)) \<Longrightarrow> map_result f xs = Inr (map g xs)"
  by (induction xs) auto

lemma compileWorkflowGraph_ok:
  assumes ok: "workflowGraph h g"
  shows "compileWorkflowGraph h g = Inr (graph_plan h (parsed_graph h g))"
proof -
  let ?g = "parsed_graph h g"
  have ws: "well_structured ?g" using ok by (simp add: workflowGraph_iff)
  have "compile_step (nodes_by_id ?g) (inbound_of h ?g) (outbound_of h ?g) sid = Inr (step_of h ?g sid)"
    if "sid \<in> set (order_of h ?g)" for sid
  proof -
    have "sid \<in> node_id ` set (nodes ?g)" using that order_of_spec(2) [OF ws]
      by (simp only: node_ids_def set_map)
    then obtain n where "node_at (nodes ?g) sid = Some n" using node_at_inside by blast
    then show ?thesis by (simp add: compile_step_def map_of_map_from step_of_def Let_def del: parsed_graph_sel)
  qed
  then have "map_result (compile_step (nodes_by_id ?g) (inbound_of h ?g) (outbound_of h ?g)) (order_of h ?g)
      = Inr (map (step_of h ?g) (order_of h ?g))"
    by (rule map_result_Inr)
  then show ?thesis
    unfolding compileWorkflowGraph_def Let_def
    using ok by (simp only: deterministicTopologicalOrder_ok [OF ws] and_then.simps graph_plan_def
      not_True_eq_False if_False)
qed

lemma compile_succeeds: "(\<exists>p. compileWorkflowGraph h g = Inr p) \<longleftrightarrow> workflowGraph h g"
  using compileWorkflowGraph_ok by (cases "workflowGraph h g") (auto simp: compileWorkflowGraph_def)

section \<open>The plan follows the graph\<close>

lemma compiled_plan_is:
  assumes "compileWorkflowGraph h g = Inr p"
  defines "g' \<equiv> parsed_graph h g"
  shows "p = plan_of (map (step_of h g') (order_of h g'))" and "well_structured g'" and "publishable g'"
proof -
  have ok: "workflowGraph h g" using assms compile_succeeds by blast
  then show "well_structured g'" "publishable g'" by (simp_all add: g'_def workflowGraph_iff)
  show "p = plan_of (map (step_of h g') (order_of h g'))"
    using assms(1) compileWorkflowGraph_ok [OF ok] by (simp add: g'_def graph_plan_def)
qed

lemma stepId_step_of [simp]: "stepId (step_of h g sid) = sid"
  by (simp add: step_of_def Let_def)

lemma map_stepId_step_of [simp]: "map stepId (map (step_of h g) ids) = ids"
  by (induction ids) simp_all

lemma steps_plan_of [simp]: "steps (plan_of ss) = ss"
  by (simp add: plan_of_def)

lemma inboundRoutes_step_of:
  "inboundRoutes (step_of h g sid) = filter (\<lambda>r. targetStepId r = sid) (compileRoutes h g)"
  by (simp add: step_of_def Let_def get_or_groupRoutes)

lemma outboundRoutes_step_of:
  "outboundRoutes (step_of h g sid) = filter (\<lambda>r. sourceStepId r = sid) (compileRoutes h g)"
  by (simp add: step_of_def Let_def get_or_groupRoutes)

lemma dependencies_step_of:
  "set (dependencyStepIds (step_of h g sid)) = sourceNodeId ` {e \<in> set (edges g). targetNodeId e = sid}"
  by (force simp: step_of_def Let_def get_or_groupRoutes set_compileRoutes image_iff)

lemma order_dependencies:
  assumes ws: "well_structured g" and i: "i < length (order_of h g)"
    and d: "d \<in> set (dependencyStepIds (step_of h g (order_of h g ! i)))"
  shows "d \<in> set (take i (order_of h g))"
proof -
  from d obtain e where e: "e \<in> set (edges g)" "targetNodeId e = order_of h g ! i" "d = sourceNodeId e"
    by (auto simp: dependencies_step_of)
  have "d \<in> set (node_ids g)"
    using ws e by (auto simp: well_structured_def node_ids_def dest: connects_nodes)
  moreover have "order_of h g ! i \<in> set (route_targets (outbound_of h g) d)"
    unfolding set_outbound using e by (intro image_eqI [where x = e]) simp_all
  ultimately show ?thesis
    using order_of_spec(3) [OF ws, of h] i by (simp add: topological_def)
qed

lemma length_filter_distinct_le_1:
  "distinct (map f xs) \<Longrightarrow> length (filter (\<lambda>x. f x = k) xs) \<le> 1"
proof (induction xs)
  case (Cons x xs)
  then have "f x = k \<Longrightarrow> filter (\<lambda>x. f x = k) xs = []" by (force simp: filter_empty_conv image_iff)
  with Cons show ?case by auto
qed simp

lemma inbound_at_most_one:
  assumes ws: "well_structured g"
  shows "length (inboundRoutes (step_of h g sid)) \<le> 1"
proof -
  have "mset (map targetStepId (compileRoutes h g)) = mset (map targetNodeId (edges g))"
    by (simp add: compileRoutes_def multiset.map_comp o_def)
  then have "distinct (map targetStepId (compileRoutes h g))"
    using ws by (metis mset_eq_imp_distinct_iff well_structured_def)
  then show ?thesis unfolding inboundRoutes_step_of by (rule length_filter_distinct_le_1)
qed

lemma trigger_no_edge:
  assumes ws: "well_structured g" and e: "e \<in> set (edges g)"
  shows "targetNodeId e \<notin> trigger_ids g"
proof
  assume "targetNodeId e \<in> trigger_ids g"
  then obtain n where n: "n \<in> set (nodes g)" "node_id n = targetNodeId e" "node_kind n = Trigger_table_rows"
    by (auto simp: trigger_ids_def)
  then have "node_at (nodes g) (targetNodeId e) = Some n"
    using ws by (simp add: well_structured_def node_at_distinct)
  moreover have "connects (nodes g) e" using ws e by (simp add: well_structured_def)
  ultimately show False using n(3) by (auto simp: connects_def find_port_def split: option.splits)
qed

lemma entry_steps:
  assumes ws: "well_structured g" and pub: "publishable g"
  shows "set (entryStepIds (plan_of (map (step_of h g) (order_of h g)))) = trigger_ids g"
proof -
  have "inboundRoutes (step_of h g sid) = [] \<longleftrightarrow> sid \<notin> targetNodeId ` set (edges g)" for sid
    by (auto simp: inboundRoutes_step_of filter_empty_conv set_compileRoutes)
  moreover have "sid \<notin> targetNodeId ` set (edges g) \<longleftrightarrow> sid \<in> trigger_ids g"
    if "sid \<in> node_id ` set (nodes g)" for sid
    using that pub trigger_no_edge [OF ws] by (force simp: publishable_def trigger_ids_def)
  moreover have "trigger_ids g \<subseteq> node_id ` set (nodes g)" by (auto simp: trigger_ids_def)
  moreover have "set (entryStepIds (plan_of (map (step_of h g) ids))) =
      {sid \<in> set ids. inboundRoutes (step_of h g sid) = []}" for ids
    by (simp add: plan_of_def filter_map o_def)
  ultimately show ?thesis
    using order_of_spec(2) [OF ws, of h] trigger_no_edge [OF ws] by (auto simp: node_ids_def)
qed

section \<open>The plan does not depend on the presentation\<close>

text \<open>Two graphs that differ only in the order of their lists and in their layout.\<close>

definition node_core :: "workflow_node \<Rightarrow> jsstr \<times> jsstr \<times> configuration" where
  "node_core n = (node_id n, node_name n, configuration n)"

definition same_program :: "workflow_graph \<Rightarrow> workflow_graph \<Rightarrow> bool" where
  "same_program g g' \<longleftrightarrow> mset (map node_core (nodes g)) = mset (map node_core (nodes g'))
     \<and> mset (edges g) = mset (edges g')"

lemma same_program_mset:
  assumes "same_program g g'"
  shows "mset (map node_core (nodes g)) = mset (map node_core (nodes g'))"
    and "mset (edges g) = mset (edges g')" and "mset (node_ids g) = mset (node_ids g')"
proof -
  show core: "mset (map node_core (nodes g)) = mset (map node_core (nodes g'))"
    and "mset (edges g) = mset (edges g')"
    using assms unfolding same_program_def by blast+
  have "image_mset fst (mset (map node_core (nodes g))) = image_mset fst (mset (map node_core (nodes g')))"
    by (rule arg_cong [OF core])
  then show "mset (node_ids g) = mset (node_ids g')"
    by (simp add: node_ids_def node_core_def multiset.map_comp o_def)
qed

lemma relax_cong:
  "(\<forall>k. get_or 0 c k = get_or 0 d k) \<Longrightarrow>
     snd (relax add ts c r) = snd (relax add ts d r)
     \<and> (\<forall>k. get_or 0 (fst (relax add ts c r)) k = get_or 0 (fst (relax add ts d r)) k)"
  by (induction ts arbitrary: c d r) (simp_all add: Let_def)

lemma order_visit_cong:
  assumes outs: "\<And>k. get_or [] out k = get_or [] out' k"
  shows "(\<forall>k. get_or 0 c k = get_or 0 d k) \<Longrightarrow> order_visit out ready c acc = order_visit out' ready d acc"
  using outs
proof (induction out ready c acc arbitrary: d rule: order_visit.induct)
  case (1 out ready c acc)
  show ?case
  proof (cases ready)
    case Nil
    then show ?thesis by (simp add: order_visit.simps [of out] order_visit.simps [of out'])
  next
    case (Cons x rest)
    have t: "route_targets out' x = route_targets out x"
      using "1.prems"(2) by (simp add: route_targets_def)
    obtain c' r where c: "relax insertSorted (route_targets out x) c rest = (c', r)" by fastforce
    obtain d' r' where d: "relax insertSorted (route_targets out x) d rest = (d', r')" by fastforce
    have "r' = r" and cd: "\<forall>k. get_or 0 c' k = get_or 0 d' k"
      using relax_cong [OF "1.prems"(1), of insertSorted "route_targets out x" rest] c d by simp_all
    then show ?thesis
      using "1.IH" [OF Cons c [symmetric] cd "1.prems"(2)] Cons
      by (simp add: order_visit.simps [of out "x # rest"] order_visit.simps [of out' "x # rest"] c d t)
  qed
qed

lemma compareRoutes_comparator: "comparator (localeCompare h) \<Longrightarrow> comparator (compareRoutes h)"
  by (simp add: compareRoutes_def comparator_or_else comparator_on_field)

lemma or_else_zero: "or_else c d x y = 0 \<longleftrightarrow> c x y = 0 \<and> d x y = 0"
  by (simp add: or_else_def)

text \<open>Two routes of a graph that compare as equal have the same edge, because its identifier is unique.\<close>

definition distinguishes_ids :: "host \<Rightarrow> bool" where
  "distinguishes_ids h \<longleftrightarrow> (\<forall>a b. valid_uuid h a \<longrightarrow> valid_uuid h b \<longrightarrow> localeCompare h a b = 0 \<longrightarrow> a = b)"

lemma compareRoutes_zero:
  assumes "distinguishes_ids h" and "distinct (map edge_id es)" and "\<forall>e \<in> set es. valid_uuid h (edge_id e)"
    and "r \<in> route_of ` set es" and "r' \<in> route_of ` set es" and "compareRoutes h r r' = 0"
  shows "r = r'"
proof -
  obtain e e' where e: "e \<in> set es" "e' \<in> set es" "r = route_of e" "r' = route_of e'" using assms(4,5) by blast
  have "edge_id e = edge_id e'"
    using assms(1,3,6) e by (simp add: distinguishes_ids_def compareRoutes_def or_else_zero on_field_def route_of_def)
  then show ?thesis using e assms(2) by (auto simp: distinct_map dest: inj_onD)
qed

lemma compileRoutes_cong:
  assumes c: "comparator (localeCompare h)" and z: "distinguishes_ids h"
    and ids: "distinct (map edge_id (edges g))" "\<forall>e \<in> set (edges g). valid_uuid h (edge_id e)"
    and m: "mset (edges g) = mset (edges g')"
  shows "compileRoutes h g = compileRoutes h g'"
proof -
  note C = compareRoutes_comparator [OF c]
  let ?le = "\<lambda>x y. compareRoutes h x y \<le> 0"
  have anti: "r = r'" if "r \<in> route_of ` set (edges g)" "r' \<in> route_of ` set (edges g)" "?le r r'" "?le r' r" for r r'
    using that comparator_flip [OF C, of r' r] compareRoutes_zero [OF z ids, of r r'] by simp
  have "mset (compileRoutes h g) = mset (compileRoutes h g')"
    using m by (simp add: compileRoutes_def)
  moreover have "sorted_wrt ?le (compileRoutes h g)" "sorted_wrt ?le (compileRoutes h g')"
    using sorted_sort_by [OF C] by (simp_all add: compileRoutes_def)
  moreover have "set (compileRoutes h g) \<subseteq> route_of ` set (edges g)" by (simp add: set_compileRoutes)
  ultimately show ?thesis using sorted_unique_on [of "route_of ` set (edges g)" ?le, OF anti] by blast
qed

lemma sort_mset_cong: "mset xs = mset ys \<Longrightarrow> sort xs = sort ys"
  for xs :: "'a::linorder list"
  by (metis mset_sort properties_for_sort sorted_sort)

lemma order_of_cong:
  assumes R: "compileRoutes h g = compileRoutes h g'" and N: "mset (node_ids g) = mset (node_ids g')"
  shows "order_of h g = order_of h g'"
proof -
  define f where "f = (\<lambda>n. int (length (set_from (map sourceStepId (get_or [] (inbound_of h g) n)))))"
  let ?cnt = "\<lambda>g. map (\<lambda>n. (n, f n)) (node_ids g)"
  have set: "set (node_ids g) = set (node_ids g')" using N by (rule mset_eq_setD)
  have cnt: "\<forall>k. get_or 0 (?cnt g) k = get_or 0 (?cnt g') k" by (simp add: set)
  then have P: "(\<lambda>n. get_or 0 (?cnt g) n = 0) = (\<lambda>n. get_or 0 (?cnt g') n = 0)" by simp
  have "sort (filter P (node_ids g)) = sort (filter P (node_ids g'))" for P
    by (rule sort_mset_cong) (simp add: N)
  then have r: "sort (filter (\<lambda>n. get_or 0 (?cnt g) n = 0) (node_ids g)) =
      sort (filter (\<lambda>n. get_or 0 (?cnt g') n = 0) (node_ids g'))"
    unfolding P by blast
  have "order_of h g = order_visit (outbound_of h g) (sort (filter (\<lambda>n. get_or 0 (?cnt g) n = 0) (node_ids g))) (?cnt g) []"
    by (simp only: order_of_def Let_def f_def)
  also have "\<dots> = order_visit (outbound_of h g) (sort (filter (\<lambda>n. get_or 0 (?cnt g') n = 0) (node_ids g'))) (?cnt g') []"
    unfolding r by (rule order_visit_cong [OF refl cnt])
  also have "\<dots> = order_of h g'"
    by (simp only: order_of_def Let_def f_def R)
  finally show ?thesis .
qed

lemma core_cong:
  assumes same: "same_program g g'" and ws: "well_structured g'"
    and "node_at (nodes g) k = Some n" and "node_at (nodes g') k = Some n'"
  shows "configuration n = configuration n' \<and> node_name n = node_name n'"
proof -
  have n: "n \<in> set (nodes g)" "node_id n = k" and n': "n' \<in> set (nodes g')" "node_id n' = k"
    using assms(3,4) by (auto dest: node_at_Some)
  have "set (map node_core (nodes g)) = set (map node_core (nodes g'))"
    by (rule mset_eq_setD [OF same_program_mset(1) [OF same]])
  moreover have "node_core n \<in> set (map node_core (nodes g))" using n(1) by simp
  ultimately obtain m where m: "m \<in> set (nodes g')" "node_core m = node_core n" by auto
  then have "node_id m = k" using n(2) by (simp add: node_core_def)
  then have "m = n'"
    using m(1) n' ws unfolding well_structured_def distinct_map inj_on_def by blast
  with m(2) show ?thesis by (simp add: node_core_def)
qed

lemma graph_plan_cong:
  assumes c: "comparator (localeCompare h)" and z: "distinguishes_ids h"
    and ids: "\<forall>e \<in> set (edges g). valid_uuid h (edge_id e)"
    and same: "same_program g g'" and ws: "well_structured g" "well_structured g'"
  shows "graph_plan h g = graph_plan h g'"
proof -
  have R: "compileRoutes h g = compileRoutes h g'"
    by (rule compileRoutes_cong [OF c z _ ids same_program_mset(2) [OF same]]) (use ws(1) in \<open>simp add: well_structured_def\<close>)
  note N = same_program_mset(3) [OF same]
  have set: "set (node_ids g) = set (node_ids g')" using N by (rule mset_eq_setD)
  have order: "order_of h g = order_of h g'" by (rule order_of_cong [OF R N])
  have "step_of h g k = step_of h g' k" if "k \<in> set (node_ids g)" for k
  proof -
    have "k \<in> node_id ` set (nodes g)" using that by (simp add: node_ids_def)
    then obtain n where "node_at (nodes g) k = Some n" by (rule node_at_inside)
    moreover have "k \<in> node_id ` set (nodes g')" using that set by (simp add: node_ids_def)
    then obtain n' where "node_at (nodes g') k = Some n'" by (rule node_at_inside)
    ultimately show ?thesis using core_cong [OF same ws(2)] by (simp add: step_of_def Let_def R node_kind_def)
  qed
  then have "map (step_of h g) (order_of h g) = map (step_of h g') (order_of h g')"
    using order_of_spec(2) [OF ws(1), of h] by (simp add: order)
  then show ?thesis by (simp add: graph_plan_def)
qed

lemma same_program_parsed:
  assumes same: "same_program g g'"
  shows "same_program (parsed_graph h g) (parsed_graph h g')"
proof -
  let ?f = "\<lambda>(i, name, c). (i, case workflowName h name of Some n \<Rightarrow> n | None \<Rightarrow> name, parsed_configuration h c)"
  have core: "node_core (parsed_node h n) = ?f (node_core n)" for n
    by (simp add: node_core_def parsed_node_def)
  have "image_mset ?f (mset (map node_core (nodes g))) = image_mset ?f (mset (map node_core (nodes g')))"
    by (rule arg_cong [OF same_program_mset(1) [OF same]])
  then have "mset (map (node_core \<circ> parsed_node h) (nodes g)) = mset (map (node_core \<circ> parsed_node h) (nodes g'))"
    by (simp add: multiset.map_comp o_def core)
  then show ?thesis using same_program_mset(2) [OF same] by (simp add: same_program_def)
qed

lemma compile_invariant:
  assumes c: "comparator (localeCompare h)" and z: "distinguishes_ids h"
    and same: "same_program g g'" and ok: "workflowGraph h g" "workflowGraph h g'"
  shows "compileWorkflowGraph h g = compileWorkflowGraph h g'"
proof -
  have ws: "well_structured (parsed_graph h g)" "well_structured (parsed_graph h g')"
    using ok by (auto simp: workflowGraph_iff)
  have ids: "\<forall>e \<in> set (edges (parsed_graph h g)). valid_uuid h (edge_id e)"
    using ok(1) by (auto simp: workflowGraph_iff workflowGraphShape_def edge_shape_ok_def list_all_iff parsed_graph_def)
  show ?thesis
    unfolding compileWorkflowGraph_ok [OF ok(1)] compileWorkflowGraph_ok [OF ok(2)]
    using graph_plan_cong [OF c z ids same_program_parsed [OF same] ws] by simp
qed

section \<open>Properties\<close>

text \<open>A small publishable graph: a table trigger, a filter, two webhooks.\<close>

definition sample_node :: "string \<Rightarrow> configuration \<Rightarrow> workflow_node" where
  "sample_node name c = \<lparr>node_id = js name, node_name = js name, position = (0, 0), configuration = c\<rparr>"

definition sample_edge :: "string \<Rightarrow> string \<Rightarrow> string \<Rightarrow> string \<Rightarrow> workflow_edge" where
  "sample_edge name a out b = \<lparr>edge_id = js name, sourceHandle = js out, sourceNodeId = js a,
     targetHandle = js ''rows'', targetNodeId = js b\<rparr>"

definition sample_filter :: configuration where
  "sample_filter = FilterRows (FilterGroup [] And)"

definition sample_graph :: workflow_graph where
  "sample_graph = \<lparr>edges = [sample_edge ''e1'' ''t'' ''rows'' ''f'', sample_edge ''e2'' ''f'' ''matched'' ''w'',
       sample_edge ''e3'' ''f'' ''rejected'' ''v''],
     nodes = [sample_node ''v'' (SendWebhook (js ''d'')), sample_node ''w'' (SendWebhook (js ''d'')),
       sample_node ''f'' sample_filter, sample_node ''t'' (TableRows None (js ''table'') None)],
     viewport = (0, 0, 1)\<rparr>"


text \<open>The structural check with its two scans as arguments, so that evaluation is inside out.\<close>

definition structure_report :: "workflow_issue list \<Rightarrow> edge_scan \<Rightarrow> workflow_node list \<Rightarrow> workflow_issue list" where
  "structure_report nodeIssues st ns =
     nodeIssues @ scan_issues st
     @ (if length (acyclic_visit (outgoing st)
             (map node_id (filter (\<lambda>n. get_or 0 (incomingCount st) (node_id n) = 0) ns)) (incomingCount st) [])
           \<noteq> length ns then [WorkflowCycle] else [])"

lemma validate_structure_eval [code]:
  "validateWorkflowGraphStructure g =
     structure_report (fst (scan_nodes 0 (nodes g) []))
       (scan_edges (snd (scan_nodes 0 (nodes g) [])) 0 (edges g) (start_scan (nodes g))) (nodes g)"
  by (simp add: validateWorkflowGraphStructure_def structure_report_def Let_def split: prod.splits)

lemma sample_ok: "workflowGraph ascii_host sample_graph"
  by code_simp

lemma compare_units_comparator: "comparator compare_units"
  unfolding comparator_def
proof (intro conjI allI impI)
  show "sgn (compare_units x y) = - sgn (compare_units y x)" for x y
    by (simp add: compare_units_def)
  show "compare_units x z \<le> 0" if "compare_units x y \<le> 0" "compare_units y z \<le> 0" for x y z
  proof -
    have "x \<le> y" "y \<le> z" using that by (simp_all add: compare_units_def not_less split: if_splits)
    then have "x \<le> z" by (rule order_trans)
    then show ?thesis by (simp add: compare_units_def not_less)
  qed
qed

lemma compare_units_zero: "compare_units a b = 0 \<Longrightarrow> a = b"
  by (simp add: compare_units_def split: if_splits)

definition moved_graph :: workflow_graph where
  "moved_graph = \<lparr>edges = rev (edges sample_graph),
     nodes = rev (map (\<lambda>n. n\<lparr>position := (10, 20)\<rparr>) (nodes sample_graph)), viewport = (5, 5, 2)\<rparr>"

lemma sample_draft: "workflowDraftGraph ascii_host sample_graph"
  using sample_ok by (simp add: workflowGraph_iff workflowDraftGraph_def structure_issues_iff)

lemma sample_parsed: "parsed_graph ascii_host sample_graph = sample_graph"
  by code_simp

definition sample_plan :: compiled_plan where
  "sample_plan = plan_of (map (step_of ascii_host sample_graph) [js ''t'', js ''f'', js ''v'', js ''w''])"

lemma sample_order: "order_of ascii_host sample_graph = [js ''t'', js ''f'', js ''v'', js ''w'']"
  by code_simp

lemma sample_compiles: "compileWorkflowGraph ascii_host sample_graph = Inr sample_plan"
  by (simp add: compileWorkflowGraph_ok [OF sample_ok] sample_parsed sample_order sample_plan_def graph_plan_def)

lemma moved_ok: "workflowGraph ascii_host moved_graph"
  by code_simp

lemma moved_same: "same_program sample_graph moved_graph"
  by (simp add: same_program_def sample_graph_def moved_graph_def node_core_def sample_node_def)

text \<open>
  C1. The validation of a draft accepts a graph exactly when it has the bounded shape, its
  node and edge identifiers are unique, every edge joins an output port to an input port of
  the same type on another existing node, no input port is fed twice, and the graph has no
  cycle.
\<close>

theorem draft_graph_accepted_iff:
  "workflowDraftGraph h g \<longleftrightarrow> workflowGraphShape h g
     \<and> distinct (map node_id (nodes g)) \<and> distinct (map edge_id (edges g))
     \<and> (\<forall>e \<in> set (edges g). connects (nodes g) e)
     \<and> distinct (map input_key (edges g)) \<and> acyclic (edge_rel (edges g))"
proof -
  have "\<forall>e \<in> set (edges g). connects (nodes g) e \<Longrightarrow>
      distinct (map targetNodeId (edges g)) \<longleftrightarrow> distinct (map input_key (edges g))"
    using distinct_input_key [of "edges g" "nodes g"] by blast
  then show ?thesis by (auto simp: workflowDraftGraph_def structure_issues_iff well_structured_def)
qed

theorem draft_graph_accepted_iff_witness:
  "acyclic (edge_rel (edges sample_graph)) \<and> distinct (map input_key (edges sample_graph))"
  using draft_graph_accepted_iff [of ascii_host sample_graph] sample_draft by blast

text \<open>
  C2. A graph may be published exactly when it is an acceptable draft, has a trigger and a
  destination, and every node that is not a trigger is fed by an edge; then every node is
  reached from a trigger along the edges.
\<close>

theorem published_graph_accepted_iff:
  "workflowGraph h g \<longleftrightarrow> workflowDraftGraph h g
     \<and> (\<exists>n \<in> set (nodes g). node_kind n = Trigger_table_rows)
     \<and> (\<exists>n \<in> set (nodes g). is_destination (node_kind n))
     \<and> (\<forall>n \<in> set (nodes g). node_kind n \<noteq> Trigger_table_rows \<longrightarrow> node_id n \<in> targetNodeId ` set (edges g))
     \<and> (\<forall>n \<in> set (nodes g). \<exists>t \<in> set (nodes g). node_kind t = Trigger_table_rows
          \<and> (node_id t, node_id n) \<in> (edge_rel (edges g))\<^sup>*)"
  unfolding workflowGraph_iff workflowDraftGraph_def structure_issues_iff publishable_def trigger_ids_def
  by blast

theorem published_graph_accepted_iff_witness:
  "\<exists>t \<in> set (nodes sample_graph). node_kind t = Trigger_table_rows
     \<and> (node_id t, js ''v'') \<in> (edge_rel (edges sample_graph))\<^sup>*"
proof -
  have "sample_node ''v'' (SendWebhook (js ''d'')) \<in> set (nodes sample_graph)"
    by (simp add: sample_graph_def)
  then have "\<exists>t \<in> set (nodes sample_graph). node_kind t = Trigger_table_rows
      \<and> (node_id t, node_id (sample_node ''v'' (SendWebhook (js ''d'')))) \<in> (edge_rel (edges sample_graph))\<^sup>*"
    using published_graph_accepted_iff [of ascii_host sample_graph] sample_ok by blast
  then show ?thesis by (simp add: sample_node_def)
qed

text \<open>
  C3. The compiler never throws on a graph the validation accepts, and accepts no other: the
  failure of a step without a node and the error \<open>could not be ordered\<close> are unreachable.
\<close>

theorem compile_total_on_accepted:
  "compileWorkflowGraph h g = (if workflowGraph h g
     then Inr (graph_plan h (parsed_graph h g)) else Inl InvalidGraph)"
  using compileWorkflowGraph_ok [of h g] by (cases "workflowGraph h g") (simp_all add: compileWorkflowGraph_def)

text \<open>
  C4. The steps of a compiled plan are the nodes of the graph, each once, in an order in
  which every step comes after the steps it depends on.
\<close>

theorem plan_is_topological:
  assumes "compileWorkflowGraph h g = Inr p"
  shows "distinct (map stepId (steps p)) \<and> set (map stepId (steps p)) = node_id ` set (nodes g)
    \<and> (\<forall>i < length (steps p). set (dependencyStepIds (steps p ! i)) =
         sourceNodeId ` {e \<in> set (edges g). targetNodeId e = stepId (steps p ! i)}
         \<and> set (dependencyStepIds (steps p ! i)) \<subseteq> set (take i (map stepId (steps p))))"
proof -
  let ?g = "parsed_graph h g"
  note p = compiled_plan_is [OF assms]
  have "set (dependencyStepIds (steps p ! i)) \<subseteq> set (take i (map stepId (steps p)))"
    if "i < length (steps p)" for i
    using that order_dependencies [OF p(2), of i h]
    by (auto simp: p(1) simp del: map_map)
  moreover have "set (node_ids ?g) = node_id ` set (nodes g)"
    by (simp add: node_ids_def node_ids_parsed)
  ultimately show ?thesis
    using order_of_spec [OF p(2), of h]
    by (simp add: p(1) dependencies_step_of del: map_map)
qed

theorem plan_is_topological_witness:
  "js ''t'' \<in> set (take 1 (map stepId (steps sample_plan)))"
  using plan_is_topological [OF sample_compiles]
  by (auto simp: sample_plan_def dependencies_step_of sample_graph_def sample_edge_def js_eval)

text \<open>
  C5. A compiled step is fed by at most one route, its routes are exactly the edges that
  enter and leave its node, and the entry steps of the plan are the triggers.
\<close>

theorem plan_routes:
  assumes "compileWorkflowGraph h g = Inr p"
  shows "(\<forall>s \<in> set (steps p). length (inboundRoutes s) \<le> 1
      \<and> set (inboundRoutes s) = route_of ` {e \<in> set (edges g). targetNodeId e = stepId s}
      \<and> set (outboundRoutes s) = route_of ` {e \<in> set (edges g). sourceNodeId e = stepId s})
    \<and> set (entryStepIds p) = node_id ` {n \<in> set (nodes g). node_kind n = Trigger_table_rows}"
proof -
  note p = compiled_plan_is [OF assms]
  have "trigger_ids (parsed_graph h g) = node_id ` {n \<in> set (nodes g). node_kind n = Trigger_table_rows}"
    by (rule trigger_ids_parsed)
  then show ?thesis
    using inbound_at_most_one [OF p(2), of h] entry_steps [OF p(2,3), of h]
    by (auto simp: p(1) inboundRoutes_step_of outboundRoutes_step_of set_compileRoutes)
qed

theorem plan_routes_witness:
  "set (entryStepIds sample_plan) = {js ''t''}"
proof -
  have "set (entryStepIds sample_plan) =
      node_id ` {n \<in> set (nodes sample_graph). node_kind n = Trigger_table_rows}"
    using plan_routes [OF sample_compiles] by blast
  also have "\<dots> = set (map node_id (filter (\<lambda>n. node_kind n = Trigger_table_rows) (nodes sample_graph)))"
    by (simp only: set_map set_filter)
  also have "\<dots> = {js ''t''}"
    by (simp add: sample_graph_def sample_node_def node_kind_def sample_filter_def)
  finally show ?thesis .
qed

text \<open>
  C6. Compilation is deterministic: two accepted graphs with the same nodes and edges compile
  to the same plan, whatever the order of the lists, the positions of the nodes and the
  viewport, when the locale's comparison is an order that tells the identifiers of edges (UUIDs)
  apart; strings that are not identifiers may compare as equal.
\<close>

theorem compile_ignores_presentation:
  assumes "comparator (localeCompare h)" and "distinguishes_ids h"
    and "same_program g g'" and "workflowGraph h g" and "workflowGraph h g'"
  shows "compileWorkflowGraph h g = compileWorkflowGraph h g'"
  by (rule compile_invariant [OF assms])

theorem compile_ignores_presentation_witness:
  "compileWorkflowGraph ascii_host sample_graph = compileWorkflowGraph ascii_host moved_graph"
  by (rule compile_ignores_presentation)
    (use sample_ok moved_ok moved_same compare_units_comparator compare_units_zero in
      \<open>auto simp: ascii_host_def distinguishes_ids_def\<close>)

end
