(* ===== verification/Leases.thy ===== *)
theory Leases
  imports Prelude "HOL-Library.Multiset" "HOL-Library.Product_Lexorder"
begin

text \<open>
  The tables of the database as lists of rows, and the claim transaction that the outbox,
  the workflow ledger and the other job tables share: select the eligible rows in order up
  to a limit, take them by an update under the same condition, and compare the two counts.
  The interface \<open>lease_table\<close> states what a job table promises; mutual exclusion, fencing
  and the unreachability of the conflict error are proved once against it.
\<close>

section \<open>Statements on rows\<close>

definition select_where :: "('r \<Rightarrow> bool) \<Rightarrow> 'r list \<Rightarrow> 'r list" where
  "select_where P rows = filter P rows"

definition update_where :: "('r \<Rightarrow> bool) \<Rightarrow> ('r \<Rightarrow> 'r) \<Rightarrow> 'r list \<Rightarrow> 'r list" where
  "update_where P f rows = map (\<lambda>r. if P r then f r else r) rows"

lemma set_update_where: "set (update_where P f rows) = f ` {r \<in> set rows. P r} \<union> {r \<in> set rows. \<not> P r}"
  by (auto simp: update_where_def)

lemma length_update_where [simp]: "length (update_where P f rows) = length rows"
  by (simp add: update_where_def)

lemma keys_update_where [run_simps]:
  "(\<And>r. key (f r) = key r) \<Longrightarrow> map key (update_where P f rows) = map key rows"
  by (simp add: update_where_def)

lemma update_where_none: "(\<And>r. r \<in> set rows \<Longrightarrow> \<not> P r) \<Longrightarrow> update_where P f rows = rows"
  by (simp add: update_where_def map_idI)

lemma select_update_where: "map f (select_where P rows) = map f (filter P rows)"
  by (simp add: select_where_def)

text \<open>\<open>const [row] = await ...limit(1)\<close>.\<close>

definition first_row :: "'r list \<Rightarrow> 'r option" where
  "first_row rows = (case rows of [] \<Rightarrow> None | r # _ \<Rightarrow> Some r)"

section \<open>Claim inputs\<close>

text \<open>\<open>!claimId || claimId.length > 200 || /\p{Cc}/u.test(claimId)\<close> is the invalid case.\<close>

definition valid_claim_id :: "jsstr \<Rightarrow> bool" where
  "valid_claim_id claimId \<longleftrightarrow>
     claimId \<noteq> [] \<and> length claimId \<le> 200 \<and> \<not> list_ex is_control claimId"

text \<open>\<open>Math.max(lo, Math.min(Math.trunc(value ?? d), hi))\<close> on a number that is not \<open>NaN\<close>.\<close>

definition clamp :: "int \<Rightarrow> int \<Rightarrow> int \<Rightarrow> int option \<Rightarrow> int" where
  "clamp lo hi d value = max lo (min (case value of None \<Rightarrow> d | Some v \<Rightarrow> v) hi)"

lemma clamp_bounds: "lo \<le> hi \<Longrightarrow> lo \<le> clamp lo hi d v \<and> clamp lo hi d v \<le> hi"
  by (simp add: clamp_def)

definition lease_seconds :: "int option \<Rightarrow> int" where
  "lease_seconds v = clamp 30 3600 300 v"

definition stale_before :: "int \<Rightarrow> int option \<Rightarrow> int" where
  "stale_before now v = now - lease_seconds v * 1000"

lemma stale_before_bounds: "now - 3600000 \<le> stale_before now v \<and> stale_before now v \<le> now - 30000"
  using clamp_bounds [of 30 3600 300 v] by (simp add: stale_before_def lease_seconds_def)

section \<open>The claim transaction\<close>

definition position_of :: "'k list \<Rightarrow> 'k \<Rightarrow> nat" where
  "position_of ks k = length (takeWhile (\<lambda>x. x \<noteq> k) ks)"

definition claim_candidates :: "('r \<Rightarrow> 'o :: linorder) \<Rightarrow> nat \<Rightarrow> ('r \<Rightarrow> bool) \<Rightarrow> 'r list \<Rightarrow> 'r list" where
  "claim_candidates order limit eligible rows = take limit (sort_key order (select_where eligible rows))"

text \<open>The rows after the update with the rows it returned, or the conflict (\<open>None\<close>).\<close>

definition claim_rows :: "('r \<Rightarrow> 'k) \<Rightarrow> ('r \<Rightarrow> 'o :: linorder) \<Rightarrow> nat \<Rightarrow> ('r \<Rightarrow> bool)
    \<Rightarrow> ('r \<Rightarrow> 'r) \<Rightarrow> 'r list \<Rightarrow> ('r list \<times> 'r list) option" where
  "claim_rows key order limit eligible mark rows =
     (let candidates = map key (claim_candidates order limit eligible rows);
          chosen = (\<lambda>r. key r \<in> set candidates \<and> eligible r);
          claimed = map mark (select_where chosen rows)
      in if candidates = [] then Some (rows, [])
         else if length claimed \<noteq> length candidates then None
         else Some (update_where chosen mark rows,
                    sort_key (\<lambda>r. position_of candidates (key r)) claimed))"

lemma set_claim_candidates: "set (claim_candidates order limit eligible rows) \<subseteq> {r \<in> set rows. eligible r}"
  by (auto simp: claim_candidates_def select_where_def dest: in_set_takeD)

lemma length_claim_candidates: "length (claim_candidates order limit eligible rows) \<le> limit"
  by (simp add: claim_candidates_def)

lemma distinct_mset_cong: "mset xs = mset ys \<Longrightarrow> distinct xs = distinct ys"
  by (rule mset_eq_imp_distinct_iff)

lemma distinct_sort_key: "distinct (map key xs) \<Longrightarrow> distinct (map key (sort_key f xs))"
proof -
  assume "distinct (map key xs)"
  moreover have "mset (map key (sort_key f xs)) = mset (map key xs)" by simp
  ultimately show ?thesis by (metis mset_eq_imp_distinct_iff)
qed

lemma distinct_candidates:
  "distinct (map key rows) \<Longrightarrow> distinct (map key (claim_candidates order limit eligible rows))"
  unfolding claim_candidates_def select_where_def take_map [symmetric]
  by (intro distinct_take distinct_sort_key) (simp add: distinct_map_filter)

text \<open>With a primary key, the update takes exactly the candidates.\<close>

lemma chosen_candidates:
  fixes order :: "'r \<Rightarrow> 'o :: linorder" and limit :: nat and eligible :: "'r \<Rightarrow> bool"
  assumes d: "distinct (map key rows)"
  defines "cs \<equiv> claim_candidates order limit eligible rows"
  shows "mset (select_where (\<lambda>r. key r \<in> set (map key cs) \<and> eligible r) rows) = mset cs"
proof -
  have sub: "set cs \<subseteq> {r \<in> set rows. eligible r}"
    unfolding cs_def by (rule set_claim_candidates)
  have "set (select_where (\<lambda>r. key r \<in> set (map key cs) \<and> eligible r) rows) = set cs"
  proof
    show "set cs \<subseteq> set (select_where (\<lambda>r. key r \<in> set (map key cs) \<and> eligible r) rows)"
      using sub by (auto simp: select_where_def)
    show "set (select_where (\<lambda>r. key r \<in> set (map key cs) \<and> eligible r) rows) \<subseteq> set cs"
    proof
      fix r
      assume "r \<in> set (select_where (\<lambda>r. key r \<in> set (map key cs) \<and> eligible r) rows)"
      then obtain c where "r \<in> set rows" "c \<in> set cs" "key c = key r" by (auto simp: select_where_def)
      moreover from this sub have "c \<in> set rows" by auto
      ultimately show "r \<in> set cs" using d by (auto simp: distinct_map dest: inj_onD)
    qed
  qed
  moreover have "distinct cs"
    using distinct_candidates [OF d, of order limit eligible] by (simp add: cs_def distinct_map)
  moreover have "distinct (select_where (\<lambda>r. key r \<in> set (map key cs) \<and> eligible r) rows)"
    using d by (simp add: select_where_def distinct_map)
  ultimately show ?thesis by (metis set_eq_iff_mset_eq_distinct)
qed

lemma position_of_nth: "distinct ks \<Longrightarrow> i < length ks \<Longrightarrow> position_of ks (ks ! i) = i"
proof (induction ks arbitrary: i)
  case Nil
  then show ?case by simp
next
  case (Cons k ks)
  then show ?case by (cases i) (auto simp: position_of_def)
qed

lemma sorted_positions: "distinct ks \<Longrightarrow> map (position_of ks) ks = [0..<length ks]"
  by (rule nth_equalityI) (simp_all add: position_of_nth)

lemma sort_key_to_candidates:
  assumes m: "mset rs = mset cs" and d: "distinct (map key cs)"
  shows "sort_key (\<lambda>r. position_of (map key cs) (key r)) rs = cs"
proof -
  let ?f = "\<lambda>r. position_of (map key cs) (key r)"
  have "map ?f cs = [0..<length cs]"
    using sorted_positions [OF d] by (simp add: o_def)
  then have "sorted (map ?f cs)" by simp
  moreover have "inj_on ?f (set rs)"
  proof (rule inj_onI)
    fix x y
    assume xy: "x \<in> set rs" "y \<in> set rs" "?f x = ?f y"
    then have "x \<in> set cs" "y \<in> set cs" using m by (auto dest: mset_eq_setD)
    then obtain i j where "i < length cs" "cs ! i = x" "j < length cs" "cs ! j = y"
      by (auto simp: in_set_conv_nth)
    then show "x = y" using xy(3) position_of_nth [OF d, of i] position_of_nth [OF d, of j] by simp
  qed
  ultimately show ?thesis using m by (intro sort_key_inj_key_eq)
qed

text \<open>The claim never reports the conflict, and returns the candidates in their order.\<close>

lemma claim_rows_ok:
  assumes d: "distinct (map key rows)" and keep: "\<And>r. key (mark r) = key r"
  shows "claim_rows key order limit eligible mark rows =
    (let cs = claim_candidates order limit eligible rows
     in Some (update_where (\<lambda>r. key r \<in> key ` set cs \<and> eligible r) mark rows, map mark cs))"
proof -
  let ?cs = "claim_candidates order limit eligible rows"
  let ?chosen = "\<lambda>r. key r \<in> set (map key ?cs) \<and> eligible r"
  have m: "mset (select_where ?chosen rows) = mset ?cs"
    by (rule chosen_candidates [OF d])
  then have len: "length (select_where ?chosen rows) = length ?cs"
    by (rule mset_eq_length)
  have m': "mset (map mark (select_where ?chosen rows)) = mset (map mark ?cs)"
    using m by simp
  have k: "map key (map mark ?cs) = map key ?cs" by (simp add: keep)
  have d': "distinct (map key (map mark ?cs))" unfolding k by (rule distinct_candidates [OF d])
  have sorted: "sort_key (\<lambda>r. position_of (map key ?cs) (key r)) (map mark (select_where ?chosen rows))
      = map mark ?cs"
    using sort_key_to_candidates [OF m' d'] unfolding k .
  show ?thesis
  proof (cases "?cs = []")
    case True
    then show ?thesis by (simp add: claim_rows_def update_where_none)
  next
    case False
    then show ?thesis using len sorted by (simp add: claim_rows_def Let_def)
  qed
qed

section \<open>The contract of a job table\<close>

text \<open>
  \<open>eligible query now staleBefore\<close> is the condition of the claim, \<open>mark claimId now\<close> what the claim
  writes, \<open>owned claimId\<close> the condition of the later updates by the holder of the lease.
\<close>

locale lease_table =
  fixes key :: "'r \<Rightarrow> 'k"
    and eligible :: "'q \<Rightarrow> int \<Rightarrow> int \<Rightarrow> 'r \<Rightarrow> bool"
    and mark :: "jsstr \<Rightarrow> int \<Rightarrow> 'r \<Rightarrow> 'r"
    and owned :: "jsstr \<Rightarrow> 'r \<Rightarrow> bool"
  assumes key_mark: "key (mark c t r) = key r"
    and lease_mark: "stale \<le> t \<Longrightarrow> \<not> eligible q now stale (mark c t r)"
    and owned_mark: "eligible q now stale r \<Longrightarrow> owned c' (mark c t r) \<longleftrightarrow> c' = c"
begin

lemma claim_succeeds:
  "distinct (map key rows) \<Longrightarrow>
     claim_rows key order limit (eligible q now stale) (mark c t) rows \<noteq> None"
  by (simp add: claim_rows_ok key_mark Let_def)

lemma claim_effect:
  assumes d: "distinct (map key rows)"
    and c: "claim_rows key order limit (eligible q now stale) (mark c t) rows = Some (rows', taken)"
  shows "map key rows' = map key rows" and "distinct (map key taken)" and "length taken \<le> limit"
    and "set taken \<subseteq> mark c t ` {r \<in> set rows. eligible q now stale r}"
    and "rows' = update_where (\<lambda>r. key r \<in> key ` set taken) (mark c t) rows"
proof -
  let ?cs = "claim_candidates order limit (eligible q now stale) rows"
  from c have r': "rows' = update_where (\<lambda>r. key r \<in> key ` set ?cs \<and> eligible q now stale r) (mark c t) rows"
    and taken: "taken = map (mark c t) ?cs"
    by (simp_all add: claim_rows_ok [OF d] key_mark Let_def)
  have k: "key ` set taken = key ` set ?cs" by (simp add: taken image_image key_mark)
  show "map key rows' = map key rows" by (simp add: r' keys_update_where key_mark)
  show "distinct (map key taken)"
    using distinct_candidates [OF d, of order limit "eligible q now stale"] by (simp add: taken o_def key_mark)
  show "length taken \<le> limit" by (simp add: taken length_claim_candidates)
  have inj: "inj_on key (set rows)" using d by (simp add: distinct_map)
  have sub: "set ?cs \<subseteq> {r \<in> set rows. eligible q now stale r}" by (rule set_claim_candidates)
  have eq: "{r \<in> set rows. key r \<in> key ` set ?cs} = set ?cs"
  proof
    show "set ?cs \<subseteq> {r \<in> set rows. key r \<in> key ` set ?cs}" using sub by auto
    show "{r \<in> set rows. key r \<in> key ` set ?cs} \<subseteq> set ?cs"
    proof
      fix r
      assume "r \<in> {r \<in> set rows. key r \<in> key ` set ?cs}"
      then obtain c where "r \<in> set rows" "c \<in> set ?cs" "key r = key c" by auto
      moreover from this sub have "c \<in> set rows" by auto
      ultimately show "r \<in> set ?cs" using inj by (auto dest: inj_onD)
    qed
  qed
  show "set taken \<subseteq> mark c t ` {r \<in> set rows. eligible q now stale r}"
    using sub by (auto simp: taken)
  show "rows' = update_where (\<lambda>r. key r \<in> key ` set taken) (mark c t) rows"
    unfolding r' k update_where_def using eq sub by (intro map_cong refl) auto
qed

lemma claim_origin:
  assumes "distinct (map key rows)"
    and "claim_rows key order limit (eligible q now stale) (mark c t) rows = Some (rows', taken)"
    and "k \<in> key ` set taken"
  obtains r where "r \<in> set rows" "eligible q now stale r" "key r = k"
proof -
  from assms(3) obtain x where x: "x \<in> set taken" "k = key x" by blast
  with claim_effect(4) [OF assms(1,2)] obtain r where "r \<in> set rows" "eligible q now stale r" "x = mark c t r"
    by blast
  with x that key_mark show ?thesis by simp
qed

text \<open>While a lease is fresh, no other claim takes the row.\<close>

lemma claims_disjoint:
  assumes d: "distinct (map key rows)"
    and c1: "claim_rows key order limit (eligible q now stale) (mark c t) rows = Some (rows', taken)"
    and c2: "claim_rows key order' limit' (eligible q' now' stale') (mark c' t') rows' = Some (rows'', taken')"
    and fresh: "stale' \<le> t"
  shows "key ` set taken \<inter> key ` set taken' = {}"
proof -
  note e1 = claim_effect [OF d c1]
  have d': "distinct (map key rows')" unfolding e1(1) by (rule d)
  have "key r \<notin> key ` set taken" if "r \<in> set rows'" "eligible q' now' stale' r" for r
  proof
    assume "key r \<in> key ` set taken"
    with that(1) have "r \<in> mark c t ` set rows"
      unfolding e1(5) set_update_where by (auto simp: key_mark)
    then show False using that(2) lease_mark [OF fresh] by auto
  qed
  then show ?thesis using claim_origin [OF d' c2] by blast
qed

text \<open>After a claim, the updates of any other holder of the row reach nothing.\<close>

lemma fenced:
  assumes d: "distinct (map key rows)"
    and c: "claim_rows key order limit (eligible q now stale) (mark c t) rows = Some (rows', taken)"
    and k: "k \<in> key ` set taken" and other: "c' \<noteq> c"
  shows "select_where (\<lambda>r. key r = k \<and> owned c' r) rows' = []"
proof -
  note e = claim_effect [OF d c]
  have "\<not> owned c' r" if "r \<in> set rows'" "key r = k" for r
  proof -
    obtain r1 where r1: "r1 \<in> set rows" "eligible q now stale r1" "key r1 = k"
      by (rule claim_origin [OF d c k])
    have "r \<in> mark c t ` {r \<in> set rows. key r = k}"
      using that k e(5) by (auto simp: set_update_where key_mark)
    then obtain r0 where "r0 \<in> set rows" "key r0 = k" "r = mark c t r0" by auto
    moreover from this r1 d have "r0 = r1" by (auto simp: distinct_map dest: inj_onD)
    ultimately show ?thesis using r1 owned_mark other by auto
  qed
  then show ?thesis by (auto simp: select_where_def filter_empty_conv)
qed

end

end
