(* ===== verification/Outbox.thy ===== *)
theory Outbox
  imports Leases CellValues
begin

text \<open>
  The transactional outbox (\<open>packages/db/src/sqlite/outbox.ts\<close>, table \<open>outbox_events\<close> of
  \<open>schema.ts\<close>) and the local dispatcher that drains it
  (\<open>apps/workflow-worker/src/local-dispatcher.ts\<close>). The columns of the analytics projection
  are not part of the row here: no operation of these files touches them.
\<close>

section \<open>Events\<close>

record outbox_event =
  event_id :: jsstr
  event_workspaceId :: jsstr
  aggregateType :: jsstr
  aggregateId :: jsstr
  eventType :: jsstr
  payload :: json
  event_createdAt :: int
  publishedAt :: "int option"
  dispatchClaimId :: "jsstr option"
  dispatchClaimedAt :: "int option"
  dispatchAttempts :: nat
  dispatchNextAttemptAt :: "int option"
  dispatchLastError :: "jsstr option"

definition DISPATCHABLE_OUTBOX_EVENT_TYPES :: "jsstr list" where
  "DISPATCHABLE_OUTBOX_EVENT_TYPES =
     [js ''cell.run_requested'', js ''column.bulk_run_requested'', js ''table.csv_import_requested'',
      js ''table.ingestion_batch_requested'', js ''table.row_settled'', js ''table.source_run_requested'',
      js ''table.webhook_delivery_requested'', js ''table.writeback_delivery_requested'',
      js ''workflow.run_requested'']"

text \<open>The check constraint \<open>outbox_dispatch_state\<close>.\<close>

definition outbox_dispatch_state :: "outbox_event \<Rightarrow> bool" where
  "outbox_dispatch_state e \<longleftrightarrow>
     (dispatchClaimId e = None \<longleftrightarrow> dispatchClaimedAt e = None)
     \<and> if_present (\<lambda>m. length (code_points m) \<le> 500) (dispatchLastError e)"

record claimed_outbox_event =
  claimed_aggregateId :: jsstr
  claimed_aggregateType :: jsstr
  claimed_attempt :: nat
  claimed_createdAt :: int
  claimed_eventType :: jsstr
  claimed_id :: jsstr
  claimed_payload :: json
  claimed_workspaceId :: jsstr

datatype outbox_error = OutboxClaimConflict | OutboxClaimValidation

section \<open>Operations\<close>

definition assertDispatchableEventType :: "jsstr \<Rightarrow> outbox_error + jsstr" where
  "assertDispatchableEventType t =
     (if t \<notin> set DISPATCHABLE_OUTBOX_EVENT_TYPES then Inl OutboxClaimValidation else Inr t)"

definition dispatchEligibility :: "jsstr list \<Rightarrow> int \<Rightarrow> int \<Rightarrow> outbox_event \<Rightarrow> bool" where
  "dispatchEligibility eventTypes now staleBefore e \<longleftrightarrow>
     eventType e \<in> set eventTypes \<and> publishedAt e = None
     \<and> (case dispatchNextAttemptAt e of None \<Rightarrow> True | Some t \<Rightarrow> t \<le> now)
     \<and> (dispatchClaimId e = None
        \<or> (case dispatchClaimedAt e of None \<Rightarrow> False | Some t \<Rightarrow> t < staleBefore))"

record claim_outbox_input =
  in_claimId :: jsstr
  in_eventTypes :: "jsstr list option"
  in_leaseSeconds :: "int option"
  in_limit :: "int option"
  in_now :: int

definition mark_dispatch :: "jsstr \<Rightarrow> int \<Rightarrow> outbox_event \<Rightarrow> outbox_event" where
  "mark_dispatch claimId now e =
     e\<lparr>dispatchAttempts := dispatchAttempts e + 1, dispatchClaimedAt := Some now,
       dispatchClaimId := Some claimId, dispatchLastError := None, dispatchNextAttemptAt := None\<rparr>"

definition claimed_event :: "outbox_event \<Rightarrow> claimed_outbox_event" where
  "claimed_event e =
     \<lparr>claimed_aggregateId = aggregateId e, claimed_aggregateType = aggregateType e,
      claimed_attempt = dispatchAttempts e, claimed_createdAt = event_createdAt e,
      claimed_eventType = eventType e, claimed_id = event_id e, claimed_payload = payload e,
      claimed_workspaceId = event_workspaceId e\<rparr>"

definition selected_event_types :: "jsstr list option \<Rightarrow> outbox_error + jsstr list" where
  "selected_event_types types =
     (case types of
        Some (t # ts) \<Rightarrow>
          and_then (map_result assertDispatchableEventType (t # ts)) (\<lambda>ts. Inr (set_from ts))
      | _ \<Rightarrow> Inr DISPATCHABLE_OUTBOX_EVENT_TYPES)"

definition claimSqliteOutboxEvents :: "claim_outbox_input \<Rightarrow> outbox_event list
    \<Rightarrow> outbox_error + (outbox_event list \<times> claimed_outbox_event list)" where
  "claimSqliteOutboxEvents inp db =
     (if \<not> valid_claim_id (in_claimId inp) then Inl OutboxClaimValidation
      else and_then (selected_event_types (in_eventTypes inp)) (\<lambda>eventTypes.
        let limit = clamp 1 100 10 (in_limit inp);
            staleBefore = stale_before (in_now inp) (in_leaseSeconds inp)
        in case claim_rows event_id (\<lambda>e. (event_createdAt e, event_id e)) (nat limit)
                  (dispatchEligibility eventTypes (in_now inp) staleBefore)
                  (mark_dispatch (in_claimId inp) (in_now inp)) db of
             None \<Rightarrow> Inl OutboxClaimConflict
           | Some (db', claimed) \<Rightarrow>
               and_then (map_result (\<lambda>e. and_then (assertDispatchableEventType (eventType e))
                           (\<lambda>_. Inr (claimed_event e))) claimed)
                 (\<lambda>events. Inr (db', events))))"

text \<open>The \<open>where\<close> clause of the two updates by the holder of a lease.\<close>

definition dispatch_owned :: "jsstr \<Rightarrow> outbox_event \<Rightarrow> bool" where
  "dispatch_owned claimId e \<longleftrightarrow> dispatchClaimId e = Some claimId \<and> publishedAt e = None"

definition completeSqliteOutboxEvent :: "jsstr \<Rightarrow> jsstr \<Rightarrow> int \<Rightarrow> outbox_event list
    \<Rightarrow> outbox_error + outbox_event list" where
  "completeSqliteOutboxEvent claimId eventId published db =
     (if \<not> valid_claim_id claimId then Inl OutboxClaimValidation
      else let scope = (\<lambda>e. event_id e = eventId \<and> dispatch_owned claimId e)
           in if select_where scope db = [] then Inl OutboxClaimConflict
              else Inr (update_where scope (\<lambda>e. e\<lparr>dispatchClaimedAt := None, dispatchClaimId := None,
                     dispatchLastError := None, dispatchNextAttemptAt := None,
                     publishedAt := Some published\<rparr>) db))"

text \<open>\<open>message.replace(/[\r\n\t]/g, ' ')\<close>.\<close>

definition blank_breaks :: "jsstr \<Rightarrow> jsstr" where
  "blank_breaks s = map (\<lambda>c. if c = 13 \<or> c = 10 \<or> c = 9 then 32 else c) s"

definition safeDispatchError :: "jsstr \<Rightarrow> jsstr" where
  "safeDispatchError message = take 500 (blank_breaks message)"

definition retrySqliteOutboxEvent :: "jsstr \<Rightarrow> jsstr \<Rightarrow> jsstr \<Rightarrow> int \<Rightarrow> outbox_event list
    \<Rightarrow> outbox_error + outbox_event list" where
  "retrySqliteOutboxEvent claimId errorMessage eventId retryAt db =
     (if \<not> valid_claim_id claimId then Inl OutboxClaimValidation
      else let scope = (\<lambda>e. event_id e = eventId \<and> dispatch_owned claimId e)
           in if select_where scope db = [] then Inl OutboxClaimConflict
              else Inr (update_where scope (\<lambda>e. e\<lparr>dispatchClaimedAt := None, dispatchClaimId := None,
                     dispatchLastError := Some (safeDispatchError errorMessage),
                     dispatchNextAttemptAt := Some retryAt\<rparr>) db))"

section \<open>The local dispatcher\<close>

fun lookup_retries :: "(jsstr \<times> nat) list \<Rightarrow> jsstr \<Rightarrow> nat" where
  "lookup_retries [] t = 0"
| "lookup_retries ((k, n) # m) t = (if k = t then n else lookup_retries m t)"

text \<open>\<open>maximumRetriesByEventType\<close> with the constants of the task modules.\<close>

definition maximumWorkerTaskRetries :: "jsstr \<Rightarrow> nat" where
  "maximumWorkerTaskRetries t = lookup_retries
     [(js ''cell.run_requested'', 5 - 1), (js ''column.bulk_run_requested'', 4),
      (js ''table.csv_import_requested'', 2), (js ''table.ingestion_batch_requested'', 2),
      (js ''table.row_settled'', 2), (js ''table.source_run_requested'', 2),
      (js ''table.webhook_delivery_requested'', 4), (js ''table.writeback_delivery_requested'', 3),
      (js ''workflow.run_requested'', 2)] t"

text \<open>
  What running a task does is a parameter: the rows it leaves (a task may insert events)
  and whether it returned, threw a \<open>NonRetryableError\<close> or threw anything else.
\<close>

datatype task_outcome = TaskDone | TaskNonRetryable jsstr | TaskFailed jsstr

type_synonym task_runner = "claimed_outbox_event \<Rightarrow> outbox_event list \<Rightarrow> outbox_event list \<times> task_outcome"

definition conflict_text :: jsstr where
  "conflict_text = js ''Error: The outbox dispatch lease expired before completion.''"

text \<open>The \<open>catch\<close> block: a terminal failure completes the event, any other reschedules it.\<close>

definition dispatch_failure :: "jsstr \<Rightarrow> claimed_outbox_event \<Rightarrow> int \<Rightarrow> bool \<Rightarrow> jsstr
    \<Rightarrow> outbox_event list \<Rightarrow> outbox_error + outbox_event list" where
  "dispatch_failure claimId event now nonRetryable message db =
     (if nonRetryable
         \<or> int (maximumWorkerTaskRetries (claimed_eventType event)) \<le> int (claimed_attempt event) - 1
      then completeSqliteOutboxEvent claimId (claimed_id event) now db
      else retrySqliteOutboxEvent claimId message (claimed_id event)
             (now + min 60000 (int (claimed_attempt event) * 5000)) db)"

definition dispatch_event :: "task_runner \<Rightarrow> jsstr \<Rightarrow> int \<Rightarrow> claimed_outbox_event
    \<Rightarrow> outbox_event list \<Rightarrow> outbox_error + outbox_event list" where
  "dispatch_event execute claimId now event db =
     (case execute event db of
        (db', TaskDone) \<Rightarrow>
          (case completeSqliteOutboxEvent claimId (claimed_id event) now db' of
             Inr db'' \<Rightarrow> Inr db''
           | Inl _ \<Rightarrow> dispatch_failure claimId event now False conflict_text db')
      | (db', TaskNonRetryable message) \<Rightarrow> dispatch_failure claimId event now True message db'
      | (db', TaskFailed message) \<Rightarrow> dispatch_failure claimId event now False message db')"

fun dispatch_events :: "task_runner \<Rightarrow> jsstr \<Rightarrow> (nat \<Rightarrow> int) \<Rightarrow> nat \<Rightarrow> claimed_outbox_event list
    \<Rightarrow> outbox_event list \<Rightarrow> outbox_error + outbox_event list" where
  "dispatch_events execute claimId clock i [] db = Inr db"
| "dispatch_events execute claimId clock i (e # es) db =
     and_then (dispatch_event execute claimId (clock i) e db)
       (dispatch_events execute claimId clock (Suc i) es)"

definition executeLocalBatch :: "task_runner \<Rightarrow> jsstr \<Rightarrow> (nat \<Rightarrow> int) \<Rightarrow> outbox_event list
    \<Rightarrow> outbox_error + (outbox_event list \<times> nat)" where
  "executeLocalBatch execute claimId clock db =
     and_then (claimSqliteOutboxEvents
         \<lparr>in_claimId = claimId, in_eventTypes = Some DISPATCHABLE_OUTBOX_EVENT_TYPES,
          in_leaseSeconds = None, in_limit = Some 10, in_now = clock 0\<rparr> db)
       (\<lambda>(db', events). and_then (dispatch_events execute claimId clock 1 events db')
          (\<lambda>db''. Inr (db'', length events)))"

section \<open>The outbox as a job table\<close>

interpretation dispatch_lease: lease_table event_id dispatchEligibility mark_dispatch dispatch_owned
  by unfold_locales (auto simp: mark_dispatch_def dispatchEligibility_def dispatch_owned_def)

text \<open>What a claim returns when the identifiers of the rows are unique.\<close>

definition types_of :: "claim_outbox_input \<Rightarrow> jsstr list" where
  "types_of inp = (case selected_event_types (in_eventTypes inp) of Inr ts \<Rightarrow> ts | Inl _ \<Rightarrow> [])"

lemma map_result_set: "map_result f xs = Inr ys \<Longrightarrow> y \<in> set ys \<Longrightarrow> \<exists>x \<in> set xs. f x = Inr y"
  by (induction xs arbitrary: ys) (auto simp: and_then_eq_Inr)

lemma selected_event_types_sub:
  assumes "selected_event_types types = Inr ts"
  shows "set ts \<subseteq> set DISPATCHABLE_OUTBOX_EVENT_TYPES"
proof
  fix t
  assume t: "t \<in> set ts"
  show "t \<in> set DISPATCHABLE_OUTBOX_EVENT_TYPES"
  proof (cases "types = None \<or> types = Some []")
    case True
    then show ?thesis using assms t by (auto simp: selected_event_types_def)
  next
    case False
    then obtain u us xs where "types = Some (u # us)"
      and m: "map_result assertDispatchableEventType (u # us) = Inr xs" and "ts = set_from xs"
      using assms by (auto simp: selected_event_types_def and_then_eq_Inr split: option.splits list.splits)
    with t have "t \<in> set xs" by simp
    then obtain x where "assertDispatchableEventType x = Inr t" using map_result_set [OF m] by blast
    then show ?thesis by (auto simp: assertDispatchableEventType_def split: if_splits)
  qed
qed

abbreviation claim_raw :: "claim_outbox_input \<Rightarrow> outbox_event list \<Rightarrow> (outbox_event list \<times> outbox_event list) option" where
  "claim_raw inp db \<equiv> claim_rows event_id (\<lambda>e. (event_createdAt e, event_id e)) (nat (clamp 1 100 10 (in_limit inp)))
     (dispatchEligibility (types_of inp) (in_now inp) (stale_before (in_now inp) (in_leaseSeconds inp)))
     (mark_dispatch (in_claimId inp) (in_now inp)) db"

lemma claim_events_raw:
  assumes d: "distinct (map event_id db)" and v: "valid_claim_id (in_claimId inp)"
    and t: "selected_event_types (in_eventTypes inp) = Inr ts"
  shows "\<exists>db' taken. claim_raw inp db = Some (db', taken)
     \<and> claimSqliteOutboxEvents inp db = Inr (db', map claimed_event taken)"
proof -
  have ty: "types_of inp = ts" by (simp add: types_of_def t)
  obtain db' taken where raw: "claim_raw inp db = Some (db', taken)"
    using dispatch_lease.claim_succeeds [OF d] by fastforce
  have "eventType e \<in> set DISPATCHABLE_OUTBOX_EVENT_TYPES" if "e \<in> set taken" for e
  proof -
    note e = that
    obtain r where "e = mark_dispatch (in_claimId inp) (in_now inp) r" "eventType r \<in> set ts"
      using subsetD [OF dispatch_lease.claim_effect(4) [OF d raw] e]
      by (auto simp: dispatchEligibility_def ty)
    then show ?thesis using selected_event_types_sub [OF t] by (auto simp: mark_dispatch_def)
  qed
  then have "map_result (\<lambda>e. and_then (assertDispatchableEventType (eventType e)) (\<lambda>_. Inr (claimed_event e))) taken
      = Inr (map claimed_event taken)"
    by (induction taken) (auto simp: assertDispatchableEventType_def)
  then show ?thesis using raw v t by (auto simp: claimSqliteOutboxEvents_def Let_def ty)
qed

lemma claim_events_Inr:
  assumes d: "distinct (map event_id db)" and c: "claimSqliteOutboxEvents inp db = Inr (db', events)"
  shows "\<exists>taken. claim_raw inp db = Some (db', taken) \<and> events = map claimed_event taken"
proof -
  have v: "valid_claim_id (in_claimId inp)" using c by (auto simp: claimSqliteOutboxEvents_def split: if_splits)
  obtain ts where "selected_event_types (in_eventTypes inp) = Inr ts"
    using c by (auto simp: claimSqliteOutboxEvents_def and_then_eq_Inr split: if_splits)
  from claim_events_raw [OF d v this] c show ?thesis by auto
qed

lemma claimed_id_event [simp]: "claimed_id (claimed_event e) = event_id e"
  by (simp add: claimed_event_def)

lemma claimed_ids: "claimed_id ` set (map claimed_event taken) = event_id ` set taken"
  by (simp add: image_image)

section \<open>Histories of the outbox\<close>

definition fresh_event :: "outbox_event \<Rightarrow> bool" where
  "fresh_event e \<longleftrightarrow> publishedAt e = None \<and> dispatchClaimId e = None \<and> dispatchClaimedAt e = None
     \<and> dispatchAttempts e = 0 \<and> dispatchNextAttemptAt e = None \<and> dispatchLastError e = None"

inductive outbox_step :: "outbox_event list \<Rightarrow> outbox_event list \<Rightarrow> bool" where
  step_insert: "fresh_event e \<Longrightarrow> event_id e \<notin> event_id ` set db \<Longrightarrow> outbox_step db (db @ [e])"
| step_claim: "claimSqliteOutboxEvents inp db = Inr (db', events) \<Longrightarrow> outbox_step db db'"
| step_complete: "completeSqliteOutboxEvent c k t db = Inr db' \<Longrightarrow> outbox_step db db'"
| step_retry: "retrySqliteOutboxEvent c m k t db = Inr db' \<Longrightarrow> outbox_step db db'"

inductive_cases outbox_stepE: "outbox_step db db'"

definition outbox_row_ok :: "outbox_event \<Rightarrow> bool" where
  "outbox_row_ok e \<longleftrightarrow> outbox_dispatch_state e
     \<and> (publishedAt e \<noteq> None \<longrightarrow> dispatchClaimId e = None \<and> dispatchNextAttemptAt e = None)"

definition outbox_ok :: "outbox_event list \<Rightarrow> bool" where
  "outbox_ok db \<longleftrightarrow> distinct (map event_id db) \<and> list_all outbox_row_ok db"

lemma outbox_ok_update:
  assumes "outbox_ok db" and "\<And>e. event_id (f e) = event_id e"
    and "\<And>e. e \<in> set db \<Longrightarrow> P e \<Longrightarrow> outbox_row_ok e \<Longrightarrow> outbox_row_ok (f e)"
  shows "outbox_ok (update_where P f db)"
  using assms by (auto simp: outbox_ok_def list_all_iff keys_update_where set_update_where)

lemma safeDispatchError_short: "length (code_points (safeDispatchError m)) \<le> 500"
  using length_code_points [of "safeDispatchError m"] by (simp add: safeDispatchError_def)

lemma outbox_step_ok:
  assumes "outbox_step db db'" and ok: "outbox_ok db"
  shows "outbox_ok db'"
  using assms(1)
proof cases
  case (step_insert e)
  then show ?thesis using ok
    by (auto simp: outbox_ok_def outbox_row_ok_def outbox_dispatch_state_def fresh_event_def)
next
  case (step_claim inp events)
  have d: "distinct (map event_id db)" using ok by (simp add: outbox_ok_def)
  obtain taken where raw: "claim_raw inp db = Some (db', taken)"
    using claim_events_Inr [OF d step_claim] by blast
  note e = dispatch_lease.claim_effect [OF d raw]
  have pub: "publishedAt r = None" if r: "r \<in> set db" "event_id r \<in> event_id ` set taken" for r
  proof -
    obtain q where "q \<in> set db" "event_id q = event_id r" and
      q: "dispatchEligibility (types_of inp) (in_now inp) (stale_before (in_now inp) (in_leaseSeconds inp)) q"
      by (rule dispatch_lease.claim_origin [OF d raw r(2)])
    moreover from this r d have "q = r" by (auto simp: distinct_map dest: inj_onD)
    ultimately show ?thesis by (simp add: dispatchEligibility_def)
  qed
  show ?thesis unfolding e(5)
    by (rule outbox_ok_update [OF ok])
      (auto simp: mark_dispatch_def outbox_row_ok_def outbox_dispatch_state_def dest: pub)
next
  case (step_complete c k t)
  then show ?thesis
    by (auto simp: completeSqliteOutboxEvent_def Let_def outbox_row_ok_def outbox_dispatch_state_def
        intro!: outbox_ok_update [OF ok] split: if_splits)
next
  case (step_retry c m k t)
  then show ?thesis using safeDispatchError_short
    by (auto simp: retrySqliteOutboxEvent_def Let_def outbox_row_ok_def outbox_dispatch_state_def
        dispatch_owned_def intro!: outbox_ok_update [OF ok] split: if_splits)
qed

lemma published_stays:
  assumes st: "outbox_step db db'" and d: "distinct (map event_id db)"
    and e: "e \<in> set db" "publishedAt e \<noteq> None"
  shows "e \<in> set db'"
  using st
proof cases
  case (step_claim inp events)
  obtain taken where raw: "claim_raw inp db = Some (db', taken)"
    using claim_events_Inr [OF d step_claim] by blast
  have "event_id e \<notin> event_id ` set taken"
  proof
    assume k: "event_id e \<in> event_id ` set taken"
    obtain q where "q \<in> set db" "event_id q = event_id e" and
      q: "dispatchEligibility (types_of inp) (in_now inp) (stale_before (in_now inp) (in_leaseSeconds inp)) q"
      by (rule dispatch_lease.claim_origin [OF d raw k])
    moreover from this e(1) d have "q = e" by (auto simp: distinct_map dest: inj_onD)
    ultimately show False using e(2) by (simp add: dispatchEligibility_def)
  qed
  then show ?thesis
    unfolding dispatch_lease.claim_effect(5) [OF d raw] set_update_where using e(1) by auto
next
  case (step_complete c k t)
  then show ?thesis using e
    by (auto simp: completeSqliteOutboxEvent_def Let_def set_update_where dispatch_owned_def split: if_splits)
next
  case (step_retry c m k t)
  then show ?thesis using e
    by (auto simp: retrySqliteOutboxEvent_def Let_def set_update_where dispatch_owned_def split: if_splits)
qed (use e in simp)

section \<open>Draining a batch\<close>

definition held :: "jsstr \<Rightarrow> outbox_event list \<Rightarrow> jsstr set" where
  "held c db = event_id ` {e \<in> set db. dispatchClaimId e = Some c}"

definition held_open :: "jsstr \<Rightarrow> outbox_event list \<Rightarrow> jsstr set" where
  "held_open c db = event_id ` {e \<in> set db. dispatch_owned c e}"

text \<open>The rows under the lease of a batch, all taken at the time of its claim.\<close>

definition leased :: "jsstr \<Rightarrow> int \<Rightarrow> outbox_event list \<Rightarrow> bool" where
  "leased c t db \<longleftrightarrow> distinct (map event_id db) \<and> (\<forall>e \<in> set db. dispatchClaimId e = Some c \<longrightarrow> dispatchClaimedAt e = Some t)"

definition same_leases :: "jsstr \<Rightarrow> outbox_event list \<Rightarrow> outbox_event list \<Rightarrow> bool" where
  "same_leases c db db' \<longleftrightarrow> distinct (map event_id db')
     \<and> {e \<in> set db'. dispatchClaimId e = Some c} = {e \<in> set db. dispatchClaimId e = Some c}"

lemma same_leases_held:
  assumes "same_leases c db db'"
  shows "held c db' = held c db" and "held_open c db' = held_open c db" and "leased c t db \<Longrightarrow> leased c t db'"
proof -
  have m: "e \<in> set db' \<and> dispatchClaimId e = Some c \<longleftrightarrow> e \<in> set db \<and> dispatchClaimId e = Some c" for e
    using assms unfolding same_leases_def by blast
  show "held c db' = held c db" using m unfolding held_def by blast
  show "held_open c db' = held_open c db" using m unfolding held_open_def dispatch_owned_def by blast
  show "leased c t db'" if "leased c t db"
    using that m assms unfolding leased_def same_leases_def by blast
qed

lemma same_leases_refl: "distinct (map event_id db) \<Longrightarrow> same_leases c db db"
  by (simp add: same_leases_def)

lemma same_leases_trans: "same_leases c db db1 \<Longrightarrow> same_leases c db1 db2 \<Longrightarrow> same_leases c db db2"
  by (simp add: same_leases_def)

text \<open>Published, or released with a time for the next attempt while attempts are left.\<close>

definition settled :: "claimed_outbox_event \<Rightarrow> outbox_event list \<Rightarrow> bool" where
  "settled ev db \<longleftrightarrow> (\<exists>e \<in> set db. event_id e = claimed_id ev \<and> dispatchClaimId e = None
     \<and> (publishedAt e \<noteq> None
        \<or> dispatchNextAttemptAt e \<noteq> None
          \<and> claimed_attempt ev \<le> maximumWorkerTaskRetries (claimed_eventType ev)))"

lemma claimed_update:
  assumes d: "distinct (map event_id db)" and k: "k \<in> held_open c db"
    and f: "\<And>e. event_id (f e) = event_id e \<and> dispatchClaimId (f e) = None"
  defines "db' \<equiv> update_where (\<lambda>e. event_id e = k \<and> dispatch_owned c e) f db"
  shows "select_where (\<lambda>e. event_id e = k \<and> dispatch_owned c e) db \<noteq> []"
    and "distinct (map event_id db')" and "held c db' = held c db - {k}"
    and "held_open c db' = held_open c db - {k}"
    and "\<And>P. (\<And>e. P (f e)) \<Longrightarrow> \<exists>e \<in> set db'. event_id e = k \<and> P e"
    and "\<And>e. e \<in> set db \<Longrightarrow> event_id e \<noteq> k \<Longrightarrow> e \<in> set db'"
    and "\<forall>t. leased c t db \<longrightarrow> leased c t db'"
proof -
  obtain r where r: "r \<in> set db" "event_id r = k" "dispatch_owned c r"
    using k by (auto simp: held_open_def)
  have inj: "inj_on event_id (set db)" using d by (simp add: distinct_map)
  have only: "e = r" if "e \<in> set db" "event_id e = k" for e
    by (rule inj_onD [OF inj]) (use that r in simp_all)
  have "{e \<in> set db. event_id e = k \<and> dispatch_owned c e} = {r}" using r only by blast
  moreover have "{e \<in> set db. \<not> (event_id e = k \<and> dispatch_owned c e)} = set db - {r}" using r only by blast
  ultimately have set': "set db' = insert (f r) (set db - {r})"
    unfolding db'_def set_update_where by simp
  show "select_where (\<lambda>e. event_id e = k \<and> dispatch_owned c e) db \<noteq> []"
    using r by (auto simp: select_where_def filter_empty_conv)
  show "distinct (map event_id db')"
    unfolding db'_def using d by (simp add: keys_update_where f)
  have fr: "event_id (f r) = k" "dispatchClaimId (f r) = None" using f r by auto
  have k_only: "event_id ` {e \<in> set db'. P e} = event_id ` {e \<in> set db. P e} - {k}"
    if "\<not> P (f r)" for P
  proof
    show "event_id ` {e \<in> set db'. P e} \<subseteq> event_id ` {e \<in> set db. P e} - {k}"
      unfolding set' using that only by blast
    show "event_id ` {e \<in> set db. P e} - {k} \<subseteq> event_id ` {e \<in> set db'. P e}"
      unfolding set' using r(2) by blast
  qed
  show "held c db' = held c db - {k}"
    unfolding held_def by (rule k_only) (simp add: fr)
  show "held_open c db' = held_open c db - {k}"
    unfolding held_open_def by (rule k_only) (simp add: fr dispatch_owned_def)
  show "\<exists>e \<in> set db'. event_id e = k \<and> P e" if "\<And>e. P (f e)" for P
    using that [of r] fr(1) unfolding set' by blast
  show "e \<in> set db'" if "e \<in> set db" "event_id e \<noteq> k" for e
    using that r set' by auto
  show "\<forall>t. leased c t db \<longrightarrow> leased c t db'"
    using fr(2) set' \<open>distinct (map event_id db')\<close> by (auto simp: leased_def)
qed

definition released :: "jsstr \<Rightarrow> jsstr \<Rightarrow> outbox_event list \<Rightarrow> outbox_event list \<Rightarrow> bool" where
  "released c k db db' \<longleftrightarrow> distinct (map event_id db') \<and> held c db' = held c db - {k}
     \<and> held_open c db' = held_open c db - {k} \<and> (\<forall>e \<in> set db. event_id e \<noteq> k \<longrightarrow> e \<in> set db')
     \<and> (\<forall>t. leased c t db \<longrightarrow> leased c t db')"

lemma complete_released:
  assumes "valid_claim_id c" "distinct (map event_id db)" "k \<in> held_open c db"
  shows "\<exists>db'. completeSqliteOutboxEvent c k t db = Inr db' \<and> released c k db db'
     \<and> (\<exists>e \<in> set db'. event_id e = k \<and> dispatchClaimId e = None \<and> publishedAt e \<noteq> None)"
proof -
  let ?f = "\<lambda>e. e\<lparr>dispatchClaimedAt := None, dispatchClaimId := None,
     dispatchLastError := None, dispatchNextAttemptAt := None, publishedAt := Some t\<rparr>"
  have f: "event_id (?f e) = event_id e \<and> dispatchClaimId (?f e) = None" for e by simp
  note u = claimed_update [OF assms(2,3) f]
  let ?db' = "update_where (\<lambda>e. event_id e = k \<and> dispatch_owned c e) ?f db"
  have "completeSqliteOutboxEvent c k t db = Inr ?db'"
    using assms(1) u(1) by (simp add: completeSqliteOutboxEvent_def)
  moreover have "released c k db ?db'" using u(2,3,4,6,7) by (simp add: released_def)
  moreover have "\<exists>e \<in> set ?db'. event_id e = k \<and> dispatchClaimId e = None \<and> publishedAt e \<noteq> None"
    by (rule u(5)) simp
  ultimately show ?thesis by blast
qed

lemma retry_released:
  assumes "valid_claim_id c" "distinct (map event_id db)" "k \<in> held_open c db"
  shows "\<exists>db'. retrySqliteOutboxEvent c m k t db = Inr db' \<and> released c k db db'
     \<and> (\<exists>e \<in> set db'. event_id e = k \<and> dispatchClaimId e = None \<and> dispatchNextAttemptAt e = Some t)"
proof -
  let ?f = "\<lambda>e. e\<lparr>dispatchClaimedAt := None, dispatchClaimId := None,
     dispatchLastError := Some (safeDispatchError m), dispatchNextAttemptAt := Some t\<rparr>"
  have f: "event_id (?f e) = event_id e \<and> dispatchClaimId (?f e) = None" for e by simp
  note u = claimed_update [OF assms(2,3) f]
  let ?db' = "update_where (\<lambda>e. event_id e = k \<and> dispatch_owned c e) ?f db"
  have "retrySqliteOutboxEvent c m k t db = Inr ?db'"
    using assms(1) u(1) by (simp add: retrySqliteOutboxEvent_def)
  moreover have "released c k db ?db'" using u(2,3,4,6,7) by (simp add: released_def)
  moreover have "\<exists>e \<in> set ?db'. event_id e = k \<and> dispatchClaimId e = None \<and> dispatchNextAttemptAt e = Some t"
    by (rule u(5)) simp
  ultimately show ?thesis by blast
qed

lemma failure_released:
  assumes "valid_claim_id c" "distinct (map event_id db)" "claimed_id ev \<in> held_open c db"
  shows "\<exists>db'. dispatch_failure c ev t b m db = Inr db' \<and> released c (claimed_id ev) db db' \<and> settled ev db'"
proof (cases "b \<or> int (maximumWorkerTaskRetries (claimed_eventType ev)) \<le> int (claimed_attempt ev) - 1")
  case True
  then show ?thesis using complete_released [OF assms, of t] by (auto simp: dispatch_failure_def settled_def)
next
  case False
  then have "claimed_attempt ev \<le> maximumWorkerTaskRetries (claimed_eventType ev)" by simp
  then show ?thesis
    using False retry_released [OF assms, of m "t + min 60000 (int (claimed_attempt ev) * 5000)"]
    by (auto simp: dispatch_failure_def settled_def)
qed

definition runs_beside :: "(outbox_event list \<Rightarrow> outbox_event list \<Rightarrow> bool) \<Rightarrow> task_runner \<Rightarrow> bool" where
  "runs_beside beside execute \<longleftrightarrow> (\<forall>ev db. beside db (fst (execute ev db)))"

text \<open>
  What goes on in the outbox while the tasks of a batch run: \<open>beside\<close> keeps the rows under the
  lease of the batch, and \<open>fate\<close> is what stays true of an event once it was settled.
\<close>

locale bystanders =
  fixes c :: jsstr
    and claimed :: int
    and beside :: "outbox_event list \<Rightarrow> outbox_event list \<Rightarrow> bool"
    and fate :: "claimed_outbox_event \<Rightarrow> outbox_event list \<Rightarrow> bool"
  assumes beside_leases: "beside db db' \<Longrightarrow> leased c claimed db \<Longrightarrow> same_leases c db db'"
    and beside_fate: "beside db db' \<Longrightarrow> leased c claimed db \<Longrightarrow> fate ev db \<Longrightarrow> fate ev db'"
    and settled_fate: "settled ev db \<Longrightarrow> fate ev db"
    and fate_other: "fate ev db \<Longrightarrow> claimed_id ev \<noteq> k \<Longrightarrow> (\<forall>e \<in> set db. event_id e \<noteq> k \<longrightarrow> e \<in> set db') \<Longrightarrow> fate ev db'"
begin

lemma event_ends:
  assumes a: "runs_beside beside execute" and v: "valid_claim_id c" and l: "leased c claimed db"
    and k: "claimed_id ev \<in> held_open c db"
  shows "\<exists>db'. dispatch_event execute c t ev db = Inr db' \<and> leased c claimed db' \<and> held c db' = held c db - {claimed_id ev}
    \<and> held_open c db' = held_open c db - {claimed_id ev} \<and> fate ev db'
    \<and> (\<forall>x. claimed_id x \<noteq> claimed_id ev \<longrightarrow> fate x db \<longrightarrow> fate x db')"
proof -
  obtain db1 outcome where x: "execute ev db = (db1, outcome)" by fastforce
  have b: "beside db db1" using a x unfolding runs_beside_def by (metis fst_conv)
  note same = same_leases_held [OF beside_leases [OF b l]]
  have l1: "leased c claimed db1" by (rule same(3) [OF l])
  then have d1: "distinct (map event_id db1)" by (simp add: leased_def)
  have k1: "claimed_id ev \<in> held_open c db1" using k same(2) by simp
  have lift: "leased c claimed db' \<and> held c db' = held c db - {claimed_id ev}
    \<and> held_open c db' = held_open c db - {claimed_id ev} \<and> fate ev db'
    \<and> (\<forall>x. claimed_id x \<noteq> claimed_id ev \<longrightarrow> fate x db \<longrightarrow> fate x db')"
    if r: "released c (claimed_id ev) db1 db'" and s: "settled ev db'" for db'
  proof -
    have "fate x db'" if "claimed_id x \<noteq> claimed_id ev" "fate x db" for x
      using fate_other [OF beside_fate [OF b l that(2)] that(1)] r by (simp add: released_def)
    then show ?thesis using r settled_fate [OF s] l1 same(1,2) by (simp add: released_def)
  qed
  obtain dc where dc: "completeSqliteOutboxEvent c (claimed_id ev) t db1 = Inr dc"
    "released c (claimed_id ev) db1 dc" "settled ev dc"
    using complete_released [OF v d1 k1, of t] by (auto simp: settled_def)
  have fail: "\<exists>db'. dispatch_failure c ev t f m db1 = Inr db' \<and> released c (claimed_id ev) db1 db' \<and> settled ev db'" for f m
    by (rule failure_released [OF v d1 k1])
  have "\<exists>db'. dispatch_event execute c t ev db = Inr db' \<and> released c (claimed_id ev) db1 db' \<and> settled ev db'"
    using dc fail by (cases outcome) (simp_all add: dispatch_event_def x)
  then show ?thesis using lift by blast
qed

lemma events_end:
  assumes a: "runs_beside beside execute" and v: "valid_claim_id c"
  shows "leased c claimed db \<Longrightarrow> distinct (map claimed_id evs) \<Longrightarrow>
     held c db = claimed_id ` set evs \<Longrightarrow> held_open c db = claimed_id ` set evs \<Longrightarrow>
     \<exists>db'. dispatch_events execute c clock i evs db = Inr db' \<and> held c db' = {}
       \<and> (\<forall>ev \<in> set evs. fate ev db') \<and> (\<forall>x. claimed_id x \<notin> claimed_id ` set evs \<longrightarrow> fate x db \<longrightarrow> fate x db')"
proof (induction evs arbitrary: db i)
  case (Cons ev evs)
  obtain db1 where 1: "dispatch_event execute c (clock i) ev db = Inr db1" "leased c claimed db1"
    "held c db1 = held c db - {claimed_id ev}" "held_open c db1 = held_open c db - {claimed_id ev}"
    "fate ev db1" "\<forall>x. claimed_id x \<noteq> claimed_id ev \<longrightarrow> fate x db \<longrightarrow> fate x db1"
    using event_ends [OF a v Cons.prems(1), where ev = ev and t = "clock i"] Cons.prems(4) by auto
  have new: "claimed_id ev \<notin> claimed_id ` set evs" using Cons.prems(2) by simp
  have h: "held c db1 = claimed_id ` set evs" "held_open c db1 = claimed_id ` set evs"
    using 1(3,4) Cons.prems(3,4) new by auto
  obtain db2 where 2: "dispatch_events execute c clock (Suc i) evs db1 = Inr db2" "held c db2 = {}"
    "\<forall>e \<in> set evs. fate e db2" "\<forall>x. claimed_id x \<notin> claimed_id ` set evs \<longrightarrow> fate x db1 \<longrightarrow> fate x db2"
    using Cons.IH [OF 1(2) _ h, of "Suc i"] Cons.prems(2) by auto
  have "fate ev db2" using 2(4) new 1(5) by blast
  then show ?case using 1(1,6) 2 by simp
qed simp

end

text \<open>A task that only inserts events.\<close>

definition appended :: "outbox_event list \<Rightarrow> outbox_event list \<Rightarrow> bool" where
  "appended db db' \<longleftrightarrow> (\<exists>new. db' = db @ new \<and> (distinct (map event_id db) \<longrightarrow> distinct (map event_id db'))
     \<and> (\<forall>x \<in> set new. dispatchClaimId x = None))"

interpretation alone: bystanders c t appended settled for c t
proof unfold_locales
  fix db db' ev
  assume a: "appended db db'"
  show "same_leases c db db'" if "leased c t db"
    using a that by (auto simp: appended_def leased_def same_leases_def)
  show "settled ev db \<Longrightarrow> settled ev db'" using a by (auto simp: appended_def settled_def)
next
  fix ev db k db'
  assume s: "settled ev db" and k: "claimed_id ev \<noteq> k" and other: "\<forall>e \<in> set db. event_id e \<noteq> k \<longrightarrow> e \<in> set db'"
  obtain e where "e \<in> set db" "event_id e = claimed_id ev" "dispatchClaimId e = None"
      "publishedAt e \<noteq> None \<or> dispatchNextAttemptAt e \<noteq> None
         \<and> claimed_attempt ev \<le> maximumWorkerTaskRetries (claimed_eventType ev)"
    using s unfolding settled_def by blast
  moreover from this k other have "e \<in> set db'" by simp
  ultimately show "settled ev db'" unfolding settled_def by blast
qed

text \<open>
  Other workers: they insert events, claim whatever is free or has a stale lease, and settle what
  they hold. The batch was claimed at \<open>t\<close>; no cut-off of theirs is after it, that is, the lease of the
  batch has not run out when they claim.
\<close>

inductive other_worker_step :: "jsstr \<Rightarrow> int \<Rightarrow> outbox_event list \<Rightarrow> outbox_event list \<Rightarrow> bool" for c t where
  other_insert: "fresh_event e \<Longrightarrow> event_id e \<notin> event_id ` set db \<Longrightarrow> other_worker_step c t db (db @ [e])"
| other_claim: "claimSqliteOutboxEvents inp db = Inr (db', events) \<Longrightarrow> in_claimId inp \<noteq> c
    \<Longrightarrow> stale_before (in_now inp) (in_leaseSeconds inp) \<le> t \<Longrightarrow> other_worker_step c t db db'"
| other_complete: "completeSqliteOutboxEvent c' k now db = Inr db' \<Longrightarrow> c' \<noteq> c \<Longrightarrow> other_worker_step c t db db'"
| other_retry: "retrySqliteOutboxEvent c' m k now db = Inr db' \<Longrightarrow> c' \<noteq> c \<Longrightarrow> other_worker_step c t db db'"

lemma other_worker_outbox: "other_worker_step c t db db' \<Longrightarrow> outbox_step db db'"
  by (induction rule: other_worker_step.induct) (auto intro: outbox_step.intros)

lemma same_leases_update:
  assumes d: "distinct (map event_id db)" and f: "\<And>e. event_id (f e) = event_id e"
    and P: "\<And>e. e \<in> set db \<Longrightarrow> P e \<Longrightarrow> dispatchClaimId e \<noteq> Some c \<and> dispatchClaimId (f e) \<noteq> Some c"
  shows "same_leases c db (update_where P f db)"
  unfolding same_leases_def set_update_where using assms by (auto simp: keys_update_where)

lemma other_worker_leases:
  assumes st: "other_worker_step c t db db'" and l: "leased c t db"
  shows "same_leases c db db'"
proof -
  have d: "distinct (map event_id db)" using l by (simp add: leased_def)
  from st show ?thesis
  proof cases
    case (other_insert e)
    then show ?thesis using d by (auto simp: same_leases_def fresh_event_def)
  next
    case (other_claim inp events)
    obtain taken where raw: "claim_raw inp db = Some (db', taken)"
      using claim_events_Inr [OF d other_claim(1)] by blast
    have "dispatchClaimId e \<noteq> Some c" if e: "e \<in> set db" "event_id e \<in> event_id ` set taken" for e
    proof
      assume own: "dispatchClaimId e = Some c"
      obtain q where "q \<in> set db" "event_id q = event_id e" and
        q: "dispatchEligibility (types_of inp) (in_now inp) (stale_before (in_now inp) (in_leaseSeconds inp)) q"
        by (rule dispatch_lease.claim_origin [OF d raw e(2)])
      moreover from this e(1) d have "q = e" by (auto simp: distinct_map dest: inj_onD)
      ultimately show False using l own e(1) other_claim(3) by (auto simp: dispatchEligibility_def leased_def)
    qed
    then show ?thesis unfolding dispatch_lease.claim_effect(5) [OF d raw]
      by (intro same_leases_update d) (use other_claim(2) in \<open>auto simp: mark_dispatch_def\<close>)
  next
    case (other_complete c' k now)
    then show ?thesis
      by (auto simp: completeSqliteOutboxEvent_def Let_def dispatch_owned_def intro!: same_leases_update d split: if_splits)
  next
    case (other_retry c' m k now)
    then show ?thesis
      by (auto simp: retrySqliteOutboxEvent_def Let_def dispatch_owned_def intro!: same_leases_update d split: if_splits)
  qed
qed

text \<open>No longer held by the batch, and published unless attempts were left.\<close>

definition dealt_with :: "claimed_outbox_event \<Rightarrow> outbox_event list \<Rightarrow> bool" where
  "dealt_with ev db \<longleftrightarrow> (\<exists>e \<in> set db. event_id e = claimed_id ev
     \<and> (publishedAt e \<noteq> None \<or> claimed_attempt ev \<le> maximumWorkerTaskRetries (claimed_eventType ev)))"

lemma outbox_step_keys:
  assumes st: "outbox_step db db'" and d: "distinct (map event_id db)"
  shows "event_id ` set db \<subseteq> event_id ` set db'"
  using st
proof cases
  case (step_claim inp events)
  obtain taken where raw: "claim_raw inp db = Some (db', taken)" using claim_events_Inr [OF d step_claim] by blast
  have "event_id ` set db' = event_id ` set db"
    using dispatch_lease.claim_effect(1) [OF d raw] by (metis list.set_map)
  then show ?thesis by simp
next
  case (step_complete c k t)
  then have "map event_id db' = map event_id db"
    by (auto simp: completeSqliteOutboxEvent_def Let_def keys_update_where split: if_splits)
  then have "event_id ` set db' = event_id ` set db" by (metis list.set_map)
  then show ?thesis by simp
next
  case (step_retry c m k t)
  then have "map event_id db' = map event_id db"
    by (auto simp: retrySqliteOutboxEvent_def Let_def keys_update_where split: if_splits)
  then have "event_id ` set db' = event_id ` set db" by (metis list.set_map)
  then show ?thesis by simp
qed auto

lemma dealt_with_step:
  assumes st: "outbox_step db db'" and d: "distinct (map event_id db)" and w: "dealt_with ev db"
  shows "dealt_with ev db'"
proof -
  obtain e where e: "e \<in> set db" "event_id e = claimed_id ev"
      "publishedAt e \<noteq> None \<or> claimed_attempt ev \<le> maximumWorkerTaskRetries (claimed_eventType ev)"
    using w unfolding dealt_with_def by blast
  show ?thesis
  proof (cases "publishedAt e = None")
    case True
    have "claimed_id ev \<in> event_id ` set db'" using outbox_step_keys [OF st d] e(1,2) by force
    then show ?thesis using e(3) True unfolding dealt_with_def by force
  next
    case False
    then show ?thesis using published_stays [OF st d e(1)] e(2) unfolding dealt_with_def by blast
  qed
qed

lemma other_workers_keep:
  assumes "(other_worker_step c t)\<^sup>*\<^sup>* db db'" and "leased c t db"
  shows "same_leases c db db' \<and> (dealt_with ev db \<longrightarrow> dealt_with ev db')"
  using assms
proof (induction rule: rtranclp_induct)
  case base
  then show ?case by (simp add: same_leases_refl leased_def)
next
  case (step y z)
  have l: "leased c t y" using same_leases_held(3) step by blast
  have "same_leases c y z" by (rule other_worker_leases [OF step(2) l])
  moreover have "dealt_with ev y \<longrightarrow> dealt_with ev z"
    using dealt_with_step [OF other_worker_outbox [OF step(2)]] l by (simp add: leased_def)
  ultimately show ?case using step same_leases_trans by blast
qed

interpretation among: bystanders c t "(other_worker_step c t)\<^sup>*\<^sup>*" dealt_with for c t
proof unfold_locales
  fix db db' ev
  assume a: "(other_worker_step c t)\<^sup>*\<^sup>* db db'" "leased c t db"
  show "same_leases c db db'" "dealt_with ev db \<Longrightarrow> dealt_with ev db'" using other_workers_keep [OF a] by blast+
next
  fix ev db k db'
  show "dealt_with ev db" if "settled ev db" using that by (auto simp: settled_def dealt_with_def)
  show "dealt_with ev db'"
    if "dealt_with ev db" "claimed_id ev \<noteq> k" "\<forall>e \<in> set db. event_id e \<noteq> k \<longrightarrow> e \<in> set db'"
    using that unfolding dealt_with_def by metis
qed

text \<open>What the batch starts from: it holds exactly the events of its claim.\<close>

lemma batch_claimed:
  assumes v: "valid_claim_id c" and d: "distinct (map event_id db)" and fresh: "held c db = {}"
  shows "\<exists>db1 events. claimSqliteOutboxEvents \<lparr>in_claimId = c,
       in_eventTypes = Some DISPATCHABLE_OUTBOX_EVENT_TYPES, in_leaseSeconds = None,
       in_limit = Some 10, in_now = t\<rparr> db = Inr (db1, events)
     \<and> leased c t db1 \<and> distinct (map claimed_id events) \<and> held c db1 = claimed_id ` set events
     \<and> held_open c db1 = claimed_id ` set events"
proof -
  let ?inp = "\<lparr>in_claimId = c, in_eventTypes = Some DISPATCHABLE_OUTBOX_EVENT_TYPES,
     in_leaseSeconds = None, in_limit = Some 10, in_now = t\<rparr>"
  obtain t0 ts0 where D: "DISPATCHABLE_OUTBOX_EVENT_TYPES = t0 # ts0"
    by (simp add: DISPATCHABLE_OUTBOX_EVENT_TYPES_def)
  have "map_result assertDispatchableEventType DISPATCHABLE_OUTBOX_EVENT_TYPES = Inr DISPATCHABLE_OUTBOX_EVENT_TYPES"
    by (simp add: map_result_Inr_iff list_all2_same assertDispatchableEventType_def)
  then obtain ts where ts: "selected_event_types (in_eventTypes ?inp) = Inr ts"
    by (simp add: selected_event_types_def D del: map_result.simps)
  have v': "valid_claim_id (in_claimId ?inp)" using v by simp
  obtain db1 taken where raw: "claim_raw ?inp db = Some (db1, taken)"
    and c: "claimSqliteOutboxEvents ?inp db = Inr (db1, map claimed_event taken)"
    using claim_events_raw [OF d v' ts] by blast
  note e = dispatch_lease.claim_effect [OF d raw]
  have ids: "distinct (map claimed_id (map claimed_event taken))" using e(2) by (simp add: o_def)
  have mine: "\<exists>r. event_id x \<in> event_id ` set taken \<and> x = mark_dispatch c t r"
    if x: "x \<in> set db1" "dispatchClaimId x = Some c" for x
  proof -
    have "x \<notin> set db" using x(2) fresh unfolding held_def by blast
    then obtain r where "event_id r \<in> event_id ` set taken" "x = mark_dispatch c t r"
      using x(1) unfolding e(5) set_update_where by auto
    then show ?thesis using dispatch_lease.key_mark by auto
  qed
  have up: "held c db1 \<subseteq> event_id ` set taken" using mine unfolding held_def by blast
  have down: "event_id ` set taken \<subseteq> held_open c db1"
  proof
    fix k
    assume k: "k \<in> event_id ` set taken"
    obtain r where r: "r \<in> set db" "event_id r = k"
      and el: "dispatchEligibility (types_of ?inp) (in_now ?inp) (stale_before (in_now ?inp) (in_leaseSeconds ?inp)) r"
      by (rule dispatch_lease.claim_origin [OF d raw k])
    have "mark_dispatch c t r \<in> set db1"
      unfolding e(5) set_update_where using r k by auto
    moreover have "dispatch_owned c (mark_dispatch c t r)"
      using dispatch_lease.owned_mark [OF el] by blast
    ultimately have "event_id (mark_dispatch c t r) \<in> held_open c db1"
      unfolding held_open_def by (intro imageI) simp
    then show "k \<in> held_open c db1" using r(2) dispatch_lease.key_mark by simp
  qed
  have "held_open c db1 \<subseteq> held c db1" by (auto simp: held_def held_open_def dispatch_owned_def)
  with up down have h: "held c db1 = event_id ` set taken" "held_open c db1 = event_id ` set taken" by blast+
  have "distinct (map event_id db1)" unfolding e(1) by (rule d)
  moreover have "dispatchClaimedAt x = Some t" if "x \<in> set db1" "dispatchClaimId x = Some c" for x
    using mine [OF that] by (auto simp: mark_dispatch_def)
  ultimately have l: "leased c t db1" by (simp add: leased_def)
  show ?thesis
    by (rule exI, rule exI, rule conjI [OF c]) (use l ids h in \<open>simp add: claimed_ids image_image\<close>)
qed

section \<open>Properties\<close>

definition sample_event :: "string \<Rightarrow> outbox_event" where
  "sample_event i = \<lparr>event_id = js i, event_workspaceId = js ''w'', aggregateType = js ''workflow_run'',
     aggregateId = js ''r'', eventType = js ''workflow.run_requested'', payload = JObj [],
     event_createdAt = 0, publishedAt = None, dispatchClaimId = None, dispatchClaimedAt = None,
     dispatchAttempts = 0, dispatchNextAttemptAt = None, dispatchLastError = None\<rparr>"

definition sample_outbox :: "outbox_event list" where
  "sample_outbox = [sample_event ''b'', sample_event ''a'']"

definition sample_claim :: "string \<Rightarrow> int \<Rightarrow> claim_outbox_input" where
  "sample_claim c now = \<lparr>in_claimId = js c, in_eventTypes = None, in_leaseSeconds = None,
     in_limit = Some 1, in_now = now\<rparr>"

lemma sample_distinct: "distinct (map event_id sample_outbox)"
  by (simp add: sample_outbox_def sample_event_def js_eval)

lemma sample_claim_valid: "valid_claim_id (js ''c'')" "valid_claim_id (js ''d'')"
  by (simp_all add: valid_claim_id_def js_eval is_control_def)

text \<open>
  A claim of outbox events with a valid claim identifier and dispatchable types never
  fails: the conflict between the two statements of its transaction is unreachable. It takes
  at most the clamped limit of events, each of them eligible, and changes no other row.
\<close>

lemma outbox_claim_total:
  assumes "distinct (map event_id db)" and "valid_claim_id (in_claimId inp)"
    and "selected_event_types (in_eventTypes inp) = Inr ts"
  shows "\<exists>db' events. claimSqliteOutboxEvents inp db = Inr (db', events)
    \<and> int (length events) \<le> clamp 1 100 10 (in_limit inp) \<and> distinct (map claimed_id events)
    \<and> db' = update_where (\<lambda>e. event_id e \<in> claimed_id ` set events) (mark_dispatch (in_claimId inp) (in_now inp)) db
    \<and> claimed_id ` set events \<subseteq> event_id ` {e \<in> set db.
        dispatchEligibility ts (in_now inp) (stale_before (in_now inp) (in_leaseSeconds inp)) e}"
proof -
  have ty: "types_of inp = ts" by (simp add: types_of_def assms(3))
  obtain db' taken where raw: "claim_raw inp db = Some (db', taken)"
    and c: "claimSqliteOutboxEvents inp db = Inr (db', map claimed_event taken)"
    using claim_events_raw [OF assms] by blast
  note e = dispatch_lease.claim_effect [OF assms(1) raw]
  have len: "int (length taken) \<le> clamp 1 100 10 (in_limit inp)"
    using e(3) clamp_bounds [of 1 100 10 "in_limit inp"] by linarith
  have d: "distinct (map claimed_id (map claimed_event taken))" using e(2) by (simp add: o_def)
  have sub: "event_id ` set taken \<subseteq> event_id ` {e \<in> set db.
      dispatchEligibility ts (in_now inp) (stale_before (in_now inp) (in_leaseSeconds inp)) e}"
  proof
    fix k
    assume k: "k \<in> event_id ` set taken"
    obtain r where "r \<in> set db" "event_id r = k" and
      "dispatchEligibility (types_of inp) (in_now inp) (stale_before (in_now inp) (in_leaseSeconds inp)) r"
      by (rule dispatch_lease.claim_origin [OF assms(1) raw k])
    then show "k \<in> event_id ` {e \<in> set db.
        dispatchEligibility ts (in_now inp) (stale_before (in_now inp) (in_leaseSeconds inp)) e}"
      by (intro image_eqI [where x = r]) (simp_all add: ty)
  qed
  show ?thesis
    by (intro exI conjI, rule c) (use len d sub e(5) in \<open>simp_all add: claimed_ids image_image\<close>)
qed

text \<open>
  C11. No event is dispatched by two workers at the same time: two claims return disjoint
  events as long as the second one's lease cut-off is not after the first claim.
\<close>

theorem outbox_claims_exclusive:
  assumes "distinct (map event_id db)"
    and "claimSqliteOutboxEvents inp db = Inr (db', events)"
    and "claimSqliteOutboxEvents inp' db' = Inr (db'', events')"
    and "stale_before (in_now inp') (in_leaseSeconds inp') \<le> in_now inp"
  shows "claimed_id ` set events \<inter> claimed_id ` set events' = {}"
proof -
  obtain taken where raw: "claim_raw inp db = Some (db', taken)" "events = map claimed_event taken"
    using claim_events_Inr [OF assms(1,2)] by blast
  have d': "distinct (map event_id db')"
    unfolding dispatch_lease.claim_effect(1) [OF assms(1) raw(1)] by (rule assms(1))
  obtain taken' where raw': "claim_raw inp' db' = Some (db'', taken')" "events' = map claimed_event taken'"
    using claim_events_Inr [OF d' assms(3)] by blast
  show ?thesis
    using dispatch_lease.claims_disjoint [OF assms(1) raw(1) raw'(1) assms(4)] raw(2) raw'(2)
    by (simp add: claimed_ids image_image)
qed

definition sample_claimed :: "string \<Rightarrow> claimed_outbox_event" where
  "sample_claimed i = claimed_event (mark_dispatch (js ''c'') 0 (sample_event i))"

definition sample_outbox1 :: "outbox_event list" where
  "sample_outbox1 = [sample_event ''b'', mark_dispatch (js ''c'') 0 (sample_event ''a'')]"

definition sample_outbox2 :: "outbox_event list" where
  "sample_outbox2 = [mark_dispatch (js ''d'') 1000 (sample_event ''b''),
     mark_dispatch (js ''c'') 0 (sample_event ''a'')]"

lemma sample_claim1: "claimSqliteOutboxEvents (sample_claim ''c'' 0) sample_outbox
    = Inr (sample_outbox1, [sample_claimed ''a''])"
  by code_simp

lemma sample_claim2: "claimSqliteOutboxEvents (sample_claim ''d'' 1000) sample_outbox1
    = Inr (sample_outbox2, [claimed_event (mark_dispatch (js ''d'') 1000 (sample_event ''b''))])"
  by code_simp

theorem outbox_claims_exclusive_witness:
  "claimed_id (sample_claimed ''a'') \<noteq> event_id (sample_event ''b'')"
  using outbox_claims_exclusive [OF sample_distinct sample_claim1 sample_claim2]
  by (simp add: sample_claim_def stale_before_def lease_seconds_def clamp_def mark_dispatch_def)

text \<open>
  C12. Leases are fenced: once another worker has claimed an event, completing it or
  rescheduling it under the old claim identifier is a conflict and changes nothing.
\<close>

theorem outbox_fencing:
  assumes "distinct (map event_id db)"
    and "claimSqliteOutboxEvents inp db = Inr (db', events)"
    and "event \<in> set events" and "old \<noteq> in_claimId inp" and "valid_claim_id old"
  shows "completeSqliteOutboxEvent old (claimed_id event) t db' = Inl OutboxClaimConflict
    \<and> retrySqliteOutboxEvent old m (claimed_id event) t db' = Inl OutboxClaimConflict"
proof -
  obtain taken where raw: "claim_raw inp db = Some (db', taken)" "events = map claimed_event taken"
    using claim_events_Inr [OF assms(1,2)] by blast
  have "claimed_id event \<in> event_id ` set taken" using assms(3) raw(2) by auto
  from dispatch_lease.fenced [OF assms(1) raw(1) this assms(4)]
  show ?thesis by (simp add: completeSqliteOutboxEvent_def retrySqliteOutboxEvent_def assms(5))
qed

theorem outbox_fencing_witness:
  "completeSqliteOutboxEvent (js ''d'') (js ''a'') 5 sample_outbox1 = Inl OutboxClaimConflict"
proof -
  have "js ''d'' \<noteq> in_claimId (sample_claim ''c'' 0)" by (simp add: sample_claim_def js_eval)
  from outbox_fencing [OF sample_distinct sample_claim1 _ this sample_claim_valid(2)]
  show ?thesis by (simp add: sample_claimed_def mark_dispatch_def sample_event_def)
qed

text \<open>
  C13. Whatever the outcome of its tasks, a batch of the local dispatcher ends without an error and
  holds nothing any more, while other workers insert, claim and settle events beside it, as long
  as its lease does not run out: every event of the batch was published, or handed back while the
  retries of its type are not used up. If nobody else claims events, each of them is still
  published or released with a time for its next attempt at the end. (When the lease runs out
  during a task and another worker takes the event, completing and rescheduling it both conflict,
  and the batch is rejected.)
\<close>

theorem local_batch_settles:
  assumes "runs_beside (other_worker_step c (clock 0))\<^sup>*\<^sup>* execute" and "valid_claim_id c"
    and "distinct (map event_id db)" and "held c db = {}"
  shows "\<exists>db1 events db2. claimSqliteOutboxEvents \<lparr>in_claimId = c,
       in_eventTypes = Some DISPATCHABLE_OUTBOX_EVENT_TYPES, in_leaseSeconds = None,
       in_limit = Some 10, in_now = clock 0\<rparr> db = Inr (db1, events)
     \<and> executeLocalBatch execute c clock db = Inr (db2, length events)
     \<and> held c db2 = {} \<and> (\<forall>ev \<in> set events. dealt_with ev db2)
     \<and> (runs_beside appended execute \<longrightarrow> (\<forall>ev \<in> set events. settled ev db2))"
proof -
  obtain db1 events where c: "claimSqliteOutboxEvents \<lparr>in_claimId = c,
       in_eventTypes = Some DISPATCHABLE_OUTBOX_EVENT_TYPES, in_leaseSeconds = None,
       in_limit = Some 10, in_now = clock 0\<rparr> db = Inr (db1, events)"
    and b: "leased c (clock 0) db1" "distinct (map claimed_id events)" "held c db1 = claimed_id ` set events"
      "held_open c db1 = claimed_id ` set events"
    using batch_claimed [OF assms(2-4)] by blast
  obtain db2 where d: "dispatch_events execute c clock 1 events db1 = Inr db2" "held c db2 = {}"
    "\<forall>ev \<in> set events. dealt_with ev db2"
    using among.events_end [OF assms(1,2) b, where clock = clock and i = 1] by blast
  have "\<forall>ev \<in> set events. settled ev db2" if a: "runs_beside appended execute"
  proof -
    from alone.events_end [OF a assms(2) b, where clock = clock and i = 1] d(1) show ?thesis by auto
  qed
  moreover have "executeLocalBatch execute c clock db = Inr (db2, length events)"
    by (simp add: executeLocalBatch_def c d(1) del: One_nat_def)
  ultimately show ?thesis using c d(2,3) by blast
qed

theorem local_batch_settles_witness:
  "\<exists>db2 n. executeLocalBatch (\<lambda>e db. (db, TaskFailed (js ''x''))) (js ''c'') int sample_outbox = Inr (db2, n)
     \<and> held (js ''c'') db2 = {}"
proof -
  have a: "runs_beside (other_worker_step (js ''c'') (int 0))\<^sup>*\<^sup>* (\<lambda>e db. (db, TaskFailed (js ''x'')))"
    by (simp add: runs_beside_def)
  have h: "held (js ''c'') sample_outbox = {}" by (auto simp: held_def sample_outbox_def sample_event_def)
  show ?thesis using local_batch_settles [where clock = int, OF a sample_claim_valid(1) sample_distinct h] by blast
qed

text \<open>
  C14. Over any history of insertions, claims, completions and retries, the rows satisfy the
  table's constraints, a published event is neither claimed nor waiting for an attempt, and no
  operation changes it any more.
\<close>

theorem outbox_history:
  assumes "outbox_step\<^sup>*\<^sup>* [] db" and "outbox_step db db'"
  shows "distinct (map event_id db) \<and> list_all outbox_dispatch_state db
    \<and> (\<forall>e \<in> set db. publishedAt e \<noteq> None \<longrightarrow> dispatchClaimId e = None
         \<and> dispatchNextAttemptAt e = None \<and> e \<in> set db')"
proof -
  have ok: "outbox_ok db"
    using assms(1) by (induction rule: rtranclp_induct) (auto simp: outbox_ok_def [of "[]"] intro: outbox_step_ok)
  then have "distinct (map event_id db)" by (simp add: outbox_ok_def)
  with ok published_stays [OF assms(2)] show ?thesis
    by (auto simp: outbox_ok_def outbox_row_ok_def list_all_iff)
qed

lemma sample_history: "outbox_step\<^sup>*\<^sup>* [] sample_outbox"
proof -
  have "outbox_step [] ([] @ [sample_event ''b''])"
    by (rule step_insert) (simp_all add: fresh_event_def sample_event_def)
  moreover have "outbox_step [sample_event ''b''] ([sample_event ''b''] @ [sample_event ''a''])"
    by (rule step_insert) (simp_all add: fresh_event_def sample_event_def js_eval)
  ultimately show ?thesis by (auto simp: sample_outbox_def)
qed

theorem outbox_history_witness: "list_all outbox_dispatch_state sample_outbox"
  using outbox_history [OF sample_history step_claim [OF sample_claim1]] by blast

end
