(* ===== verification/WorkflowStore.thy ===== *)
theory WorkflowStore
  imports WorkflowCompiler Outbox
begin

text \<open>
  Drafts and published versions of workflows (\<open>packages/db/src/sqlite/workflows.ts\<close>, tables
  \<open>workflows\<close>, \<open>workflow_versions\<close> and \<open>workspace_members\<close> of \<open>schema.ts\<close>): optimistic
  concurrency on the draft revision, publication as a new immutable version with its
  compiled plan.
\<close>

section \<open>The digest of a graph\<close>

text \<open>
  \<open>canonicalJson\<close>. The code sorts the fields and then writes their values; the model writes
  the values first, so that the recursion is structural: the order depends on the keys only.
\<close>

fun canonicalJson :: "host \<Rightarrow> json \<Rightarrow> jsstr" where
  "canonicalJson h (JArr vs) = [91] @ join_with [44] (map (canonicalJson h) vs) @ [93]"
| "canonicalJson h (JObj props) =
     [123] @ join_with [44] (map (\<lambda>(key, field). quote_string key @ [58] @ field)
        (sort_by (\<lambda>left right. localeCompare h (fst left) (fst right))
          (map (\<lambda>(key, field). (key, canonicalJson h field)) props))) @ [125]"
| "canonicalJson h JNull = stringify JNull"
| "canonicalJson h (JBool b) = stringify (JBool b)"
| "canonicalJson h (JNum x) = stringify (JNum x)"
| "canonicalJson h (JStr s) = stringify (JStr s)"

definition opt_json :: "jsstr option \<Rightarrow> json" where
  "opt_json x = (case x of None \<Rightarrow> JNull | Some s \<Rightarrow> JStr s)"

fun status_name :: "cell_status \<Rightarrow> jsstr" where
  "status_name Idle = js ''idle''"
| "status_name Queued = js ''queued''"
| "status_name Running = js ''running''"
| "status_name Succeeded = js ''succeeded''"
| "status_name Failed = js ''failed''"
| "status_name Stale = js ''stale''"
| "status_name Cancelled = js ''cancelled''"

fun filter_value_json :: "grid_filter \<Rightarrow> (jsstr \<times> json) list" where
  "filter_value_json (EmptyFilter _ _) = []"
| "filter_value_json (TextFilter _ _ v) = [(js ''value'', JStr v)]"
| "filter_value_json (NumberFilter _ _ v) = [(js ''value'', JNum v)]"
| "filter_value_json (BooleanFilter _ v) = [(js ''value'', JBool v)]"
| "filter_value_json (TimestampFilter _ _ v) = [(js ''value'', JStr v)]"
| "filter_value_json (StatusFilter _ v) = [(js ''value'', JStr (status_name v))]"

fun filter_node_json :: "filter_node \<Rightarrow> json" and filter_group_json :: "filter_group \<Rightarrow> json" where
  "filter_node_json (Leaf f) =
     JObj ([(js ''columnId'', JStr (filter_column f)), (js ''operator'', JStr (operator_name f))]
       @ filter_value_json f)"
| "filter_node_json (Group g) = filter_group_json g"
| "filter_group_json (FilterGroup cs c) =
     JObj [(js ''children'', JArr (map filter_node_json cs)),
           (js ''combinator'', JStr (if c = And then js ''and'' else js ''or''))]"

fun configuration_json :: "configuration \<Rightarrow> json" where
  "configuration_json (TableRows query table view) =
     JObj [(js ''searchQuery'', opt_json query), (js ''tableId'', JStr table), (js ''viewId'', opt_json view)]"
| "configuration_json (EnrichColumn column mode) =
     JObj [(js ''columnId'', JStr column),
           (js ''mode'', JStr (if mode = Pending then js ''pending'' else js ''all''))]"
| "configuration_json (FilterRows tree) = JObj [(js ''filterTree'', filter_group_json tree)]"
| "configuration_json (WriteTable mappings table) =
     JObj [(js ''columnMappings'', JArr (map (\<lambda>m. JObj [(js ''sourceColumnId'', JStr (sourceColumnId m)),
             (js ''targetColumnId'', JStr (targetColumnId m))]) mappings)), (js ''tableId'', JStr table)]"
| "configuration_json (SendWebhook destination) = JObj [(js ''destinationId'', JStr destination)]"

definition graph_json :: "workflow_graph \<Rightarrow> json" where
  "graph_json g =
     JObj [(js ''edges'', JArr (map (\<lambda>e. JObj [(js ''id'', JStr (edge_id e)),
             (js ''sourceHandle'', JStr (sourceHandle e)), (js ''sourceNodeId'', JStr (sourceNodeId e)),
             (js ''targetHandle'', JStr (targetHandle e)), (js ''targetNodeId'', JStr (targetNodeId e))])
             (edges g))),
           (js ''nodes'', JArr (map (\<lambda>n. JObj [(js ''id'', JStr (node_id n)), (js ''name'', JStr (node_name n)),
             (js ''position'', JObj [(js ''x'', JNum (Fin (fst (position n)))), (js ''y'', JNum (Fin (snd (position n))))]),
             (js ''configuration'', configuration_json (configuration n)),
             (js ''kind'', JStr (kind_name (node_kind n)))]) (nodes g))),
           (js ''schemaVersion'', JNum (Fin 1)),
           (js ''viewport'', (case viewport g of (x, y, zoom) \<Rightarrow>
             JObj [(js ''x'', JNum (Fin x)), (js ''y'', JNum (Fin y)), (js ''zoom'', JNum (Fin zoom))]))]"

text \<open>SHA-256 is the platform's: \<open>sha256_hex\<close> is a parameter.\<close>

definition digestWorkflowGraph :: "host \<Rightarrow> (jsstr \<Rightarrow> jsstr) \<Rightarrow> workflow_graph \<Rightarrow> jsstr" where
  "digestWorkflowGraph h sha256_hex graph = sha256_hex (canonicalJson h (graph_json graph))"

section \<open>Tables\<close>

datatype workflow_state = Draft | Active | Paused

record workflow_row =
  workflow_id :: jsstr
  workflow_workspaceId :: jsstr
  workflow_name :: jsstr
  workflow_state :: workflow_state
  draftGraph :: workflow_graph
  draftDigest :: jsstr
  publishedVersion :: "nat option"
  draftRevision :: nat
  workflow_createdBy :: "jsstr option"
  workflow_createdAt :: int
  workflow_updatedAt :: int

record version_row =
  version_id :: jsstr
  version_workspaceId :: jsstr
  version_workflowId :: jsstr
  version :: nat
  version_graph :: workflow_graph
  graphDigest :: jsstr
  compiledPlan :: "compiled_plan option"
  version_createdBy :: "jsstr option"
  version_publishedAt :: int

record workflow_db =
  members :: "(jsstr \<times> jsstr) list"
  workflows :: "workflow_row list"
  workflowVersions :: "version_row list"

datatype workflow_error =
    WorkflowAccess
  | WorkflowConflict
  | WorkflowInvalid
  | WorkflowConstraint

record workflow_scope =
  scope_userId :: jsstr
  scope_workspaceId :: jsstr

section \<open>Operations\<close>

definition is_member :: "workflow_db \<Rightarrow> jsstr \<Rightarrow> jsstr \<Rightarrow> bool" where
  "is_member db workspace user \<longleftrightarrow> (workspace, user) \<in> set (members db)"

definition requireWorkspaceMembership :: "workflow_db \<Rightarrow> workflow_scope \<Rightarrow> workflow_error + unit" where
  "requireWorkspaceMembership db scope =
     (if is_member db (scope_workspaceId scope) (scope_userId scope) then Inr () else Inl WorkflowAccess)"

definition selectScopedWorkflow :: "workflow_db \<Rightarrow> workflow_scope \<Rightarrow> jsstr \<Rightarrow> workflow_row option" where
  "selectScopedWorkflow db scope workflowId =
     first_row (select_where (\<lambda>w. workflow_id w = workflowId \<and> workflow_workspaceId w = scope_workspaceId scope
        \<and> is_member db (workflow_workspaceId w) (scope_userId scope)) (workflows db))"

text \<open>\<open>mapWorkflow\<close> parses the stored draft again.\<close>

definition mapWorkflow :: "host \<Rightarrow> workflow_row \<Rightarrow> workflow_error + workflow_row" where
  "mapWorkflow h w =
     (if workflowDraftGraph h (draftGraph w) then Inr (w\<lparr>draftGraph := parsed_graph h (draftGraph w)\<rparr>)
      else Inl WorkflowInvalid)"

text \<open>The unique index on the names of a workspace and the primary key.\<close>

definition workflow_keys_ok :: "workflow_row list \<Rightarrow> bool" where
  "workflow_keys_ok rows \<longleftrightarrow> distinct (map workflow_id rows)
     \<and> distinct (map (\<lambda>w. (workflow_workspaceId w, workflow_name w)) rows)"

definition createSqliteWorkflow :: "host \<Rightarrow> (jsstr \<Rightarrow> jsstr) \<Rightarrow> workflow_scope \<Rightarrow> workflow_graph \<Rightarrow> jsstr
    \<Rightarrow> jsstr \<Rightarrow> int \<Rightarrow> workflow_db \<Rightarrow> workflow_error + (workflow_db \<times> workflow_row)" where
  "createSqliteWorkflow h sha256_hex scope graph name newId now db =
     (case (workflowName h name, workflowDraftGraph h graph) of
        (Some parsedName, True) \<Rightarrow>
          and_then (requireWorkspaceMembership db scope) (\<lambda>_.
            let parsed = parsed_graph h graph;
                created = \<lparr>workflow_id = newId, workflow_workspaceId = scope_workspaceId scope,
                  workflow_name = parsedName, workflow_state = Draft, draftGraph = parsed,
                  draftDigest = digestWorkflowGraph h sha256_hex parsed, publishedVersion = None,
                  draftRevision = 1, workflow_createdBy = Some (scope_userId scope),
                  workflow_createdAt = now, workflow_updatedAt = now\<rparr>;
                rows = workflows db @ [created]
            in if \<not> workflow_keys_ok rows then Inl WorkflowConstraint
               else and_then (mapWorkflow h created) (\<lambda>summary. Inr (db\<lparr>workflows := rows\<rparr>, summary)))
      | _ \<Rightarrow> Inl WorkflowInvalid)"

definition listSqliteWorkflows :: "host \<Rightarrow> workflow_scope \<Rightarrow> workflow_db \<Rightarrow> workflow_error + workflow_row list" where
  "listSqliteWorkflows h scope db =
     map_result (mapWorkflow h)
       (sort_key (\<lambda>w. (- workflow_updatedAt w, workflow_id w))
         (select_where (\<lambda>w. workflow_workspaceId w = scope_workspaceId scope
            \<and> is_member db (workflow_workspaceId w) (scope_userId scope)) (workflows db)))"

definition getSqliteWorkflow :: "host \<Rightarrow> workflow_scope \<Rightarrow> jsstr \<Rightarrow> workflow_db \<Rightarrow> workflow_error + workflow_row" where
  "getSqliteWorkflow h scope workflowId db =
     (case selectScopedWorkflow db scope workflowId of
        None \<Rightarrow> Inl WorkflowAccess
      | Some w \<Rightarrow> mapWorkflow h w)"

definition updateSqliteWorkflowDraft :: "host \<Rightarrow> (jsstr \<Rightarrow> jsstr) \<Rightarrow> workflow_scope \<Rightarrow> int \<Rightarrow> workflow_graph
    \<Rightarrow> jsstr \<Rightarrow> jsstr \<Rightarrow> int \<Rightarrow> workflow_db \<Rightarrow> workflow_error + (workflow_db \<times> workflow_row)" where
  "updateSqliteWorkflowDraft h sha256_hex scope expectedRevision graph name workflowId now db =
     (case (1 \<le> expectedRevision, workflowName h name, workflowDraftGraph h graph) of
        (True, Some parsedName, True) \<Rightarrow>
          let parsed = parsed_graph h graph;
              matches = (\<lambda>w. workflow_id w = workflowId \<and> workflow_workspaceId w = scope_workspaceId scope
                \<and> int (draftRevision w) = expectedRevision
                \<and> is_member db (workflow_workspaceId w) (scope_userId scope));
              change = (\<lambda>w. w\<lparr>draftDigest := digestWorkflowGraph h sha256_hex parsed, draftGraph := parsed,
                draftRevision := draftRevision w + 1, workflow_name := parsedName,
                workflow_updatedAt := now\<rparr>);
              rows = update_where matches change (workflows db)
          in (case first_row (select_where matches (workflows db)) of
                Some w \<Rightarrow>
                  if \<not> workflow_keys_ok rows then Inl WorkflowConstraint
                  else and_then (mapWorkflow h (change w)) (\<lambda>summary. Inr (db\<lparr>workflows := rows\<rparr>, summary))
              | None \<Rightarrow>
                  if selectScopedWorkflow db scope workflowId = None then Inl WorkflowAccess
                  else Inl WorkflowConflict)
      | _ \<Rightarrow> Inl WorkflowInvalid)"

definition publishSqliteWorkflow :: "host \<Rightarrow> workflow_scope \<Rightarrow> int \<Rightarrow> jsstr \<Rightarrow> jsstr \<Rightarrow> int
    \<Rightarrow> workflow_db \<Rightarrow> workflow_error + (workflow_db \<times> workflow_row)" where
  "publishSqliteWorkflow h scope expectedRevision workflowId newVersionId now db =
     (case selectScopedWorkflow db scope workflowId of
        None \<Rightarrow> Inl WorkflowAccess
      | Some current \<Rightarrow>
          if int (draftRevision current) \<noteq> expectedRevision then Inl WorkflowConflict
          else if \<not> workflowGraph h (draftGraph current) then Inl WorkflowInvalid
          else let graph = parsed_graph h (draftGraph current)
               in case compileWorkflowGraph h graph of
                    Inl _ \<Rightarrow> Inl WorkflowInvalid
                  | Inr plan \<Rightarrow>
                      let nextVersion = (case publishedVersion current of None \<Rightarrow> 0 | Some v \<Rightarrow> v) + 1;
                          inserted = \<lparr>version_id = newVersionId, version_workspaceId = scope_workspaceId scope,
                            version_workflowId = workflow_id current, version = nextVersion,
                            version_graph = graph, graphDigest = draftDigest current,
                            compiledPlan = Some plan, version_createdBy = Some (scope_userId scope),
                            version_publishedAt = now\<rparr>;
                          versions = workflowVersions db @ [inserted];
                          matches = (\<lambda>w. workflow_id w = workflowId
                            \<and> workflow_workspaceId w = scope_workspaceId scope
                            \<and> int (draftRevision w) = expectedRevision
                            \<and> is_member db (workflow_workspaceId w) (scope_userId scope));
                          change = (\<lambda>w. w\<lparr>publishedVersion := Some nextVersion, workflow_state := Active,
                            workflow_updatedAt := now\<rparr>)
                      in if \<not> (distinct (map version_id versions)
                              \<and> distinct (map (\<lambda>v. (version_workflowId v, version v)) versions))
                         then Inl WorkflowConstraint
                         else case first_row (select_where matches (workflows db)) of
                           None \<Rightarrow> Inl WorkflowConflict
                         | Some w \<Rightarrow> and_then (mapWorkflow h (change w)) (\<lambda>summary.
                             Inr (db\<lparr>workflows := update_where matches change (workflows db),
                                     workflowVersions := versions\<rparr>, summary)))"

end
