(* ===== verification/WorkflowStoreProofs.thy ===== *)
theory WorkflowStoreProofs
  imports WorkflowStore WorkflowPlans
begin

text \<open>
  What the store of workflows guarantees: published versions are immutable, numbered without
  gaps and carry the plan of their graph, and publishing an accepted draft at the expected
  revision cannot fail.
\<close>

section \<open>Normal forms\<close>

text \<open>
  What Unicode promises of NFKC: it is idempotent; a piece of a normal form is one, and so is a
  normal form in which white space is made one blank, since blanks combine with nothing; and a
  text with a character that is not white space keeps one. Trimming a name before it is
  normalised does not make the result stable: NFKC of U+00A8 begins with a blank, which the next
  parse trims. A stored draft may therefore change when it is parsed again, but it is accepted.
\<close>

definition unicode_host :: "host \<Rightarrow> bool" where
  "unicode_host h \<longleftrightarrow> nfkc h [] = [] \<and> (\<forall>s. nfkc h (nfkc h s) = nfkc h s)
     \<and> (\<forall>s. nfkc h s = s \<longrightarrow> nfkc h (trim s) = trim s \<and> nfkc h (collapse_spaces s) = collapse_spaces s)
     \<and> (\<forall>s. trim s \<noteq> [] \<longrightarrow> trim (nfkc h s) \<noteq> [])"

lemma name_parsed_again:
  assumes "unicode_host h" and "workflowName h s = Some n"
  shows "\<exists>m. workflowName h n = Some m"
proof -
  have n: "n = nfkc h (trim s)" "1 \<le> length n" "length n \<le> 80"
    using assms(2) by (auto simp: workflowName_def Let_def split: if_splits)
  have "trim s \<noteq> []" using assms(1) n by (auto simp: unicode_host_def)
  then have "trim n \<noteq> []" using assms(1) unfolding n(1) unicode_host_def by (metis trim_idem)
  moreover have "nfkc h (trim n) = trim n" using assms(1) n(1) by (simp add: unicode_host_def)
  ultimately show ?thesis using n(3) length_trim [of n] by (simp add: workflowName_def Let_def Suc_le_eq)
qed

lemma query_parsed_again:
  assumes "unicode_host h" and "gridSearchQuery h s = Some q"
  shows "gridSearchQuery h q = Some q"
proof -
  have q: "q = collapse_spaces (trim (nfkc h s))" "3 \<le> length q" "length q \<le> 120"
    using assms(2) by (auto simp: gridSearchQuery_def Let_def split: if_splits)
  have "nfkc h q = q" using assms(1) unfolding q(1) unicode_host_def by metis
  then have "collapse_spaces (trim (nfkc h q)) = q" by (simp add: q(1) collapse_trimmed collapse_id [OF collapse_single])
  then show ?thesis using q(2,3) by (simp add: gridSearchQuery_def)
qed

lemma configuration_ok_parsed:
  "unicode_host h \<Longrightarrow> configuration_ok h c \<Longrightarrow> configuration_ok h (parsed_configuration h c)"
  by (cases "(h, c)" rule: parsed_configuration.cases) (auto dest: query_parsed_again)

lemma node_ok_parsed: "unicode_host h \<Longrightarrow> node_ok h n \<Longrightarrow> node_ok h (parsed_node h n)"
  using name_parsed_again [of h "node_name n"]
  by (auto simp: node_ok_def parsed_node_def configuration_ok_parsed)

lemma viewport_parsed: "viewport (parsed_graph h g) = viewport g"
  by (simp add: parsed_graph_def)

lemma shape_parsed: "unicode_host h \<Longrightarrow> workflowGraphShape h g \<Longrightarrow> workflowGraphShape h (parsed_graph h g)"
  by (auto simp: workflowGraphShape_def list_all_iff node_ok_parsed viewport_parsed)

lemma draft_parsed: "unicode_host h \<Longrightarrow> workflowDraftGraph h g \<Longrightarrow> workflowDraftGraph h (parsed_graph h g)"
  using shape_parsed by (simp add: workflowDraftGraph_def structure_issues_iff)

lemma graph_parsed: "unicode_host h \<Longrightarrow> workflowGraph h g \<Longrightarrow> workflowGraph h (parsed_graph h g)"
  using shape_parsed by (simp add: workflowGraph_iff)

lemma mapWorkflow_ok: "workflowDraftGraph h (draftGraph w) \<Longrightarrow>
    mapWorkflow h w = Inr (w\<lparr>draftGraph := parsed_graph h (draftGraph w)\<rparr>)"
  by (simp add: mapWorkflow_def)

section \<open>The invariant of the store\<close>

definition workflow_of :: "workflow_row list \<Rightarrow> version_row \<Rightarrow> workflow_row \<Rightarrow> bool" where
  "workflow_of ws v w \<longleftrightarrow> w \<in> set ws \<and> workflow_id w = version_workflowId v
     \<and> workflow_workspaceId w = version_workspaceId v"

definition version_ok :: "host \<Rightarrow> workflow_row list \<Rightarrow> version_row \<Rightarrow> bool" where
  "version_ok h ws v \<longleftrightarrow> (\<exists>P. compiledPlan v = Some P \<and> compileWorkflowGraph h (version_graph v) = Inr P)
     \<and> (\<exists>w p. workflow_of ws v w \<and> publishedVersion w = Some p \<and> 1 \<le> version v \<and> version v \<le> p)"

definition store_ok :: "host \<Rightarrow> workflow_db \<Rightarrow> bool" where
  "store_ok h db \<longleftrightarrow> workflow_keys_ok (workflows db)
     \<and> (\<forall>w \<in> set (workflows db). workflowDraftGraph h (draftGraph w))
     \<and> distinct (map version_id (workflowVersions db))
     \<and> distinct (map (\<lambda>v. (version_workflowId v, version v)) (workflowVersions db))
     \<and> (\<forall>v \<in> set (workflowVersions db). version_ok h (workflows db) v)
     \<and> (\<forall>w \<in> set (workflows db). \<forall>p. publishedVersion w = Some p \<longrightarrow>
          (\<forall>k \<in> {1..p}. \<exists>v \<in> set (workflowVersions db). workflow_of (workflows db) v w \<and> version v = k))"

lemma first_row_select:
  "first_row (select_where P rows) = Some r \<Longrightarrow> r \<in> set rows \<and> P r"
  by (induction rows) (auto simp: first_row_def select_where_def split: if_splits)

lemma selectScopedWorkflow_Some:
  "selectScopedWorkflow db scope wid = Some w \<Longrightarrow> w \<in> set (workflows db) \<and> workflow_id w = wid
     \<and> workflow_workspaceId w = scope_workspaceId scope \<and> is_member db (workflow_workspaceId w) (scope_userId scope)"
  unfolding selectScopedWorkflow_def by (drule first_row_select) auto

lemma first_row_select_None: "first_row (select_where P rows) = None \<longleftrightarrow> (\<forall>r \<in> set rows. \<not> P r)"
  by (auto simp: first_row_def select_where_def filter_empty_conv split: list.splits)
    (metis filter_empty_conv list.distinct(1))

lemma workflow_unique:
  "workflow_keys_ok ws \<Longrightarrow> w \<in> set ws \<Longrightarrow> w' \<in> set ws \<Longrightarrow> workflow_id w = workflow_id w' \<Longrightarrow> w = w'"
  by (auto simp: workflow_keys_ok_def distinct_map dest: inj_onD)

text \<open>An update that keeps the keys, the drafts and does not lower the published versions.\<close>

lemma version_ok_mono:
  assumes v: "version_ok h ws v" and f: "\<And>w. w \<in> set ws \<Longrightarrow> workflow_id (f w) = workflow_id w
      \<and> workflow_workspaceId (f w) = workflow_workspaceId w"
    and p: "\<And>w p. w \<in> set ws \<Longrightarrow> publishedVersion w = Some p \<Longrightarrow> \<exists>q. publishedVersion (f w) = Some q \<and> p \<le> q"
  shows "version_ok h (update_where P f ws) v"
proof -
  obtain w q where w: "workflow_of ws v w" "publishedVersion w = Some q" "1 \<le> version v" "version v \<le> q"
    using v by (auto simp: version_ok_def)
  let ?w = "if P w then f w else w"
  have "?w \<in> set (update_where P f ws)" using w(1) by (auto simp: workflow_of_def set_update_where)
  then have "workflow_of (update_where P f ws) v ?w" using w(1) f by (auto simp: workflow_of_def)
  moreover have "\<exists>q'. publishedVersion ?w = Some q' \<and> version v \<le> q'"
  proof (cases "P w")
    case True
    obtain q' where "publishedVersion (f w) = Some q'" "q \<le> q'"
      using p [of w q] w(1,2) by (auto simp: workflow_of_def)
    with True w(4) show ?thesis by auto
  qed (use w in auto)
  ultimately show ?thesis using v w(3) unfolding version_ok_def by blast
qed

lemma published_mono:
  assumes ok: "\<forall>w \<in> set ws. \<forall>p. publishedVersion w = Some p \<longrightarrow>
      (\<forall>k \<in> {1..p}. \<exists>v \<in> set vs. workflow_of ws v w \<and> version v = k)"
    and f: "\<And>w. w \<in> set ws \<Longrightarrow> workflow_id (f w) = workflow_id w
      \<and> workflow_workspaceId (f w) = workflow_workspaceId w \<and> publishedVersion (f w) = publishedVersion w"
  shows "\<forall>w \<in> set (update_where P f ws). \<forall>p. publishedVersion w = Some p \<longrightarrow>
      (\<forall>k \<in> {1..p}. \<exists>v \<in> set vs. workflow_of (update_where P f ws) v w \<and> version v = k)"
proof (intro ballI allI impI)
  fix w p k
  assume w: "w \<in> set (update_where P f ws)" "publishedVersion w = Some p" and k: "k \<in> {1..p}"
  then obtain w0 where w0: "w0 \<in> set ws" "w = (if P w0 then f w0 else w0)"
    by (auto simp: update_where_def)
  then have "publishedVersion w0 = Some p" using w(2) f by (auto split: if_splits)
  then obtain v where "v \<in> set vs" "workflow_of ws v w0" "version v = k" using ok w0(1) k by blast
  then show "\<exists>v \<in> set vs. workflow_of (update_where P f ws) v w \<and> version v = k"
    using w(1) w0 f by (intro bexI [of _ v]) (auto simp: workflow_of_def)
qed

lemma store_ok_create:
  assumes ok: "store_ok h db" and st: "unicode_host h"
    and c: "createSqliteWorkflow h sha scope graph name i now db = Inr (db', w)"
  shows "store_ok h db' \<and> workflowVersions db' = workflowVersions db"
proof -
  obtain nm where g: "workflowDraftGraph h graph" and nm: "workflowName h name = Some nm"
    using c by (auto simp: createSqliteWorkflow_def split: option.splits bool.splits)
  define row :: workflow_row where "row = \<lparr>workflow_id = i, workflow_workspaceId = scope_workspaceId scope,
    workflow_name = nm, workflow_state = Draft, draftGraph = parsed_graph h graph,
    draftDigest = digestWorkflowGraph h sha (parsed_graph h graph), publishedVersion = None,
    draftRevision = 1, workflow_createdBy = Some (scope_userId scope),
    workflow_createdAt = now, workflow_updatedAt = now\<rparr>"
  have db': "db' = db\<lparr>workflows := workflows db @ [row]\<rparr>"
    and row: "draftGraph row = parsed_graph h graph" "publishedVersion row = None"
      "workflow_keys_ok (workflows db @ [row])"
    using c g nm by (auto simp: createSqliteWorkflow_def Let_def and_then_eq_Inr row_def split: if_splits)
  have d: "workflowDraftGraph h (draftGraph row)" using draft_parsed [OF st g] row(1) by simp
  have "version_ok h (workflows db @ [row]) v" if "version_ok h (workflows db) v" for v
    using that by (force simp: version_ok_def workflow_of_def)
  moreover have "\<exists>v \<in> set (workflowVersions db). workflow_of (workflows db @ [row]) v w \<and> version v = k"
    if "\<exists>v \<in> set (workflowVersions db). workflow_of (workflows db) v w \<and> version v = k" for w k
    using that by (auto simp: workflow_of_def)
  ultimately show ?thesis using ok row(2,3) d unfolding store_ok_def db' by auto
qed

lemma store_ok_update:
  assumes ok: "store_ok h db" and st: "unicode_host h"
    and c: "updateSqliteWorkflowDraft h sha scope expected graph name wid now db = Inr (db', w)"
  shows "store_ok h db' \<and> workflowVersions db' = workflowVersions db"
proof -
  obtain nm where g: "workflowDraftGraph h graph" and nm: "workflowName h name = Some nm"
    using c by (auto simp: updateSqliteWorkflowDraft_def split: option.splits bool.splits)
  define f where "f = (\<lambda>w :: workflow_row. w\<lparr>draftDigest := digestWorkflowGraph h sha (parsed_graph h graph),
    draftGraph := parsed_graph h graph, draftRevision := draftRevision w + 1, workflow_name := nm,
    workflow_updatedAt := now\<rparr>)"
  define P where "P = (\<lambda>w :: workflow_row. workflow_id w = wid \<and> workflow_workspaceId w = scope_workspaceId scope
    \<and> int (draftRevision w) = expected \<and> is_member db (workflow_workspaceId w) (scope_userId scope))"
  have db': "db' = db\<lparr>workflows := update_where P f (workflows db)\<rparr>"
    and keys: "workflow_keys_ok (update_where P f (workflows db))"
    using c g nm by (auto simp: updateSqliteWorkflowDraft_def Let_def and_then_eq_Inr f_def P_def
      split: option.splits bool.splits if_splits)
  have d: "workflowDraftGraph h (draftGraph (f w))" for w
    using draft_parsed [OF st g] by (simp add: f_def)
  have f: "workflow_id (f w) = workflow_id w" "workflow_workspaceId (f w) = workflow_workspaceId w"
    "publishedVersion (f w) = publishedVersion w" for w by (simp_all add: f_def)
  have "\<forall>v \<in> set (workflowVersions db). version_ok h (update_where P f (workflows db)) v"
    using ok by (auto simp: store_ok_def f intro!: version_ok_mono)
  moreover have "\<forall>w \<in> set (update_where P f (workflows db)). \<forall>p. publishedVersion w = Some p \<longrightarrow>
      (\<forall>k \<in> {1..p}. \<exists>v \<in> set (workflowVersions db). workflow_of (update_where P f (workflows db)) v w \<and> version v = k)"
    by (rule published_mono) (use ok f in \<open>auto simp: store_ok_def\<close>)
  moreover have "\<forall>w \<in> set (update_where P f (workflows db)). workflowDraftGraph h (draftGraph w)"
    using ok d by (auto simp: store_ok_def set_update_where)
  ultimately show ?thesis using ok keys unfolding store_ok_def db' by simp
qed

section \<open>Publishing\<close>

definition next_version :: "workflow_row \<Rightarrow> nat" where
  "next_version w = (case publishedVersion w of None \<Rightarrow> 0 | Some v \<Rightarrow> v) + 1"

definition new_version :: "host \<Rightarrow> workflow_scope \<Rightarrow> jsstr \<Rightarrow> int \<Rightarrow> workflow_row \<Rightarrow> version_row" where
  "new_version h scope i now w =
     \<lparr>version_id = i, version_workspaceId = scope_workspaceId scope, version_workflowId = workflow_id w,
      version = next_version w, version_graph = parsed_graph h (draftGraph w),
      graphDigest = draftDigest w,
      compiledPlan = Some (graph_plan h (parsed_graph h (parsed_graph h (draftGraph w)))),
      version_createdBy = Some (scope_userId scope), version_publishedAt = now\<rparr>"

definition publish_row :: "int \<Rightarrow> nat \<Rightarrow> workflow_row \<Rightarrow> workflow_row" where
  "publish_row now n w = w\<lparr>publishedVersion := Some n, workflow_state := Active, workflow_updatedAt := now\<rparr>"

lemma publish_row_sel [simp]:
  "workflow_id (publish_row now n w) = workflow_id w"
  "workflow_workspaceId (publish_row now n w) = workflow_workspaceId w"
  "workflow_name (publish_row now n w) = workflow_name w"
  "draftGraph (publish_row now n w) = draftGraph w"
  "draftRevision (publish_row now n w) = draftRevision w"
  "publishedVersion (publish_row now n w) = Some n"
  by (simp_all add: publish_row_def)

lemma publish_Inr:
  assumes ok: "store_ok h db" and st: "unicode_host h"
    and cur: "selectScopedWorkflow db scope wid = Some w" "int (draftRevision w) = expected"
      "workflowGraph h (draftGraph w)"
    and fresh: "i \<notin> version_id ` set (workflowVersions db)"
  shows "publishSqliteWorkflow h scope expected wid i now db =
    Inr (db\<lparr>workflows := update_where (\<lambda>x. x = w) (publish_row now (next_version w)) (workflows db),
            workflowVersions := workflowVersions db @ [new_version h scope i now w]\<rparr>,
         (publish_row now (next_version w) w)\<lparr>draftGraph := parsed_graph h (draftGraph w)\<rparr>)"
proof -
  note w = selectScopedWorkflow_Some [OF cur(1)]
  have keys: "workflow_keys_ok (workflows db)" using ok by (simp add: store_ok_def)
  let ?m = "\<lambda>x. workflow_id x = wid \<and> workflow_workspaceId x = scope_workspaceId scope
    \<and> int (draftRevision x) = expected \<and> is_member db (workflow_workspaceId x) (scope_userId scope)"
  have only: "?m x \<longleftrightarrow> x = w" if "x \<in> set (workflows db)" for x
    using that w cur(2) workflow_unique [OF keys, of x w] by auto
  have up: "update_where ?m f (workflows db) = update_where (\<lambda>x. x = w) f (workflows db)" for f
    unfolding update_where_def by (rule map_cong [OF refl]) (use only in simp)
  have sel: "first_row (select_where ?m (workflows db)) = Some w"
  proof -
    have "?m w" using only [of w] w by blast
    then have "first_row (select_where ?m (workflows db)) \<noteq> None"
      unfolding first_row_select_None using w by blast
    then obtain x where x: "first_row (select_where ?m (workflows db)) = Some x" by (meson not_None_eq)
    then show ?thesis using first_row_select [OF x] only by blast
  qed
  have notin: "(workflow_id w, next_version w) \<notin> (\<lambda>v. (version_workflowId v, version v)) ` set (workflowVersions db)"
  proof
    assume "(workflow_id w, next_version w) \<in> (\<lambda>v. (version_workflowId v, version v)) ` set (workflowVersions db)"
    then obtain v where v: "v \<in> set (workflowVersions db)" "version_workflowId v = workflow_id w"
      "version v = next_version w" by auto
    then obtain x p where "workflow_of (workflows db) v x" "publishedVersion x = Some p" "version v \<le> p"
      using ok by (fastforce simp: store_ok_def version_ok_def)
    moreover from this have "x = w"
      using workflow_unique [OF keys, of x w] v(2) w by (auto simp: workflow_of_def)
    ultimately show False using v(3) by (simp add: next_version_def)
  qed
  have g: "workflowGraph h (parsed_graph h (draftGraph w))" using graph_parsed [OF st cur(3)] .
  have plan: "compileWorkflowGraph h (parsed_graph h (draftGraph w))
      = Inr (graph_plan h (parsed_graph h (parsed_graph h (draftGraph w))))"
    by (rule compileWorkflowGraph_ok [OF g])
  have d: "workflowDraftGraph h (draftGraph (publish_row now (next_version w) w))"
    using ok w by (simp add: store_ok_def)
  note m = mapWorkflow_ok [OF d]
  have dist: "distinct (map version_id (workflowVersions db @ [new_version h scope i now w]))
      \<and> distinct (map (\<lambda>v. (version_workflowId v, version v)) (workflowVersions db @ [new_version h scope i now w]))"
    using ok fresh notin by (auto simp: store_ok_def new_version_def)
  show ?thesis
    using dist m cur unfolding publishSqliteWorkflow_def
    by (simp only: option.case plan sum.case Let_def up sel next_version_def [symmetric]
      publish_row_def [symmetric] new_version_def [symmetric] if_True if_False not_True_eq_False
      cur(2,3) refl and_then.simps publish_row_sel) simp
qed

lemma publish_requires:
  assumes "publishSqliteWorkflow h scope expected wid i now db = Inr (db', s)"
  obtains w where "selectScopedWorkflow db scope wid = Some w" "int (draftRevision w) = expected"
    "workflowGraph h (draftGraph w)" "i \<notin> version_id ` set (workflowVersions db)"
  using assms
  by (fastforce simp: publishSqliteWorkflow_def Let_def split: option.splits if_splits sum.splits)

lemma store_ok_publish:
  assumes ok: "store_ok h db" and st: "unicode_host h"
    and c: "publishSqliteWorkflow h scope expected wid i now db = Inr (db', s)"
  shows "store_ok h db' \<and> (\<exists>v. workflowVersions db' = workflowVersions db @ [v])"
proof -
  obtain w where w: "selectScopedWorkflow db scope wid = Some w" "int (draftRevision w) = expected"
    "workflowGraph h (draftGraph w)" "i \<notin> version_id ` set (workflowVersions db)"
    by (rule publish_requires [OF c])
  note ws = selectScopedWorkflow_Some [OF w(1)]
  let ?n = "next_version w" and ?v = "new_version h scope i now w"
  let ?f = "publish_row now ?n"
  let ?ws = "update_where (\<lambda>x. x = w) ?f (workflows db)" and ?vs = "workflowVersions db @ [?v]"
  have db': "db' = db\<lparr>workflows := ?ws, workflowVersions := ?vs\<rparr>"
    using publish_Inr [OF ok st w] c by simp
  have keys: "workflow_keys_ok ?ws"
    using ok by (simp add: store_ok_def workflow_keys_ok_def keys_update_where)
  have drafts: "\<forall>x \<in> set ?ws. workflowDraftGraph h (draftGraph x)"
    using ok by (auto simp: store_ok_def set_update_where)
  have old: "version_ok h ?ws v" if "v \<in> set (workflowVersions db)" for v
  proof -
    have "version_ok h (workflows db) v" using ok that by (simp add: store_ok_def)
    then obtain x q where x: "workflow_of (workflows db) v x" "publishedVersion x = Some q" "1 \<le> version v" "version v \<le> q"
      and P: "\<exists>P. compiledPlan v = Some P \<and> compileWorkflowGraph h (version_graph v) = Inr P"
      by (auto simp: version_ok_def)
    let ?x = "if x = w then ?f x else x"
    have "workflow_of ?ws v ?x" using x(1) by (auto simp: workflow_of_def set_update_where)
    moreover have "\<exists>q'. publishedVersion ?x = Some q' \<and> version v \<le> q'"
      using x(2,4) by (auto simp: next_version_def)
    ultimately show ?thesis using P x(3) unfolding version_ok_def by blast
  qed
  have new_of: "workflow_of ?ws ?v (?f w)"
    using ws by (auto simp: workflow_of_def set_update_where new_version_def)
  have g: "workflowGraph h (parsed_graph h (draftGraph w))" using graph_parsed [OF st w(3)] .
  have new: "version_ok h ?ws ?v"
    unfolding version_ok_def
    using compileWorkflowGraph_ok [OF g] new_of by (auto simp: new_version_def next_version_def)
  have notin: "(workflow_id w, ?n) \<notin> (\<lambda>v. (version_workflowId v, version v)) ` set (workflowVersions db)"
  proof
    assume "(workflow_id w, ?n) \<in> (\<lambda>v. (version_workflowId v, version v)) ` set (workflowVersions db)"
    then obtain v where v: "v \<in> set (workflowVersions db)" "version_workflowId v = workflow_id w" "version v = ?n" by auto
    then obtain x p where "workflow_of (workflows db) v x" "publishedVersion x = Some p" "version v \<le> p"
      using ok by (fastforce simp: store_ok_def version_ok_def)
    moreover from this have "x = w"
      using workflow_unique [of "workflows db" x w] v(2) ws ok by (auto simp: workflow_of_def store_ok_def)
    ultimately show False using v(3) by (simp add: next_version_def)
  qed
  have dist: "distinct (map version_id ?vs)" "distinct (map (\<lambda>v. (version_workflowId v, version v)) ?vs)"
    using ok w(4) notin by (auto simp: store_ok_def new_version_def)
  have gaps: "\<forall>x \<in> set ?ws. \<forall>p. publishedVersion x = Some p \<longrightarrow>
      (\<forall>k \<in> {1..p}. \<exists>v \<in> set ?vs. workflow_of ?ws v x \<and> version v = k)"
  proof (intro ballI allI impI)
    fix x p k
    assume x: "x \<in> set ?ws" "publishedVersion x = Some p" and k: "k \<in> {1..p}"
    obtain y where y: "y \<in> set (workflows db)" "x = (if y = w then ?f y else y)"
      using x(1) by (auto simp: update_where_def)
    show "\<exists>v \<in> set ?vs. workflow_of ?ws v x \<and> version v = k"
    proof (cases "y = w \<and> k = ?n")
      case True
      then show ?thesis using y new_of by (intro bexI [of _ ?v]) (auto simp: new_version_def)
    next
      case False
      obtain q where q: "publishedVersion y = Some q" "k \<in> {1..q}"
        using False y(2) x(2) k by (auto simp: next_version_def split: if_splits option.splits)
      then obtain v where "v \<in> set (workflowVersions db)" "workflow_of (workflows db) v y" "version v = k"
        using ok y(1) unfolding store_ok_def by blast
      then show ?thesis using x(1) y by (intro bexI [of _ v]) (auto simp: workflow_of_def)
    qed
  qed
  show ?thesis
    using keys drafts old new dist gaps unfolding db' store_ok_def by auto
qed

section \<open>Histories\<close>

inductive store_step :: "host \<Rightarrow> workflow_db \<Rightarrow> workflow_db \<Rightarrow> bool" for h where
  store_create: "createSqliteWorkflow h sha scope graph name i now db = Inr (db', w) \<Longrightarrow> store_step h db db'"
| store_update: "updateSqliteWorkflowDraft h sha scope expected graph name wid now db = Inr (db', w)
    \<Longrightarrow> store_step h db db'"
| store_publish: "publishSqliteWorkflow h scope expected wid i now db = Inr (db', w) \<Longrightarrow> store_step h db db'"
| store_members: "store_step h db (db\<lparr>members := ms\<rparr>)"

definition empty_store :: workflow_db where
  "empty_store = \<lparr>members = [], workflows = [], workflowVersions = []\<rparr>"

lemma store_ok_step:
  assumes "store_step h db db'" and "store_ok h db" and "unicode_host h"
  shows "store_ok h db' \<and> (\<exists>new. workflowVersions db' = workflowVersions db @ new)"
  using assms(1)
proof cases
  case (store_members ms)
  have "store_ok h (db\<lparr>members := ms\<rparr>) = store_ok h db" by (simp add: store_ok_def)
  then show ?thesis using assms(2) store_members by simp
next
  case store_create
  then show ?thesis using store_ok_create [OF assms(2,3)] by (metis append_Nil2)
next
  case store_update
  then show ?thesis using store_ok_update [OF assms(2,3)] by (metis append_Nil2)
next
  case store_publish
  then show ?thesis using store_ok_publish [OF assms(2,3)] by blast
qed

lemma store_reachable: "(store_step h)\<^sup>*\<^sup>* empty_store db \<Longrightarrow> unicode_host h \<Longrightarrow> store_ok h db"
proof (induction rule: rtranclp_induct)
  case base
  then show ?case by (simp add: store_ok_def empty_store_def workflow_keys_ok_def)
next
  case (step y z)
  then show ?case using store_ok_step by blast
qed

section \<open>Properties\<close>

text \<open>
  C15. Publishing an accepted draft at its current revision cannot fail in a store with this
  history: it appends one version, numbered one above the published one, with the plan of the
  stored graph. The conflict \<open>changed while it was being published\<close>, the constraint on
  version numbers and a throw of the compiler are unreachable.
  The host's \<open>normalize('NFKC')\<close> must obey the laws of Unicode in \<open>unicode_host\<close>.
\<close>

theorem publish_total:
  assumes "(store_step h)\<^sup>*\<^sup>* empty_store db" and "unicode_host h"
    and "selectScopedWorkflow db scope wid = Some w" and "int (draftRevision w) = expected"
    and "workflowGraph h (draftGraph w)" and "i \<notin> version_id ` set (workflowVersions db)"
  shows "\<exists>db' s v P. publishSqliteWorkflow h scope expected wid i now db = Inr (db', s)
    \<and> workflowVersions db' = workflowVersions db @ [v] \<and> version v = next_version w
    \<and> publishedVersion s = Some (next_version w) \<and> workflow_state s = Active
    \<and> version_graph v = parsed_graph h (draftGraph w)
    \<and> compileWorkflowGraph h (version_graph v) = Inr P \<and> compiledPlan v = Some P"
proof -
  have ok: "store_ok h db" by (rule store_reachable [OF assms(1,2)])
  have g: "workflowGraph h (parsed_graph h (draftGraph w))" using graph_parsed [OF assms(2,5)] .
  show ?thesis
    unfolding publish_Inr [OF ok assms(2-6)]
    using compileWorkflowGraph_ok [OF g] by (simp add: new_version_def publish_row_def)
qed

definition sample_scope :: workflow_scope where
  "sample_scope = \<lparr>scope_userId = js ''u'', scope_workspaceId = js ''s''\<rparr>"

definition sample_workflow :: workflow_row where
  "sample_workflow = \<lparr>workflow_id = js ''f1'', workflow_workspaceId = js ''s'', workflow_name = js ''n'',
     workflow_state = Draft, draftGraph = sample_graph,
     draftDigest = digestWorkflowGraph ascii_host id sample_graph, publishedVersion = None,
     draftRevision = 1, workflow_createdBy = Some (js ''u''), workflow_createdAt = 0, workflow_updatedAt = 0\<rparr>"

definition sample_store :: workflow_db where
  "sample_store = \<lparr>members = [(js ''s'', js ''u'')], workflows = [sample_workflow], workflowVersions = []\<rparr>"

lemma sample_created:
  "createSqliteWorkflow ascii_host id sample_scope sample_graph (js ''n'') (js ''f1'') 0
     (empty_store\<lparr>members := [(js ''s'', js ''u'')]\<rparr>) = Inr (sample_store, sample_workflow)"
proof -
  have n: "workflowName ascii_host (js ''n'') = Some (js ''n'')" by code_simp
  show ?thesis
    by (simp add: createSqliteWorkflow_def n sample_draft requireWorkspaceMembership_def is_member_def
        sample_scope_def empty_store_def Let_def sample_parsed workflow_keys_ok_def mapWorkflow_def
        sample_workflow_def sample_store_def)
qed

lemma sample_store_reachable: "(store_step ascii_host)\<^sup>*\<^sup>* empty_store sample_store"
proof -
  have "store_step ascii_host empty_store (empty_store\<lparr>members := [(js ''s'', js ''u'')]\<rparr>)"
    by (rule store_members)
  then show ?thesis using store_create [OF sample_created] by (rule converse_rtranclp_into_rtranclp [OF _ r_into_rtranclp])
qed

lemma ascii_unicode: "unicode_host ascii_host"
  by (simp add: unicode_host_def ascii_host_def)

theorem publish_total_witness:
  "\<exists>db' s. publishSqliteWorkflow ascii_host sample_scope 1 (js ''f1'') (js ''v1'') 9 sample_store = Inr (db', s)
     \<and> publishedVersion s = Some 1"
proof -
  have sel: "selectScopedWorkflow sample_store sample_scope (js ''f1'') = Some sample_workflow"
    by (simp add: selectScopedWorkflow_def first_row_def select_where_def sample_store_def
        sample_workflow_def sample_scope_def is_member_def)
  have r: "int (draftRevision sample_workflow) = 1" "next_version sample_workflow = 1"
    by (simp_all add: sample_workflow_def next_version_def)
  have g: "workflowGraph ascii_host (draftGraph sample_workflow)"
    using sample_ok by (simp add: sample_workflow_def)
  have i: "js ''v1'' \<notin> version_id ` set (workflowVersions sample_store)"
    by (simp add: sample_store_def)
  show ?thesis
    using publish_total [OF sample_store_reachable ascii_unicode sel r(1) g i, of 9] unfolding r(2) by blast
qed

text \<open>
  C16. Over any history of the store, each version of a workflow carries the plan compiled from
  its own graph, the versions of a workflow are numbered 1 to its published version without a
  gap or a repetition, and no operation changes or removes a version.
  The host's \<open>normalize('NFKC')\<close> must obey the laws of Unicode in \<open>unicode_host\<close>.
\<close>

theorem store_history:
  assumes "(store_step h)\<^sup>*\<^sup>* empty_store db" and "unicode_host h" and "store_step h db db'"
  shows "(\<forall>v \<in> set (workflowVersions db). \<exists>P. compiledPlan v = Some P
      \<and> compileWorkflowGraph h (version_graph v) = Inr P)
    \<and> distinct (map (\<lambda>v. (version_workflowId v, version v)) (workflowVersions db))
    \<and> (\<forall>w \<in> set (workflows db). \<forall>p. publishedVersion w = Some p \<longrightarrow>
         (\<forall>k \<in> {1..p}. \<exists>v \<in> set (workflowVersions db). version_workflowId v = workflow_id w \<and> version v = k))
    \<and> (\<exists>new. workflowVersions db' = workflowVersions db @ new)"
proof -
  have ok: "store_ok h db" by (rule store_reachable [OF assms(1,2)])
  then have "\<forall>w \<in> set (workflows db). \<forall>p. publishedVersion w = Some p \<longrightarrow>
      (\<forall>k \<in> {1..p}. \<exists>v \<in> set (workflowVersions db). version_workflowId v = workflow_id w \<and> version v = k)"
    unfolding store_ok_def workflow_of_def by metis
  then show ?thesis
    using ok store_ok_step [OF assms(3) ok assms(2)] by (auto simp: store_ok_def version_ok_def)
qed

theorem store_history_witness:
  "distinct (map (\<lambda>v. (version_workflowId v, version v)) (workflowVersions sample_store))
     \<and> (\<exists>new. workflowVersions (sample_store\<lparr>members := []\<rparr>) = workflowVersions sample_store @ new)"
  using store_history [OF sample_store_reachable ascii_unicode store_members] by blast

end
