(* ===== verification/WorkflowRuns.thy ===== *)
theory WorkflowRuns
  imports WorkflowStore
begin

text \<open>
  The ledger of workflow runs (\<open>packages/db/src/sqlite/workflow-runs.ts\<close>, tables
  \<open>workflow_runs\<close> and \<open>workflow_step_runs\<close> of \<open>schema.ts\<close>). Every function is one transaction
  on the ledger; an error leaves the ledger as it was. Fresh identifiers and the clock are
  arguments.
\<close>

section \<open>Tables\<close>

datatype run_status = RunQueued | RunRunning | RunSucceeded | RunFailed | RunCancelled

datatype step_status =
    StepBlocked | StepReady | StepRunning | StepSucceeded | StepFailed | StepSkipped | StepCancelled

record run_row =
  run_id :: jsstr
  run_workspaceId :: jsstr
  run_workflowId :: jsstr
  run_workflowVersion :: nat
  run_graphDigest :: jsstr
  run_status :: run_status
  requestedByUserId :: "jsstr option"
  run_input :: json
  run_errorCode :: "jsstr option"
  run_errorMessage :: "jsstr option"
  run_startedAt :: "int option"
  run_finishedAt :: "int option"
  run_createdAt :: int
  run_updatedAt :: int

record step_row =
  step_runId :: jsstr
  step_workspaceId :: jsstr
  step_id :: jsstr
  stepKind :: workflow_node_kind
  step_status :: step_status
  attempt :: nat
  claimId :: "jsstr option"
  claimedAt :: "int option"
  nextAttemptAt :: "int option"
  step_output :: "json option"
  step_errorCode :: "jsstr option"
  step_errorMessage :: "jsstr option"
  step_startedAt :: "int option"
  step_finishedAt :: "int option"
  step_updatedAt :: int

record ledger =
  store :: workflow_db
  runs :: "run_row list"
  step_runs :: "step_row list"
  outbox :: "outbox_event list"

datatype run_error = RunAccess | RunConflict | RunValidation | RunConstraint

definition active_status :: "step_status \<Rightarrow> bool" where
  "active_status s \<longleftrightarrow> s \<in> {StepBlocked, StepReady, StepRunning}"

definition open_run :: "run_status \<Rightarrow> bool" where
  "open_run s \<longleftrightarrow> s \<in> {RunQueued, RunRunning}"

section \<open>Checked inputs\<close>

definition assertClaimId :: "jsstr \<Rightarrow> run_error + unit" where
  "assertClaimId c = (if valid_claim_id c then Inr () else Inl RunValidation)"

text \<open>The byte length is that of the UTF-8 encoding; the value is read back from its text.\<close>

definition parseJsonValue :: "json \<Rightarrow> nat \<Rightarrow> run_error + json" where
  "parseJsonValue value maximumBytes =
     (if maximumBytes < utf8ByteLength (stringify value) then Inl RunValidation
      else case json_parse (stringify value) of Some v \<Rightarrow> Inr v | None \<Rightarrow> Inl RunValidation)"

fun parseRunInput :: "json \<Rightarrow> run_error + json" where
  "parseRunInput (JObj props) = parseJsonValue (JObj props) (64 * 1024)"
| "parseRunInput _ = Inl RunValidation"

definition is_code_unit :: "code_unit \<Rightarrow> bool" where
  "is_code_unit c \<longleftrightarrow> is_alpha c \<or> is_digit c \<or> c = 95 \<or> c = 46 \<or> c = 45"

definition safeCode :: "jsstr \<Rightarrow> run_error + jsstr" where
  "safeCode value =
     (let code = take 120 (trim value)
      in if code = [] \<or> \<not> list_all is_code_unit code then Inl RunValidation else Inr code)"

definition safeMessage :: "jsstr \<Rightarrow> run_error + jsstr" where
  "safeMessage value =
     (let message = take 500 (trim (blank_breaks value))
      in if message = [] then Inl RunValidation else Inr message)"

section \<open>Plans of runs\<close>

text \<open>The join of a run with its version, which is unique on the three columns.\<close>

definition version_plan :: "ledger \<Rightarrow> run_row \<Rightarrow> compiled_plan option" where
  "version_plan led run =
     (case first_row (select_where (\<lambda>v. version_workflowId v = run_workflowId run
             \<and> version v = run_workflowVersion run \<and> version_workspaceId v = run_workspaceId run)
             (workflowVersions (store led))) of
        None \<Rightarrow> None
      | Some v \<Rightarrow> compiledPlan v)"

definition requirePlanStep :: "compiled_plan \<Rightarrow> jsstr \<Rightarrow> run_error + compiled_step" where
  "requirePlanStep plan sid =
     (case find (\<lambda>s. stepId s = sid) (steps plan) of None \<Rightarrow> Inl RunValidation | Some s \<Rightarrow> Inr s)"

lemma requirePlanStep_Inr: "requirePlanStep plan sid = Inr s \<Longrightarrow> s \<in> set (steps plan) \<and> stepId s = sid"
  by (auto simp: requirePlanStep_def find_Some_iff in_set_conv_nth split: option.splits)

definition loadRunExecution :: "ledger \<Rightarrow> jsstr \<Rightarrow> jsstr \<Rightarrow> run_error + compiled_plan" where
  "loadRunExecution led rid workspace =
     (case first_row (select_where (\<lambda>r. run_id r = rid \<and> run_workspaceId r = workspace
             \<and> run_status r = RunRunning) (runs led)) of
        None \<Rightarrow> Inl RunAccess
      | Some run \<Rightarrow> (case version_plan led run of None \<Rightarrow> Inl RunAccess | Some plan \<Rightarrow> Inr plan))"

section \<open>Creating a run\<close>

record create_run_input =
  create_userId :: jsstr
  create_workspaceId :: jsstr
  create_runInput :: "json option"
  create_workflowId :: jsstr

definition published_rows :: "ledger \<Rightarrow> create_run_input \<Rightarrow> (workflow_row \<times> version_row) list" where
  "published_rows led inp =
     [(w, v). w \<leftarrow> workflows (store led), v \<leftarrow> workflowVersions (store led),
        is_member (store led) (workflow_workspaceId w) (create_userId inp)
        \<and> version_workflowId v = workflow_id w \<and> Some (version v) = publishedVersion w
        \<and> version_workspaceId v = workflow_workspaceId w
        \<and> workflow_id w = create_workflowId inp \<and> workflow_workspaceId w = create_workspaceId inp
        \<and> workflow_state w = Active]"

definition new_step :: "compiled_plan \<Rightarrow> jsstr \<Rightarrow> jsstr \<Rightarrow> int \<Rightarrow> compiled_step \<Rightarrow> step_row" where
  "new_step plan rid workspace now s =
     \<lparr>step_runId = rid, step_workspaceId = workspace, step_id = stepId s, stepKind = step_kind s,
      step_status = (if stepId s \<in> set (entryStepIds plan) then StepReady else StepBlocked),
      attempt = 0, claimId = None, claimedAt = None, nextAttemptAt = None, step_output = None,
      step_errorCode = None, step_errorMessage = None, step_startedAt = None,
      step_finishedAt = None, step_updatedAt = now\<rparr>"

definition run_requested_event :: "jsstr \<Rightarrow> jsstr \<Rightarrow> jsstr \<Rightarrow> int \<Rightarrow> outbox_event" where
  "run_requested_event eid rid workspace now =
     \<lparr>event_id = eid, event_workspaceId = workspace, aggregateType = js ''workflow_run'',
      aggregateId = rid, eventType = js ''workflow.run_requested'',
      payload = JObj [(js ''runId'', JStr rid), (js ''workspaceId'', JStr workspace)],
      event_createdAt = now, publishedAt = None, dispatchClaimId = None, dispatchClaimedAt = None,
      dispatchAttempts = 0, dispatchNextAttemptAt = None, dispatchLastError = None\<rparr>"

definition step_key :: "step_row \<Rightarrow> jsstr \<times> jsstr" where
  "step_key s = (step_runId s, step_id s)"

definition new_run :: "create_run_input \<Rightarrow> json \<Rightarrow> jsstr \<Rightarrow> int \<Rightarrow> workflow_row \<Rightarrow> version_row \<Rightarrow> run_row" where
  "new_run inp runInput rid now w v =
     \<lparr>run_id = rid, run_workspaceId = create_workspaceId inp, run_workflowId = workflow_id w,
      run_workflowVersion = version v, run_graphDigest = graphDigest v, run_status = RunQueued,
      requestedByUserId = Some (create_userId inp), run_input = runInput, run_errorCode = None,
      run_errorMessage = None, run_startedAt = None, run_finishedAt = None, run_createdAt = now,
      run_updatedAt = now\<rparr>"

text \<open>
  The last check stands for the primary keys of the three tables (and for the empty list of
  rows, which the query builder rejects).
\<close>

definition createSqliteWorkflowRun :: "create_run_input \<Rightarrow> jsstr \<Rightarrow> jsstr \<Rightarrow> int \<Rightarrow> ledger
    \<Rightarrow> run_error + (ledger \<times> run_row)" where
  "createSqliteWorkflowRun inp rid eid now led =
     and_then (parseRunInput (case create_runInput inp of None \<Rightarrow> JObj [] | Some v \<Rightarrow> v)) (\<lambda>runInput.
       case first_row (published_rows led inp) of
         None \<Rightarrow> Inl RunAccess
       | Some (w, v) \<Rightarrow>
           (case compiledPlan v of
              None \<Rightarrow> Inl RunConflict
            | Some plan \<Rightarrow>
                let created = new_run inp runInput rid now w v;
                    inserted = map (new_step plan rid (create_workspaceId inp) now) (steps plan);
                    event = run_requested_event eid rid (create_workspaceId inp) now
                in if rid \<in> run_id ` set (runs led) \<or> eid \<in> event_id ` set (outbox led)
                      \<or> inserted = [] \<or> \<not> distinct (map step_key (step_runs led @ inserted))
                   then Inl RunConstraint
                   else Inr (led\<lparr>runs := runs led @ [created], step_runs := step_runs led @ inserted,
                               outbox := outbox led @ [event]\<rparr>, created)))"

section \<open>Listing\<close>

definition listSqliteWorkflowRuns :: "workflow_scope \<Rightarrow> int option \<Rightarrow> jsstr \<Rightarrow> ledger
    \<Rightarrow> run_error + (run_row \<times> step_row list) list" where
  "listSqliteWorkflowRuns scope limit wid led =
     (if select_where (\<lambda>w. workflow_id w = wid \<and> workflow_workspaceId w = scope_workspaceId scope
            \<and> is_member (store led) (workflow_workspaceId w) (scope_userId scope)) (workflows (store led)) = []
      then Inl RunAccess
      else let selected = take (nat (clamp 1 100 20 limit)) (rev (sort_key (\<lambda>r. (run_createdAt r, run_id r))
                 (select_where (\<lambda>r. run_workflowId r = wid \<and> run_workspaceId r = scope_workspaceId scope)
                   (runs led))));
               stepRows = sort_key step_id (select_where (\<lambda>s. step_workspaceId s = scope_workspaceId scope
                 \<and> step_runId s \<in> run_id ` set selected) (step_runs led))
           in Inr (map (\<lambda>r. (r, filter (\<lambda>s. step_runId s = run_id r) stepRows)) selected))"

section \<open>Claiming steps\<close>

record claim_steps_input =
  step_claimId_in :: jsstr
  step_leaseSeconds_in :: "int option"
  step_limit_in :: "int option"
  step_now_in :: int
  step_runId_in :: "jsstr option"
  step_workspaceId_in :: "jsstr option"

definition truthy :: "jsstr option \<Rightarrow> bool" where
  "truthy s = (case s of None \<Rightarrow> False | Some x \<Rightarrow> x \<noteq> [])"

text \<open>The scope with the runs of the subquery.\<close>

type_synonym claim_scope = "jsstr option \<times> jsstr option \<times> run_row list"

definition workflowStepEligibility :: "claim_scope \<Rightarrow> int \<Rightarrow> int \<Rightarrow> step_row \<Rightarrow> bool" where
  "workflowStepEligibility scope now staleBefore s =
     (case scope of (rid, workspace, rs) \<Rightarrow>
        (truthy rid \<longrightarrow> rid = Some (step_runId s))
        \<and> (truthy workspace \<longrightarrow> workspace = Some (step_workspaceId s))
        \<and> (step_status s = StepReady
             \<and> (case nextAttemptAt s of None \<Rightarrow> True | Some t \<Rightarrow> t \<le> now)
           \<or> step_status s = StepRunning
             \<and> (case claimedAt s of None \<Rightarrow> False | Some t \<Rightarrow> t < staleBefore))
        \<and> list_ex (\<lambda>r. run_id r = step_runId s \<and> open_run (run_status r)) rs)"

definition mark_step :: "jsstr \<Rightarrow> int \<Rightarrow> step_row \<Rightarrow> step_row" where
  "mark_step c now s =
     s\<lparr>attempt := attempt s + 1, claimId := Some c, claimedAt := Some now, step_errorCode := None,
       step_errorMessage := None, nextAttemptAt := None,
       step_startedAt := (case step_startedAt s of None \<Rightarrow> Some now | Some t \<Rightarrow> Some t),
       step_status := StepRunning, step_updatedAt := now\<rparr>"

record claimed_step =
  cs_attempt :: nat
  cs_kind :: workflow_node_kind
  cs_runId :: jsstr
  cs_stepId :: jsstr
  cs_workspaceId :: jsstr

definition claimed_step_of :: "step_row \<Rightarrow> claimed_step" where
  "claimed_step_of s = \<lparr>cs_attempt = attempt s, cs_kind = stepKind s, cs_runId = step_runId s,
     cs_stepId = step_id s, cs_workspaceId = step_workspaceId s\<rparr>"

definition start_run :: "int \<Rightarrow> run_row \<Rightarrow> run_row" where
  "start_run now r =
     r\<lparr>run_startedAt := (case run_startedAt r of None \<Rightarrow> Some now | Some t \<Rightarrow> Some t),
       run_status := RunRunning, run_updatedAt := now\<rparr>"

definition claimSqliteWorkflowSteps :: "claim_steps_input \<Rightarrow> ledger
    \<Rightarrow> run_error + (ledger \<times> claimed_step list)" where
  "claimSqliteWorkflowSteps inp led =
     and_then (assertClaimId (step_claimId_in inp)) (\<lambda>_.
       if truthy (step_runId_in inp) \<noteq> truthy (step_workspaceId_in inp) then Inl RunValidation
       else let now = step_now_in inp;
                staleBefore = stale_before now (step_leaseSeconds_in inp);
                limit = clamp 1 250 25 (step_limit_in inp);
                scope = (step_runId_in inp, step_workspaceId_in inp, runs led)
            in case claim_rows step_key (\<lambda>s. (step_updatedAt s, step_id s)) (nat limit)
                      (workflowStepEligibility scope now staleBefore)
                      (mark_step (step_claimId_in inp) now) (step_runs led) of
                 None \<Rightarrow> Inl RunConflict
               | Some (rows, claimed) \<Rightarrow>
                   let runIds = set_from (map step_runId claimed)
                   in Inr (led\<lparr>step_runs := rows,
                             runs := update_where (\<lambda>r. run_id r \<in> set runIds \<and> run_status r = RunQueued)
                               (start_run now) (runs led)\<rparr>,
                           map claimed_step_of claimed))"

section \<open>Reading a claimed step\<close>

record inbound_output =
  in_output :: "json option"
  in_sourceHandle :: jsstr
  in_sourceStepId :: jsstr
  in_targetHandle :: jsstr

record step_execution =
  inbound :: "inbound_output list"
  exec_runInput :: json
  exec_userId :: jsstr
  exec_step :: compiled_step

record step_ref =
  ref_claimId :: jsstr
  ref_runId :: jsstr
  ref_stepId :: jsstr
  ref_workspaceId :: jsstr

text \<open>The \<open>where\<close> clause of every update by the holder of a step's lease.\<close>

definition step_owned :: "jsstr \<Rightarrow> step_row \<Rightarrow> bool" where
  "step_owned c s \<longleftrightarrow> claimId s = Some c \<and> step_status s = StepRunning"

definition stepClaimScope :: "step_ref \<Rightarrow> step_row \<Rightarrow> bool" where
  "stepClaimScope ref s \<longleftrightarrow> step_runId s = ref_runId ref \<and> step_id s = ref_stepId ref
     \<and> step_workspaceId s = ref_workspaceId ref \<and> step_owned (ref_claimId ref) s"

definition getClaimedSqliteWorkflowStepExecution :: "step_ref \<Rightarrow> ledger \<Rightarrow> run_error + step_execution" where
  "getClaimedSqliteWorkflowStepExecution ref led =
     and_then (assertClaimId (ref_claimId ref)) (\<lambda>_.
       let executions = [(r, p). s \<leftarrow> step_runs led, r \<leftarrow> runs led, p \<leftarrow> [version_plan led r],
             stepClaimScope ref s \<and> run_id r = step_runId s \<and> run_workspaceId r = step_workspaceId s
             \<and> run_status r = RunRunning]
       in case first_row executions of
            None \<Rightarrow> Inl RunAccess
          | Some (run, None) \<Rightarrow> Inl RunAccess
          | Some (run, Some plan) \<Rightarrow>
              (case requestedByUserId run of
                 None \<Rightarrow> Inl RunAccess
               | Some user \<Rightarrow> and_then (requirePlanStep plan (ref_stepId ref)) (\<lambda>step.
                   if inboundRoutes step = []
                   then Inr \<lparr>inbound = [], exec_runInput = run_input run, exec_userId = user, exec_step = step\<rparr>
                   else let predecessorIds = set_from (map sourceStepId (inboundRoutes step));
                            outputs = map_from (map (\<lambda>s. (step_id s, step_output s))
                              (filter (\<lambda>s. step_status s = StepSucceeded)
                                (select_where (\<lambda>s. step_runId s = ref_runId ref
                                  \<and> step_workspaceId s = ref_workspaceId ref
                                  \<and> step_id s \<in> set predecessorIds) (step_runs led))));
                            ins = [\<lparr>in_output = out, in_sourceHandle = route_sourceHandle r,
                                    in_sourceStepId = sourceStepId r, in_targetHandle = route_targetHandle r\<rparr>.
                                   r \<leftarrow> inboundRoutes step, Some out \<leftarrow> [map_of outputs (sourceStepId r)]]
                        in if ins = [] then Inl RunConflict
                           else Inr \<lparr>inbound = ins, exec_runInput = run_input run,
                                     exec_userId = user, exec_step = step\<rparr>)))"

section \<open>Completing a step\<close>

text \<open>
  The descendants of the routes that were not taken. The queue may hold a step twice; every
  turn either drops an entry or adds a step of the plan to the set.
\<close>

function collectSkippedDescendants :: "compiled_plan \<Rightarrow> jsstr list \<Rightarrow> jsstr list \<Rightarrow> jsstr list
    \<Rightarrow> run_error + jsstr list" where
  "collectSkippedDescendants plan pending protected skipped =
     (case pending of
        [] \<Rightarrow> Inr skipped
      | sid # rest \<Rightarrow>
          if sid \<in> set skipped \<or> sid \<in> set protected
          then collectSkippedDescendants plan rest protected skipped
          else case requirePlanStep plan sid of
                 Inl e \<Rightarrow> Inl e
               | Inr step \<Rightarrow>
                   collectSkippedDescendants plan (rest @ map targetStepId (outboundRoutes step))
                     protected (set_add sid skipped))"
  by pat_completeness auto
termination
proof (relation "measures [\<lambda>(plan, pending, protected, skipped). card (stepId ` set (steps plan) - set skipped),
    \<lambda>(plan, pending, protected, skipped). length pending]", goal_cases)
  case 1
  then show ?case by simp
next
  case (2 plan pending protected skipped sid rest)
  then show ?case by simp
next
  case (3 plan pending protected skipped sid rest step)
  then have "sid \<in> stepId ` set (steps plan)" using requirePlanStep_Inr by blast
  then have "stepId ` set (steps plan) - set (set_add sid skipped) \<subset> stepId ` set (steps plan) - set skipped"
    using 3 by auto
  then have "card (stepId ` set (steps plan) - set (set_add sid skipped)) < card (stepId ` set (steps plan) - set skipped)"
    by (intro psubset_card_mono) simp_all
  then show ?case by simp
qed

declare collectSkippedDescendants.simps [simp del]

datatype run_progress = StillRunning | RunFinished

definition complete_row :: "int \<Rightarrow> json option \<Rightarrow> step_row \<Rightarrow> step_row" where
  "complete_row now output s =
     s\<lparr>claimId := None, claimedAt := None, step_errorCode := None, step_errorMessage := None,
       step_finishedAt := Some now, nextAttemptAt := None, step_output := output,
       step_status := StepSucceeded, step_updatedAt := now\<rparr>"

definition ready_row :: "int \<Rightarrow> step_row \<Rightarrow> step_row" where
  "ready_row now s = s\<lparr>step_status := StepReady, step_updatedAt := now\<rparr>"

definition skip_row :: "int \<Rightarrow> step_row \<Rightarrow> step_row" where
  "skip_row now s = s\<lparr>step_finishedAt := Some now, step_status := StepSkipped, step_updatedAt := now\<rparr>"

definition blocked_in :: "step_ref \<Rightarrow> jsstr list \<Rightarrow> step_row \<Rightarrow> bool" where
  "blocked_in ref ids s \<longleftrightarrow> step_runId s = ref_runId ref \<and> step_workspaceId s = ref_workspaceId ref
     \<and> step_status s = StepBlocked \<and> step_id s \<in> set ids"

definition remaining_steps :: "jsstr \<Rightarrow> step_row list \<Rightarrow> nat" where
  "remaining_steps rid rows =
     length (select_where (\<lambda>s. step_runId s = rid \<and> active_status (step_status s)) rows)"

definition active_targets :: "compiled_step \<Rightarrow> jsstr list \<Rightarrow> jsstr list" where
  "active_targets step handles =
     set_from (map targetStepId (filter (\<lambda>r. route_sourceHandle r \<in> set handles) (outboundRoutes step)))"

definition inactive_targets :: "compiled_step \<Rightarrow> jsstr list \<Rightarrow> jsstr list" where
  "inactive_targets step handles =
     map targetStepId (filter (\<lambda>r. route_sourceHandle r \<notin> set handles) (outboundRoutes step))"

definition finish_run :: "int \<Rightarrow> run_row \<Rightarrow> run_row" where
  "finish_run now r = r\<lparr>run_finishedAt := Some now, run_status := RunSucceeded, run_updatedAt := now\<rparr>"

definition parse_output :: "json option \<Rightarrow> run_error + json option" where
  "parse_output output =
     (case output of None \<Rightarrow> Inr None | Some v \<Rightarrow> and_then (parseJsonValue v 1048576) (\<lambda>w. Inr (Some w)))"

definition completeSqliteWorkflowStep :: "step_ref \<Rightarrow> jsstr list \<Rightarrow> json option \<Rightarrow> int \<Rightarrow> ledger
    \<Rightarrow> run_error + (ledger \<times> run_progress)" where
  "completeSqliteWorkflowStep ref activeOutputHandles out now led =
     and_then (assertClaimId (ref_claimId ref)) (\<lambda>_.
     and_then (parse_output out) (\<lambda>output.
     and_then (loadRunExecution led (ref_runId ref) (ref_workspaceId ref)) (\<lambda>plan.
     and_then (requirePlanStep plan (ref_stepId ref)) (\<lambda>step.
       let allowedHandles = set_from (map route_sourceHandle (outboundRoutes step));
           activeHandles = set_from activeOutputHandles
       in if length activeHandles \<noteq> length activeOutputHandles
             \<or> list_ex (\<lambda>handle. handle \<notin> set allowedHandles) activeHandles
          then Inl RunValidation
          else if select_where (stepClaimScope ref) (step_runs led) = [] then Inl RunConflict
          else let rows1 = update_where (stepClaimScope ref) (complete_row now output) (step_runs led);
                   activeTargets = active_targets step activeHandles;
                   rows2 = (if activeTargets = [] then rows1
                            else update_where (blocked_in ref activeTargets) (ready_row now) rows1)
               in and_then (collectSkippedDescendants plan (inactive_targets step activeHandles) activeTargets [])
                    (\<lambda>skipped.
                      let rows3 = (if skipped = [] then rows2
                                   else update_where (blocked_in ref skipped) (skip_row now) rows2)
                      in if 0 < remaining_steps (ref_runId ref) rows3
                         then Inr (led\<lparr>step_runs := rows3\<rparr>, StillRunning)
                         else Inr (led\<lparr>step_runs := rows3,
                                     runs := update_where (\<lambda>r. run_id r = ref_runId ref
                                        \<and> run_workspaceId r = ref_workspaceId ref
                                        \<and> run_status r = RunRunning) (finish_run now) (runs led)\<rparr>,
                                   RunFinished))))))"

section \<open>Rescheduling and failing a step\<close>

definition retry_row :: "int \<Rightarrow> int \<Rightarrow> jsstr \<Rightarrow> jsstr \<Rightarrow> step_row \<Rightarrow> step_row" where
  "retry_row now retryAt code message s =
     s\<lparr>claimId := None, claimedAt := None, step_errorCode := Some code,
       step_errorMessage := Some message, nextAttemptAt := Some retryAt,
       step_status := StepReady, step_updatedAt := now\<rparr>"

definition retrySqliteWorkflowStep :: "step_ref \<Rightarrow> jsstr \<Rightarrow> jsstr \<Rightarrow> int \<Rightarrow> int \<Rightarrow> ledger \<Rightarrow> run_error + ledger" where
  "retrySqliteWorkflowStep ref errorCode errorMessage retryAt now led =
     and_then (assertClaimId (ref_claimId ref)) (\<lambda>_.
     and_then (safeCode errorCode) (\<lambda>code.
     and_then (safeMessage errorMessage) (\<lambda>message.
       if select_where (stepClaimScope ref) (step_runs led) = [] then Inl RunConflict
       else Inr (led\<lparr>step_runs := update_where (stepClaimScope ref)
                      (retry_row now retryAt code message) (step_runs led)\<rparr>))))"

definition fail_row :: "int \<Rightarrow> jsstr \<Rightarrow> jsstr \<Rightarrow> step_row \<Rightarrow> step_row" where
  "fail_row now code message s =
     s\<lparr>claimId := None, claimedAt := None, step_errorCode := Some code,
       step_errorMessage := Some message, step_finishedAt := Some now,
       step_status := StepFailed, step_updatedAt := now\<rparr>"

definition cancel_row :: "int \<Rightarrow> step_row \<Rightarrow> step_row" where
  "cancel_row now s =
     s\<lparr>claimId := None, claimedAt := None, step_finishedAt := Some now,
       step_status := StepCancelled, step_updatedAt := now\<rparr>"

definition fail_run :: "int \<Rightarrow> jsstr \<Rightarrow> jsstr \<Rightarrow> run_row \<Rightarrow> run_row" where
  "fail_run now code message r =
     r\<lparr>run_errorCode := Some code, run_errorMessage := Some message, run_finishedAt := Some now,
       run_status := RunFailed, run_updatedAt := now\<rparr>"

definition failSqliteWorkflowStep :: "step_ref \<Rightarrow> jsstr \<Rightarrow> jsstr \<Rightarrow> int \<Rightarrow> ledger \<Rightarrow> run_error + ledger" where
  "failSqliteWorkflowStep ref errorCode errorMessage now led =
     and_then (assertClaimId (ref_claimId ref)) (\<lambda>_.
     and_then (safeCode errorCode) (\<lambda>code.
     and_then (safeMessage errorMessage) (\<lambda>message.
       if select_where (stepClaimScope ref) (step_runs led) = [] then Inl RunConflict
       else Inr (led\<lparr>step_runs :=
                 update_where (\<lambda>s. step_runId s = ref_runId ref \<and> step_workspaceId s = ref_workspaceId ref
                     \<and> active_status (step_status s)) (cancel_row now)
                   (update_where (stepClaimScope ref) (fail_row now code message) (step_runs led)),
               runs := update_where (\<lambda>r. run_id r = ref_runId ref \<and> run_workspaceId r = ref_workspaceId ref
                     \<and> open_run (run_status r)) (fail_run now code message) (runs led)\<rparr>))))"

end
