(* ===== verification/RunMachine.thy ===== *)
theory RunMachine
  imports WorkflowRuns
begin

text \<open>
  What a workflow run is meant to be, without tables, leases or clocks: a state machine over
  the steps of a forest (every step is fed by at most one other). The ledger of
  \<open>WorkflowRuns\<close> is related to it in \<open>WorkflowRunProofs\<close>.
\<close>

section \<open>Forests\<close>

type_synonym 'k forest = "'k set \<times> ('k \<Rightarrow> 'k option)"

definition child_rel :: "('k \<Rightarrow> 'k option) \<Rightarrow> ('k \<times> 'k) set" where
  "child_rel parent = {(p, s). parent s = Some p}"

definition forest :: "'k set \<Rightarrow> ('k \<Rightarrow> 'k option) \<Rightarrow> bool" where
  "forest ids parent \<longleftrightarrow> finite ids \<and> ids \<noteq> {}
     \<and> (\<forall>s p. parent s = Some p \<longrightarrow> s \<in> ids \<and> p \<in> ids) \<and> acyclic (child_rel parent)"

definition below :: "('k \<Rightarrow> 'k option) \<Rightarrow> 'k set \<Rightarrow> 'k set" where
  "below parent C = {x. \<exists>c \<in> C. (c, x) \<in> (child_rel parent)\<^sup>*}"

lemma below_self: "c \<in> C \<Longrightarrow> c \<in> below parent C"
  by (auto simp: below_def)

lemma below_child: "p \<in> below parent C \<Longrightarrow> parent x = Some p \<Longrightarrow> x \<in> below parent C"
  by (auto simp: below_def child_rel_def intro: rtrancl_into_rtrancl)

lemma below_cases: "x \<in> below parent C \<Longrightarrow> x \<in> C \<or> (\<exists>p \<in> below parent C. parent x = Some p)"
  by (auto simp: below_def child_rel_def elim: rtranclE)

lemma below_induct [consumes 1, case_names start child]:
  assumes "x \<in> below parent C" and "\<And>c. c \<in> C \<Longrightarrow> Q c"
    and "\<And>p x. p \<in> below parent C \<Longrightarrow> Q p \<Longrightarrow> parent x = Some p \<Longrightarrow> Q x"
  shows "Q x"
proof -
  from assms(1) obtain c where c: "c \<in> C" "(c, x) \<in> (child_rel parent)\<^sup>*" by (auto simp: below_def)
  from c(2) show ?thesis
  proof (induction rule: rtrancl_induct)
    case base
    then show ?case using assms(2) c(1) .
  next
    case (step y z)
    have "y \<in> below parent C" using c(1) step(1) by (auto simp: below_def)
    then show ?case using assms(3) step by (auto simp: child_rel_def)
  qed
qed

section \<open>The machine\<close>

type_synonym 'k machine = "run_status \<times> ('k \<Rightarrow> step_status option)"

definition some_active :: "('k \<Rightarrow> step_status option) \<Rightarrow> bool" where
  "some_active f \<longleftrightarrow> (\<exists>x s. f x = Some s \<and> active_status s)"

definition complete_steps :: "('k \<Rightarrow> 'k option) \<Rightarrow> 'k \<Rightarrow> 'k set \<Rightarrow> 'k set
    \<Rightarrow> ('k \<Rightarrow> step_status option) \<Rightarrow> 'k \<Rightarrow> step_status option" where
  "complete_steps parent s A I f x =
     (if x = s then Some StepSucceeded
      else if x \<in> A \<and> f x = Some StepBlocked then Some StepReady
      else if x \<in> below parent I \<and> f x = Some StepBlocked then Some StepSkipped
      else f x)"

definition fail_steps :: "'k \<Rightarrow> ('k \<Rightarrow> step_status option) \<Rightarrow> 'k \<Rightarrow> step_status option" where
  "fail_steps s f x =
     (if x = s then Some StepFailed
      else case f x of Some t \<Rightarrow> if active_status t then Some StepCancelled else Some t | None \<Rightarrow> None)"

inductive machine_step :: "('k \<Rightarrow> 'k option) \<Rightarrow> 'k machine \<Rightarrow> 'k machine \<Rightarrow> bool" for parent where
  machine_claim: "open_run st \<Longrightarrow> f s = Some StepReady \<or> f s = Some StepRunning \<Longrightarrow>
     machine_step parent (st, f) (RunRunning, f(s \<mapsto> StepRunning))"
| machine_retry: "f s = Some StepRunning \<Longrightarrow> machine_step parent (st, f) (st, f(s \<mapsto> StepReady))"
| machine_complete: "f s = Some StepRunning \<Longrightarrow> A \<union> I = {x. parent x = Some s} \<Longrightarrow> A \<inter> I = {} \<Longrightarrow>
     f' = complete_steps parent s A I f \<Longrightarrow>
     st' = (if some_active f' then RunRunning else RunSucceeded) \<Longrightarrow>
     machine_step parent (RunRunning, f) (st', f')"
| machine_fail: "open_run st \<Longrightarrow> f s = Some StepRunning \<Longrightarrow>
     machine_step parent (st, f) (RunFailed, fail_steps s f)"

inductive_cases machine_stepE: "machine_step parent m m'"

definition machine_start :: "'k set \<Rightarrow> ('k \<Rightarrow> 'k option) \<Rightarrow> 'k machine" where
  "machine_start ids parent =
     (RunQueued, \<lambda>x. if x \<in> ids then Some (if parent x = None then StepReady else StepBlocked) else None)"

section \<open>The invariant\<close>

text \<open>
  A step that was released has a predecessor that succeeded; a blocked step waits for a
  predecessor that is still to come; a skipped step follows a step that is done.
\<close>

definition released_status :: "step_status \<Rightarrow> bool" where
  "released_status s \<longleftrightarrow> s \<in> {StepReady, StepRunning, StepSucceeded, StepFailed}"

definition step_ok :: "('k \<Rightarrow> 'k option) \<Rightarrow> ('k \<Rightarrow> step_status option) \<Rightarrow> 'k \<Rightarrow> step_status \<Rightarrow> bool" where
  "step_ok parent f x s \<longleftrightarrow>
     (released_status s \<longrightarrow> (\<forall>p. parent x = Some p \<longrightarrow> f p = Some StepSucceeded))
     \<and> (s = StepBlocked \<longrightarrow> (\<exists>p t. parent x = Some p \<and> f p = Some t \<and> active_status t))
     \<and> (s = StepSkipped \<longrightarrow> (\<exists>p. parent x = Some p \<and> (f p = Some StepSucceeded \<or> f p = Some StepSkipped)))"

fun run_ok :: "run_status \<Rightarrow> ('k \<Rightarrow> step_status option) \<Rightarrow> bool" where
  "run_ok RunQueued f = (some_active f
     \<and> (\<forall>x. f x \<notin> {Some StepFailed, Some StepCancelled, Some StepRunning, Some StepSucceeded, Some StepSkipped}))"
| "run_ok RunRunning f = (some_active f \<and> (\<forall>x. f x \<notin> {Some StepFailed, Some StepCancelled}))"
| "run_ok RunSucceeded f = (\<forall>x. f x \<in> {None, Some StepSucceeded, Some StepSkipped})"
| "run_ok RunFailed f = (\<not> some_active f \<and> (\<exists>x. f x = Some StepFailed))"
| "run_ok RunCancelled f = False"

definition machine_ok :: "'k set \<Rightarrow> ('k \<Rightarrow> 'k option) \<Rightarrow> 'k machine \<Rightarrow> bool" where
  "machine_ok ids parent m \<longleftrightarrow> dom (snd m) = ids
     \<and> (\<forall>x s. snd m x = Some s \<longrightarrow> step_ok parent (snd m) x s) \<and> run_ok (fst m) (snd m)"

lemmas status_defs = active_status_def released_status_def open_run_def

lemma root_exists:
  assumes "forest ids parent"
  shows "\<exists>x \<in> ids. parent x = None"
proof (rule ccontr)
  assume no: "\<not> (\<exists>x \<in> ids. parent x = None)"
  have sub: "child_rel parent \<subseteq> ids \<times> ids" using assms by (auto simp: forest_def child_rel_def)
  have "finite (child_rel parent)"
    by (rule finite_subset [OF sub]) (use assms in \<open>simp add: forest_def\<close>)
  then have "wf (child_rel parent)" using assms by (simp add: forest_def finite_acyclic_wf)
  moreover obtain x where "x \<in> ids" using assms by (auto simp: forest_def)
  ultimately obtain z where "z \<in> ids" "\<And>y. (y, z) \<in> child_rel parent \<Longrightarrow> y \<notin> ids"
    using wfE_min [of "child_rel parent" x ids] by metis
  then show False using no sub by (fastforce simp: child_rel_def)
qed

lemma machine_ok_start: "forest ids parent \<Longrightarrow> machine_ok ids parent (machine_start ids parent)"
  using root_exists [of ids parent]
  by (fastforce simp: machine_ok_def machine_start_def step_ok_def status_defs some_active_def forest_def
      split: if_splits)

text \<open>A change that keeps what the predecessors of a step promise keeps the step.\<close>

lemma step_ok_keep:
  assumes "step_ok parent f x s" and "\<And>p. f p = Some StepSucceeded \<Longrightarrow> f' p = Some StepSucceeded"
    and "\<And>p. f p = Some StepSkipped \<Longrightarrow> f' p = Some StepSkipped"
    and "\<And>p t. f p = Some t \<Longrightarrow> active_status t \<Longrightarrow> \<exists>t'. f' p = Some t' \<and> active_status t'"
  shows "step_ok parent f' x s"
  using assms unfolding step_ok_def by metis

lemma machine_ok_restart:
  assumes ok: "machine_ok ids parent (st, f)" and s: "f s = Some t" "t = StepReady \<or> t = StepRunning"
    and u: "u = StepReady \<or> u = StepRunning"
  shows "dom (f(s \<mapsto> u)) = ids"
    and "\<forall>x v. (f(s \<mapsto> u)) x = Some v \<longrightarrow> step_ok parent (f(s \<mapsto> u)) x v"
    and "some_active (f(s \<mapsto> u))"
proof -
  show "dom (f(s \<mapsto> u)) = ids" using ok s by (auto simp: machine_ok_def)
  show "some_active (f(s \<mapsto> u))" using u by (auto simp: some_active_def status_defs)
  have a: "active_status t" "active_status u" "t \<noteq> StepSucceeded" "t \<noteq> StepSkipped"
    using s u by (auto simp: status_defs)
  have keep: "step_ok parent (f(s \<mapsto> u)) x v" if "step_ok parent f x v" for x v
  proof (rule step_ok_keep [OF that])
    fix p t'
    show "f p = Some StepSucceeded \<Longrightarrow> (f(s \<mapsto> u)) p = Some StepSucceeded" using s a by auto
    show "f p = Some StepSkipped \<Longrightarrow> (f(s \<mapsto> u)) p = Some StepSkipped" using s a by auto
    show "f p = Some t' \<Longrightarrow> active_status t' \<Longrightarrow> \<exists>t''. (f(s \<mapsto> u)) p = Some t'' \<and> active_status t''"
      using a by auto
  qed
  have "step_ok parent f s t" using ok s by (simp add: machine_ok_def)
  then have "step_ok parent f s u"
    using s(2) u by (auto simp: step_ok_def released_status_def)
  then have "step_ok parent (f(s \<mapsto> u)) x v" if "(f(s \<mapsto> u)) x = Some v" for x v
    using that ok keep by (cases "x = s") (simp_all add: machine_ok_def)
  then show "\<forall>x v. (f(s \<mapsto> u)) x = Some v \<longrightarrow> step_ok parent (f(s \<mapsto> u)) x v" by blast
qed

text \<open>Before a step completes, everything below it is blocked.\<close>

lemma below_blocked:
  assumes ok: "machine_ok ids parent (st, f)" and st: "st = RunRunning" and f: "forest ids parent"
    and s: "f s = Some StepRunning" and I: "I \<subseteq> {x. parent x = Some s}" and x: "x \<in> below parent I"
  shows "f x = Some StepBlocked"
proof -
  have waits: "f x = Some StepBlocked" if px: "parent x = Some p" and fp: "f p = Some StepBlocked \<or> f p = Some StepRunning" for x p
  proof -
    have "x \<in> ids" using f px by (auto simp: forest_def)
    then obtain v where v: "f x = Some v" using ok by (auto simp: machine_ok_def dom_def)
    then have "step_ok parent f x v" "v \<noteq> StepFailed" "v \<noteq> StepCancelled"
      using ok st by (auto simp: machine_ok_def)
    then show ?thesis using px fp v by (cases v) (auto simp: step_ok_def status_defs)
  qed
  from x show ?thesis
  proof (induction rule: below_induct)
    case (start c)
    then show ?case using waits [of c s] I s by auto
  next
    case (child p x)
    then show ?case using waits by blast
  qed
qed

lemma child_blocked:
  assumes "machine_ok ids parent (RunRunning, f)" "forest ids parent" "f s = Some StepRunning" "parent x = Some s"
  shows "f x = Some StepBlocked"
  by (rule below_blocked [OF assms(1) refl assms(2,3), of "{x. parent x = Some s}"])
    (simp_all add: assms(4) below_self)

lemma machine_ok_complete:
  assumes ok: "machine_ok ids parent (RunRunning, f)" and fo: "forest ids parent"
    and s: "f s = Some StepRunning" and AI: "A \<union> I = {x. parent x = Some s}" "A \<inter> I = {}"
    and f': "f' = complete_steps parent s A I f"
  shows "dom f' = ids" and "\<forall>x v. f' x = Some v \<longrightarrow> step_ok parent f' x v"
    and "\<forall>x. f' x \<notin> {Some StepFailed, Some StepCancelled}"
proof -
  have Ap: "parent x = Some s" if "x \<in> A" for x using that AI(1) by blast
  have Ip: "I \<subseteq> {x. parent x = Some s}" using AI(1) by blast
  have A1: "f x = Some StepBlocked" if "x \<in> A" for x by (rule child_blocked [OF ok fo s Ap [OF that]])
  have B1: "f x = Some StepBlocked" if "x \<in> below parent I" for x by (rule below_blocked [OF ok refl fo s Ip that])
  have A: "f x = Some StepBlocked" "x \<noteq> s" if "x \<in> A" for x
    using A1 [OF that] s by auto
  have B: "f x = Some StepBlocked" "x \<noteq> s" if "x \<in> below parent I" for x
    using B1 [OF that] s by auto
  have disj: "x \<notin> A" if "x \<in> below parent I" for x
  proof
    assume x: "x \<in> A"
    from below_cases [OF that] show False
    proof
      assume "x \<in> I" then show False using x AI(2) by blast
    next
      assume "\<exists>p \<in> below parent I. parent x = Some p"
      then show False using Ap [OF x] B(2) by auto
    qed
  qed
  have val: "f' s = Some StepSucceeded" "\<And>x. x \<in> A \<Longrightarrow> f' x = Some StepReady"
    "\<And>x. x \<in> below parent I \<Longrightarrow> f' x = Some StepSkipped"
    "\<And>x. x \<noteq> s \<Longrightarrow> x \<notin> A \<Longrightarrow> x \<notin> below parent I \<Longrightarrow> f' x = f x"
    using A B disj by (auto simp: f' complete_steps_def)
  show "dom f' = ids"
    using ok s by (auto simp: machine_ok_def f' complete_steps_def dom_def split: if_splits)
  show "\<forall>x. f' x \<notin> {Some StepFailed, Some StepCancelled}"
    using ok by (auto simp: machine_ok_def f' complete_steps_def)
  have succ: "f' p = Some StepSucceeded" if "f p = Some StepSucceeded" for p
    using that A B by (cases "p = s") (auto simp: f' complete_steps_def)
  have skip: "f' p = Some StepSkipped" if "f p = Some StepSkipped" for p
    using that A B s by (cases "p = s") (auto simp: f' complete_steps_def)
  show "\<forall>x v. f' x = Some v \<longrightarrow> step_ok parent f' x v"
  proof (intro allI impI)
    fix x v
    assume v: "f' x = Some v"
    consider "x = s" | "x \<in> A" | "x \<in> below parent I" | "x \<noteq> s" "x \<notin> A" "x \<notin> below parent I" by blast
    then show "step_ok parent f' x v"
    proof cases
      case 1
      have "step_ok parent f s StepRunning" using ok s by (simp add: machine_ok_def)
      then show ?thesis using 1 v val(1) succ by (auto simp: step_ok_def status_defs)
    next
      case 2
      then have "parent x = Some s" using AI by auto
      then show ?thesis using 2 v val by (auto simp: step_ok_def status_defs)
    next
      case 3
      from below_cases [OF 3] have "\<exists>p. parent x = Some p \<and> (f' p = Some StepSucceeded \<or> f' p = Some StepSkipped)"
        using AI val(1,3) by auto
      then show ?thesis using 3 v val(3) by (auto simp: step_ok_def status_defs)
    next
      case 4
      then have fx: "f x = Some v" using v val(4) by simp
      then have old: "step_ok parent f x v" using ok by (simp add: machine_ok_def)
      have "\<exists>p t. parent x = Some p \<and> f' p = Some t \<and> active_status t" if b: "v = StepBlocked"
      proof -
        obtain p t where p: "parent x = Some p" "f p = Some t" "active_status t"
          using old b by (auto simp: step_ok_def)
        have "p \<noteq> s" using p(1) 4 AI below_self [of x I] by auto
        moreover have "p \<notin> below parent I" using 4(3) below_child p(1) by metis
        ultimately have "f' p = Some StepReady \<or> f' p = f p" using val(2,4) by (cases "p \<in> A") auto
        then show ?thesis using p by (auto simp: status_defs)
      qed
      then show ?thesis using old succ skip unfolding step_ok_def by blast
    qed
  qed
qed

lemma machine_ok_fail:
  assumes ok: "machine_ok ids parent (st, f)" and st: "open_run st" and s: "f s = Some StepRunning"
  shows "machine_ok ids parent (RunFailed, fail_steps s f)"
proof -
  let ?f = "fail_steps s f"
  have succ: "?f p = Some StepSucceeded" if "f p = Some StepSucceeded" for p
    using that s by (auto simp: fail_steps_def status_defs)
  have skip: "?f p = Some StepSkipped" if "f p = Some StepSkipped" for p
    using that s by (auto simp: fail_steps_def status_defs)
  have "step_ok parent ?f x v" if v: "?f x = Some v" for x v
  proof -
    obtain u where u: "f x = Some u" "step_ok parent f x u"
      using v s ok by (auto simp: fail_steps_def machine_ok_def split: if_splits option.splits)
    have keep: "step_ok parent ?f x w" if "step_ok parent f x w" "\<not> active_status w \<or> w = StepRunning" for w
      using that succ skip unfolding step_ok_def by (cases w) (auto simp: status_defs)
    show ?thesis
    proof (cases "x = s")
      case True
      then have "v = StepFailed" "u = StepRunning" using v u s by (simp_all add: fail_steps_def)
      then show ?thesis using keep [of StepRunning] u(2) by (simp add: step_ok_def released_status_def)
    next
      case False
      then have "v = (if active_status u then StepCancelled else u)"
        using v u(1) by (simp add: fail_steps_def split: if_splits)
      then show ?thesis using keep [of u] u(2)
        by (cases "active_status u") (simp_all add: step_ok_def released_status_def)
    qed
  qed
  moreover have "dom ?f = ids"
    using ok s by (auto simp: machine_ok_def fail_steps_def dom_def split: option.splits if_splits)
  moreover have "\<not> some_active ?f"
    by (auto simp: some_active_def fail_steps_def status_defs split: option.splits if_splits)
  moreover have "?f s = Some StepFailed" by (simp add: fail_steps_def)
  ultimately show ?thesis unfolding machine_ok_def by auto
qed

text \<open>Every step of the machine keeps the invariant.\<close>

lemma run_ok_open: "open_run st \<Longrightarrow> run_ok st f \<Longrightarrow>
    some_active f \<and> (\<forall>x. f x \<notin> {Some StepFailed, Some StepCancelled})"
  by (cases st) (auto simp: open_run_def)

lemma run_ok_running: "run_ok st f \<Longrightarrow> f s = Some StepRunning \<Longrightarrow> st = RunRunning"
  by (cases st) (auto simp: some_active_def active_status_def dest: spec [of _ s])

lemma machine_step_ok:
  assumes "machine_step parent m m'" and "machine_ok ids parent m" and fo: "forest ids parent"
  shows "machine_ok ids parent m'"
  using assms(1,2)
proof cases
  case (machine_claim st f s)
  then obtain t where t: "f s = Some t" "t = StepReady \<or> t = StepRunning" by blast
  have ok: "machine_ok ids parent (st, f)" using assms(2) machine_claim(1) by simp
  have "\<forall>x. f x \<notin> {Some StepFailed, Some StepCancelled}"
    using ok run_ok_open [OF machine_claim(3), of f] by (simp add: machine_ok_def)
  then show ?thesis
    using machine_ok_restart [OF ok t, of StepRunning] by (simp add: machine_claim(2) machine_ok_def)
next
  case (machine_retry f s st)
  have ok: "machine_ok ids parent (st, f)" using assms(2) machine_retry(1) by simp
  then have st: "st = RunRunning" using machine_retry(3) run_ok_running by (auto simp: machine_ok_def)
  have "\<forall>x. f x \<notin> {Some StepFailed, Some StepCancelled}" using ok st by (simp add: machine_ok_def)
  then show ?thesis
    using machine_ok_restart [OF ok machine_retry(3), of StepReady] st
    by (simp add: machine_retry(2) machine_ok_def)
next
  case (machine_complete f s A I f' st')
  have ok: "machine_ok ids parent (RunRunning, f)" using assms(2) machine_complete(1) by simp
  note c = machine_ok_complete [OF ok fo machine_complete(3,4,5,6)]
  have "run_ok st' f'"
  proof (cases "some_active f'")
    case True
    then show ?thesis using c(3) machine_complete(7) by simp
  next
    case False
    have "f' x \<in> {None, Some StepSucceeded, Some StepSkipped}" for x
    proof (cases "f' x")
      case (Some v)
      then have "\<not> active_status v" using False by (auto simp: some_active_def)
      then show ?thesis using Some c(3) [rule_format, of x] by (cases v) (simp_all add: active_status_def)
    qed simp
    then show ?thesis using False machine_complete(7) by simp
  qed
  then show ?thesis using c(1,2) by (simp add: machine_complete(2) machine_ok_def)
next
  case (machine_fail st f s)
  then show ?thesis using machine_ok_fail [of ids parent st f s] assms(2) by simp
qed

lemma machine_run_ok:
  "(machine_step parent)\<^sup>*\<^sup>* m m' \<Longrightarrow> machine_ok ids parent m \<Longrightarrow> forest ids parent \<Longrightarrow> machine_ok ids parent m'"
  by (induction rule: rtranclp_induct) (auto intro: machine_step_ok)

section \<open>Progress and results\<close>

text \<open>An unfinished run always has a step that can be claimed: the machine is never stuck.\<close>

lemma machine_progress:
  assumes ok: "machine_ok ids parent (st, f)" and fo: "forest ids parent" and "open_run st"
  shows "\<exists>s. f s = Some StepReady \<or> f s = Some StepRunning"
proof -
  let ?A = "{x. \<exists>t. f x = Some t \<and> active_status t}"
  have "run_ok st f" using ok by (simp add: machine_ok_def)
  then obtain x where x: "x \<in> ?A" using run_ok_open [OF assms(3), of f] by (auto simp: some_active_def)
  have sub: "child_rel parent \<subseteq> ids \<times> ids" using fo by (auto simp: forest_def child_rel_def)
  have "finite (child_rel parent)"
    by (rule finite_subset [OF sub]) (use fo in \<open>simp add: forest_def\<close>)
  then have "wf (child_rel parent)" using fo by (simp add: forest_def finite_acyclic_wf)
  from this x obtain z where z: "z \<in> ?A" "\<And>y. (y, z) \<in> child_rel parent \<Longrightarrow> y \<notin> ?A"
    by (rule wfE_min) (rule that)
  then obtain t where t: "f z = Some t" "active_status t" by blast
  have "t \<noteq> StepBlocked"
  proof
    assume "t = StepBlocked"
    then have "step_ok parent f z StepBlocked" using ok t by (simp add: machine_ok_def)
    then obtain p where "parent z = Some p" "p \<in> ?A" by (auto simp: step_ok_def)
    then show False using z(2) [of p] by (simp add: child_rel_def)
  qed
  then show ?thesis using t by (auto simp: active_status_def)
qed

text \<open>A finished run is at rest, and its status says how every step ended.\<close>

lemma machine_finished:
  assumes "machine_ok ids parent (st, f)" and "machine_step parent (st, f) m'"
  shows "open_run st"
  using assms(2)
proof cases
  case (machine_retry s)
  then show ?thesis using assms(1) run_ok_running by (fastforce simp: machine_ok_def open_run_def)
next
  case machine_complete
  then show ?thesis by (simp add: open_run_def)
qed simp_all

lemma machine_succeeded:
  assumes "machine_ok ids parent (RunSucceeded, f)" and "x \<in> ids"
  shows "f x = Some StepSucceeded \<or> f x = Some StepSkipped"
proof -
  from assms obtain s where "f x = Some s" by (auto simp: machine_ok_def dom_def)
  then show ?thesis using assms(1) by (auto simp: machine_ok_def dest: spec [of _ x])
qed

end
