(* ===== verification/RunPlans.thy ===== *)
theory RunPlans
  imports RunMachine WorkflowStoreProofs
begin

text \<open>
  The forest of steps that a compiled plan describes, and the routine that collects the
  descendants of the routes not taken: it returns exactly the part of the forest below them.
\<close>

section \<open>The forest of a plan\<close>

definition plan_ids :: "compiled_plan \<Rightarrow> jsstr set" where
  "plan_ids P = stepId ` set (steps P)"

definition plan_parent :: "compiled_plan \<Rightarrow> jsstr \<Rightarrow> jsstr option" where
  "plan_parent P x =
     (case find (\<lambda>s. stepId s = x) (steps P) of
        None \<Rightarrow> None
      | Some s \<Rightarrow> (case inboundRoutes s of [] \<Rightarrow> None | r # _ \<Rightarrow> Some (sourceStepId r)))"

definition plan_ok :: "compiled_plan \<Rightarrow> bool" where
  "plan_ok P \<longleftrightarrow> distinct (map stepId (steps P)) \<and> forest (plan_ids P) (plan_parent P)
     \<and> (\<forall>s \<in> set (steps P). distinct (map targetStepId (outboundRoutes s))
          \<and> set (map targetStepId (outboundRoutes s)) = {x. plan_parent P x = Some (stepId s)})
     \<and> (\<forall>x \<in> plan_ids P. x \<in> set (entryStepIds P) \<longleftrightarrow> plan_parent P x = None)"

lemma find_stepId:
  "distinct (map stepId ss) \<Longrightarrow> s \<in> set ss \<Longrightarrow> find (\<lambda>t. stepId t = stepId s) ss = Some s"
  by (induction ss) auto

lemma requirePlanStep_ok:
  "plan_ok P \<Longrightarrow> x \<in> plan_ids P \<Longrightarrow> \<exists>s \<in> set (steps P). stepId s = x \<and> requirePlanStep P x = Inr s"
  by (auto simp: plan_ok_def plan_ids_def requirePlanStep_def find_stepId)

lemma plan_ids_graph:
  assumes "well_structured g"
  shows "plan_ids (plan_of (map (step_of h g) (order_of h g))) = node_id ` set (nodes g)"
  using order_of_spec(2) [OF assms, of h] by (simp add: plan_ids_def image_image node_ids_def)

lemma find_step_of:
  assumes ws: "well_structured g" and "x \<in> node_id ` set (nodes g)"
  shows "find (\<lambda>s. stepId s = x) (map (step_of h g) (order_of h g)) = Some (step_of h g x)"
proof -
  let ?ss = "map (step_of h g) (order_of h g)"
  have "distinct (map stepId ?ss)"
    using order_of_spec(1) [OF ws, of h] by (simp only: map_stepId_step_of)
  moreover have "step_of h g x \<in> set ?ss"
    using order_of_spec(2) [OF ws, of h] assms(2) by (simp add: node_ids_def)
  ultimately have "find (\<lambda>s. stepId s = stepId (step_of h g x)) ?ss = Some (step_of h g x)"
    by (rule find_stepId)
  then show ?thesis by (simp only: stepId_step_of)
qed

lemma plan_parent_graph:
  assumes ws: "well_structured g"
  shows "plan_parent (plan_of (map (step_of h g) (order_of h g))) x = Some q \<longleftrightarrow>
    (\<exists>e \<in> set (edges g). targetNodeId e = x \<and> sourceNodeId e = q)" (is "plan_parent ?P x = _ \<longleftrightarrow> _")
proof (cases "x \<in> node_id ` set (nodes g)")
  case True
  let ?rs = "filter (\<lambda>r. targetStepId r = x) (compileRoutes h g)"
  have p: "plan_parent ?P x = (case ?rs of [] \<Rightarrow> None | r # _ \<Rightarrow> Some (sourceStepId r))"
    by (simp add: plan_parent_def find_step_of [OF ws True] inboundRoutes_step_of)
  have "length ?rs \<le> 1" using inbound_at_most_one [OF ws, of h x] by (simp add: inboundRoutes_step_of)
  then have "plan_parent ?P x = Some q \<longleftrightarrow> (\<exists>r \<in> set ?rs. sourceStepId r = q)"
    unfolding p by (cases ?rs) auto
  then show ?thesis by (auto simp: set_compileRoutes)
next
  case False
  then have no: "\<not> (\<exists>e \<in> set (edges g). targetNodeId e = x)"
    using ws by (auto simp: well_structured_def dest: connects_nodes)
  have "find (\<lambda>s. stepId s = x) (steps ?P) = None"
    using False order_of_spec(2) [OF ws, of h] by (auto simp: find_None_iff node_ids_def)
  then show ?thesis using no by (simp add: plan_parent_def)
qed

text \<open>A compiled plan is a forest whose roots are the entry steps.\<close>

lemma compiled_plan_ok:
  assumes "compileWorkflowGraph h g = Inr P"
  shows "plan_ok P"
proof -
  let ?g = "parsed_graph h g"
  note c = compiled_plan_is [OF assms]
  note ws = c(2)
  have par: "plan_parent P x = Some q \<longleftrightarrow> (\<exists>e \<in> set (edges ?g). targetNodeId e = x \<and> sourceNodeId e = q)" for x q
    unfolding c(1) by (rule plan_parent_graph [OF ws])
  have ids: "plan_ids P = node_id ` set (nodes ?g)"
    unfolding c(1) by (rule plan_ids_graph [OF ws])
  have ends: "sourceNodeId e \<in> plan_ids P" "targetNodeId e \<in> plan_ids P" if "e \<in> set (edges ?g)" for e
    using ws that connects_nodes [of "nodes ?g" e] by (auto simp: ids well_structured_def)
  have "child_rel (plan_parent P) = edge_rel (edges ?g)"
    by (auto simp: child_rel_def edge_rel_def par)
  moreover have "plan_ids P \<noteq> {}"
    using c(3) unfolding ids publishable_def by (auto simp: trigger_ids_def)
  ultimately have fo: "forest (plan_ids P) (plan_parent P)"
    using ws ends by (auto simp: forest_def par plan_ids_def well_structured_def)
  have d: "distinct (map stepId (steps P))"
    using order_of_spec(1) [OF ws, of h] by (simp only: c(1) steps_plan_of map_stepId_step_of)
  have dt: "distinct (map targetStepId (compileRoutes h ?g))"
  proof -
    have "mset (map targetStepId (compileRoutes h ?g)) = mset (map targetNodeId (edges ?g))"
      by (simp add: compileRoutes_def multiset.map_comp o_def)
    then show ?thesis using ws by (metis mset_eq_imp_distinct_iff well_structured_def)
  qed
  have out: "distinct (map targetStepId (outboundRoutes s))
      \<and> set (map targetStepId (outboundRoutes s)) = {x. plan_parent P x = Some (stepId s)}"
    if s: "s \<in> set (steps P)" for s
  proof -
    obtain x where x: "s = step_of h ?g x" using s by (auto simp: c(1))
    have "targetStepId ` {r \<in> route_of ` set (edges ?g). sourceStepId r = x}
        = targetNodeId ` {e \<in> set (edges ?g). sourceNodeId e = x}"
      by (simp add: image_def) (metis route_of_sel)
    then show ?thesis
      using distinct_map_filter [OF dt] by (auto simp: x outboundRoutes_step_of set_compileRoutes par)
  qed
  have "x \<in> set (entryStepIds P) \<longleftrightarrow> plan_parent P x = None" if x: "x \<in> plan_ids P" for x
  proof -
    have "x \<in> set (entryStepIds P) \<longleftrightarrow> inboundRoutes (step_of h ?g x) = []"
      using x [unfolded ids] order_of_spec(2) [OF ws, of h] unfolding c(1)
      by (auto simp: plan_of_def filter_map o_def node_ids_def)
    also have "\<dots> \<longleftrightarrow> (\<forall>q. plan_parent P x \<noteq> Some q)"
      unfolding par by (auto simp: inboundRoutes_step_of filter_empty_conv set_compileRoutes)
    finally show ?thesis by auto
  qed
  then show ?thesis using d fo out by (simp add: plan_ok_def)
qed

section \<open>Skipped descendants\<close>

lemma below_union: "below parent (A \<union> B) = below parent A \<union> below parent B"
  by (auto simp: below_def)

lemma below_unfold: "below parent {x} = insert x (below parent {y. parent y = Some x})"
  by (auto simp: below_def child_rel_def elim: converse_rtranclE intro: converse_rtrancl_into_rtrancl)

lemma below_subset_closed:
  assumes "C \<subseteq> S" and "\<And>p x. p \<in> S \<Longrightarrow> parent x = Some p \<Longrightarrow> x \<in> S"
  shows "below parent C \<subseteq> S"
proof
  fix x
  assume "x \<in> below parent C"
  then show "x \<in> S" by (induction rule: below_induct) (use assms in auto)
qed

lemma collectSkippedDescendants_spec:
  assumes "plan_ok P" and "set pending \<subseteq> plan_ids P"
    and "\<And>p x. p \<in> set skipped \<Longrightarrow> plan_parent P x = Some p \<Longrightarrow> x \<in> set skipped \<union> set pending"
    and "below (plan_parent P) (set pending) \<inter> set protected = {}"
  shows "\<exists>sk. collectSkippedDescendants P pending protected skipped = Inr sk
    \<and> set sk = set skipped \<union> below (plan_parent P) (set pending)"
  using assms
proof (induction P pending protected skipped rule: collectSkippedDescendants.induct)
  case (1 P pending protected skipped)
  note unfold = collectSkippedDescendants.simps [of P pending protected skipped]
  show ?case
  proof (cases pending)
    case Nil
    then show ?thesis by (simp add: collectSkippedDescendants.simps [of P "[]"] below_def)
  next
    case (Cons sid rest)
    let ?par = "plan_parent P"
    have np: "sid \<notin> set protected"
      using 1(6) Cons below_self [of sid "set pending" ?par] by auto
    have split: "below ?par (set pending) = below ?par {sid} \<union> below ?par (set rest)"
      using below_union [of ?par "{sid}" "set rest"] Cons by simp
    show ?thesis
    proof (cases "sid \<in> set skipped")
      case True
      have "below ?par {sid} \<subseteq> set skipped \<union> below ?par (set rest)"
      proof (rule below_subset_closed)
        show "{sid} \<subseteq> set skipped \<union> below ?par (set rest)" using True by simp
        fix p x
        assume p: "p \<in> set skipped \<union> below ?par (set rest)" and px: "?par x = Some p"
        show "x \<in> set skipped \<union> below ?par (set rest)"
        proof (cases "p \<in> set skipped")
          case in_skipped: True
          then have "x \<in> set skipped \<union> set (sid # rest)" using 1(5) px Cons by blast
          then show ?thesis using True below_self [of x "set rest" ?par] by auto
        next
          case False
          then have "p \<in> below ?par (set rest)" using p by blast
          then show ?thesis using below_child [of p ?par "set rest" x] px by simp
        qed
      qed
      moreover have "\<exists>sk. collectSkippedDescendants P rest protected skipped = Inr sk
          \<and> set sk = set skipped \<union> below ?par (set rest)"
        by (rule 1(1) [OF Cons]) (use True Cons split 1(3-6) in auto)
      moreover have "collectSkippedDescendants P pending protected skipped = collectSkippedDescendants P rest protected skipped"
        using True Cons by (subst unfold) simp
      ultimately show ?thesis unfolding split by auto
    next
      case False
      obtain s where s: "s \<in> set (steps P)" "stepId s = sid" "requirePlanStep P sid = Inr s"
        using requirePlanStep_ok [OF 1(3), of sid] 1(4) Cons by auto
      have kids: "targetStepId ` set (outboundRoutes s) = {x. ?par x = Some sid}"
        using 1(3) s(1,2) by (simp add: plan_ok_def)
      let ?next = "rest @ map targetStepId (outboundRoutes s)"
      have next': "below ?par (set pending) = insert sid (below ?par (set ?next))"
        unfolding split below_unfold [of ?par sid] by (simp add: kids below_union Un_commute)
      have "\<exists>sk. collectSkippedDescendants P ?next protected (set_add sid skipped) = Inr sk
          \<and> set sk = set (set_add sid skipped) \<union> below ?par (set ?next)"
      proof (rule 1(2) [OF Cons _ s(3) 1(3)])
        show "\<not> (sid \<in> set skipped \<or> sid \<in> set protected)" using False np by simp
        show "set ?next \<subseteq> plan_ids P"
          using 1(3,4) Cons kids by (auto simp: plan_ok_def forest_def)
        show "x \<in> set (set_add sid skipped) \<union> set ?next"
          if "p \<in> set (set_add sid skipped)" "?par x = Some p" for p x
          using that 1(5) [of p x] Cons kids by auto
        show "below ?par (set ?next) \<inter> set protected = {}" using 1(6) next' by auto
      qed
      moreover have "collectSkippedDescendants P pending protected skipped
          = collectSkippedDescendants P ?next protected (set_add sid skipped)"
        using False np Cons s(3) by (subst unfold) simp
      ultimately show ?thesis unfolding next' by auto
    qed
  qed
qed

end
