(* ===== verification/Rows.thy ===== *)
theory Rows
  imports Leases
begin

text \<open>
  Looking rows up by their key, and what the statements of \<open>Leases\<close> do to a row.
\<close>

definition row_at :: "('r \<Rightarrow> 'k) \<Rightarrow> 'r list \<Rightarrow> 'k \<Rightarrow> 'r option" where
  "row_at key rows k = find (\<lambda>r. key r = k) rows"

lemma row_at_Nil [simp]: "row_at key [] k = None"
  by (simp add: row_at_def)

lemma row_at_Some: "row_at key rows k = Some r \<Longrightarrow> r \<in> set rows \<and> key r = k"
  by (auto simp: row_at_def find_Some_iff)

lemma row_at_None: "row_at key rows k = None \<longleftrightarrow> k \<notin> key ` set rows"
  by (auto simp: row_at_def find_None_iff)

lemma row_at_mem: "distinct (map key rows) \<Longrightarrow> r \<in> set rows \<Longrightarrow> row_at key rows (key r) = Some r"
  unfolding row_at_def by (induction rows) (auto simp: image_iff)

lemma row_at_append:
  "row_at key (xs @ ys) k = (case row_at key xs k of None \<Rightarrow> row_at key ys k | Some r \<Rightarrow> Some r)"
  unfolding row_at_def by (induction xs) auto

lemma row_at_map:
  "(\<And>r. r \<in> set rows \<Longrightarrow> key (f r) = key r) \<Longrightarrow> row_at key (map f rows) k = map_option f (row_at key rows k)"
  unfolding row_at_def by (induction rows) auto

lemma row_at_mono: "k \<in> key ` set xs \<Longrightarrow> row_at key (xs @ ys) k = row_at key xs k"
  by (auto simp: row_at_append row_at_None split: option.splits)

lemma dom_row_at: "dom (row_at key rows) = key ` set rows"
  using row_at_None [of key rows] by (auto simp: dom_def)

text \<open>An update that keeps a property of every row keeps it in the table.\<close>

lemma update_where_all:
  "(\<And>r. r \<in> set rows \<Longrightarrow> Q r) \<Longrightarrow> (\<And>r. r \<in> set rows \<Longrightarrow> P r \<Longrightarrow> Q (f r)) \<Longrightarrow> r \<in> set (update_where P f rows) \<Longrightarrow> Q r"
  by (auto simp: update_where_def split: if_splits)

lemma select_where_empty: "select_where P rows = [] \<longleftrightarrow> (\<forall>r \<in> set rows. \<not> P r)"
  by (auto simp: select_where_def filter_empty_conv)

end
