(* ===== verification/WorkflowRunProofs.thy ===== *)
theory WorkflowRunProofs
  imports RunPlans Rows
begin

text \<open>
  The ledger of runs refines the machine of \<open>RunMachine\<close>: every operation of
  \<open>workflow-runs.ts\<close> is, for each run, a sequence of steps of the machine over the forest of
  its plan. With it, the invariant of the ledger over all histories, the lease discipline of
  the steps, and that no run is ever stuck.
\<close>

section \<open>The invariant of the ledger\<close>

definition machine_of :: "ledger \<Rightarrow> run_row \<Rightarrow> jsstr machine" where
  "machine_of led r =
     (run_status r, \<lambda>sid. map_option step_status (row_at step_key (step_runs led) (run_id r, sid)))"

text \<open>The check constraint \<open>workflow_step_runs_claim_state\<close>, with its converse: a running step is held.\<close>

definition step_claim_state :: "step_row \<Rightarrow> bool" where
  "step_claim_state s \<longleftrightarrow> (claimId s = None \<longleftrightarrow> claimedAt s = None)
     \<and> (step_status s = StepRunning \<longleftrightarrow> claimId s \<noteq> None)"

definition ledger_ok :: "host \<Rightarrow> ledger \<Rightarrow> bool" where
  "ledger_ok h led \<longleftrightarrow> store_ok h (store led)
     \<and> distinct (map run_id (runs led)) \<and> distinct (map step_key (step_runs led))
     \<and> (\<forall>s \<in> set (step_runs led). step_claim_state s
          \<and> (\<exists>r \<in> set (runs led). run_id r = step_runId s \<and> run_workspaceId r = step_workspaceId s))
     \<and> (\<forall>r \<in> set (runs led). \<exists>P. version_plan led r = Some P \<and> plan_ok P
          \<and> machine_ok (plan_ids P) (plan_parent P) (machine_of led r))"

definition ledger_sim :: "ledger \<Rightarrow> ledger \<Rightarrow> bool" where
  "ledger_sim led led' \<longleftrightarrow> (\<forall>r \<in> set (runs led). \<exists>r' \<in> set (runs led').
     run_id r' = run_id r \<and> version_plan led' r' = version_plan led r
     \<and> (\<forall>P. version_plan led r = Some P \<longrightarrow>
          (machine_step (plan_parent P))\<^sup>*\<^sup>* (machine_of led r) (machine_of led' r')))"

lemma ledger_run_unique:
  "ledger_ok h led \<Longrightarrow> r \<in> set (runs led) \<Longrightarrow> r' \<in> set (runs led) \<Longrightarrow> run_id r = run_id r' \<Longrightarrow> r = r'"
  by (auto simp: ledger_ok_def distinct_map dest: inj_onD)

lemma ledger_plan: "ledger_ok h led \<Longrightarrow> r \<in> set (runs led) \<Longrightarrow>
    \<exists>P. version_plan led r = Some P \<and> plan_ok P \<and> machine_ok (plan_ids P) (plan_parent P) (machine_of led r)"
  by (simp add: ledger_ok_def)

lemma ledger_run_of: "ledger_ok h led \<Longrightarrow> s \<in> set (step_runs led) \<Longrightarrow>
    step_claim_state s \<and> (\<exists>r \<in> set (runs led). run_id r = step_runId s \<and> run_workspaceId r = step_workspaceId s)"
  by (simp add: ledger_ok_def)

lemma ledger_step_row:
  "ledger_ok h led \<Longrightarrow> s \<in> set (step_runs led) \<Longrightarrow> row_at step_key (step_runs led) (step_runId s, step_id s) = Some s"
  using row_at_mem [of step_key "step_runs led" s] by (simp add: ledger_ok_def step_key_def)

lemma ledger_workspace:
  assumes "ledger_ok h led" and "s \<in> set (step_runs led)" "r \<in> set (runs led)" "run_id r = step_runId s"
  shows "run_workspaceId r = step_workspaceId s"
proof -
  obtain r' where "r' \<in> set (runs led)" "run_id r' = step_runId s" "run_workspaceId r' = step_workspaceId s"
    using assms(1,2) by (auto simp: ledger_ok_def)
  then show ?thesis using ledger_run_unique [OF assms(1,3), of r'] assms(4) by simp
qed

text \<open>What every operation on existing runs is: a map over the two tables.\<close>

definition keeps_run :: "(run_row \<Rightarrow> run_row) \<Rightarrow> bool" where
  "keeps_run G \<longleftrightarrow> (\<forall>r. run_id (G r) = run_id r \<and> run_workspaceId (G r) = run_workspaceId r
     \<and> run_workflowId (G r) = run_workflowId r \<and> run_workflowVersion (G r) = run_workflowVersion r)"

definition keeps_step :: "(step_row \<Rightarrow> step_row) \<Rightarrow> step_row list \<Rightarrow> bool" where
  "keeps_step F rows \<longleftrightarrow> (\<forall>s \<in> set rows. step_key (F s) = step_key s
     \<and> step_workspaceId (F s) = step_workspaceId s \<and> (step_claim_state s \<longrightarrow> step_claim_state (F s)))"

lemma version_plan_keeps:
  "keeps_run G \<Longrightarrow> store led' = store led \<Longrightarrow> version_plan led' (G r) = version_plan led r"
  by (simp add: version_plan_def keeps_run_def)

lemma ledger_map:
  assumes ok: "ledger_ok h led" and F: "keeps_step F (step_runs led)" and G: "keeps_run G"
    and M: "\<And>r P. r \<in> set (runs led) \<Longrightarrow> version_plan led r = Some P \<Longrightarrow> plan_ok P \<Longrightarrow>
      machine_ok (plan_ids P) (plan_parent P) (machine_of led r) \<Longrightarrow>
      (machine_step (plan_parent P))\<^sup>*\<^sup>* (machine_of led r)
        (run_status (G r), \<lambda>sid. map_option (\<lambda>s. step_status (F s))
           (row_at step_key (step_runs led) (run_id r, sid)))"
    and led': "led' = led\<lparr>step_runs := map F (step_runs led), runs := map G (runs led)\<rparr>"
  shows "ledger_ok h led' \<and> ledger_sim led led'"
proof -
  have keyF: "\<And>s. s \<in> set (step_runs led) \<Longrightarrow> step_key (F s) = step_key s"
    using F by (simp add: keeps_step_def)
  have keyG: "\<And>r. run_id (G r) = run_id r" using G by (simp add: keeps_run_def)
  have st: "store led' = store led" by (simp add: led')
  note plan = version_plan_keeps [OF G st]
  have m: "machine_of led' (G r) = (run_status (G r), \<lambda>sid. map_option (\<lambda>s. step_status (F s))
      (row_at step_key (step_runs led) (run_id r, sid)))" for r
    by (simp add: machine_of_def led' row_at_map [of "step_runs led" step_key F, OF keyF] keyG option.map_comp o_def)
  have run: "(machine_step (plan_parent P))\<^sup>*\<^sup>* (machine_of led r) (machine_of led' (G r))"
    if "r \<in> set (runs led)" "version_plan led r = Some P" for r P
  proof -
    note r = that(1)
    obtain Q where "version_plan led r = Some Q" "plan_ok Q"
      "machine_ok (plan_ids Q) (plan_parent Q) (machine_of led r)"
      using ledger_plan [OF ok r] by blast
    then show ?thesis unfolding m using M that by simp
  qed
  have "ledger_sim led led'"
    unfolding ledger_sim_def
  proof
    fix r
    assume r: "r \<in> set (runs led)"
    show "\<exists>r' \<in> set (runs led'). run_id r' = run_id r \<and> version_plan led' r' = version_plan led r
        \<and> (\<forall>P. version_plan led r = Some P \<longrightarrow>
             (machine_step (plan_parent P))\<^sup>*\<^sup>* (machine_of led r) (machine_of led' r'))"
      using r run keyG plan by (intro bexI [of _ "G r"]) (simp_all add: led')
  qed
  moreover have "ledger_ok h led'"
    unfolding ledger_ok_def
  proof (intro conjI ballI)
    show "store_ok h (store led')" using ok st by (simp add: ledger_ok_def)
    have "map run_id (map G (runs led)) = map run_id (runs led)" by (simp add: keyG)
    then show "distinct (map run_id (runs led'))" using ok by (simp add: led' ledger_ok_def del: map_map)
    have "map step_key (map F (step_runs led)) = map step_key (step_runs led)" by (simp add: keyF)
    then show "distinct (map step_key (step_runs led'))" using ok by (simp add: led' ledger_ok_def del: map_map)
  next
    fix s
    assume "s \<in> set (step_runs led')"
    then obtain s0 where s0: "s0 \<in> set (step_runs led)" "s = F s0" by (auto simp: led')
    then show "step_claim_state s" using ok F by (simp add: ledger_ok_def keeps_step_def)
    obtain r where "r \<in> set (runs led)" "run_id r = step_runId s0" "run_workspaceId r = step_workspaceId s0"
      using ok s0(1) by (auto simp: ledger_ok_def)
    then show "\<exists>r \<in> set (runs led'). run_id r = step_runId s \<and> run_workspaceId r = step_workspaceId s"
      using F G s0 by (intro bexI [of _ "G r"]) (auto simp: led' keeps_step_def keeps_run_def step_key_def)
  next
    fix r'
    assume "r' \<in> set (runs led')"
    then obtain r where r: "r \<in> set (runs led)" "r' = G r" by (auto simp: led')
    obtain P where P: "version_plan led r = Some P" "plan_ok P"
      "machine_ok (plan_ids P) (plan_parent P) (machine_of led r)"
      using ledger_plan [OF ok r(1)] by blast
    have "machine_ok (plan_ids P) (plan_parent P) (machine_of led' r')"
      using machine_run_ok [OF run [OF r(1) P(1)] P(3)] P(2) r(2) by (simp add: plan_ok_def)
    then show "\<exists>P. version_plan led' r' = Some P \<and> plan_ok P
        \<and> machine_ok (plan_ids P) (plan_parent P) (machine_of led' r')"
      using P plan r(2) by auto
  qed
  ultimately show ?thesis by simp
qed

section \<open>Claims\<close>

interpretation step_lease: lease_table step_key workflowStepEligibility mark_step step_owned
  by unfold_locales
    (auto simp: mark_step_def workflowStepEligibility_def step_owned_def step_key_def split: prod.splits)

lemma step_eligible:
  "workflowStepEligibility (rid, ws, rs) now stale s \<Longrightarrow>
     (step_status s = StepReady \<or> step_status s = StepRunning)
     \<and> (\<exists>r \<in> set rs. run_id r = step_runId s \<and> open_run (run_status r))"
  by (auto simp: workflowStepEligibility_def list_ex_iff)

text \<open>Claiming several steps of a run is a sequence of claims.\<close>

lemma machine_claims:
  assumes "finite S" and "S \<noteq> {}" and "open_run st" and "\<forall>s \<in> S. f s = Some StepReady \<or> f s = Some StepRunning"
  shows "(machine_step parent)\<^sup>*\<^sup>* (st, f) (RunRunning, \<lambda>x. if x \<in> S then Some StepRunning else f x)"
  using assms(1,2,4)
proof (induction S rule: finite_ne_induct)
  case (singleton x)
  have "machine_step parent (st, f) (RunRunning, f(x \<mapsto> StepRunning))"
    by (rule machine_claim) (use assms(3) singleton in auto)
  moreover have "f(x \<mapsto> StepRunning) = (\<lambda>y. if y \<in> {x} then Some StepRunning else f y)" by auto
  ultimately show ?case by simp
next
  case (insert x S)
  let ?g = "\<lambda>y. if y \<in> S then Some StepRunning else f y"
  have "machine_step parent (RunRunning, ?g) (RunRunning, ?g(x \<mapsto> StepRunning))"
    by (rule machine_claim) (use insert in \<open>auto simp: open_run_def\<close>)
  moreover have "(machine_step parent)\<^sup>*\<^sup>* (st, f) (RunRunning, ?g)" by (rule insert.IH) (use insert.prems in auto)
  ultimately have "(machine_step parent)\<^sup>*\<^sup>* (st, f) (RunRunning, ?g(x \<mapsto> StepRunning))"
    by (rule rtranclp.rtrancl_into_rtrancl [rotated])
  moreover have "?g(x \<mapsto> StepRunning) = (\<lambda>y. if y \<in> insert x S then Some StepRunning else f y)" by auto
  ultimately show ?case by (simp only:)
qed

lemma claim_result:
  assumes ok: "ledger_ok h led" and c: "claimSqliteWorkflowSteps inp led = Inr (led', out)"
  obtains taken where
    "set taken \<subseteq> mark_step (step_claimId_in inp) (step_now_in inp) `
      {s \<in> set (step_runs led). workflowStepEligibility (step_runId_in inp, step_workspaceId_in inp, runs led)
         (step_now_in inp) (stale_before (step_now_in inp) (step_leaseSeconds_in inp)) s}"
    "distinct (map step_key taken)" "out = map claimed_step_of taken"
    "led' = led\<lparr>step_runs := update_where (\<lambda>s. step_key s \<in> step_key ` set taken)
        (mark_step (step_claimId_in inp) (step_now_in inp)) (step_runs led),
      runs := update_where (\<lambda>r. run_id r \<in> step_runId ` set taken \<and> run_status r = RunQueued)
        (start_run (step_now_in inp)) (runs led)\<rparr>"
    "claim_rows step_key (\<lambda>s. (step_updatedAt s, step_id s)) (nat (clamp 1 250 25 (step_limit_in inp)))
       (workflowStepEligibility (step_runId_in inp, step_workspaceId_in inp, runs led) (step_now_in inp)
         (stale_before (step_now_in inp) (step_leaseSeconds_in inp)))
       (mark_step (step_claimId_in inp) (step_now_in inp)) (step_runs led) = Some (step_runs led', taken)"
proof -
  have d: "distinct (map step_key (step_runs led))" using ok by (simp add: ledger_ok_def)
  obtain rows taken where r: "claim_rows step_key (\<lambda>s. (step_updatedAt s, step_id s))
       (nat (clamp 1 250 25 (step_limit_in inp)))
       (workflowStepEligibility (step_runId_in inp, step_workspaceId_in inp, runs led) (step_now_in inp)
         (stale_before (step_now_in inp) (step_leaseSeconds_in inp)))
       (mark_step (step_claimId_in inp) (step_now_in inp)) (step_runs led) = Some (rows, taken)"
    "led' = led\<lparr>step_runs := rows, runs := update_where (\<lambda>r. run_id r \<in> step_runId ` set taken
        \<and> run_status r = RunQueued) (start_run (step_now_in inp)) (runs led)\<rparr>"
    "out = map claimed_step_of taken"
    using c by (auto simp: claimSqliteWorkflowSteps_def Let_def and_then_eq_Inr split: if_splits option.splits)
  note e = step_lease.claim_effect [OF d r(1)]
  show thesis
    by (rule that [OF e(4) e(2) r(3)]) (use r e(5) in simp_all)
qed

lemma row_at_step:
  "row_at step_key rows (a, b) = Some s \<Longrightarrow> s \<in> set rows \<and> step_runId s = a \<and> step_id s = b"
  by (drule row_at_Some) (simp add: step_key_def)

lemma ledger_claim:
  assumes ok: "ledger_ok h led" and c: "claimSqliteWorkflowSteps inp led = Inr (led', out)"
  shows "ledger_ok h led' \<and> ledger_sim led led'"
proof -
  let ?m = "mark_step (step_claimId_in inp) (step_now_in inp)"
  let ?E = "workflowStepEligibility (step_runId_in inp, step_workspaceId_in inp, runs led) (step_now_in inp)
     (stale_before (step_now_in inp) (step_leaseSeconds_in inp))"
  obtain taken where t: "set taken \<subseteq> ?m ` {s \<in> set (step_runs led). ?E s}"
    and led': "led' = led\<lparr>step_runs := update_where (\<lambda>s. step_key s \<in> step_key ` set taken) ?m (step_runs led),
      runs := update_where (\<lambda>r. run_id r \<in> step_runId ` set taken \<and> run_status r = RunQueued)
        (start_run (step_now_in inp)) (runs led)\<rparr>"
    by (rule claim_result [OF ok c])
  let ?K = "step_key ` set taken" and ?R = "step_runId ` set taken"
  let ?F = "\<lambda>s. if step_key s \<in> ?K then ?m s else s"
  let ?G = "\<lambda>r. if run_id r \<in> ?R \<and> run_status r = RunQueued then start_run (step_now_in inp) r else r"
  have origin: "\<exists>s \<in> set (step_runs led). ?E s \<and> step_key s = k" if "k \<in> ?K" for k
  proof -
    from that obtain x where "x \<in> set taken" "k = step_key x" by blast
    moreover from this t obtain s where "s \<in> set (step_runs led)" "?E s" "x = ?m s" by blast
    ultimately show ?thesis using step_lease.key_mark by auto
  qed
  have R: "a \<in> ?R \<longleftrightarrow> (\<exists>b. (a, b) \<in> ?K)" for a by (auto simp: step_key_def image_iff)
  show ?thesis
  proof (rule ledger_map [OF ok, where F = ?F and G = ?G])
    show "keeps_step ?F (step_runs led)"
      by (simp add: keeps_step_def mark_step_def step_key_def step_claim_state_def)
    show "keeps_run ?G" by (simp add: keeps_run_def start_run_def)
    show "led' = led\<lparr>step_runs := map ?F (step_runs led), runs := map ?G (runs led)\<rparr>"
      by (simp add: led' update_where_def)
  next
    fix r P
    assume r: "r \<in> set (runs led)"
    let ?f = "\<lambda>sid. map_option step_status (row_at step_key (step_runs led) (run_id r, sid))"
    let ?S = "{sid. (run_id r, sid) \<in> ?K}"
    have row: "map_option (\<lambda>s. step_status (?F s)) (row_at step_key (step_runs led) (run_id r, sid))
        = (if sid \<in> ?S then map_option (\<lambda>s. StepRunning) (row_at step_key (step_runs led) (run_id r, sid)) else ?f sid)" for sid
      by (cases "row_at step_key (step_runs led) (run_id r, sid)")
        (auto simp: mark_step_def dest: row_at_Some)
    show "(machine_step (plan_parent P))\<^sup>*\<^sup>* (machine_of led r)
        (run_status (?G r), \<lambda>sid. map_option (\<lambda>s. step_status (?F s)) (row_at step_key (step_runs led) (run_id r, sid)))"
    proof (cases "?S = {}")
      case True
      then have "run_id r \<notin> ?R" using R by blast
      then show ?thesis using True unfolding row machine_of_def by simp
    next
      case False
      have held: "\<exists>s. row_at step_key (step_runs led) (run_id r, sid) = Some s
          \<and> (step_status s = StepReady \<or> step_status s = StepRunning) \<and> open_run (run_status r)" if "sid \<in> ?S" for sid
      proof -
        from that origin obtain s where s: "s \<in> set (step_runs led)" "?E s" "step_key s = (run_id r, sid)" by blast
        obtain r' where "r' \<in> set (runs led)" "run_id r' = step_runId s" "open_run (run_status r')"
          using step_eligible [OF s(2)] by blast
        moreover have "step_runId s = run_id r" using s(3) by (simp add: step_key_def)
        ultimately have "open_run (run_status r)" using ledger_run_unique [OF ok _ r, of r'] by simp
        moreover have "row_at step_key (step_runs led) (run_id r, sid) = Some s"
          using ledger_step_row [OF ok s(1)] s(3) by (simp add: step_key_def)
        ultimately show ?thesis using step_eligible [OF s(2)] by blast
      qed
      have "?S \<subseteq> snd ` ?K"
      proof
        fix sid
        assume "sid \<in> ?S"
        then have "(run_id r, sid) \<in> ?K" by (rule CollectD)
        from imageI [OF this, of snd] show "sid \<in> snd ` ?K" by (simp only: snd_conv)
      qed
      then have fin: "finite ?S" by (rule finite_subset) simp
      have op: "open_run (run_status r)" using False held by blast
      have "run_id r \<in> ?R" using False R by blast
      then have st: "run_status (?G r) = RunRunning" using op by (auto simp: open_run_def start_run_def)
      have "(machine_step (plan_parent P))\<^sup>*\<^sup>* (run_status r, ?f)
          (RunRunning, \<lambda>x. if x \<in> ?S then Some StepRunning else ?f x)"
      proof (rule machine_claims [OF fin False op])
        show "\<forall>s \<in> ?S. ?f s = Some StepReady \<or> ?f s = Some StepRunning"
        proof
          fix s
          assume "s \<in> ?S"
          from held [OF this] show "?f s = Some StepReady \<or> ?f s = Some StepRunning" by auto
        qed
      qed
      moreover have "(\<lambda>x. if x \<in> ?S then Some StepRunning else ?f x) =
          (\<lambda>sid. map_option (\<lambda>s. step_status (?F s)) (row_at step_key (step_runs led) (run_id r, sid)))"
      proof
        fix sid
        show "(if sid \<in> ?S then Some StepRunning else ?f sid)
            = map_option (\<lambda>s. step_status (?F s)) (row_at step_key (step_runs led) (run_id r, sid))"
          unfolding row using held [of sid] by auto
      qed
      ultimately show ?thesis unfolding machine_of_def st by simp
    qed
  qed
qed

section \<open>Steps by the holder of a lease\<close>

abbreviation step_at :: "ledger \<Rightarrow> jsstr \<Rightarrow> jsstr \<Rightarrow> step_row option" where
  "step_at led rid sid \<equiv> row_at step_key (step_runs led) (rid, sid)"

lemma owned_step:
  assumes ok: "ledger_ok h led" and held: "select_where (stepClaimScope ref) (step_runs led) \<noteq> []"
  obtains s where "step_at led (ref_runId ref) (ref_stepId ref) = Some s" "stepClaimScope ref s"
    "\<forall>x \<in> set (step_runs led). stepClaimScope ref x \<longleftrightarrow> x = s"
proof -
  from held obtain s where s: "s \<in> set (step_runs led)" "stepClaimScope ref s" by (auto simp: select_where_empty)
  have row: "step_at led (ref_runId ref) (ref_stepId ref) = Some s"
    using ledger_step_row [OF ok s(1)] s(2) by (simp add: stepClaimScope_def)
  have "x = s" if "x \<in> set (step_runs led)" "stepClaimScope ref x" for x
    using ledger_step_row [OF ok that(1)] that(2) row by (simp add: stepClaimScope_def)
  then show thesis using that [OF row s(2)] s(2) by blast
qed

lemma step_at_scope:
  "ledger_ok h led \<Longrightarrow> r \<in> set (runs led) \<Longrightarrow> step_at led (run_id r) sid = Some x \<Longrightarrow>
     step_runId x = run_id r \<and> step_id x = sid \<and> step_workspaceId x = run_workspaceId r \<and> x \<in> set (step_runs led)"
  using ledger_workspace [of h led x r] row_at_step by fastforce

lemma other_run:
  assumes "ledger_ok h led" and "r \<in> set (runs led)" and "run_id r \<noteq> rid"
    and "\<And>s. step_runId s \<noteq> rid \<Longrightarrow> F s = s"
  shows "map_option (\<lambda>s. step_status (F s)) (step_at led (run_id r) sid) = map_option step_status (step_at led (run_id r) sid)"
proof (cases "step_at led (run_id r) sid")
  case (Some x)
  then have "step_runId x \<noteq> rid" using step_at_scope [OF assms(1,2) Some] assms(3) by simp
  then show ?thesis using Some assms(4) by simp
qed simp

lemma owned_iff:
  assumes "ledger_ok h led" and "select_where (stepClaimScope ref) (step_runs led) \<noteq> []"
    and "r \<in> set (runs led)" and "run_id r = ref_runId ref" and x: "step_at led (run_id r) sid = Some x"
  shows "stepClaimScope ref x \<longleftrightarrow> sid = ref_stepId ref"
proof -
  obtain s where s: "step_at led (ref_runId ref) (ref_stepId ref) = Some s" "stepClaimScope ref s"
    by (rule owned_step [OF assms(1,2)])
  note y = step_at_scope [OF assms(1,3) x]
  show ?thesis
  proof
    assume "stepClaimScope ref x"
    then have "step_id x = ref_stepId ref" unfolding stepClaimScope_def by (elim conjE)
    then show "sid = ref_stepId ref" using y by simp
  next
    assume "sid = ref_stepId ref"
    then have "x = s" using s(1) x assms(4) by simp
    then show "stepClaimScope ref x" using s(2) by simp
  qed
qed

lemma ledger_retry:
  assumes ok: "ledger_ok h led" and c: "retrySqliteWorkflowStep ref code message retryAt now led = Inr led'"
  shows "ledger_ok h led' \<and> ledger_sim led led'"
proof -
  from c obtain ec em where held: "select_where (stepClaimScope ref) (step_runs led) \<noteq> []"
    and led': "led' = led\<lparr>step_runs := update_where (stepClaimScope ref) (retry_row now retryAt ec em) (step_runs led)\<rparr>"
    by (auto simp: retrySqliteWorkflowStep_def and_then_eq_Inr split: if_splits)
  obtain s where s: "step_at led (ref_runId ref) (ref_stepId ref) = Some s" "stepClaimScope ref s"
    "\<forall>x \<in> set (step_runs led). stepClaimScope ref x \<longleftrightarrow> x = s"
    by (rule owned_step [OF ok held])
  let ?F = "\<lambda>s. if stepClaimScope ref s then retry_row now retryAt ec em s else s"
  show ?thesis
  proof (rule ledger_map [OF ok, where F = ?F and G = "\<lambda>r. r"])
    show "keeps_step ?F (step_runs led)"
      by (simp add: keeps_step_def retry_row_def step_key_def step_claim_state_def)
    show "keeps_run (\<lambda>r. r)" by (simp add: keeps_run_def)
    show "led' = led\<lparr>step_runs := map ?F (step_runs led), runs := map (\<lambda>r. r) (runs led)\<rparr>"
      by (simp add: led' update_where_def)
  next
    fix r P
    assume r: "r \<in> set (runs led)"
    let ?f = "\<lambda>sid. map_option step_status (step_at led (run_id r) sid)"
    let ?g = "\<lambda>sid. map_option (\<lambda>s. step_status (?F s)) (step_at led (run_id r) sid)"
    show "(machine_step (plan_parent P))\<^sup>*\<^sup>* (machine_of led r) (run_status r, ?g)"
    proof (cases "run_id r = ref_runId ref")
      case True
      have "?g = ?f(ref_stepId ref \<mapsto> StepReady)"
      proof
        fix sid
        show "?g sid = (?f(ref_stepId ref \<mapsto> StepReady)) sid"
        proof (cases "step_at led (run_id r) sid")
          case None
          then show ?thesis using s(1) True by auto
        next
          case (Some x)
          then show ?thesis using owned_iff [OF ok held r True Some] by (simp add: retry_row_def)
        qed
      qed
      moreover have "?f (ref_stepId ref) = Some StepRunning"
        using s True by (simp add: stepClaimScope_def step_owned_def)
      ultimately show ?thesis unfolding machine_of_def by (auto intro!: r_into_rtranclp machine_retry)
    next
      case False
      then have "?g = ?f"
        using other_run [OF ok r False, where F = ?F] by (simp add: stepClaimScope_def)
      then show ?thesis unfolding machine_of_def by simp
    qed
  qed
qed

lemma held_running:
  assumes "ledger_ok h led" and "select_where (stepClaimScope ref) (step_runs led) \<noteq> []"
  shows "map_option step_status (step_at led (ref_runId ref) (ref_stepId ref)) = Some StepRunning"
proof -
  obtain s where "step_at led (ref_runId ref) (ref_stepId ref) = Some s" "stepClaimScope ref s"
    by (rule owned_step [OF assms])
  then show ?thesis by (simp add: stepClaimScope_def step_owned_def)
qed

definition failed_row :: "step_ref \<Rightarrow> int \<Rightarrow> jsstr \<Rightarrow> jsstr \<Rightarrow> step_row \<Rightarrow> step_row" where
  "failed_row ref now ec em s =
     (let s1 = if stepClaimScope ref s then fail_row now ec em s else s
      in if step_runId s1 = ref_runId ref \<and> step_workspaceId s1 = ref_workspaceId ref \<and> active_status (step_status s1)
         then cancel_row now s1 else s1)"

definition failed_run :: "step_ref \<Rightarrow> int \<Rightarrow> jsstr \<Rightarrow> jsstr \<Rightarrow> run_row \<Rightarrow> run_row" where
  "failed_run ref now ec em r =
     (if run_id r = ref_runId ref \<and> run_workspaceId r = ref_workspaceId ref \<and> open_run (run_status r)
      then fail_run now ec em r else r)"

lemma fail_result:
  assumes c: "failSqliteWorkflowStep ref code message now led = Inr led'"
  obtains ec em where "safeCode code = Inr ec" "safeMessage message = Inr em"
    "select_where (stepClaimScope ref) (step_runs led) \<noteq> []"
    "led' = led\<lparr>step_runs := map (failed_row ref now ec em) (step_runs led),
       runs := map (failed_run ref now ec em) (runs led)\<rparr>"
proof -
  have rows: "update_where (\<lambda>s. step_runId s = ref_runId ref \<and> step_workspaceId s = ref_workspaceId ref
        \<and> active_status (step_status s)) (cancel_row now)
        (update_where (stepClaimScope ref) (fail_row now ec em) ss) = map (failed_row ref now ec em) ss" for ec em ss
    by (simp add: update_where_def failed_row_def Let_def)
  have rs: "update_where (\<lambda>r. run_id r = ref_runId ref \<and> run_workspaceId r = ref_workspaceId ref
      \<and> open_run (run_status r)) (fail_run now ec em) rs = map (failed_run ref now ec em) rs" for ec em rs
    by (simp add: update_where_def failed_run_def)
  show thesis
    using c unfolding failSqliteWorkflowStep_def rows rs
    by (auto simp: and_then_eq_Inr intro: that split: if_split_asm)
qed

lemma failed_statuses:
  assumes ok: "ledger_ok h led" and held: "select_where (stepClaimScope ref) (step_runs led) \<noteq> []"
    and r: "r \<in> set (runs led)" "run_id r = ref_runId ref"
  shows "(\<lambda>sid. map_option (\<lambda>s. step_status (failed_row ref now ec em s)) (step_at led (ref_runId ref) sid)) =
      fail_steps (ref_stepId ref) (\<lambda>sid. map_option step_status (step_at led (ref_runId ref) sid))"
    and "run_workspaceId r = ref_workspaceId ref"
proof -
  obtain s where s: "step_at led (ref_runId ref) (ref_stepId ref) = Some s" "stepClaimScope ref s"
    by (rule owned_step [OF ok held])
  have "step_at led (run_id r) (ref_stepId ref) = Some s" using s(1) r(2) by simp
  from step_at_scope [OF ok r(1) this] s(2) show ws: "run_workspaceId r = ref_workspaceId ref"
    by (simp add: stepClaimScope_def)
  show "(\<lambda>sid. map_option (\<lambda>s. step_status (failed_row ref now ec em s)) (step_at led (ref_runId ref) sid)) =
      fail_steps (ref_stepId ref) (\<lambda>sid. map_option step_status (step_at led (ref_runId ref) sid))" (is "?g = ?f'")
  proof
    fix sid
    show "?g sid = ?f' sid"
    proof (cases "step_at led (ref_runId ref) sid")
      case None
      then show ?thesis using s(1) by (auto simp: fail_steps_def)
    next
      case (Some x)
      have at: "step_at led (run_id r) sid = Some x" using Some r(2) by simp
      note x = step_at_scope [OF ok r(1) at]
      show ?thesis using owned_iff [OF ok held r at] Some x ws r(2)
        by (simp add: fail_steps_def failed_row_def Let_def fail_row_def cancel_row_def active_status_def)
    qed
  qed
qed

lemma run_of_held:
  assumes ok: "ledger_ok h led" and held: "select_where (stepClaimScope ref) (step_runs led) \<noteq> []"
  obtains r where "r \<in> set (runs led)" "run_id r = ref_runId ref" "run_status r = RunRunning"
proof -
  obtain s where s: "step_at led (ref_runId ref) (ref_stepId ref) = Some s" "stepClaimScope ref s"
    by (rule owned_step [OF ok held])
  then have m: "s \<in> set (step_runs led)" "step_runId s = ref_runId ref" using row_at_step [OF s(1)] by simp_all
  then obtain r where r: "r \<in> set (runs led)" "run_id r = ref_runId ref" using ledger_run_of [OF ok m(1)] by auto
  obtain P where "machine_ok (plan_ids P) (plan_parent P) (machine_of led r)" using ledger_plan [OF ok r(1)] by blast
  then have "run_ok (run_status r) (\<lambda>sid. map_option step_status (step_at led (run_id r) sid))"
    by (simp add: machine_ok_def machine_of_def)
  then have "run_status r = RunRunning"
    by (rule run_ok_running [where s = "ref_stepId ref"]) (use r(2) held_running [OF ok held] in simp)
  then show thesis by (rule that [OF r])
qed

lemma ledger_fail:
  assumes ok: "ledger_ok h led" and c: "failSqliteWorkflowStep ref code message now led = Inr led'"
  shows "ledger_ok h led' \<and> ledger_sim led led'"
proof -
  obtain ec em where held: "select_where (stepClaimScope ref) (step_runs led) \<noteq> []"
    and led': "led' = led\<lparr>step_runs := map (failed_row ref now ec em) (step_runs led),
      runs := map (failed_run ref now ec em) (runs led)\<rparr>"
    by (rule fail_result [OF c])
  let ?F = "failed_row ref now ec em" and ?G = "failed_run ref now ec em"
  obtain run where run: "run \<in> set (runs led)" "run_id run = ref_runId ref" "run_status run = RunRunning"
    by (rule run_of_held [OF ok held])
  show ?thesis
  proof (rule ledger_map [OF ok _ _ _ led'])
    show "keeps_step ?F (step_runs led)"
      by (auto simp: keeps_step_def failed_row_def Let_def cancel_row_def fail_row_def step_key_def step_claim_state_def)
    show "keeps_run ?G" by (simp add: keeps_run_def failed_run_def fail_run_def)
  next
    fix r P
    assume r: "r \<in> set (runs led)"
    let ?f = "\<lambda>sid. map_option step_status (step_at led (run_id r) sid)"
    let ?g = "\<lambda>sid. map_option (\<lambda>s. step_status (?F s)) (step_at led (run_id r) sid)"
    show "(machine_step (plan_parent P))\<^sup>*\<^sup>* (machine_of led r) (run_status (?G r), ?g)"
    proof (cases "run_id r = ref_runId ref")
      case True
      then have st: "run_status r = RunRunning" using ledger_run_unique [OF ok r run(1)] run(2,3) by simp
      note fs = failed_statuses(1) [OF ok held r True, of now ec em] failed_statuses(2) [OF ok held r True]
      have "machine_step (plan_parent P) (run_status r, ?f) (RunFailed, fail_steps (ref_stepId ref) ?f)"
        by (rule machine_fail) (use st held_running [OF ok held] True in \<open>simp_all add: open_run_def\<close>)
      moreover have "run_status (?G r) = RunFailed"
        using True st fs(2) by (simp add: failed_run_def fail_run_def open_run_def)
      ultimately show ?thesis using fs(1) True unfolding machine_of_def by simp
    next
      case False
      then have "?g = ?f"
        using other_run [OF ok r False, where F = ?F] by (simp add: failed_row_def stepClaimScope_def)
      then show ?thesis using False unfolding machine_of_def by (simp add: failed_run_def)
    qed
  qed
qed

section \<open>Completion\<close>

text \<open>What a successful completion did, as one map over the steps.\<close>

definition completed_row :: "step_ref \<Rightarrow> jsstr list \<Rightarrow> jsstr list \<Rightarrow> json option \<Rightarrow> int \<Rightarrow> step_row \<Rightarrow> step_row" where
  "completed_row ref freed skipped outp now s =
     (let s1 = if stepClaimScope ref s then complete_row now outp s else s;
          s2 = if blocked_in ref freed s1 then ready_row now s1 else s1
      in if blocked_in ref skipped s2 then skip_row now s2 else s2)"

lemma update_blocked_Nil: "(if xs = [] then rows else update_where (blocked_in ref xs) f rows)
    = update_where (blocked_in ref xs) f rows"
  by (simp add: update_where_def blocked_in_def)

lemma update_completed:
  "update_where (blocked_in ref skipped) (skip_row now) (update_where (blocked_in ref freed) (ready_row now)
     (update_where (stepClaimScope ref) (complete_row now outp) rows)) =
   map (completed_row ref freed skipped outp now) rows"
  by (simp add: update_where_def completed_row_def Let_def)

definition finish_if :: "bool \<Rightarrow> step_ref \<Rightarrow> int \<Rightarrow> run_row \<Rightarrow> run_row" where
  "finish_if don ref now r =
     (if don \<and> run_id r = ref_runId ref \<and> run_workspaceId r = ref_workspaceId ref \<and> run_status r = RunRunning
      then finish_run now r else r)"

lemma complete_result:
  assumes c: "completeSqliteWorkflowStep ref handles out now led = Inr (led', progress)"
  obtains P step outp skipped rows where
    "loadRunExecution led (ref_runId ref) (ref_workspaceId ref) = Inr P"
    "requirePlanStep P (ref_stepId ref) = Inr step"
    "select_where (stepClaimScope ref) (step_runs led) \<noteq> []"
    "collectSkippedDescendants P (inactive_targets step (set_from handles))
       (active_targets step (set_from handles)) [] = Inr skipped"
    "rows = map (completed_row ref (active_targets step (set_from handles)) skipped outp now) (step_runs led)"
    "led' = led\<lparr>step_runs := rows, runs := map (finish_if (remaining_steps (ref_runId ref) rows = 0) ref now) (runs led)\<rparr>"
    "progress = (if remaining_steps (ref_runId ref) rows = 0 then RunFinished else StillRunning)"
proof -
  have fin: "map (finish_if False ref now) rs = rs" for rs
    by (simp add: finish_if_def map_idI)
  have upd: "update_where (\<lambda>r. run_id r = ref_runId ref \<and> run_workspaceId r = ref_workspaceId ref
      \<and> run_status r = RunRunning) (finish_run now) rs = map (finish_if True ref now) rs" for rs
    by (simp add: update_where_def finish_if_def)
  have same: "led\<lparr>step_runs := rows, runs := runs led\<rparr> = led\<lparr>step_runs := rows\<rparr>" for rows
    by (cases led) simp
  from c show thesis
    unfolding completeSqliteWorkflowStep_def Let_def update_blocked_Nil update_completed upd
    by (auto simp: and_then_eq_Inr fin same intro!: that split: if_splits)
qed

lemma completed_status:
  assumes "step_runId x = ref_runId ref" and "step_workspaceId x = ref_workspaceId ref"
  shows "step_status (completed_row ref freed skipped outp now x) =
    (if stepClaimScope ref x then StepSucceeded
     else if step_id x \<in> set freed \<and> step_status x = StepBlocked then StepReady
     else if step_id x \<in> set skipped \<and> step_status x = StepBlocked then StepSkipped
     else step_status x)"
  using assms
  by (simp add: completed_row_def Let_def blocked_in_def complete_row_def ready_row_def skip_row_def)

lemma completed_row_keeps:
  "step_key (completed_row ref freed skipped outp now s) = step_key s
   \<and> step_workspaceId (completed_row ref freed skipped outp now s) = step_workspaceId s
   \<and> (step_claim_state s \<longrightarrow> step_claim_state (completed_row ref freed skipped outp now s))"
  by (auto simp: completed_row_def Let_def blocked_in_def complete_row_def ready_row_def skip_row_def
      step_key_def step_claim_state_def)

lemma completed_row_other:
  "step_runId s \<noteq> ref_runId ref \<Longrightarrow> completed_row ref freed skipped outp now s = s"
  by (simp add: completed_row_def blocked_in_def stepClaimScope_def)

lemma routes_split:
  assumes ok: "plan_ok P" and s: "s \<in> set (steps P)"
  shows "set (active_targets s hs) \<union> set (inactive_targets s hs) = {x. plan_parent P x = Some (stepId s)}"
    and "set (active_targets s hs) \<inter> set (inactive_targets s hs) = {}"
proof -
  have kids: "distinct (map targetStepId (outboundRoutes s))"
    "targetStepId ` set (outboundRoutes s) = {x. plan_parent P x = Some (stepId s)}"
    using ok s by (simp_all add: plan_ok_def)
  show "set (active_targets s hs) \<union> set (inactive_targets s hs) = {x. plan_parent P x = Some (stepId s)}"
    unfolding kids(2) [symmetric] by (auto simp: active_targets_def inactive_targets_def)
  show "set (active_targets s hs) \<inter> set (inactive_targets s hs) = {}"
    using kids(1) by (auto simp: active_targets_def inactive_targets_def distinct_map dest: inj_onD)
qed

lemma forest_below_children:
  assumes "forest ids parent" and "parent x = Some s" and "I \<subseteq> {y. parent y = Some s}" and "x \<notin> I"
  shows "x \<notin> below parent I"
proof
  assume "x \<in> below parent I"
  then obtain p where p: "p \<in> below parent I" "parent x = Some p"
    using below_cases [of x parent I] assms(4) by blast
  then obtain c where c: "c \<in> I" "(c, s) \<in> (child_rel parent)\<^sup>*" using assms(2) by (auto simp: below_def)
  have "(s, c) \<in> child_rel parent" using assms(3) c(1) by (auto simp: child_rel_def)
  then have "(s, s) \<in> (child_rel parent)\<^sup>+" using c(2) by (rule rtrancl_into_trancl2)
  then show False using assms(1) by (simp add: forest_def acyclic_def)
qed

lemma loadRunExecution_Inr:
  assumes "loadRunExecution led rid ws = Inr P"
  obtains r where "r \<in> set (runs led)" "run_id r = rid" "run_workspaceId r = ws" "run_status r = RunRunning"
    "version_plan led r = Some P"
proof -
  obtain r where r: "first_row (select_where (\<lambda>r. run_id r = rid \<and> run_workspaceId r = ws
      \<and> run_status r = RunRunning) (runs led)) = Some r" and v: "version_plan led r = Some P"
    using assms by (auto simp: loadRunExecution_def split: option.splits)
  from first_row_select [OF r] v show thesis by (auto intro: that)
qed

lemma remaining_steps_active:
  assumes ok: "ledger_ok h led" and key: "\<And>s. s \<in> set (step_runs led) \<Longrightarrow> step_key (F s) = step_key s"
  shows "0 < remaining_steps rid (map F (step_runs led)) \<longleftrightarrow>
    some_active (\<lambda>sid. map_option (\<lambda>s. step_status (F s)) (step_at led rid sid))"
proof -
  have "0 < remaining_steps rid (map F (step_runs led)) \<longleftrightarrow>
      (\<exists>s \<in> set (step_runs led). step_runId (F s) = rid \<and> active_status (step_status (F s)))"
    by (simp add: remaining_steps_def select_where_empty)
  also have "\<dots> \<longleftrightarrow> (\<exists>s \<in> set (step_runs led). step_runId s = rid \<and> active_status (step_status (F s)))"
    using key by (auto simp: step_key_def)
  also have "\<dots> \<longleftrightarrow> (\<exists>sid s. step_at led rid sid = Some s \<and> active_status (step_status (F s)))"
    using ledger_step_row [OF ok] row_at_step by (metis (no_types, lifting))
  finally show ?thesis by (auto simp: some_active_def)
qed

text \<open>The statuses after a completion are those of the machine.\<close>

lemma completed_statuses:
  assumes ok: "ledger_ok h led" and load: "loadRunExecution led (ref_runId ref) (ref_workspaceId ref) = Inr P"
    and step: "requirePlanStep P (ref_stepId ref) = Inr step"
    and held: "select_where (stepClaimScope ref) (step_runs led) \<noteq> []"
    and sk: "collectSkippedDescendants P (inactive_targets step hs) (active_targets step hs) [] = Inr skipped"
  shows "(\<lambda>sid. map_option (\<lambda>s. step_status (completed_row ref (active_targets step hs) skipped outp now s))
        (step_at led (ref_runId ref) sid)) =
      complete_steps (plan_parent P) (ref_stepId ref) (set (active_targets step hs)) (set (inactive_targets step hs))
        (\<lambda>sid. map_option step_status (step_at led (ref_runId ref) sid))" (is "?g = ?f'")
    and "set (active_targets step hs) \<union> set (inactive_targets step hs) = {x. plan_parent P x = Some (ref_stepId ref)}"
    and "set (active_targets step hs) \<inter> set (inactive_targets step hs) = {}"
proof -
  let ?A = "active_targets step hs" and ?I = "inactive_targets step hs" and ?par = "plan_parent P"
  obtain run where run: "run \<in> set (runs led)" "run_id run = ref_runId ref" "run_workspaceId run = ref_workspaceId ref"
    "version_plan led run = Some P"
    by (rule loadRunExecution_Inr [OF load])
  have P: "plan_ok P" using ledger_plan [OF ok run(1)] run(4) by auto
  have st: "step \<in> set (steps P)" "stepId step = ref_stepId ref" using requirePlanStep_Inr [OF step] by auto
  have fo: "forest (plan_ids P) ?par" using P by (simp add: plan_ok_def)
  note AI = routes_split [OF P st(1), of hs, unfolded st(2)]
  then show "set ?A \<union> set ?I = {x. ?par x = Some (ref_stepId ref)}" "set ?A \<inter> set ?I = {}" by simp_all
  have below: "set skipped = below ?par (set ?I)"
  proof -
    have "below ?par (set ?I) \<inter> set ?A = {}"
      using forest_below_children [OF fo, of _ "ref_stepId ref" "set ?I"] AI by blast
    moreover have "set ?I \<subseteq> plan_ids P" using AI(1) fo by (auto simp: forest_def)
    ultimately show ?thesis
      using collectSkippedDescendants_spec [OF P, of ?I "[]" ?A] sk by simp
  qed
  show "?g = ?f'"
  proof
    fix sid
    show "?g sid = ?f' sid"
    proof (cases "step_at led (ref_runId ref) sid")
      case None
      obtain s where "step_at led (ref_runId ref) (ref_stepId ref) = Some s"
        by (rule owned_step [OF ok held])
      then show ?thesis using None by (auto simp: complete_steps_def)
    next
      case (Some x)
      have at: "step_at led (run_id run) sid = Some x" using Some run(2) by simp
      note x = step_at_scope [OF ok run(1) at]
      show ?thesis
        using owned_iff [OF ok held run(1,2) at] completed_status [of x ref ?A skipped outp now] Some x run(2,3)
        by (simp add: complete_steps_def below)
    qed
  qed
qed

lemma ledger_complete:
  assumes ok: "ledger_ok h led" and c: "completeSqliteWorkflowStep ref handles out now led = Inr (led', progress)"
  shows "ledger_ok h led' \<and> ledger_sim led led'"
proof -
  obtain P0 step outp skipped rows where load: "loadRunExecution led (ref_runId ref) (ref_workspaceId ref) = Inr P0"
    and step: "requirePlanStep P0 (ref_stepId ref) = Inr step"
    and held: "select_where (stepClaimScope ref) (step_runs led) \<noteq> []"
    and sk: "collectSkippedDescendants P0 (inactive_targets step (set_from handles))
       (active_targets step (set_from handles)) [] = Inr skipped"
    and rows: "rows = map (completed_row ref (active_targets step (set_from handles)) skipped outp now) (step_runs led)"
    and led': "led' = led\<lparr>step_runs := rows, runs := map (finish_if (remaining_steps (ref_runId ref) rows = 0) ref now) (runs led)\<rparr>"
    by (rule complete_result [OF c])
  let ?F = "completed_row ref (active_targets step (set_from handles)) skipped outp now"
  let ?G = "finish_if (remaining_steps (ref_runId ref) rows = 0) ref now"
  obtain run where run: "run \<in> set (runs led)" "run_id run = ref_runId ref" "run_workspaceId run = ref_workspaceId ref"
    "run_status run = RunRunning" "version_plan led run = Some P0"
    by (rule loadRunExecution_Inr [OF load])
  note st = completed_statuses(2,3) [OF ok load step held sk]
    completed_statuses(1) [OF ok load step held sk, of outp now]
  show ?thesis
  proof (rule ledger_map [OF ok, where F = ?F and G = ?G])
    show "keeps_step ?F (step_runs led)"
      using completed_row_keeps by (simp add: keeps_step_def)
    show "keeps_run ?G" by (simp add: keeps_run_def finish_if_def finish_run_def)
    show "led' = led\<lparr>step_runs := map ?F (step_runs led), runs := map ?G (runs led)\<rparr>"
      by (simp add: led' rows)
  next
    fix r P
    assume r: "r \<in> set (runs led)" "version_plan led r = Some P"
    let ?f = "\<lambda>sid. map_option step_status (step_at led (run_id r) sid)"
    let ?g = "\<lambda>sid. map_option (\<lambda>s. step_status (?F s)) (step_at led (run_id r) sid)"
    show "(machine_step (plan_parent P))\<^sup>*\<^sup>* (machine_of led r) (run_status (?G r), ?g)"
    proof (cases "run_id r = ref_runId ref")
      case False
      then have "?g = ?f"
        using other_run [OF ok r(1) False, where F = ?F] completed_row_other by simp
      then show ?thesis using False unfolding machine_of_def by (simp add: finish_if_def)
    next
      case True
      then have rr: "r = run" using ledger_run_unique [OF ok r(1) run(1)] run(2) by simp
      then have P: "P = P0" using r(2) run(5) by simp
      have "(0 < remaining_steps (ref_runId ref) rows) = some_active ?g"
        unfolding rows True [symmetric] by (rule remaining_steps_active [OF ok]) (simp add: completed_row_keeps)
      then have rs: "run_status (?G r) = (if some_active ?g then RunRunning else RunSucceeded)"
        using run(2-4) rr by (auto simp: finish_if_def finish_run_def)
      have "machine_step (plan_parent P0) (RunRunning, ?f) (run_status (?G r), ?g)"
        by (rule machine_complete [OF _ st(1,2) st(3) [folded True] rs])
          (use held_running [OF ok held] True in simp)
      then show ?thesis unfolding machine_of_def P using run(4) rr by simp
    qed
  qed
qed

section \<open>Creation\<close>

lemma first_row_unique:
  "v \<in> set vs \<Longrightarrow> Q v \<Longrightarrow> (\<And>u. u \<in> set vs \<Longrightarrow> Q u \<Longrightarrow> u = v) \<Longrightarrow> first_row (select_where Q vs) = Some v"
proof (cases "first_row (select_where Q vs)")
  case None
  then show "v \<in> set vs \<Longrightarrow> Q v \<Longrightarrow> ?thesis" by (simp add: first_row_select_None)
next
  case (Some u)
  then show "(\<And>u. u \<in> set vs \<Longrightarrow> Q u \<Longrightarrow> u = v) \<Longrightarrow> ?thesis" using first_row_select [OF Some] by simp
qed

lemma create_result:
  assumes c: "createSqliteWorkflowRun inp rid eid now led = Inr (led', created)"
  obtains w v P runInput event where
    "w \<in> set (workflows (store led))" "v \<in> set (workflowVersions (store led))"
    "version_workflowId v = workflow_id w" "version_workspaceId v = create_workspaceId inp"
    "compiledPlan v = Some P" "created = new_run inp runInput rid now w v"
    "rid \<notin> run_id ` set (runs led)"
    "distinct (map step_key (step_runs led @ map (new_step P rid (create_workspaceId inp) now) (steps P)))"
    "led' = led\<lparr>runs := runs led @ [created],
       step_runs := step_runs led @ map (new_step P rid (create_workspaceId inp) now) (steps P),
       outbox := outbox led @ [event]\<rparr>"
proof -
  note cr = createSqliteWorkflowRun_def
  obtain runInput where i: "parseRunInput (case create_runInput inp of None \<Rightarrow> JObj [] | Some v \<Rightarrow> v) = Inr runInput"
    using c unfolding cr and_then_eq_Inr by blast
  note c1 = c [unfolded cr i and_then.simps]
  obtain w v where f: "first_row (published_rows led inp) = Some (w, v)"
    using c1 by (cases "first_row (published_rows led inp)") auto
  note c2 = c1 [unfolded f option.case prod.case]
  obtain P where P: "compiledPlan v = Some P" using c2 by (cases "compiledPlan v") simp_all
  note c3 = c2 [unfolded P option.case Let_def]
  have p: "created = new_run inp runInput rid now w v" "rid \<notin> run_id ` set (runs led)"
    "distinct (map step_key (step_runs led @ map (new_step P rid (create_workspaceId inp) now) (steps P)))"
    "led' = led\<lparr>runs := runs led @ [created],
       step_runs := step_runs led @ map (new_step P rid (create_workspaceId inp) now) (steps P),
       outbox := outbox led @ [run_requested_event eid rid (create_workspaceId inp) now]\<rparr>"
    using c3 by (auto simp del: map_append map_map split: if_split_asm)
  from f have "(w, v) \<in> set (published_rows led inp)" by (auto simp: first_row_def split: list.splits)
  then show thesis using p P by (auto simp: published_rows_def simp del: map_append map_map intro!: that)
qed

lemma row_at_new_steps:
  "row_at step_key (map (new_step P rid ws now) ss) (rid, sid) =
     map_option (new_step P rid ws now) (find (\<lambda>s. stepId s = sid) ss)"
  unfolding row_at_def by (induction ss) (auto simp: step_key_def new_step_def)

lemma plan_compiled:
  "ledger_ok h led \<Longrightarrow> v \<in> set (workflowVersions (store led)) \<Longrightarrow> compiledPlan v = Some P \<Longrightarrow> plan_ok P"
  using compiled_plan_ok by (fastforce simp: ledger_ok_def store_ok_def version_ok_def)

lemma ledger_create:
  assumes ok: "ledger_ok h led" and c: "createSqliteWorkflowRun inp rid eid now led = Inr (led', created)"
  shows "ledger_ok h led' \<and> ledger_sim led led'"
proof -
  obtain w v P runInput event where w: "w \<in> set (workflows (store led))" "v \<in> set (workflowVersions (store led))"
    "version_workflowId v = workflow_id w" "version_workspaceId v = create_workspaceId inp" "compiledPlan v = Some P"
    and created: "created = new_run inp runInput rid now w v" and fresh: "rid \<notin> run_id ` set (runs led)"
    and d: "distinct (map step_key (step_runs led @ map (new_step P rid (create_workspaceId inp) now) (steps P)))"
    and led': "led' = led\<lparr>runs := runs led @ [created],
       step_runs := step_runs led @ map (new_step P rid (create_workspaceId inp) now) (steps P),
       outbox := outbox led @ [event]\<rparr>"
    by (rule create_result [OF c])
  let ?new = "map (new_step P rid (create_workspaceId inp) now) (steps P)"
  have P: "plan_ok P" by (rule plan_compiled [OF ok w(2,5)])
  have plan_old: "version_plan led' r = version_plan led r" for r by (simp add: version_plan_def led')
  have old_rows: "step_runId s \<noteq> rid" if "s \<in> set (step_runs led)" for s
    using ledger_run_of [OF ok that] fresh by (metis imageI)
  have m_old: "machine_of led' r = machine_of led r" if r: "r \<in> set (runs led)" for r
  proof -
    have "run_id r \<noteq> rid" using fresh r by auto
    then have "row_at step_key ?new (run_id r, sid) = None" for sid
      by (auto simp: row_at_None step_key_def new_step_def)
    then have "step_at led' (run_id r) sid = step_at led (run_id r) sid" for sid
      by (simp add: led' row_at_append split: option.split)
    then show ?thesis by (simp add: machine_of_def)
  qed
  have plan_new: "version_plan led' created = Some P"
  proof -
    let ?Q = "\<lambda>u. version_workflowId u = run_workflowId created \<and> version u = run_workflowVersion created
        \<and> version_workspaceId u = run_workspaceId created"
    have inj: "inj_on (\<lambda>v. (version_workflowId v, version v)) (set (workflowVersions (store led)))"
      using ok by (simp add: ledger_ok_def store_ok_def distinct_map)
    have "first_row (select_where ?Q (workflowVersions (store led))) = Some v"
      using w by (intro first_row_unique inj_onD [OF inj]) (simp_all add: created new_run_def)
    then show ?thesis using w(5) by (simp add: version_plan_def led')
  qed
  have m_new: "machine_of led' created = machine_start (plan_ids P) (plan_parent P)"
  proof -
    have "map_option step_status (row_at step_key (step_runs led @ ?new) (rid, sid)) =
        (if sid \<in> plan_ids P then Some (if plan_parent P sid = None then StepReady else StepBlocked) else None)" for sid
    proof -
      have n: "row_at step_key (step_runs led) (rid, sid) = None"
        using old_rows by (auto simp: row_at_None step_key_def)
      show ?thesis
      proof (cases "sid \<in> plan_ids P")
        case True
        then obtain s where "s \<in> set (steps P)" "stepId s = sid" by (auto simp: plan_ids_def)
        then have "find (\<lambda>s. stepId s = sid) (steps P) = Some s"
          using P find_stepId [of "steps P" s] by (simp add: plan_ok_def)
        then show ?thesis using n True P \<open>stepId s = sid\<close>
          by (simp add: row_at_append row_at_new_steps new_step_def plan_ok_def)
      next
        case False
        then have "find (\<lambda>s. stepId s = sid) (steps P) = None" by (auto simp: find_None_iff plan_ids_def)
        then show ?thesis using n False by (simp add: row_at_append row_at_new_steps)
      qed
    qed
    then show ?thesis by (simp add: machine_of_def machine_start_def led' created new_run_def)
  qed
  have "ledger_ok h led'"
    unfolding ledger_ok_def
  proof (intro conjI ballI)
    show "store_ok h (store led')" using ok by (simp add: led' ledger_ok_def)
    show "distinct (map run_id (runs led'))"
      using ok fresh by (simp add: led' ledger_ok_def created new_run_def)
    show "distinct (map step_key (step_runs led'))" using d by (simp add: led')
  next
    fix s
    assume "s \<in> set (step_runs led')"
    then consider "s \<in> set (step_runs led)" | "s \<in> set ?new" by (auto simp: led')
    then have "step_claim_state s \<and> (\<exists>r \<in> set (runs led'). run_id r = step_runId s \<and> run_workspaceId r = step_workspaceId s)"
    proof cases
      case 1
      then show ?thesis using ok by (auto simp: ledger_ok_def led')
    next
      case 2
      then show ?thesis by (auto simp: led' new_step_def step_claim_state_def created new_run_def split: if_split_asm)
    qed
    then show "step_claim_state s"
      "\<exists>r \<in> set (runs led'). run_id r = step_runId s \<and> run_workspaceId r = step_workspaceId s" by simp_all
  next
    fix r
    assume "r \<in> set (runs led')"
    then consider "r \<in> set (runs led)" | "r = created" by (auto simp: led')
    then show "\<exists>P. version_plan led' r = Some P \<and> plan_ok P
        \<and> machine_ok (plan_ids P) (plan_parent P) (machine_of led' r)"
    proof cases
      case 1
      then show ?thesis using ledger_plan [OF ok 1] plan_old m_old by simp
    next
      case 2
      have "forest (plan_ids P) (plan_parent P)" using P by (simp add: plan_ok_def)
      from machine_ok_start [OF this] show ?thesis using 2 plan_new P m_new by simp
    qed
  qed
  moreover have "ledger_sim led led'"
    unfolding ledger_sim_def using plan_old m_old by (auto simp: led')
  ultimately show ?thesis by simp
qed

section \<open>Changes of the store\<close>

lemma version_plan_append:
  "workflowVersions (store led') = workflowVersions (store led) @ new \<Longrightarrow> version_plan led r = Some P \<Longrightarrow>
     version_plan led' r = Some P"
  by (auto simp: version_plan_def first_row_def select_where_def split: option.splits list.splits)

lemma ledger_store:
  assumes ok: "ledger_ok h led" and st: "unicode_host h" and c: "store_step h (store led) db"
  shows "ledger_ok h (led\<lparr>store := db\<rparr>) \<and> ledger_sim led (led\<lparr>store := db\<rparr>)"
proof -
  have so: "store_ok h (store led)" using ok by (simp add: ledger_ok_def)
  obtain new where db: "store_ok h db" "workflowVersions db = workflowVersions (store led) @ new"
    using store_ok_step [OF c so st] by blast
  have p: "version_plan (led\<lparr>store := db\<rparr>) r = version_plan led r" if r: "r \<in> set (runs led)" for r
  proof -
    obtain P where "version_plan led r = Some P" using ledger_plan [OF ok r] by blast
    then show ?thesis using version_plan_append [of "led\<lparr>store := db\<rparr>" led new r P] db(2) by simp
  qed
  have m: "machine_of (led\<lparr>store := db\<rparr>) r = machine_of led r" for r by (simp add: machine_of_def)
  show ?thesis
    using ok db(1) p m by (auto simp: ledger_ok_def ledger_sim_def)
qed

section \<open>Histories\<close>

inductive ledger_step :: "host \<Rightarrow> ledger \<Rightarrow> ledger \<Rightarrow> bool" for h where
  run_create: "createSqliteWorkflowRun inp rid eid now led = Inr (led', r) \<Longrightarrow> ledger_step h led led'"
| run_claim: "claimSqliteWorkflowSteps cinp led = Inr (led', out) \<Longrightarrow> ledger_step h led led'"
| run_complete: "completeSqliteWorkflowStep ref handles out now led = Inr (led', progress) \<Longrightarrow> ledger_step h led led'"
| run_retry: "retrySqliteWorkflowStep ref code message retryAt now led = Inr led' \<Longrightarrow> ledger_step h led led'"
| run_fail: "failSqliteWorkflowStep ref code message now led = Inr led' \<Longrightarrow> ledger_step h led led'"
| run_store: "store_step h (store led) db \<Longrightarrow> ledger_step h led (led\<lparr>store := db\<rparr>)"
| run_outbox: "ledger_step h led (led\<lparr>outbox := events\<rparr>)"

inductive_cases ledger_stepE: "ledger_step h led led'"

definition empty_ledger :: ledger where
  "empty_ledger = \<lparr>store = empty_store, runs = [], step_runs = [], outbox = []\<rparr>"

lemma ledger_step_ok:
  assumes "ledger_step h led led'" and ok: "ledger_ok h led" and st: "unicode_host h"
  shows "ledger_ok h led' \<and> ledger_sim led led'"
  using assms(1)
proof cases
  case run_create
  then show ?thesis by (rule ledger_create [OF ok])
next
  case run_claim
  then show ?thesis by (rule ledger_claim [OF ok])
next
  case run_complete
  then show ?thesis by (rule ledger_complete [OF ok])
next
  case run_retry
  then show ?thesis by (rule ledger_retry [OF ok])
next
  case run_fail
  then show ?thesis by (rule ledger_fail [OF ok])
next
  case (run_store db)
  then show ?thesis using ledger_store [OF ok st] by simp
next
  case (run_outbox events)
  have "machine_of (led\<lparr>outbox := events\<rparr>) r = machine_of led r"
    "version_plan (led\<lparr>outbox := events\<rparr>) r = version_plan led r" for r
    by (simp_all add: machine_of_def version_plan_def)
  then show ?thesis using ok run_outbox by (simp add: ledger_ok_def ledger_sim_def) blast
qed

lemma ledger_reachable: "(ledger_step h)\<^sup>*\<^sup>* empty_ledger led \<Longrightarrow> unicode_host h \<Longrightarrow> ledger_ok h led"
proof (induction rule: rtranclp_induct)
  case base
  then show ?case
    using store_reachable [of h empty_store] by (simp add: ledger_ok_def empty_ledger_def)
next
  case (step y z)
  then show ?case using ledger_step_ok by blast
qed

end
