(* ===== verification/RunSamples.thy ===== *)
theory RunSamples
  imports WorkflowRunProofs
begin

text \<open>
  A short history of the ledger: the sample workflow is published, a run of it is created, and
  its trigger is claimed. The witnesses of \<open>RunProperties\<close> use it.
\<close>

definition sample_version :: version_row where
  "sample_version = \<lparr>version_id = js ''v1'', version_workspaceId = js ''s'', version_workflowId = js ''f1'',
     version = 1, version_graph = sample_graph, graphDigest = digestWorkflowGraph ascii_host id sample_graph,
     compiledPlan = Some sample_plan, version_createdBy = Some (js ''u''), version_publishedAt = 9\<rparr>"

definition sample_led0 :: ledger where
  "sample_led0 = empty_ledger\<lparr>store := sample_store\<lparr>workflows := [publish_row 9 1 sample_workflow],
     workflowVersions := [sample_version]\<rparr>\<rparr>"

lemma sample_published:
  "publishSqliteWorkflow ascii_host sample_scope 1 (js ''f1'') (js ''v1'') 9 sample_store =
     Inr (store sample_led0, publish_row 9 1 sample_workflow)"
proof -
  have sel: "selectScopedWorkflow sample_store sample_scope (js ''f1'') = Some sample_workflow"
    by (simp add: selectScopedWorkflow_def first_row_def select_where_def sample_store_def
        sample_workflow_def sample_scope_def is_member_def)
  have ok: "store_ok ascii_host sample_store"
    by (rule store_reachable [OF sample_store_reachable ascii_unicode])
  have r: "int (draftRevision sample_workflow) = 1" "next_version sample_workflow = 1"
    "i \<notin> version_id ` set (workflowVersions sample_store)" for i
    by (simp_all add: sample_workflow_def next_version_def sample_store_def)
  have g: "workflowGraph ascii_host (draftGraph sample_workflow)"
    using sample_ok by (simp add: sample_workflow_def)
  show ?thesis
    unfolding publish_Inr [OF ok ascii_unicode sel r(1) g r(3)] r(2)
    by (simp add: sample_led0_def empty_ledger_def new_version_def sample_scope_def sample_version_def
        sample_workflow_def sample_store_def sample_parsed next_version_def
        sample_order sample_plan_def graph_plan_def publish_row_def update_where_def)
qed

definition sample_step :: "string \<Rightarrow> workflow_node_kind \<Rightarrow> step_status \<Rightarrow> step_row" where
  "sample_step sid kind st = \<lparr>step_runId = js ''r1'', step_workspaceId = js ''s'', step_id = js sid, stepKind = kind,
      step_status = st, attempt = 0, claimId = None, claimedAt = None, nextAttemptAt = None, step_output = None,
      step_errorCode = None, step_errorMessage = None, step_startedAt = None,
      step_finishedAt = None, step_updatedAt = 10\<rparr>"

definition sample_input :: create_run_input where
  "sample_input = \<lparr>create_userId = js ''u'', create_workspaceId = js ''s'', create_runInput = None,
     create_workflowId = js ''f1''\<rparr>"

definition sample_run :: run_row where
  "sample_run = new_run sample_input (JObj []) (js ''r1'') 10 (publish_row 9 1 sample_workflow) sample_version"

definition sample_led1 :: ledger where
  "sample_led1 = sample_led0\<lparr>runs := [sample_run],
     step_runs := [sample_step ''t'' Trigger_table_rows StepReady, sample_step ''f'' Logic_filter StepBlocked,
       sample_step ''v'' Destination_send_webhook StepBlocked, sample_step ''w'' Destination_send_webhook StepBlocked],
     outbox := [run_requested_event (js ''e1'') (js ''r1'') (js ''s'') 10]\<rparr>"

lemma sample_entry: "set (entryStepIds sample_plan) = {js ''t''}"
proof -
  have "set (entryStepIds sample_plan) = trigger_ids sample_graph"
    using entry_steps [of sample_graph ascii_host] compiled_plan_is [OF sample_compiles] by (simp add: sample_parsed)
  also have "\<dots> = set (map node_id (filter (\<lambda>n. node_kind n = Trigger_table_rows) (nodes sample_graph)))"
    by (simp only: trigger_ids_def set_map set_filter)
  also have "\<dots> = {js ''t''}"
    by (simp add: sample_graph_def sample_node_def node_kind_def sample_filter_def)
  finally show ?thesis .
qed

lemma sample_new_steps:
  "map (new_step sample_plan (js ''r1'') (js ''s'') 10) (steps sample_plan) = step_runs sample_led1"
proof -
  have k: "step_kind (step_of h g sid) = node_kind (the (node_at (nodes g) sid))" for h g sid
    by (simp add: step_of_def Let_def)
  have n: "the (node_at (nodes sample_graph) (js ''t'')) = sample_node ''t'' (TableRows None (js ''table'') None)"
    "the (node_at (nodes sample_graph) (js ''f'')) = sample_node ''f'' sample_filter"
    "the (node_at (nodes sample_graph) (js ''v'')) = sample_node ''v'' (SendWebhook (js ''d''))"
    "the (node_at (nodes sample_graph) (js ''w'')) = sample_node ''w'' (SendWebhook (js ''d''))"
    by code_simp+
  have e: "set (entryStepIds sample_plan) = {js ''t''}"
    by (rule sample_entry)
  have d: "js ''f'' \<noteq> js ''t''" "js ''v'' \<noteq> js ''t''" "js ''w'' \<noteq> js ''t''" by (simp_all add: js_eval)
  have s: "steps sample_plan = map (step_of ascii_host sample_graph) [js ''t'', js ''f'', js ''v'', js ''w'']"
    by (simp add: sample_plan_def)
  show ?thesis
    unfolding s by (simp add: new_step_def e k n d sample_led1_def sample_step_def node_kind_def sample_node_def sample_filter_def)
qed

lemma sample_created_run:
  "createSqliteWorkflowRun sample_input (js ''r1'') (js ''e1'') 10 sample_led0 = Inr (sample_led1, sample_run)"
proof -
  have t: "stringify (JObj []) = [123, 125]" by simp
  have u: "utf8ByteLength [123, 125] = 2" by code_simp
  have v: "parse_value (Suc n) [123, 125] = Some (JObj [], [])" for n
    by (simp add: skip_json_def json_space_def)
  have j: "json_parse [123, 125] = Some (JObj [])"
    unfolding json_parse_def v by (simp add: skip_json_def)
  have i: "parseRunInput (JObj []) = Inr (JObj [])"
    unfolding parseRunInput.simps parseJsonValue_def t u j by simp
  have p: "published_rows sample_led0 sample_input = [(publish_row 9 1 sample_workflow, sample_version)]"
    by (simp add: published_rows_def sample_led0_def empty_ledger_def sample_store_def sample_input_def
        is_member_def sample_version_def sample_workflow_def publish_row_def)
  have e: "runs sample_led0 = []" "step_runs sample_led0 = []" "outbox sample_led0 = []"
    by (simp_all add: sample_led0_def empty_ledger_def)
  have d: "distinct (map step_key (step_runs sample_led1))"
    by (simp add: sample_led1_def step_key_def sample_step_def js_eval)
  have n: "step_runs sample_led1 \<noteq> []" by (simp add: sample_led1_def)
  have c: "compiledPlan sample_version = Some sample_plan" "create_workspaceId sample_input = js ''s''"
    "create_runInput sample_input = None"
    by (simp_all add: sample_version_def sample_input_def)
  have l: "sample_led1 = sample_led0\<lparr>runs := [sample_run], step_runs := step_runs sample_led1,
      outbox := [run_requested_event (js ''e1'') (js ''r1'') (js ''s'') 10]\<rparr>"
    by (simp add: sample_led1_def)
  show ?thesis
    unfolding createSqliteWorkflowRun_def c option.case i and_then.simps p first_row_def list.case prod.case Let_def
      sample_new_steps e append_Nil sample_run_def [symmetric]
    using d n l by simp
qed

definition sample_claim_steps :: claim_steps_input where
  "sample_claim_steps = \<lparr>step_claimId_in = js ''c1'', step_leaseSeconds_in = None, step_limit_in = None,
     step_now_in = 20, step_runId_in = Some (js ''r1''), step_workspaceId_in = Some (js ''s'')\<rparr>"

definition sample_led2 :: ledger where
  "sample_led2 = sample_led1\<lparr>runs := [start_run 20 sample_run],
     step_runs := mark_step (js ''c1'') 20 (sample_step ''t'' Trigger_table_rows StepReady) # tl (step_runs sample_led1)\<rparr>"

lemma sample_step_claim_valid: "valid_claim_id (js ''c1'')" "valid_claim_id (js ''c2'')"
  by code_simp+

lemma sample_claimed_step:
  "claimSqliteWorkflowSteps sample_claim_steps sample_led1 =
     Inr (sample_led2, [claimed_step_of (mark_step (js ''c1'') 20 (sample_step ''t'' Trigger_table_rows StepReady))])"
proof -
  have v: "assertClaimId (js ''c1'') = Inr ()" by (simp add: assertClaimId_def sample_step_claim_valid)
  have n: "nat (clamp 1 250 25 None) = 25" by code_simp
  let ?E = "workflowStepEligibility (Some (js ''r1''), Some (js ''s''), [sample_run]) 20 (stale_before 20 None)"
  have r: "runs sample_led1 = [sample_run]" by (simp add: sample_led1_def)
  have run: "run_id sample_run = js ''r1''" "run_status sample_run = RunQueued"
    by (simp_all add: sample_run_def new_run_def)
  have e: "select_where ?E (step_runs sample_led1) = [sample_step ''t'' Trigger_table_rows StepReady]"
    by (simp add: select_where_def sample_led1_def workflowStepEligibility_def run open_run_def truthy_def sample_step_def)
  have c: "claim_candidates (\<lambda>s. (step_updatedAt s, step_id s)) 25 ?E (step_runs sample_led1)
      = [sample_step ''t'' Trigger_table_rows StepReady]"
    by (simp add: claim_candidates_def e)
  have d: "distinct (map step_key (step_runs sample_led1))"
    by (simp add: sample_led1_def step_key_def sample_step_def js_eval)
  have rows: "claim_rows step_key (\<lambda>s. (step_updatedAt s, step_id s)) 25 ?E (mark_step (js ''c1'') 20) (step_runs sample_led1)
      = Some (step_runs sample_led2, [mark_step (js ''c1'') 20 (sample_step ''t'' Trigger_table_rows StepReady)])"
    by (subst claim_rows_ok [OF d], rule step_lease.key_mark, simp only: c Let_def) (simp add: update_where_def sample_led2_def sample_led1_def step_key_def sample_step_def js_eval
        workflowStepEligibility_def run open_run_def truthy_def)
  have t: "truthy (Some (js ''r1''))" "truthy (Some (js ''s''))" by (simp_all add: truthy_def js_eval)
  show ?thesis
    by (simp add: claimSqliteWorkflowSteps_def sample_claim_steps_def v t r Let_def n rows)
      (simp add: sample_led2_def update_where_def run sample_led1_def mark_step_def sample_step_def set_from_def set_add_def)
qed

lemma sample_reachable:
  "(ledger_step ascii_host)\<^sup>*\<^sup>* empty_ledger sample_led0"
  "(ledger_step ascii_host)\<^sup>*\<^sup>* empty_ledger sample_led1"
  "(ledger_step ascii_host)\<^sup>*\<^sup>* empty_ledger sample_led2"
proof -
  have "(ledger_step ascii_host)\<^sup>*\<^sup>* led (led\<lparr>store := db\<rparr>)" if "(store_step ascii_host)\<^sup>*\<^sup>* (store led) db" for led db
    using that
  proof (induction rule: rtranclp_induct)
    case (step y z)
    have "ledger_step ascii_host (led\<lparr>store := y\<rparr>) (led\<lparr>store := y\<rparr>\<lparr>store := z\<rparr>)"
      by (rule run_store) (use step in simp)
    then show ?case using step(3) by (simp add: rtranclp.rtrancl_into_rtrancl)
  qed simp
  moreover have "(store_step ascii_host)\<^sup>*\<^sup>* (store empty_ledger) (store sample_led0)"
    using sample_store_reachable store_publish [OF sample_published]
    by (simp add: empty_ledger_def rtranclp.rtrancl_into_rtrancl)
  ultimately have "(ledger_step ascii_host)\<^sup>*\<^sup>* empty_ledger (empty_ledger\<lparr>store := store sample_led0\<rparr>)" by blast
  then show r0: "(ledger_step ascii_host)\<^sup>*\<^sup>* empty_ledger sample_led0"
    by (simp add: sample_led0_def)
  then show r1: "(ledger_step ascii_host)\<^sup>*\<^sup>* empty_ledger sample_led1"
    using run_create [OF sample_created_run] by (rule rtranclp.rtrancl_into_rtrancl)
  then show r2: "(ledger_step ascii_host)\<^sup>*\<^sup>* empty_ledger sample_led2"
    using run_claim [OF sample_claimed_step] by (rule rtranclp.rtrancl_into_rtrancl)
qed
definition sample_ref :: "string \<Rightarrow> step_ref" where
  "sample_ref c = \<lparr>ref_claimId = js c, ref_runId = js ''r1'', ref_stepId = js ''t'', ref_workspaceId = js ''s''\<rparr>"

lemma sample_run_sel:
  "run_id sample_run = js ''r1''" "run_workspaceId sample_run = js ''s''" "run_status sample_run = RunQueued"
  by (simp_all add: sample_run_def new_run_def sample_input_def)

lemma sample_held: "select_where (stepClaimScope (sample_ref ''c1'')) (step_runs sample_led2) \<noteq> []"
  by (simp add: select_where_def sample_led2_def stepClaimScope_def sample_ref_def step_owned_def
      mark_step_def sample_step_def)

definition sample_led3 :: ledger where
  "sample_led3 = sample_led2\<lparr>
     step_runs := map (failed_row (sample_ref ''c1'') 30 (js ''workflow_step_failed'') (js ''x'')) (step_runs sample_led2),
     runs := map (failed_run (sample_ref ''c1'') 30 (js ''workflow_step_failed'') (js ''x'')) (runs sample_led2)\<rparr>"

lemma sample_failed_step:
  "failSqliteWorkflowStep (sample_ref ''c1'') (js ''workflow_step_failed'') (js ''x'') 30 sample_led2 = Inr sample_led3"
proof -
  have v: "assertClaimId (ref_claimId (sample_ref ''c1'')) = Inr ()"
    by (simp add: assertClaimId_def sample_ref_def sample_step_claim_valid)
  have c: "safeCode (js ''workflow_step_failed'') = Inr (js ''workflow_step_failed'')" by code_simp
  have m: "safeMessage (js ''x'') = Inr (js ''x'')" by code_simp
  show ?thesis
    unfolding failSqliteWorkflowStep_def v c m and_then.simps using sample_held
    by (simp add: sample_led3_def update_where_def failed_row_def [abs_def] failed_run_def [abs_def] Let_def)
qed

definition sample_route :: compiled_route where
  "sample_route = \<lparr>edgeId = js ''e1'', route_sourceHandle = js ''rows'', sourceStepId = js ''t'',
     route_targetHandle = js ''rows'', targetStepId = js ''f''\<rparr>"

lemma sample_completes:
  "\<exists>led' progress. completeSqliteWorkflowStep (sample_ref ''c1'') [js ''rows''] None 30 sample_led2 = Inr (led', progress)"
proof -
  have v: "assertClaimId (ref_claimId (sample_ref ''c1'')) = Inr ()"
    by (simp add: assertClaimId_def sample_ref_def sample_step_claim_valid)
  have store: "store sample_led2 = store sample_led0" by (simp add: sample_led2_def sample_led1_def)
  have "version_plan sample_led2 (start_run 20 sample_run) = Some sample_plan"
    unfolding version_plan_def store
    by (simp add: first_row_def select_where_def sample_led0_def empty_ledger_def sample_version_def
        start_run_def sample_run_def new_run_def sample_input_def sample_workflow_def publish_row_def)
  then have l: "loadRunExecution sample_led2 (ref_runId (sample_ref ''c1'')) (ref_workspaceId (sample_ref ''c1'')) = Inr sample_plan"
    unfolding loadRunExecution_def
    by (simp add: first_row_def select_where_def sample_led2_def start_run_def sample_run_sel sample_ref_def)
  have r: "requirePlanStep sample_plan (ref_stepId (sample_ref ''c1'')) = Inr (step_of ascii_host sample_graph (js ''t''))"
    by (simp add: requirePlanStep_def sample_plan_def sample_ref_def)
  have o: "outboundRoutes (step_of ascii_host sample_graph (js ''t'')) = [sample_route]"
    by code_simp
  have h: "set_from [js ''rows''] = [js ''rows'']" by (simp add: set_from_def set_add_def)
  have a: "active_targets (step_of ascii_host sample_graph (js ''t'')) [js ''rows''] = [js ''f'']"
    "inactive_targets (step_of ascii_host sample_graph (js ''t'')) [js ''rows''] = []"
    by (simp_all add: active_targets_def inactive_targets_def o sample_route_def set_from_def set_add_def)
  have k: "collectSkippedDescendants sample_plan [] [js ''f''] [] = Inr []"
    by (simp add: collectSkippedDescendants.simps)
  have n: "parse_output None = Inr None" by (simp add: parse_output_def)
  show ?thesis
    unfolding completeSqliteWorkflowStep_def v n l r and_then.simps Let_def o h a k
    using sample_held by (simp add: sample_route_def set_from_def set_add_def)
qed

end
