(* ===== verification/RunProperties.thy ===== *)
theory RunProperties
  imports RunSamples
begin

text \<open>
  The properties of the ledger of runs over all its histories, with a small history in which
  a run of the sample workflow is created, claimed and completed.
\<close>

section \<open>Lemmas\<close>

lemma sim_refl: "ledger_sim led led"
  by (auto simp: ledger_sim_def)

lemma sim_trans:
  assumes "ledger_sim a b" and "ledger_sim b c"
  shows "ledger_sim a c"
  unfolding ledger_sim_def
proof
  fix r
  assume "r \<in> set (runs a)"
  then obtain r' where r': "r' \<in> set (runs b)" "run_id r' = run_id r" "version_plan b r' = version_plan a r"
    "\<forall>P. version_plan a r = Some P \<longrightarrow> (machine_step (plan_parent P))\<^sup>*\<^sup>* (machine_of a r) (machine_of b r')"
    using assms(1) unfolding ledger_sim_def by blast
  then obtain r'' where "r'' \<in> set (runs c)" "run_id r'' = run_id r'" "version_plan c r'' = version_plan b r'"
    "\<forall>P. version_plan b r' = Some P \<longrightarrow> (machine_step (plan_parent P))\<^sup>*\<^sup>* (machine_of b r') (machine_of c r'')"
    using assms(2) unfolding ledger_sim_def by blast
  then show "\<exists>r'' \<in> set (runs c). run_id r'' = run_id r \<and> version_plan c r'' = version_plan a r
      \<and> (\<forall>P. version_plan a r = Some P \<longrightarrow>
           (machine_step (plan_parent P))\<^sup>*\<^sup>* (machine_of a r) (machine_of c r''))"
    using r' by (intro bexI [of _ r'']) (auto intro: rtranclp_trans)
qed

lemma ledger_history:
  "(ledger_step h)\<^sup>*\<^sup>* led led' \<Longrightarrow> ledger_ok h led \<Longrightarrow> unicode_host h \<Longrightarrow> ledger_ok h led' \<and> ledger_sim led led'"
proof (induction rule: rtranclp_induct)
  case base
  then show ?case by (simp add: sim_refl)
next
  case (step y z)
  then show ?case using ledger_step_ok [of h y z] sim_trans by blast
qed

lemma machine_final:
  assumes "(machine_step parent)\<^sup>*\<^sup>* m m'" and "machine_ok ids parent m" and "\<not> open_run (fst m)"
  shows "m' = m"
  using assms(1)
proof (induction rule: rtranclp_induct)
  case (step y z)
  then have "machine_step parent (fst m, snd m) z" by simp
  then have "open_run (fst m)" using machine_finished [of ids parent "fst m" "snd m" z] assms(2) by simp
  then show ?case using assms(3) by simp
qed simp

lemma step_status_at:
  "ledger_ok h led \<Longrightarrow> r \<in> set (runs led) \<Longrightarrow> s \<in> set (step_runs led) \<Longrightarrow> step_runId s = run_id r \<Longrightarrow>
     snd (machine_of led r) (step_id s) = Some (step_status s)"
  using ledger_step_row [of h led s] by (simp add: machine_of_def)

lemma claim_valid:
  assumes ok: "ledger_ok h led" and "valid_claim_id (step_claimId_in inp)"
    and "truthy (step_runId_in inp) = truthy (step_workspaceId_in inp)"
  shows "\<exists>led' out. claimSqliteWorkflowSteps inp led = Inr (led', out)"
proof -
  have d: "distinct (map step_key (step_runs led))" using ok by (simp add: ledger_ok_def)
  obtain rows taken where "claim_rows step_key (\<lambda>s. (step_updatedAt s, step_id s))
       (nat (clamp 1 250 25 (step_limit_in inp)))
       (workflowStepEligibility (step_runId_in inp, step_workspaceId_in inp, runs led) (step_now_in inp)
         (stale_before (step_now_in inp) (step_leaseSeconds_in inp)))
       (mark_step (step_claimId_in inp) (step_now_in inp)) (step_runs led) = Some (rows, taken)"
    by (auto simp: claim_rows_ok [OF d] step_lease.key_mark Let_def)
  then show ?thesis
    using assms(2,3) by (simp add: claimSqliteWorkflowSteps_def assertClaimId_def Let_def)
qed

text \<open>A claim takes something whenever something is eligible.\<close>

lemma claim_takes:
  assumes ok: "ledger_ok h led" and c: "claimSqliteWorkflowSteps inp led = Inr (led', out)"
    and s: "s \<in> set (step_runs led)"
    and e: "workflowStepEligibility (step_runId_in inp, step_workspaceId_in inp, runs led) (step_now_in inp)
       (stale_before (step_now_in inp) (step_leaseSeconds_in inp)) s"
  shows "out \<noteq> []"
proof -
  let ?E = "workflowStepEligibility (step_runId_in inp, step_workspaceId_in inp, runs led) (step_now_in inp)
       (stale_before (step_now_in inp) (step_leaseSeconds_in inp))"
  let ?n = "nat (clamp 1 250 25 (step_limit_in inp))"
  have d: "distinct (map step_key (step_runs led))" using ok by (simp add: ledger_ok_def)
  obtain taken where out: "out = map claimed_step_of taken" and
    r: "claim_rows step_key (\<lambda>s. (step_updatedAt s, step_id s)) ?n ?E
       (mark_step (step_claimId_in inp) (step_now_in inp)) (step_runs led) = Some (step_runs led', taken)"
    by (rule claim_result [OF ok c])
  let ?cs = "claim_candidates (\<lambda>s. (step_updatedAt s, step_id s)) ?n ?E (step_runs led)"
  have "taken = map (mark_step (step_claimId_in inp) (step_now_in inp)) ?cs"
    using r by (simp add: claim_rows_ok [OF d] step_lease.key_mark Let_def)
  moreover have "0 < ?n" using clamp_bounds [of 1 250 25 "step_limit_in inp"] by simp
  moreover have "select_where ?E (step_runs led) \<noteq> []" using s e by (auto simp: select_where_empty)
  then have "sort_key (\<lambda>s. (step_updatedAt s, step_id s)) (select_where ?E (step_runs led)) \<noteq> []"
    by (simp del: set_empty flip: set_empty)
  ultimately show ?thesis by (simp add: out claim_candidates_def)
qed

section \<open>Properties\<close>

text \<open>
  C17. The ledger refines the machine: whatever operation of the ledger succeeds, for every
  existing run it is a (possibly empty) sequence of steps of the abstract run machine over the
  forest of the plan the run was created with, and the plan of a run never changes.
  The host's \<open>normalize('NFKC')\<close> must obey the laws of Unicode in \<open>unicode_host\<close>.
\<close>

theorem ledger_refines_machine:
  assumes "(ledger_step h)\<^sup>*\<^sup>* empty_ledger led" and "unicode_host h" and "ledger_step h led led'"
    and "r \<in> set (runs led)"
  shows "\<exists>r' \<in> set (runs led'). \<exists>P. run_id r' = run_id r \<and> version_plan led r = Some P
    \<and> version_plan led' r' = Some P
    \<and> (machine_step (plan_parent P))\<^sup>*\<^sup>* (machine_of led r) (machine_of led' r')"
proof -
  have ok: "ledger_ok h led" by (rule ledger_reachable [OF assms(1,2)])
  obtain P where "version_plan led r = Some P" using ledger_plan [OF ok assms(4)] by blast
  then show ?thesis using ledger_step_ok [OF assms(3) ok assms(2)] assms(4) by (fastforce simp: ledger_sim_def)
qed

theorem ledger_refines_machine_witness:
  "\<exists>r' \<in> set (runs sample_led2). \<exists>P. run_id r' = run_id sample_run
     \<and> (machine_step (plan_parent P))\<^sup>*\<^sup>* (machine_of sample_led1 sample_run) (machine_of sample_led2 r')"
proof -
  have "sample_run \<in> set (runs sample_led1)" by (simp add: sample_led1_def)
  from ledger_refines_machine [OF sample_reachable(2) ascii_unicode run_claim [OF sample_claimed_step] this]
  show ?thesis by blast
qed

text \<open>
  C18. In every reachable ledger a step is only ready, running, succeeded or failed when the
  step that feeds it has succeeded; a run that succeeded has no step that did not succeed and
  was not skipped; a run that failed has a failed step and none left to do; and only the
  running steps carry a lease.
  The host's \<open>normalize('NFKC')\<close> must obey the laws of Unicode in \<open>unicode_host\<close>.
\<close>

theorem run_steps_ordered:
  assumes "(ledger_step h)\<^sup>*\<^sup>* empty_ledger led" and "unicode_host h"
    and "r \<in> set (runs led)" and "s \<in> set (step_runs led)" and "step_runId s = run_id r"
  shows "(run_status r = RunFailed \<longrightarrow> (\<exists>f \<in> set (step_runs led). step_runId f = run_id r \<and> step_status f = StepFailed))
    \<and> (\<exists>P. version_plan led r = Some P
    \<and> (\<forall>p. step_status s \<in> {StepReady, StepRunning, StepSucceeded, StepFailed} \<and> plan_parent P (step_id s) = Some p
         \<longrightarrow> map_option step_status (step_at led (run_id r) p) = Some StepSucceeded)
    \<and> (run_status r = RunSucceeded \<longrightarrow> step_status s = StepSucceeded \<or> step_status s = StepSkipped)
    \<and> (run_status r = RunFailed \<longrightarrow> \<not> active_status (step_status s))
    \<and> (step_status s = StepRunning \<longleftrightarrow> claimId s \<noteq> None))"
proof -
  have ok: "ledger_ok h led" by (rule ledger_reachable [OF assms(1,2)])
  obtain P where P: "version_plan led r = Some P" "machine_ok (plan_ids P) (plan_parent P) (machine_of led r)"
    using ledger_plan [OF ok assms(3)] by blast
  let ?f = "snd (machine_of led r)"
  have f: "?f (step_id s) = Some (step_status s)" by (rule step_status_at [OF ok assms(3-5)])
  have so: "step_ok (plan_parent P) ?f (step_id s) (step_status s)"
    and ro: "run_ok (run_status r) ?f"
    using P(2) f by (auto simp: machine_ok_def machine_of_def)
  have "\<forall>p. step_status s \<in> {StepReady, StepRunning, StepSucceeded, StepFailed} \<and> plan_parent P (step_id s) = Some p
      \<longrightarrow> map_option step_status (step_at led (run_id r) p) = Some StepSucceeded"
    using so by (auto simp: step_ok_def released_status_def machine_of_def)
  moreover have "run_status r = RunSucceeded \<longrightarrow> step_status s = StepSucceeded \<or> step_status s = StepSkipped"
  proof
    assume "run_status r = RunSucceeded"
    then have "?f (step_id s) \<in> {None, Some StepSucceeded, Some StepSkipped}" using ro by simp
    then show "step_status s = StepSucceeded \<or> step_status s = StepSkipped" using f by simp
  qed
  moreover have "run_status r = RunFailed \<longrightarrow> \<not> active_status (step_status s)"
    using ro f by (auto simp: some_active_def)
  moreover have "run_status r = RunFailed \<longrightarrow> (\<exists>f \<in> set (step_runs led). step_runId f = run_id r \<and> step_status f = StepFailed)"
  proof
    assume "run_status r = RunFailed"
    then obtain x where "?f x = Some StepFailed" using ro by auto
    then obtain q where "step_at led (run_id r) x = Some q" "step_status q = StepFailed" by (auto simp: machine_of_def)
    then show "\<exists>f \<in> set (step_runs led). step_runId f = run_id r \<and> step_status f = StepFailed"
      using row_at_Some [of step_key "step_runs led"] by (auto simp: step_key_def)
  qed
  moreover have "step_status s = StepRunning \<longleftrightarrow> claimId s \<noteq> None"
    using ledger_run_of [OF ok assms(4)] unfolding step_claim_state_def by blast
  ultimately show ?thesis using P(1) by blast
qed

theorem run_steps_ordered_witness:
  "step_status (sample_step ''f'' Logic_filter StepBlocked) = StepRunning
     \<longleftrightarrow> claimId (sample_step ''f'' Logic_filter StepBlocked) \<noteq> None"
proof -
  have r: "sample_run \<in> set (runs sample_led1)" by (simp add: sample_led1_def)
  have s: "sample_step ''f'' Logic_filter StepBlocked \<in> set (step_runs sample_led1)" by (simp add: sample_led1_def)
  have i: "step_runId (sample_step ''f'' Logic_filter StepBlocked) = run_id sample_run"
    by (simp add: sample_step_def sample_run_sel)
  show ?thesis using run_steps_ordered [OF sample_reachable(2) ascii_unicode r s i] by blast
qed

text \<open>
  C19. No run is ever stuck: in every reachable ledger, for a run that is not finished there
  is a time from which on any worker's claim scoped to the run succeeds and takes a step.
  The host's \<open>normalize('NFKC')\<close> must obey the laws of Unicode in \<open>unicode_host\<close>.
\<close>

theorem run_never_stuck:
  assumes "(ledger_step h)\<^sup>*\<^sup>* empty_ledger led" and "unicode_host h"
    and "r \<in> set (runs led)" and "open_run (run_status r)" and "run_id r \<noteq> []" "run_workspaceId r \<noteq> []"
    and "valid_claim_id c"
  shows "\<exists>T. \<forall>now \<ge> T. \<exists>led' out. claimSqliteWorkflowSteps
      \<lparr>step_claimId_in = c, step_leaseSeconds_in = lease, step_limit_in = limit, step_now_in = now,
       step_runId_in = Some (run_id r), step_workspaceId_in = Some (run_workspaceId r)\<rparr> led = Inr (led', out)
      \<and> out \<noteq> []"
proof -
  have ok: "ledger_ok h led" by (rule ledger_reachable [OF assms(1,2)])
  obtain P where P: "plan_ok P" "machine_ok (plan_ids P) (plan_parent P) (machine_of led r)"
    using ledger_plan [OF ok assms(3)] by blast
  have fo: "forest (plan_ids P) (plan_parent P)" using P(1) by (simp add: plan_ok_def)
  obtain sid where "snd (machine_of led r) sid = Some StepReady \<or> snd (machine_of led r) sid = Some StepRunning"
    using machine_progress [OF _ fo assms(4), of "snd (machine_of led r)"] P(2) by (auto simp: machine_of_def)
  then obtain s where at: "step_at led (run_id r) sid = Some s"
    and st: "step_status s = StepReady \<or> step_status s = StepRunning"
    by (auto simp: machine_of_def)
  note s = step_at_scope [OF ok assms(3) at]
  define T where "T = max (case nextAttemptAt s of None \<Rightarrow> 0 | Some t \<Rightarrow> t)
    (case claimedAt s of None \<Rightarrow> 0 | Some t \<Rightarrow> t + 3600001)"
  have "\<exists>led' out. claimSqliteWorkflowSteps
      \<lparr>step_claimId_in = c, step_leaseSeconds_in = lease, step_limit_in = limit, step_now_in = now,
       step_runId_in = Some (run_id r), step_workspaceId_in = Some (run_workspaceId r)\<rparr> led = Inr (led', out)
      \<and> out \<noteq> []" if now: "T \<le> now" for now
  proof -
    let ?inp = "\<lparr>step_claimId_in = c, step_leaseSeconds_in = lease, step_limit_in = limit, step_now_in = now,
       step_runId_in = Some (run_id r), step_workspaceId_in = Some (run_workspaceId r)\<rparr>"
    obtain led' out where c: "claimSqliteWorkflowSteps ?inp led = Inr (led', out)"
      using claim_valid [OF ok, of ?inp] assms(5-7) by (auto simp: truthy_def)
    have sb: "now - 3600000 \<le> stale_before now lease" using stale_before_bounds by blast
    have held: "step_status s = StepRunning \<Longrightarrow> claimedAt s \<noteq> None"
      using ledger_run_of [OF ok, of s] s by (auto simp: step_claim_state_def)
    have "workflowStepEligibility (Some (run_id r), Some (run_workspaceId r), runs led) now (stale_before now lease) s"
      using s st held now sb assms(3,4)
      by (auto simp: workflowStepEligibility_def truthy_def list_ex_iff T_def split: option.splits)
    then have "out \<noteq> []" using claim_takes [OF ok c, of s] s by simp
    then show ?thesis using c by blast
  qed
  then show ?thesis by blast
qed

theorem run_never_stuck_witness:
  "\<exists>now led' out. claimSqliteWorkflowSteps
      \<lparr>step_claimId_in = js ''c1'', step_leaseSeconds_in = None, step_limit_in = None, step_now_in = now,
       step_runId_in = Some (run_id sample_run), step_workspaceId_in = Some (run_workspaceId sample_run)\<rparr> sample_led1
      = Inr (led', out) \<and> out \<noteq> []"
proof -
  have r: "sample_run \<in> set (runs sample_led1)" by (simp add: sample_led1_def)
  have o: "open_run (run_status sample_run)" "run_id sample_run \<noteq> []" "run_workspaceId sample_run \<noteq> []"
    by (simp_all add: sample_run_sel open_run_def js_eval)
  from run_never_stuck [OF sample_reachable(2) ascii_unicode r o sample_step_claim_valid(1)]
  show ?thesis by blast
qed

text \<open>
  C20. A finished run is final: whatever happens to the ledger afterwards, its status and the
  statuses of its steps stay what they were.
  The host's \<open>normalize('NFKC')\<close> must obey the laws of Unicode in \<open>unicode_host\<close>.
\<close>

theorem finished_runs_final:
  assumes "(ledger_step h)\<^sup>*\<^sup>* empty_ledger led" and "unicode_host h" and "(ledger_step h)\<^sup>*\<^sup>* led led'"
    and "r \<in> set (runs led)" and "run_status r \<in> {RunSucceeded, RunFailed, RunCancelled}"
  shows "\<exists>r' \<in> set (runs led'). run_id r' = run_id r \<and> run_status r' = run_status r
    \<and> (\<lambda>sid. map_option step_status (step_at led' (run_id r) sid)) =
        (\<lambda>sid. map_option step_status (step_at led (run_id r) sid))"
proof -
  have ok: "ledger_ok h led" by (rule ledger_reachable [OF assms(1,2)])
  obtain P where P: "version_plan led r = Some P" "machine_ok (plan_ids P) (plan_parent P) (machine_of led r)"
    using ledger_plan [OF ok assms(4)] by blast
  obtain r' where r': "r' \<in> set (runs led')" "run_id r' = run_id r"
    "(machine_step (plan_parent P))\<^sup>*\<^sup>* (machine_of led r) (machine_of led' r')"
    using ledger_history [OF assms(3) ok assms(2)] assms(4) P(1) by (auto simp: ledger_sim_def)
  have "machine_of led' r' = machine_of led r"
    by (rule machine_final [OF r'(3) P(2)]) (use assms(5) in \<open>auto simp: machine_of_def open_run_def\<close>)
  then show ?thesis using r'(1,2) by (auto simp: machine_of_def)
qed

theorem finished_runs_final_witness:
  "\<exists>r' \<in> set (runs (sample_led3\<lparr>outbox := []\<rparr>)). run_status r' = RunFailed"
proof -
  let ?r = "failed_run (sample_ref ''c1'') 30 (js ''workflow_step_failed'') (js ''x'') (start_run 20 sample_run)"
  have r: "?r \<in> set (runs sample_led3)" by (simp add: sample_led3_def sample_led2_def)
  have f: "run_status ?r = RunFailed"
    by (simp add: failed_run_def start_run_def sample_run_sel sample_ref_def open_run_def fail_run_def)
  have l: "(ledger_step ascii_host)\<^sup>*\<^sup>* empty_ledger sample_led3"
    using sample_reachable(3) run_fail [OF sample_failed_step] by (rule rtranclp.rtrancl_into_rtrancl)
  have s: "(ledger_step ascii_host)\<^sup>*\<^sup>* sample_led3 (sample_led3\<lparr>outbox := []\<rparr>)"
    by (rule r_into_rtranclp, rule run_outbox)
  show ?thesis using finished_runs_final [OF l ascii_unicode s r] f by auto
qed

text \<open>
  A claim with a valid identifier and a consistent scope never fails in a reachable
  ledger: the conflict \<open>could not be acquired atomically\<close> is unreachable. It returns at most
  250 distinct steps.
\<close>

lemma step_claim_total:
  assumes "(ledger_step h)\<^sup>*\<^sup>* empty_ledger led" and "unicode_host h"
    and "valid_claim_id (step_claimId_in inp)" and "truthy (step_runId_in inp) = truthy (step_workspaceId_in inp)"
  shows "\<exists>led' out. claimSqliteWorkflowSteps inp led = Inr (led', out) \<and> length out \<le> 250
    \<and> distinct (map (\<lambda>s. (cs_runId s, cs_stepId s)) out)"
proof -
  have ok: "ledger_ok h led" by (rule ledger_reachable [OF assms(1,2)])
  have d: "distinct (map step_key (step_runs led))" using ok by (simp add: ledger_ok_def)
  obtain led' out where c: "claimSqliteWorkflowSteps inp led = Inr (led', out)"
    using claim_valid [OF ok assms(3,4)] by blast
  obtain taken where t: "distinct (map step_key taken)" "out = map claimed_step_of taken" and
    r: "claim_rows step_key (\<lambda>s. (step_updatedAt s, step_id s)) (nat (clamp 1 250 25 (step_limit_in inp)))
       (workflowStepEligibility (step_runId_in inp, step_workspaceId_in inp, runs led) (step_now_in inp)
         (stale_before (step_now_in inp) (step_leaseSeconds_in inp)))
       (mark_step (step_claimId_in inp) (step_now_in inp)) (step_runs led) = Some (step_runs led', taken)"
    by (rule claim_result [OF ok c])
  have "length taken \<le> nat (clamp 1 250 25 (step_limit_in inp))"
    by (rule step_lease.claim_effect(3) [OF d r])
  then have "length out \<le> 250" using clamp_bounds [of 1 250 25 "step_limit_in inp"]
    unfolding t(2) length_map by linarith
  moreover have "map (\<lambda>s. (cs_runId s, cs_stepId s)) out = map step_key taken"
    by (simp add: t(2) claimed_step_of_def step_key_def)
  ultimately show ?thesis using c t(1) by simp
qed

text \<open>Without a step under the lease it names, every operation on a step is refused.\<close>

lemma without_lease_refused:
  assumes none: "select_where (stepClaimScope ref) (step_runs led) = []"
  shows "(\<exists>e. getClaimedSqliteWorkflowStepExecution ref led = Inl e)
    \<and> (\<exists>e. completeSqliteWorkflowStep ref handles outp now led = Inl e)
    \<and> (\<exists>e. retrySqliteWorkflowStep ref code message retryAt now led = Inl e)
    \<and> (\<exists>e. failSqliteWorkflowStep ref code message now led = Inl e)"
proof (intro conjI)
  show "\<exists>e. getClaimedSqliteWorkflowStepExecution ref led = Inl e"
  proof (cases "assertClaimId (ref_claimId ref)")
    case (Inr u)
    have "concat (map (\<lambda>s. concat (map (\<lambda>r. if stepClaimScope ref s \<and> run_id r = step_runId s
           \<and> run_workspaceId r = step_workspaceId s \<and> run_status r = RunRunning
           then [(r, version_plan led r)] else []) (runs led))) (step_runs led)) = []"
      unfolding concat_eq_Nil_conv using none by (auto simp: select_where_empty)
    then show ?thesis
      by (simp only: getClaimedSqliteWorkflowStepExecution_def Inr and_then.simps Let_def list.map concat.simps append_Nil2)
        (simp add: first_row_def)
  qed (simp add: getClaimedSqliteWorkflowStepExecution_def)
  show "\<exists>e. completeSqliteWorkflowStep ref handles outp now led = Inl e"
  proof (cases "completeSqliteWorkflowStep ref handles outp now led")
    case (Inr p)
    obtain a b where "p = (a, b)" by (cases p)
    from Inr [unfolded this] show ?thesis by (rule complete_result) (use none in simp)
  qed simp
  show "\<exists>e. retrySqliteWorkflowStep ref code message retryAt now led = Inl e"
    using none by (cases "retrySqliteWorkflowStep ref code message retryAt now led")
      (auto simp: retrySqliteWorkflowStep_def and_then_eq_Inr)
  show "\<exists>e. failSqliteWorkflowStep ref code message now led = Inl e"
    using none by (cases "failSqliteWorkflowStep ref code message now led")
      (auto simp: failSqliteWorkflowStep_def and_then_eq_Inr)
qed

lemma set_active_targets:
  "set (active_targets step (set_from handles)) =
     {sid. \<exists>t \<in> set (outboundRoutes step). targetStepId t = sid \<and> route_sourceHandle t \<in> set handles}"
  by (auto simp: active_targets_def)

lemma set_inactive_targets:
  "set (inactive_targets step (set_from handles)) =
     {targetStepId t | t. t \<in> set (outboundRoutes step) \<and> route_sourceHandle t \<notin> set handles}"
  by (auto simp: inactive_targets_def)

text \<open>
  C21. Leases of steps are exclusive and fenced: while a lease is fresh no other claim takes the
  step, and after a claim every other holder is refused by reading, completing, rescheduling
  and failing the step.
  The host's \<open>normalize('NFKC')\<close> must obey the laws of Unicode in \<open>unicode_host\<close>.
\<close>

theorem step_leases_fenced:
  assumes "(ledger_step h)\<^sup>*\<^sup>* empty_ledger led" and "unicode_host h"
    and c: "claimSqliteWorkflowSteps inp led = Inr (led', out)"
    and c2: "claimSqliteWorkflowSteps inp' led' = Inr (led'', out')"
    and fresh: "stale_before (step_now_in inp') (step_leaseSeconds_in inp') \<le> step_now_in inp"
    and x: "x \<in> set out" and ref: "ref_runId ref = cs_runId x" "ref_stepId ref = cs_stepId x"
    and other: "ref_claimId ref \<noteq> step_claimId_in inp"
  shows "x \<notin> set out' \<and> (\<forall>y \<in> set out'. (cs_runId y, cs_stepId y) \<noteq> (cs_runId x, cs_stepId x))
    \<and> (\<exists>e. getClaimedSqliteWorkflowStepExecution ref led' = Inl e)
    \<and> (\<exists>e. completeSqliteWorkflowStep ref handles outp now led' = Inl e)
    \<and> (\<exists>e. retrySqliteWorkflowStep ref code message retryAt now led' = Inl e)
    \<and> (\<exists>e. failSqliteWorkflowStep ref code message now led' = Inl e)"
proof -
  have ok: "ledger_ok h led" by (rule ledger_reachable [OF assms(1,2)])
  have ok': "ledger_ok h led'" using ledger_claim [OF ok c] by simp
  have d: "distinct (map step_key (step_runs led))" using ok by (simp add: ledger_ok_def)
  obtain taken where t: "out = map claimed_step_of taken" and
    r: "claim_rows step_key (\<lambda>s. (step_updatedAt s, step_id s)) (nat (clamp 1 250 25 (step_limit_in inp)))
       (workflowStepEligibility (step_runId_in inp, step_workspaceId_in inp, runs led) (step_now_in inp)
         (stale_before (step_now_in inp) (step_leaseSeconds_in inp)))
       (mark_step (step_claimId_in inp) (step_now_in inp)) (step_runs led) = Some (step_runs led', taken)"
    by (rule claim_result [OF ok c])
  obtain taken' where t': "out' = map claimed_step_of taken'" and
    r': "claim_rows step_key (\<lambda>s. (step_updatedAt s, step_id s)) (nat (clamp 1 250 25 (step_limit_in inp')))
       (workflowStepEligibility (step_runId_in inp', step_workspaceId_in inp', runs led') (step_now_in inp')
         (stale_before (step_now_in inp') (step_leaseSeconds_in inp')))
       (mark_step (step_claimId_in inp') (step_now_in inp')) (step_runs led') = Some (step_runs led'', taken')"
    by (rule claim_result [OF ok' c2])
  have keys: "(cs_runId (claimed_step_of s), cs_stepId (claimed_step_of s)) = step_key s" for s
    by (simp add: claimed_step_of_def step_key_def)
  obtain s where s: "s \<in> set taken" "x = claimed_step_of s" using x t by auto
  have disj: "step_key ` set taken \<inter> step_key ` set taken' = {}"
    by (rule step_lease.claims_disjoint [OF d r r' fresh])
  have sep: "(cs_runId y, cs_stepId y) \<noteq> (cs_runId x, cs_stepId x)" if "y \<in> set out'" for y
  proof -
    note y = that
    obtain s' where s': "s' \<in> set taken'" "y = claimed_step_of s'" using y t' by auto
    then have "step_key s' \<noteq> step_key s" using disj s(1) by blast
    then show ?thesis unfolding s'(2) s(2) keys .
  qed
  have "select_where (\<lambda>q. step_key q = step_key s \<and> step_owned (ref_claimId ref) q) (step_runs led') = []"
    by (rule step_lease.fenced [OF d r _ other]) (use s(1) in simp)
  then have none: "select_where (stepClaimScope ref) (step_runs led') = []"
    using ref s(2) unfolding select_where_empty stepClaimScope_def
    by (auto simp: step_key_def claimed_step_of_def)
  have "\<forall>y \<in> set out'. (cs_runId y, cs_stepId y) \<noteq> (cs_runId x, cs_stepId x)" using sep by blast
  then show ?thesis using without_lease_refused [OF none] by blast
qed

theorem step_leases_fenced_witness:
  "\<exists>e. completeSqliteWorkflowStep (sample_ref ''c2'') [] None 40 sample_led2 = Inl e"
proof -
  let ?inp = "sample_claim_steps\<lparr>step_claimId_in := js ''c2'', step_now_in := 30\<rparr>"
  have v: "valid_claim_id (step_claimId_in ?inp)" by (simp add: sample_step_claim_valid)
  have "truthy (step_runId_in ?inp) = truthy (step_workspaceId_in ?inp)"
    by (simp add: sample_claim_steps_def truthy_def js_eval)
  from claim_valid [OF ledger_reachable [OF sample_reachable(3) ascii_unicode] v this]
  obtain led'' out' where c: "claimSqliteWorkflowSteps ?inp sample_led2 = Inr (led'', out')" by blast
  have f: "stale_before (step_now_in ?inp) (step_leaseSeconds_in ?inp) \<le> step_now_in sample_claim_steps"
    using stale_before_bounds [of 30 None] by (simp add: sample_claim_steps_def)
  let ?x = "claimed_step_of (mark_step (js ''c1'') 20 (sample_step ''t'' Trigger_table_rows StepReady))"
  have x: "?x \<in> set [?x]" by simp
  have ref: "ref_runId (sample_ref ''c2'') = cs_runId ?x" "ref_stepId (sample_ref ''c2'') = cs_stepId ?x"
    "ref_claimId (sample_ref ''c2'') \<noteq> step_claimId_in sample_claim_steps"
    by (simp_all add: sample_ref_def claimed_step_of_def mark_step_def sample_step_def sample_claim_steps_def js_eval)
  show ?thesis
    using step_leases_fenced [OF sample_reachable(2) ascii_unicode sample_claimed_step c f x ref] by blast
qed

text \<open>
  C22. What completing a step does: the step succeeds, its successors on the chosen outputs
  become ready, everything below the outputs not chosen is skipped, no other step changes,
  and the run is reported finished exactly when no step is left to do.
  The host's \<open>normalize('NFKC')\<close> must obey the laws of Unicode in \<open>unicode_host\<close>.
\<close>

theorem completion_effect:
  assumes "(ledger_step h)\<^sup>*\<^sup>* empty_ledger led" and "unicode_host h"
    and c: "completeSqliteWorkflowStep ref handles outp now led = Inr (led', progress)"
  shows "\<exists>P step. step \<in> set (steps P) \<and> stepId step = ref_stepId ref
    \<and> (\<exists>r \<in> set (runs led). run_id r = ref_runId ref \<and> version_plan led r = Some P \<and> run_status r = RunRunning)
    \<and> (\<forall>sid. map_option step_status (step_at led' (ref_runId ref) sid) =
         (let old = map_option step_status (step_at led (ref_runId ref) sid) in
          if sid = ref_stepId ref then Some StepSucceeded
          else if (\<exists>t \<in> set (outboundRoutes step). targetStepId t = sid \<and> route_sourceHandle t \<in> set handles)
                  \<and> old = Some StepBlocked then Some StepReady
          else if sid \<in> below (plan_parent P) {targetStepId t | t. t \<in> set (outboundRoutes step)
                    \<and> route_sourceHandle t \<notin> set handles} \<and> old = Some StepBlocked then Some StepSkipped
          else old))
    \<and> (progress = RunFinished \<longleftrightarrow> \<not> some_active (\<lambda>sid. map_option step_status (step_at led' (ref_runId ref) sid)))"
proof -
  have ok: "ledger_ok h led" by (rule ledger_reachable [OF assms(1,2)])
  obtain P step out' skipped rows where load: "loadRunExecution led (ref_runId ref) (ref_workspaceId ref) = Inr P"
    and step: "requirePlanStep P (ref_stepId ref) = Inr step"
    and held: "select_where (stepClaimScope ref) (step_runs led) \<noteq> []"
    and sk: "collectSkippedDescendants P (inactive_targets step (set_from handles))
       (active_targets step (set_from handles)) [] = Inr skipped"
    and rows: "rows = map (completed_row ref (active_targets step (set_from handles)) skipped out' now) (step_runs led)"
    and led': "led' = led\<lparr>step_runs := rows, runs := map (finish_if (remaining_steps (ref_runId ref) rows = 0) ref now) (runs led)\<rparr>"
    and prog: "progress = (if remaining_steps (ref_runId ref) rows = 0 then RunFinished else StillRunning)"
    by (rule complete_result [OF c])
  let ?F = "completed_row ref (active_targets step (set_from handles)) skipped out' now"
  have st: "step \<in> set (steps P)" "stepId step = ref_stepId ref" using requirePlanStep_Inr [OF step] by auto
  obtain r where r: "r \<in> set (runs led)" "run_id r = ref_runId ref" "version_plan led r = Some P" "run_status r = RunRunning"
    by (rule loadRunExecution_Inr [OF load])
  have key: "\<And>s. step_key (?F s) = step_key s" by (simp add: completed_row_keeps)
  have new: "map_option step_status (step_at led' (ref_runId ref) sid) =
      map_option (\<lambda>s. step_status (?F s)) (step_at led (ref_runId ref) sid)" for sid
    by (simp add: led' rows row_at_map [of "step_runs led" step_key ?F, OF key] option.map_comp o_def)
  have eff: "\<forall>sid. map_option step_status (step_at led' (ref_runId ref) sid) =
         (let old = map_option step_status (step_at led (ref_runId ref) sid) in
          if sid = ref_stepId ref then Some StepSucceeded
          else if (\<exists>t \<in> set (outboundRoutes step). targetStepId t = sid \<and> route_sourceHandle t \<in> set handles)
                  \<and> old = Some StepBlocked then Some StepReady
          else if sid \<in> below (plan_parent P) {targetStepId t | t. t \<in> set (outboundRoutes step)
                    \<and> route_sourceHandle t \<notin> set handles} \<and> old = Some StepBlocked then Some StepSkipped
          else old)"
    using fun_cong [OF completed_statuses(1) [OF ok load step held sk, of out' now]]
    unfolding new complete_steps_def set_active_targets set_inactive_targets Let_def by simp
  have "(0 < remaining_steps (ref_runId ref) rows) =
      some_active (\<lambda>sid. map_option step_status (step_at led' (ref_runId ref) sid))"
    unfolding new rows by (rule remaining_steps_active [OF ok key])
  then have "progress = RunFinished \<longleftrightarrow> \<not> some_active (\<lambda>sid. map_option step_status (step_at led' (ref_runId ref) sid))"
    by (auto simp: prog)
  then show ?thesis using st r eff by blast
qed

theorem completion_effect_witness:
  "\<exists>led' progress. completeSqliteWorkflowStep (sample_ref ''c1'') [js ''rows''] None 30 sample_led2 = Inr (led', progress)
     \<and> map_option step_status (step_at led' (js ''r1'') (js ''t'')) = Some StepSucceeded"
proof -
  obtain led' progress where c:
    "completeSqliteWorkflowStep (sample_ref ''c1'') [js ''rows''] None 30 sample_led2 = Inr (led', progress)"
    using sample_completes by blast
  have r: "ref_runId (sample_ref ''c1'') = js ''r1''" "ref_stepId (sample_ref ''c1'') = js ''t''"
    by (simp_all add: sample_ref_def)
  obtain P and step :: compiled_step where "\<forall>sid. map_option step_status (step_at led' (js ''r1'') sid) =
         (let old = map_option step_status (step_at sample_led2 (js ''r1'') sid) in
          if sid = js ''t'' then Some StepSucceeded
          else if (\<exists>t \<in> set (outboundRoutes step). targetStepId t = sid \<and> route_sourceHandle t \<in> set [js ''rows''])
                  \<and> old = Some StepBlocked then Some StepReady
          else if sid \<in> below (plan_parent P) {targetStepId t | t. t \<in> set (outboundRoutes step)
                    \<and> route_sourceHandle t \<notin> set [js ''rows'']} \<and> old = Some StepBlocked then Some StepSkipped
          else old)"
    using completion_effect [OF sample_reachable(3) ascii_unicode c, unfolded r] by (elim exE conjE) (rule that)
  then have "map_option step_status (step_at led' (js ''r1'') (js ''t'')) = Some StepSucceeded"
    by (simp add: Let_def)
  then show ?thesis using c by blast
qed

text \<open>
  C23. What failing a step does: the run and the step fail with the sanitised code and message,
  every other step still to do is cancelled and gives up its lease, and the steps that were
  done stay as they were.
  The host's \<open>normalize('NFKC')\<close> must obey the laws of Unicode in \<open>unicode_host\<close>.
\<close>

theorem failure_effect:
  assumes "(ledger_step h)\<^sup>*\<^sup>* empty_ledger led" and "unicode_host h"
    and c: "failSqliteWorkflowStep ref code message now led = Inr led'"
  shows "(\<exists>r \<in> set (runs led'). run_id r = ref_runId ref \<and> run_status r = RunFailed
        \<and> Inr (the (run_errorCode r)) = safeCode code \<and> Inr (the (run_errorMessage r)) = safeMessage message)
    \<and> (\<forall>sid. map_option step_status (step_at led' (ref_runId ref) sid) =
         (if sid = ref_stepId ref then Some StepFailed
          else map_option (\<lambda>s. if active_status (step_status s) then StepCancelled else step_status s)
                 (step_at led (ref_runId ref) sid)))
    \<and> (\<forall>s \<in> set (step_runs led'). step_runId s = ref_runId ref \<longrightarrow> claimId s = None)"
proof -
  have ok: "ledger_ok h led" by (rule ledger_reachable [OF assms(1,2)])
  obtain ec em where safe: "safeCode code = Inr ec" "safeMessage message = Inr em"
    and held: "select_where (stepClaimScope ref) (step_runs led) \<noteq> []"
    and led': "led' = led\<lparr>step_runs := map (failed_row ref now ec em) (step_runs led),
      runs := map (failed_run ref now ec em) (runs led)\<rparr>"
    by (rule fail_result [OF c])
  obtain r where r: "r \<in> set (runs led)" "run_id r = ref_runId ref" "run_status r = RunRunning"
    by (rule run_of_held [OF ok held])
  note fs = failed_statuses(1) [OF ok held r(1,2), of now ec em] failed_statuses(2) [OF ok held r(1,2)]
  let ?F = "failed_row ref now ec em"
  have key: "\<And>s. step_key (?F s) = step_key s"
    by (simp add: failed_row_def Let_def fail_row_def cancel_row_def step_key_def)
  have new: "map_option step_status (step_at led' (ref_runId ref) sid) =
      map_option (\<lambda>s. step_status (?F s)) (step_at led (ref_runId ref) sid)" for sid
    by (simp add: led' row_at_map [of "step_runs led" step_key ?F, OF key] option.map_comp o_def)
  have ok': "ledger_ok h led'" using ledger_fail [OF ok c] by simp
  have "\<exists>r \<in> set (runs led'). run_id r = ref_runId ref \<and> run_status r = RunFailed
        \<and> Inr (the (run_errorCode r)) = safeCode code \<and> Inr (the (run_errorMessage r)) = safeMessage message"
    using r fs(2) by (intro bexI [of _ "failed_run ref now ec em r"])
      (simp_all add: led' failed_run_def fail_run_def open_run_def safe)
  moreover have st: "map_option step_status (step_at led' (ref_runId ref) sid) =
         (if sid = ref_stepId ref then Some StepFailed
          else map_option (\<lambda>s. if active_status (step_status s) then StepCancelled else step_status s)
                 (step_at led (ref_runId ref) sid))" for sid
    using fun_cong [OF fs(1), of sid] unfolding new
    by (cases "step_at led (ref_runId ref) sid") (auto simp: fail_steps_def split: if_split_asm)
  moreover have "claimId s = None" if s: "s \<in> set (step_runs led')" "step_runId s = ref_runId ref" for s
  proof -
    have "step_status s \<noteq> StepRunning"
      using st [of "step_id s"] ledger_step_row [OF ok' s(1)] s(2)
      by (cases "step_at led (ref_runId ref) (step_id s)") (auto simp: active_status_def split: if_split_asm)
    then show ?thesis using ledger_run_of [OF ok' s(1)] by (simp add: step_claim_state_def)
  qed
  ultimately show ?thesis by blast
qed

theorem failure_effect_witness:
  "map_option step_status (step_at sample_led3 (js ''r1'') (js ''t'')) = Some StepFailed"
  using failure_effect [OF sample_reachable(3) ascii_unicode sample_failed_step] by (simp add: sample_ref_def)

end
