(* ===== verification/Formulas.thy ===== *)
theory Formulas
  imports CellValues
begin

text \<open>
  Formula columns (\<open>packages/domain/src/formulas.ts\<close>): expressions, their limits and types, and
  their evaluation on the cells of a row. A definition error is a value of the sum.
\<close>

section \<open>Expressions\<close>

datatype formula_function =
    Fn_add | Fn_coalesce | Fn_concat | Fn_divide | Fn_equals | Fn_if | Fn_lower | Fn_multiply
  | Fn_subtract | Fn_trim | Fn_upper

datatype formula_expression =
    Column jsstr
  | Literal cell_value
  | Call formula_function "formula_expression list"

text \<open>\<open>FormulaDefinitionError\<close>, by its message.\<close>

datatype definition_error =
    TooDeep
  | TooManyNodes
  | ColumnUnavailable jsstr
  | WrongArity formula_function
  | WrongType formula_function value_type
  | CoalesceTypes
  | IfCondition
  | IfBranches
  | NeverAValue

fun formulaExpressionSchema :: "host \<Rightarrow> formula_expression \<Rightarrow> bool" where
  "formulaExpressionSchema h (Column c) = valid_uuid h c"
| "formulaExpressionSchema h (Literal v) = valid_cell_value h v"
| "formulaExpressionSchema h (Call f args) =
     (1 \<le> length args \<and> length args \<le> 16 \<and> list_all (formulaExpressionSchema h) args)"

definition MAXIMUM_FORMULA_DEPTH :: nat where
  "MAXIMUM_FORMULA_DEPTH = 12"

definition MAXIMUM_FORMULA_NODES :: nat where
  "MAXIMUM_FORMULA_NODES = 128"

text \<open>The visits of \<open>walkFormula\<close>, in order, with their depths.\<close>

fun walkFormula :: "nat \<Rightarrow> formula_expression \<Rightarrow> (formula_expression \<times> nat) list" where
  "walkFormula depth (Call f args) =
     (Call f args, depth) # concat (map (walkFormula (depth + 1)) args)"
| "walkFormula depth e = [(e, depth)]"

definition collectFormulaColumnIds :: "formula_expression \<Rightarrow> jsstr list" where
  "collectFormulaColumnIds e = set_from [c. (Column c, _) \<leftarrow> walkFormula 1 e]"

section \<open>Types\<close>

definition exact_arity :: "formula_function \<Rightarrow> nat option" where
  "exact_arity f =
     (case f of
        Fn_divide \<Rightarrow> Some 2 | Fn_equals \<Rightarrow> Some 2 | Fn_if \<Rightarrow> Some 3 | Fn_lower \<Rightarrow> Some 1 | Fn_multiply \<Rightarrow> Some 2
      | Fn_subtract \<Rightarrow> Some 2 | Fn_trim \<Rightarrow> Some 1 | Fn_upper \<Rightarrow> Some 1 | _ \<Rightarrow> None)"

definition assertArity :: "formula_function \<Rightarrow> nat \<Rightarrow> definition_error + unit" where
  "assertArity f count =
     (if exact_arity f \<noteq> None \<and> exact_arity f \<noteq> Some count then Inl (WrongArity f)
      else if f \<in> {Fn_add, Fn_coalesce, Fn_concat} \<and> count < 1 then Inl (WrongArity f)
      else Inr ())"

definition assertTypes :: "formula_function \<Rightarrow> value_type list \<Rightarrow> value_type list \<Rightarrow> definition_error + unit" where
  "assertTypes f actual allowed =
     (case find (\<lambda>t. t \<notin> set allowed) actual of None \<Rightarrow> Inr () | Some t \<Rightarrow> Inl (WrongType f t))"

text \<open>The single type among those that are not \<open>empty\<close>, if they agree.\<close>

definition common_type :: "definition_error \<Rightarrow> value_type list \<Rightarrow> definition_error + value_type" where
  "common_type err types =
     (case set_from (filter (\<lambda>t. t \<noteq> TEmpty) types) of
        [] \<Rightarrow> Inr TEmpty
      | [t] \<Rightarrow> Inr t
      | _ \<Rightarrow> Inl err)"

definition call_type :: "formula_function \<Rightarrow> value_type list \<Rightarrow> definition_error + value_type" where
  "call_type f types =
     (case f of
        Fn_concat \<Rightarrow> Inr TText
      | Fn_lower \<Rightarrow> and_then (assertTypes f types [TText, TEmpty]) (\<lambda>_. Inr TText)
      | Fn_upper \<Rightarrow> and_then (assertTypes f types [TText, TEmpty]) (\<lambda>_. Inr TText)
      | Fn_trim \<Rightarrow> and_then (assertTypes f types [TText, TEmpty]) (\<lambda>_. Inr TText)
      | Fn_equals \<Rightarrow> Inr TBoolean
      | Fn_coalesce \<Rightarrow> common_type CoalesceTypes types
      | Fn_if \<Rightarrow> (case types of
                   TBoolean # branches \<Rightarrow> common_type IfBranches branches
                 | _ \<Rightarrow> Inl IfCondition)
      | _ \<Rightarrow> and_then (assertTypes f types [TNumber, TEmpty]) (\<lambda>_. Inr TNumber))"

fun inferType :: "(jsstr \<Rightarrow> value_type option) \<Rightarrow> formula_expression \<Rightarrow> definition_error + value_type" where
  "inferType types (Column c) = (case types c of None \<Rightarrow> Inl (ColumnUnavailable c) | Some t \<Rightarrow> Inr t)"
| "inferType types (Literal v) = Inr (type_of v)"
| "inferType types (Call f args) =
     and_then (map_result (inferType types) args) (\<lambda>ts.
     and_then (assertArity f (length ts)) (\<lambda>_. call_type f ts))"

text \<open>The visit of the validation counts the nodes and stops at the first limit it meets.\<close>

fun check_limits :: "nat \<Rightarrow> (formula_expression \<times> nat) list \<Rightarrow> definition_error + unit" where
  "check_limits nodeCount [] = Inr ()"
| "check_limits nodeCount ((_, depth) # visits) =
     (if MAXIMUM_FORMULA_DEPTH < depth then Inl TooDeep
      else if MAXIMUM_FORMULA_NODES < nodeCount + 1 then Inl TooManyNodes
      else check_limits (nodeCount + 1) visits)"

definition validateFormulaDefinition :: "formula_expression \<Rightarrow> (jsstr \<Rightarrow> value_type option)
    \<Rightarrow> definition_error + value_type" where
  "validateFormulaDefinition e types =
     and_then (check_limits 0 (walkFormula 1 e)) (\<lambda>_.
     and_then (inferType types e) (\<lambda>t. if t = TEmpty then Inl NeverAValue else Inr t))"

section \<open>Evaluation\<close>

fun cellValueToText :: "cell_value \<Rightarrow> jsstr" where
  "cellValueToText CEmpty = []"
| "cellValueToText (CText s) = s"
| "cellValueToText (CNumber x) = number_to_string x"
| "cellValueToText (CBoolean b) = bool_to_string b"
| "cellValueToText (CTimestamp t) = t"
| "cellValueToText (CJson v) = stringify v"

definition number_of :: "cell_value \<Rightarrow> jsnum" where
  "number_of v = (case v of CNumber x \<Rightarrow> x | _ \<Rightarrow> NaN)"

definition arithmetic :: "formula_function \<Rightarrow> jsnum \<Rightarrow> jsnum \<Rightarrow> jsnum" where
  "arithmetic f current v =
     (case f of
        Fn_add \<Rightarrow> num_add current v
      | Fn_subtract \<Rightarrow> num_sub current v
      | Fn_multiply \<Rightarrow> num_mul current v
      | Fn_divide \<Rightarrow> (if v = Fin 0 then NaN else num_div current v)
      | _ \<Rightarrow> current)"

definition evaluate_arithmetic :: "formula_function \<Rightarrow> cell_value list \<Rightarrow> cell_value" where
  "evaluate_arithmetic f args =
     (if list_ex (\<lambda>v. v = CEmpty) args then CEmpty
      else let numbers = map number_of args
           in if list_ex (\<lambda>x. \<not> finite_num x) numbers then CEmpty
              else let result = (case numbers of [] \<Rightarrow> Fin 0 | first # rest \<Rightarrow> foldl (arithmetic f) first rest)
                   in if finite_num result then CNumber result else CEmpty)"

definition evaluate_text :: "host \<Rightarrow> formula_function \<Rightarrow> cell_value list \<Rightarrow> cell_value" where
  "evaluate_text h f args =
     (case args of
        [] \<Rightarrow> CEmpty
      | v # _ \<Rightarrow>
          if v = CEmpty then CEmpty
          else CText (case f of
                        Fn_lower \<Rightarrow> toLocaleLowerCase h (cellValueToText v)
                      | Fn_upper \<Rightarrow> toLocaleUpperCase h (cellValueToText v)
                      | _ \<Rightarrow> trim (cellValueToText v)))"

definition or_empty :: "cell_value list \<Rightarrow> cell_value" where
  "or_empty vs = (case vs of [] \<Rightarrow> CEmpty | v # _ \<Rightarrow> v)"

definition evaluateCall :: "host \<Rightarrow> formula_function \<Rightarrow> cell_value list \<Rightarrow> cell_value" where
  "evaluateCall h f args =
     (case f of
        Fn_concat \<Rightarrow> CText (concat (map cellValueToText args))
      | Fn_lower \<Rightarrow> evaluate_text h f args
      | Fn_upper \<Rightarrow> evaluate_text h f args
      | Fn_trim \<Rightarrow> evaluate_text h f args
      | Fn_coalesce \<Rightarrow> (case find (\<lambda>v. v \<noteq> CEmpty) args of None \<Rightarrow> CEmpty | Some v \<Rightarrow> v)
      | Fn_equals \<Rightarrow>
          (case args of
             left # right # _ \<Rightarrow> CBoolean (type_of left = type_of right
               \<and> stringify (payload_json left) = stringify (payload_json right))
           | _ \<Rightarrow> CBoolean False)
      | Fn_if \<Rightarrow>
          (case args of
             CBoolean condition # branches \<Rightarrow> or_empty (if condition then branches else drop 1 branches)
           | _ \<Rightarrow> CEmpty)
      | _ \<Rightarrow> evaluate_arithmetic f args)"

fun evaluateFormula :: "host \<Rightarrow> (jsstr \<Rightarrow> cell_value option) \<Rightarrow> formula_expression \<Rightarrow> cell_value" where
  "evaluateFormula h values (Column c) = (case values c of None \<Rightarrow> CEmpty | Some v \<Rightarrow> v)"
| "evaluateFormula h values (Literal v) = v"
| "evaluateFormula h values (Call f args) = evaluateCall h f (map (evaluateFormula h values) args)"

section \<open>Type soundness\<close>

text \<open>A value of a type: empty, or of that type and valid as a cell, a number being a binary64.\<close>

definition has_type :: "host \<Rightarrow> cell_value \<Rightarrow> value_type \<Rightarrow> bool" where
  "has_type h v t \<longleftrightarrow> v = CEmpty \<or> (type_of v = t \<and> valid_cell_value h v \<and> valid_num (number_of v))"

lemma has_type_empty [simp]: "has_type h CEmpty t"
  by (simp add: has_type_def)

lemma has_type_TEmpty: "has_type h v TEmpty \<longleftrightarrow> v = CEmpty"
  by (auto simp: has_type_def)

lemma has_type_text [simp]: "has_type h (CText s) t \<longleftrightarrow> t = TText"
  by (auto simp: has_type_def number_of_def)

lemma has_type_boolean [simp]: "has_type h (CBoolean b) t \<longleftrightarrow> t = TBoolean"
  by (auto simp: has_type_def number_of_def)

lemma assertTypes_Inr: "assertTypes f ts allowed = Inr u \<longleftrightarrow> set ts \<subseteq> set allowed"
  unfolding assertTypes_def by (induction ts) (auto split: option.splits)

lemma common_type_Inr:
  assumes "common_type err ts = Inr t" and "u \<in> set ts"
  shows "u = TEmpty \<or> u = t"
proof (cases "u = TEmpty")
  case False
  let ?s = "set_from (filter (\<lambda>t. t \<noteq> TEmpty) ts)"
  have u: "u \<in> set ?s" using assms(2) False by simp
  show ?thesis
  proof (cases ?s)
    case (Cons x xs)
    then have "xs = []" "x = t" using assms(1) by (auto simp: common_type_def split: list.splits)
    then show ?thesis using u unfolding Cons by simp
  qed (use u in simp)
qed simp

lemma has_type_common: "common_type err ts = Inr t \<Longrightarrow> u \<in> set ts \<Longrightarrow> has_type h v u \<Longrightarrow> has_type h v t"
  using common_type_Inr [of err ts t u] by (auto simp: has_type_TEmpty)

lemma arithmetic_valid: "valid_num x \<Longrightarrow> valid_num y \<Longrightarrow> valid_num (arithmetic f x y)"
  by (cases f) (simp_all add: arithmetic_def valid_num_add valid_num_sub valid_num_mul valid_num_div)

lemma fold_arithmetic_valid:
  "valid_num x \<Longrightarrow> (\<And>y. y \<in> set ys \<Longrightarrow> valid_num y) \<Longrightarrow> valid_num (foldl (arithmetic f) x ys)"
  by (induction ys arbitrary: x) (simp_all add: arithmetic_valid)

lemma evaluate_arithmetic_type:
  assumes "\<And>v. v \<in> set vs \<Longrightarrow> valid_num (number_of v)"
  shows "has_type h (evaluate_arithmetic f vs) TNumber"
proof (cases "evaluate_arithmetic f vs = CEmpty")
  case False
  let ?r = "case map number_of vs of [] \<Rightarrow> Fin 0 | first # rest \<Rightarrow> foldl (arithmetic f) first rest"
  have r: "evaluate_arithmetic f vs = CNumber ?r" "finite_num ?r"
    using False by (auto simp: evaluate_arithmetic_def Let_def split: if_splits)
  have "valid_num ?r"
    using assms by (cases vs) (auto intro!: fold_arithmetic_valid)
  then show ?thesis using r by (simp add: has_type_def number_of_def)
qed simp

lemma has_type_number: "has_type h v t \<Longrightarrow> valid_num (number_of v)"
  by (auto simp: has_type_def number_of_def)

lemma evaluate_text_type: "has_type h (evaluate_text h f vs) TText"
  by (simp add: evaluate_text_def split: list.split)

lemma list_all2_mem: "list_all2 R xs ys \<Longrightarrow> x \<in> set xs \<Longrightarrow> \<exists>y \<in> set ys. R x y"
  by (induction rule: list_all2_induct) auto

lemma evaluateCall_type:
  assumes ts: "list_all2 (has_type h) vs ts" and arity: "assertArity f (length ts) = Inr ()"
    and t: "call_type f ts = Inr t"
  shows "has_type h (evaluateCall h f vs) t"
proof -
  have num: "valid_num (number_of v)" if "v \<in> set vs" for v
    using list_all2_mem [OF ts that] has_type_number by blast
  have arith: "has_type h (evaluate_arithmetic g vs) TNumber" for g
    by (rule evaluate_arithmetic_type [OF num])
  have mem: "\<exists>u \<in> set ts. has_type h v u" if "v \<in> set vs" for v
    using list_all2_mem [OF ts that] .
  show ?thesis
  proof (cases f)
    case Fn_coalesce
    then have c: "common_type CoalesceTypes ts = Inr t" using t by (simp add: call_type_def)
    show ?thesis
    proof (cases "find (\<lambda>v. v \<noteq> CEmpty) vs")
      case (Some v)
      then have "v \<in> set vs" by (auto simp: find_Some_iff)
      then obtain u where "u \<in> set ts" "has_type h v u" using mem by blast
      then have "has_type h v t" by (rule has_type_common [OF c])
      then show ?thesis using Fn_coalesce Some by (simp add: evaluateCall_def)
    qed (use Fn_coalesce in \<open>simp add: evaluateCall_def\<close>)
  next
    case Fn_if
    then obtain bs where bs: "ts = TBoolean # bs" "common_type IfBranches bs = Inr t"
      using t by (auto simp: call_type_def split: list.splits value_type.splits)
    then obtain c ws where ws: "vs = c # ws" "has_type h c TBoolean" "list_all2 (has_type h) ws bs"
      using ts by (auto simp: list_all2_Cons2)
    have branch: "has_type h v t" if "v \<in> set ws" for v
    proof -
      note v = that
      obtain u where "u \<in> set bs" "has_type h v u"
        using list_all2_mem [OF ws(3) v] by blast
      then show ?thesis by (rule has_type_common [OF bs(2)])
    qed
    have "has_type h (or_empty us) t" if "set us \<subseteq> set ws" for us
      using that branch by (auto simp: or_empty_def split: list.split)
    moreover have "set (drop 1 ws) \<subseteq> set ws" by (rule set_drop_subset)
    ultimately show ?thesis using Fn_if ws(1) by (cases c) (simp_all add: evaluateCall_def)
  qed (use t arith evaluate_text_type in \<open>auto simp: call_type_def evaluateCall_def and_then_eq_Inr split: list.split\<close>)
qed

text \<open>Number literals hold binary64 values.\<close>

fun number_literals_ok :: "formula_expression \<Rightarrow> bool" where
  "number_literals_ok (Literal v) = valid_num (number_of v)"
| "number_literals_ok (Column c) = True"
| "number_literals_ok (Call f args) = list_all number_literals_ok args"

definition cells_typed :: "host \<Rightarrow> (jsstr \<Rightarrow> value_type option) \<Rightarrow> (jsstr \<Rightarrow> cell_value option) \<Rightarrow> bool" where
  "cells_typed h types values \<longleftrightarrow>
     (\<forall>c t v. types c = Some t \<longrightarrow> values c = Some v \<longrightarrow> has_type h v t)"

lemma map_result_all2: "map_result g xs = Inr ys \<Longrightarrow> (\<And>x y. x \<in> set xs \<Longrightarrow> g x = Inr y \<Longrightarrow> R (f x) y) \<Longrightarrow>
    list_all2 R (map f xs) ys"
  by (induction xs arbitrary: ys) (auto simp: and_then_eq_Inr)

lemma evaluate_type:
  assumes "cells_typed h types values"
  shows "inferType types e = Inr t \<Longrightarrow> formulaExpressionSchema h e \<Longrightarrow> number_literals_ok e \<Longrightarrow>
    has_type h (evaluateFormula h values e) t"
proof (induction e arbitrary: t)
  case (Column c)
  then show ?case using assms by (auto simp: cells_typed_def split: option.splits)
next
  case (Literal v)
  then show ?case by (simp add: has_type_def)
next
  case (Call f args)
  obtain ts where ts: "map_result (inferType types) args = Inr ts" "assertArity f (length ts) = Inr ()"
    "call_type f ts = Inr t"
    using Call.prems(1) by (auto simp: and_then_eq_Inr)
  have "list_all2 (has_type h) (map (evaluateFormula h values) args) ts"
    by (rule map_result_all2 [OF ts(1)]) (use Call in \<open>auto simp: list_all_iff\<close>)
  then show ?case using evaluateCall_type ts(2,3) by simp
qed

section \<open>Dependencies and limits\<close>

lemma set_walk_call: "set (walkFormula d (Call f args)) =
    insert (Call f args, d) (\<Union>a \<in> set args. set (walkFormula (d + 1) a))"
  by auto

lemma walk_depths: "fst ` set (walkFormula d e) = fst ` set (walkFormula d' e)"
proof (induction e arbitrary: d d')
  case (Call f args)
  have "fst ` set (walkFormula (d + 1) a) = fst ` set (walkFormula (d' + 1) a)" if "a \<in> set args" for a
    by (rule Call.IH [OF that])
  then show ?case by (simp only: set_walk_call image_insert fst_conv image_UN) simp
qed simp_all

lemma set_collect: "set (collectFormulaColumnIds e) = {c. Column c \<in> fst ` set (walkFormula d e)}"
proof -
  have "set (collectFormulaColumnIds e) = {c. Column c \<in> fst ` set (walkFormula 1 e)}"
    by (force simp: collectFormulaColumnIds_def split: formula_expression.splits)
  then show ?thesis using walk_depths [of 1 e d] by simp
qed

lemma collect_arg: "a \<in> set args \<Longrightarrow> set (collectFormulaColumnIds a) \<subseteq> set (collectFormulaColumnIds (Call f args))"
  unfolding set_collect [of a 2] set_collect [of "Call f args" 1] set_walk_call by (auto simp: numeral_2_eq_2)

lemma evaluate_cong:
  "(\<And>c. c \<in> set (collectFormulaColumnIds e) \<Longrightarrow> values c = values' c) \<Longrightarrow>
     evaluateFormula h values e = evaluateFormula h values' e"
proof (induction e)
  case (Column c)
  then show ?case by (simp add: collectFormulaColumnIds_def)
next
  case (Call f args)
  have "evaluateFormula h values a = evaluateFormula h values' a" if "a \<in> set args" for a
    using Call.IH [OF that] Call.prems collect_arg [OF that] by blast
  then have "map (evaluateFormula h values) args = map (evaluateFormula h values') args" by simp
  then show ?case by (simp only: evaluateFormula.simps)
qed simp

lemma check_limits_Inr:
  "check_limits n visits = Inr () \<longleftrightarrow>
     (\<forall>(e, d) \<in> set visits. d \<le> MAXIMUM_FORMULA_DEPTH) \<and> (visits = [] \<or> n + length visits \<le> MAXIMUM_FORMULA_NODES)"
proof (induction visits arbitrary: n)
  case (Cons v vs)
  obtain e d where v: "v = (e, d)" by (cases v)
  show ?case unfolding v using Cons.IH [of "n + 1"] by (cases vs) auto
qed simp

section \<open>Properties\<close>

text \<open>
  C24. Types are sound: when the validation of a formula returns a type, evaluating the formula
  on cells of the types of their columns yields the empty value or a valid value of that type;
  no number it yields is \<open>NaN\<close> or infinite.
\<close>

theorem formula_type_sound:
  assumes "validateFormulaDefinition e types = Inr t" and "formulaExpressionSchema h e"
    and "number_literals_ok e" and "cells_typed h types values"
  shows "t \<noteq> TEmpty \<and> has_type h (evaluateFormula h values e) t"
proof -
  have "inferType types e = Inr t" "t \<noteq> TEmpty"
    using assms(1) by (auto simp: validateFormulaDefinition_def and_then_eq_Inr split: if_splits)
  then show ?thesis using evaluate_type [OF assms(4) _ assms(2,3)] by simp
qed

definition sample_formula :: formula_expression where
  "sample_formula = Call Fn_if [Call Fn_equals [Column (js ''a''), Literal CEmpty],
     Literal (CNumber (Fin 0)), Call Fn_add [Column (js ''a''), Literal (CNumber (Fin 1))]]"

definition sample_types :: "jsstr \<Rightarrow> value_type option" where
  "sample_types c = (if c = js ''a'' then Some TNumber else None)"

definition sample_cells :: "jsstr \<Rightarrow> cell_value option" where
  "sample_cells c = (if c = js ''a'' then Some (CNumber (Fin 2)) else None)"

lemma sample_formula_valid: "validateFormulaDefinition sample_formula sample_types = Inr TNumber"
  by code_simp

theorem formula_type_sound_witness:
  "has_type ascii_host (evaluateFormula ascii_host sample_cells sample_formula) TNumber"
proof -
  have d: "is_double 2" "is_double 1" using is_double_of_int [of 2] is_double_of_int [of 1] by simp_all
  have "formulaExpressionSchema ascii_host sample_formula"
    by (simp add: sample_formula_def ascii_host_def js_eval)
  moreover have "number_literals_ok sample_formula"
    using d by (simp add: sample_formula_def number_of_def)
  moreover have "cells_typed ascii_host sample_types sample_cells"
    using d by (auto simp: cells_typed_def sample_types_def sample_cells_def has_type_def number_of_def split: if_splits)
  ultimately show ?thesis using formula_type_sound [OF sample_formula_valid] by blast
qed

text \<open>
  The validation accepts exactly the well-typed formulas of at most 128 nodes and 12 levels
  whose type is not \<open>empty\<close>, and returns their type.
\<close>

lemma formula_accepted_iff:
  "validateFormulaDefinition e types = Inr t \<longleftrightarrow>
     length (walkFormula 1 e) \<le> 128 \<and> (\<forall>(n, d) \<in> set (walkFormula 1 e). d \<le> 12)
     \<and> inferType types e = Inr t \<and> t \<noteq> TEmpty"
proof -
  have ne: "walkFormula 1 e \<noteq> []" by (cases e) simp_all
  have "validateFormulaDefinition e types = Inr t \<longleftrightarrow>
      check_limits 0 (walkFormula 1 e) = Inr () \<and> inferType types e = Inr t \<and> t \<noteq> TEmpty"
    by (auto simp: validateFormulaDefinition_def and_then_eq_Inr)
  then show ?thesis
    using ne by (auto simp: check_limits_Inr MAXIMUM_FORMULA_DEPTH_def MAXIMUM_FORMULA_NODES_def)
qed

end
