(* ===== verification/FormulaLanguage.thy ===== *)
theory FormulaLanguage
  imports Formulas
begin

text \<open>
  The source language of formulas (\<open>packages/domain/src/formula-language.ts\<close>): the
  recursive-descent parser and the formatter. The parser's state is the text that is left and
  the number of nodes built; the position that error messages carry is not kept.
\<close>

section \<open>Columns and errors\<close>

record source_column =
  column_id :: jsstr
  column_name :: jsstr
  column_type :: value_type

datatype source_error =
    SourceTooLong
  | SyntaxError
  | SourceTooDeep
  | SourceTooManyNodes
  | AmbiguousColumn jsstr
  | AmbiguousCapitals jsstr
  | NoSuchColumn jsstr
  | UnknownFunction jsstr
  | BadStringLiteral
  | BadJsonLiteral
  | BadTimestampLiteral
  | OutOfFuel

definition MAXIMUM_FORMULA_SOURCE_CHARACTERS :: nat where
  "MAXIMUM_FORMULA_SOURCE_CHARACTERS = 16384"

definition normalizeFormulaColumnReference :: "host \<Rightarrow> jsstr \<Rightarrow> jsstr" where
  "normalizeFormulaColumnReference h name = toLocaleLowerCaseEnUS h (nfkc h name)"

definition formulaColumnReferenceMatches :: "host \<Rightarrow> jsstr \<Rightarrow> jsstr \<Rightarrow> bool" where
  "formulaColumnReferenceMatches h requestedName candidateName \<longleftrightarrow>
     normalizeFormulaColumnReference h requestedName = normalizeFormulaColumnReference h candidateName"

definition resolveColumn :: "host \<Rightarrow> source_column list \<Rightarrow> jsstr \<Rightarrow> source_error + source_column" where
  "resolveColumn h columns name =
     (case filter (\<lambda>c. column_name c = name) columns of
        [c] \<Rightarrow> Inr c
      | _ # _ # _ \<Rightarrow> Inl (AmbiguousColumn name)
      | [] \<Rightarrow>
          (case filter (\<lambda>c. formulaColumnReferenceMatches h name (column_name c)) columns of
             [c] \<Rightarrow> Inr c
           | _ # _ # _ \<Rightarrow> Inl (AmbiguousCapitals name)
           | [] \<Rightarrow> Inl (NoSuchColumn name)))"

section \<open>Tokens\<close>

definition function_name :: "formula_function \<Rightarrow> jsstr" where
  "function_name f =
     (case f of
        Fn_add \<Rightarrow> js ''add'' | Fn_coalesce \<Rightarrow> js ''coalesce'' | Fn_concat \<Rightarrow> js ''concat''
      | Fn_divide \<Rightarrow> js ''divide'' | Fn_equals \<Rightarrow> js ''equals'' | Fn_if \<Rightarrow> js ''if''
      | Fn_lower \<Rightarrow> js ''lower'' | Fn_multiply \<Rightarrow> js ''multiply'' | Fn_subtract \<Rightarrow> js ''subtract''
      | Fn_trim \<Rightarrow> js ''trim'' | Fn_upper \<Rightarrow> js ''upper'')"

definition formula_functions :: "formula_function list" where
  "formula_functions = [Fn_add, Fn_coalesce, Fn_concat, Fn_divide, Fn_equals, Fn_if, Fn_lower,
     Fn_multiply, Fn_subtract, Fn_trim, Fn_upper]"

definition function_of_name :: "jsstr \<Rightarrow> formula_function option" where
  "function_of_name name = find (\<lambda>f. function_name f = name) formula_functions"

definition skipWhitespace :: "jsstr \<Rightarrow> jsstr" where
  "skipWhitespace = dropWhile is_space"

definition is_word :: "code_unit \<Rightarrow> bool" where
  "is_word c \<longleftrightarrow> is_alpha c \<or> is_digit c \<or> c = 95"

definition new_node :: "nat \<Rightarrow> formula_expression \<Rightarrow> jsstr \<Rightarrow> source_error + (formula_expression \<times> jsstr \<times> nat)" where
  "new_node nodeCount e rest =
     (if MAXIMUM_FORMULA_NODES < nodeCount + 1 then Inl SourceTooManyNodes else Inr (e, rest, nodeCount + 1))"

text \<open>The name of a column up to its closing bracket; a doubled bracket is a bracket.\<close>

fun column_reference :: "jsstr \<Rightarrow> (jsstr \<times> jsstr) option" where
  "column_reference [] = None"
| "column_reference (c # s) =
     (if c \<noteq> 93 then map_option (\<lambda>(name, q). (c # name, q)) (column_reference s)
      else (case s of
              d # r \<Rightarrow> if d = 93 then map_option (\<lambda>(name, q). (93 # name, q)) (column_reference r)
                       else Some ([], s)
            | [] \<Rightarrow> Some ([], [])))"

definition parseColumn :: "host \<Rightarrow> source_column list \<Rightarrow> jsstr \<Rightarrow> nat
    \<Rightarrow> source_error + (formula_expression \<times> jsstr \<times> nat)" where
  "parseColumn h columns s nodeCount =
     (case column_reference s of
        None \<Rightarrow> Inl SyntaxError
      | Some (name, rest) \<Rightarrow>
          if name = [] then Inl SyntaxError
          else and_then (resolveColumn h columns name) (\<lambda>c. new_node nodeCount (Column (column_id c)) rest))"

definition parseNumber :: "jsstr \<Rightarrow> nat \<Rightarrow> source_error + (formula_expression \<times> jsstr \<times> nat)" where
  "parseNumber s nodeCount =
     (case scan_number s of
        None \<Rightarrow> Inl SyntaxError
      | Some (m, rest) \<Rightarrow>
          let value = string_to_number m
          in if \<not> finite_num value then Inl SyntaxError
             else new_node nodeCount (Literal (CNumber value)) rest)"

text \<open>The characters of a literal up to its closing quote, which they include.\<close>

fun quoted_chars :: "jsstr \<Rightarrow> (jsstr \<times> jsstr) option" where
  "quoted_chars [] = None"
| "quoted_chars (c # s) =
     (if c = 92 then (case s of [] \<Rightarrow> None | d # r \<Rightarrow> map_option (\<lambda>(e, q). (c # d # e, q)) (quoted_chars r))
      else if c = 34 then Some ([c], s)
      else map_option (\<lambda>(e, q). (c # e, q)) (quoted_chars s))"

definition parseString :: "jsstr \<Rightarrow> source_error + (jsstr \<times> jsstr)" where
  "parseString s =
     (case s of
        [] \<Rightarrow> Inl SyntaxError
      | c # r \<Rightarrow>
          if c \<noteq> 34 then Inl SyntaxError
          else (case quoted_chars r of
                  None \<Rightarrow> Inl SyntaxError
                | Some (e, rest) \<Rightarrow>
                    (case json_parse (c # e) of
                       Some (JStr value) \<Rightarrow> Inr (value, rest)
                     | _ \<Rightarrow> Inl BadStringLiteral)))"

definition expect :: "code_unit \<Rightarrow> jsstr \<Rightarrow> source_error + jsstr" where
  "expect c s = (case s of d # r \<Rightarrow> if d = c then Inr r else Inl SyntaxError | [] \<Rightarrow> Inl SyntaxError)"

text \<open>The \<open>try\<close> block also turns the node limit into the error of the literal.\<close>

definition literal_value :: "host \<Rightarrow> bool \<Rightarrow> jsstr \<Rightarrow> cell_value option" where
  "literal_value h json source =
     (if json
      then (case json_parse source of
              Some v \<Rightarrow> if valid_cell_value h (CJson v) then Some (CJson v) else None
            | None \<Rightarrow> None)
      else if has_zone_suffix source
      then map_option (\<lambda>t. CTimestamp (toISOString t)) (new_date h source)
      else None)"

definition parseLiteralConstructor :: "host \<Rightarrow> bool \<Rightarrow> jsstr \<Rightarrow> nat
    \<Rightarrow> source_error + (formula_expression \<times> jsstr \<times> nat)" where
  "parseLiteralConstructor h json s nodeCount =
     and_then (expect 40 (skipWhitespace s)) (\<lambda>s1.
     and_then (parseString (skipWhitespace s1)) (\<lambda>(source, s2).
     and_then (expect 41 (skipWhitespace s2)) (\<lambda>s3.
       let err = (if json then BadJsonLiteral else BadTimestampLiteral)
       in case literal_value h json source of
            None \<Rightarrow> Inl err
          | Some v \<Rightarrow> (case new_node nodeCount (Literal v) s3 of Inl _ \<Rightarrow> Inl err | Inr r \<Rightarrow> Inr r))))"

section \<open>The parser\<close>

text \<open>What an expression starts with: a complete node, or the name of a function.\<close>

datatype primary =
    Parsed "source_error + (formula_expression \<times> jsstr \<times> nat)"
  | CallOf formula_function jsstr

definition identifier_expression :: "host \<Rightarrow> jsstr \<Rightarrow> jsstr \<Rightarrow> nat \<Rightarrow> primary" where
  "identifier_expression h identifier rest n =
     (if identifier = js ''TRUE'' \<or> identifier = js ''FALSE''
      then Parsed (new_node n (Literal (CBoolean (identifier = js ''TRUE''))) rest)
      else if identifier = js ''EMPTY'' \<or> identifier = js ''NULL''
      then Parsed (new_node n (Literal CEmpty) rest)
      else if identifier = js ''TIMESTAMP'' \<or> identifier = js ''JSON''
      then Parsed (parseLiteralConstructor h (identifier = js ''JSON'') rest n)
      else (case function_of_name (ascii_lower identifier) of
              None \<Rightarrow> Parsed (Inl (UnknownFunction identifier))
            | Some f \<Rightarrow> CallOf f rest))"

definition parse_primary :: "host \<Rightarrow> source_column list \<Rightarrow> jsstr \<Rightarrow> nat \<Rightarrow> primary" where
  "parse_primary h cols s n =
     (case s of
        [] \<Rightarrow> Parsed (Inl SyntaxError)
      | c # r \<Rightarrow>
          if c = 91 then Parsed (parseColumn h cols r n)
          else if c = 34
          then Parsed (and_then (parseString s) (\<lambda>(value, rest). new_node n (Literal (CText value)) rest))
          else if c = 45 \<or> is_digit c then Parsed (parseNumber s n)
          else if is_alpha c \<or> c = 95
          then identifier_expression h (ascii_upper (takeWhile is_word s)) (dropWhile is_word s) n
          else Parsed (Inl SyntaxError))"

text \<open>
  The elements of an argument list with \<open>parse\<close> for each of them. A turn spends one unit of
  fuel and takes at least one character, so the length of the text plus one is enough
  (\<open>parse_never_out_of_fuel\<close>).
\<close>

fun parseMore :: "(jsstr \<Rightarrow> nat \<Rightarrow> source_error + (formula_expression \<times> jsstr \<times> nat)) \<Rightarrow> nat
    \<Rightarrow> formula_expression list \<Rightarrow> jsstr \<Rightarrow> nat \<Rightarrow> source_error + (formula_expression list \<times> jsstr \<times> nat)" where
  "parseMore parse 0 args s n = Inl OutOfFuel"
| "parseMore parse (Suc k) args s n =
     and_then (parse s n) (\<lambda>(e, r, m).
       case skipWhitespace r of
         [] \<Rightarrow> Inl SyntaxError
       | c # q \<Rightarrow> if c = 41 then Inr (args @ [e], q, m)
                  else if c = 44 then parseMore parse k (args @ [e]) (skipWhitespace q) m
                  else Inl SyntaxError)"

definition parseArguments :: "(jsstr \<Rightarrow> nat \<Rightarrow> source_error + (formula_expression \<times> jsstr \<times> nat))
    \<Rightarrow> jsstr \<Rightarrow> nat \<Rightarrow> source_error + (formula_expression list \<times> jsstr \<times> nat)" where
  "parseArguments parse s n =
     and_then (expect 40 (skipWhitespace s)) (\<lambda>r.
       let q = skipWhitespace r
       in case q of
            c # q' \<Rightarrow> if c = 41 then Inr ([], q', n) else parseMore parse (length q + 1) [] q n
          | [] \<Rightarrow> parseMore parse 1 [] q n)"

text \<open>
  \<open>parseExpression (k)\<close> is the method at depth \<open>13 - k\<close>: at zero the depth is beyond the limit,
  which is what the method checks first.
\<close>

primrec parseExpression :: "host \<Rightarrow> source_column list \<Rightarrow> nat \<Rightarrow> jsstr \<Rightarrow> nat
    \<Rightarrow> source_error + (formula_expression \<times> jsstr \<times> nat)" where
  "parseExpression h cols 0 = (\<lambda>s n. Inl SourceTooDeep)"
| "parseExpression h cols (Suc k) = (\<lambda>s n.
     case parse_primary h cols (skipWhitespace s) n of
       Parsed r \<Rightarrow> r
     | CallOf f rest \<Rightarrow>
         and_then (parseArguments (parseExpression h cols k) rest n)
           (\<lambda>(args, q, m). new_node m (Call f args) q))"

definition parse_source :: "host \<Rightarrow> source_column list \<Rightarrow> jsstr \<Rightarrow> source_error + formula_expression" where
  "parse_source h columns source =
     (let s = skipWhitespace source;
          s = (case s of [] \<Rightarrow> [] | c # r \<Rightarrow> if c = 61 then skipWhitespace r else s)
      in if s = [] then Inl SyntaxError
         else and_then (parseExpression h columns MAXIMUM_FORMULA_DEPTH s 0) (\<lambda>(e, rest, _).
                if skipWhitespace rest = [] then Inr e else Inl SyntaxError))"

definition parseFormulaSource :: "host \<Rightarrow> jsstr \<Rightarrow> source_column list \<Rightarrow> source_error + formula_expression" where
  "parseFormulaSource h source columns =
     (if MAXIMUM_FORMULA_SOURCE_CHARACTERS < length source then Inl SourceTooLong
      else parse_source h columns source)"

section \<open>The formatter\<close>

definition escapeFormulaColumnName :: "jsstr \<Rightarrow> jsstr" where
  "escapeFormulaColumnName name = concat (map (\<lambda>c. if c = 93 then [93, 93] else [c]) name)"

definition formulaColumnReference :: "jsstr \<Rightarrow> jsstr" where
  "formulaColumnReference name = [91] @ escapeFormulaColumnName name @ [93]"

fun format_literal :: "cell_value \<Rightarrow> jsstr" where
  "format_literal CEmpty = js ''EMPTY''"
| "format_literal (CText s) = stringify (JStr s)"
| "format_literal (CNumber x) = number_to_string x"
| "format_literal (CBoolean b) = (if b then js ''TRUE'' else js ''FALSE'')"
| "format_literal (CTimestamp t) = js ''TIMESTAMP('' @ stringify (JStr t) @ [41]"
| "format_literal (CJson v) = js ''JSON('' @ stringify (JStr (stringify v)) @ [41]"

fun formatFormulaExpression :: "(jsstr \<Rightarrow> jsstr option) \<Rightarrow> formula_expression \<Rightarrow> definition_error + jsstr" where
  "formatFormulaExpression names (Column c) =
     (case names c of
        None \<Rightarrow> Inl (ColumnUnavailable c)
      | Some name \<Rightarrow> if name = [] then Inl (ColumnUnavailable c) else Inr (formulaColumnReference name))"
| "formatFormulaExpression names (Literal v) = Inr (format_literal v)"
| "formatFormulaExpression names (Call f args) =
     and_then (map_result (formatFormulaExpression names) args) (\<lambda>texts.
       Inr (ascii_upper (function_name f) @ [40] @ join_with [44, 32] texts @ [41]))"

section \<open>What the parser consumes\<close>

lemma skip_length: "length (skipWhitespace s) \<le> length s"
  by (simp add: skipWhitespace_def length_dropWhile_le)

lemma column_reference_length: "column_reference s = Some (name, q) \<Longrightarrow> length q \<le> length s"
proof (induction s arbitrary: name q rule: column_reference.induct)
  case (2 c s)
  show ?case
  proof (cases "c = 93")
    case False
    then show ?thesis using 2 by fastforce
  next
    case c: True
    show ?thesis
    proof (cases s)
      case Nil
      then show ?thesis using 2(3) c by simp
    next
      case (Cons d r)
      show ?thesis
      proof (cases "d = 93")
        case True
        then obtain nm where "column_reference r = Some (nm, q)" using 2(3) c Cons by auto
        then have "length q \<le> length r" using 2(2) c Cons True by simp
        then show ?thesis using Cons by simp
      qed (use 2(3) c Cons in simp)
    qed
  qed
qed simp

lemma quoted_chars_length: "quoted_chars s = Some (e, q) \<Longrightarrow> length q < length s"
proof (induction s arbitrary: e q rule: quoted_chars.induct)
  case (2 c s)
  show ?case
  proof (cases "c = 92")
    case True
    then obtain d r e' where "s = d # r" "quoted_chars r = Some (e', q)"
      using 2(3) by (auto split: list.splits)
    then show ?thesis using 2(1) [OF True, of d r] by fastforce
  next
    case False
    then show ?thesis using 2 by (fastforce split: if_splits)
  qed
qed simp

lemma scan_number_length: "scan_number s = Some (m, r) \<Longrightarrow> length r < length s"
proof -
  assume a: "scan_number s = Some (m, r)"
  obtain mi r0 where m: "(case s of c # r \<Rightarrow> if c = 45 then ([c], r) else ([], s) | [] \<Rightarrow> ([], s)) = (mi, r0)" by fastforce
  have l0: "length r0 \<le> length s" using m by (auto split: list.splits if_splits)
  obtain ip r1 where i: "scan_integer r0 = Some (ip, r1)" using a m by (auto simp: scan_number_def split: option.splits)
  have "length (dropWhile is_digit x) \<le> length x" for x by (rule length_dropWhile_le)
  then have l1: "length r1 < length r0" using i
    by (auto simp: scan_integer_def less_Suc_eq_le split: list.splits if_splits)
  obtain fp r2 where f: "scan_fraction r1 = (fp, r2)" by fastforce
  have l2: "length r2 \<le> length r1" using f length_dropWhile_le [of is_digit]
    by (auto simp: scan_fraction_def le_SucI split: list.splits if_splits)
  obtain ep r3 where e: "scan_exponent r2 = (ep, r3)" by fastforce
  have sg: "length (snd (scan_sign x)) \<le> length x" for x by (auto simp: scan_sign_def split: list.splits)
  have l3: "length r3 \<le> length r2"
  proof (cases r2)
    case (Cons c q)
    have "length (dropWhile is_digit (snd (scan_sign q))) \<le> length q"
      using length_dropWhile_le [of is_digit "snd (scan_sign q)"] sg [of q] by simp
    then show ?thesis using e Cons by (auto simp: scan_exponent_def split: prod.splits if_splits)
  qed (use e in \<open>simp add: scan_exponent_def\<close>)
  have "r = r3" using a m i f e by (simp add: scan_number_def)
  then show ?thesis using l0 l1 l2 l3 by simp
qed

lemma new_node_Inr: "new_node n e s = Inr (e', r, m) \<longleftrightarrow> e' = e \<and> r = s \<and> m = n + 1 \<and> n + 1 \<le> MAXIMUM_FORMULA_NODES"
  by (auto simp: new_node_def)

lemma expect_length: "expect c s = Inr r \<Longrightarrow> length r < length s"
  by (auto simp: expect_def split: list.splits if_splits)

lemma parseString_length: "parseString s = Inr (v, r) \<Longrightarrow> length r < length s"
  using quoted_chars_length by (fastforce simp: parseString_def split: list.splits if_splits option.splits json.splits)

lemma resolveColumn_mem: "resolveColumn h cols name = Inr c \<Longrightarrow> c \<in> set cols"
  by (auto simp: resolveColumn_def filter_eq_Cons_iff split: list.splits)

fun formula_nodes :: "formula_expression \<Rightarrow> nat" where
  "formula_nodes (Call f args) = Suc (sum_list (map formula_nodes args))"
| "formula_nodes e = 1"

fun formula_height :: "formula_expression \<Rightarrow> nat" where
  "formula_height (Call f args) = Suc (Max (set (0 # map formula_height args)))"
| "formula_height e = 1"

fun columns_in :: "jsstr set \<Rightarrow> formula_expression \<Rightarrow> bool" where
  "columns_in C (Column c) = (c \<in> C)"
| "columns_in C (Literal v) = True"
| "columns_in C (Call f args) = list_all (columns_in C) args"

lemma formula_height_call: "formula_height (Call f args) \<le> Suc k \<longleftrightarrow> (\<forall>a \<in> set args. formula_height a \<le> k)"
  by (simp add: Max_le_iff)

lemma length_walk: "length (walkFormula d e) = formula_nodes e"
proof (induction e arbitrary: d)
  case (Call f args)
  have "map (\<lambda>a. length (walkFormula (Suc d) a)) args = map formula_nodes args"
    by (rule map_cong) (use Call in auto)
  then have "sum_list (map (\<lambda>a. length (walkFormula (Suc d) a)) args) = sum_list (map formula_nodes args)"
    by (rule arg_cong)
  then show ?case by (simp add: length_concat o_def)
qed simp_all

lemma walk_depth: "(\<forall>(n, d') \<in> set (walkFormula d e). d' < d + k) \<longleftrightarrow> formula_height e \<le> k"
proof (induction e arbitrary: d k)
  case (Call f args)
  show ?case
  proof (cases k)
    case (Suc j)
    have "(\<forall>(n, d') \<in> set (walkFormula d (Call f args)). d' < d + k) \<longleftrightarrow>
        (\<forall>a \<in> set args. \<forall>(n, d') \<in> set (walkFormula (d + 1) a). d' < d + 1 + j)"
      unfolding set_walk_call Suc by auto
    also have "\<dots> \<longleftrightarrow> (\<forall>a \<in> set args. formula_height a \<le> j)" using Call.IH by blast
    finally show ?thesis unfolding Suc formula_height_call .
  qed simp
qed auto

text \<open>A primary takes at least one character, and is one node or the name of a function.\<close>

definition leaf_of :: "jsstr set \<Rightarrow> formula_expression \<Rightarrow> bool" where
  "leaf_of C e \<longleftrightarrow> columns_in C e \<and> formula_nodes e = 1 \<and> formula_height e = 1"

lemma leaf_of_simps [simp]: "leaf_of C (Literal v)" "leaf_of C (Column c) \<longleftrightarrow> c \<in> C"
  by (simp_all add: leaf_of_def)

lemma parseColumn_Inr: "parseColumn h cols s n = Inr (e, r, m) \<Longrightarrow>
    length r \<le> length s \<and> leaf_of (column_id ` set cols) e \<and> m = n + 1 \<and> m \<le> MAXIMUM_FORMULA_NODES"
  using column_reference_length resolveColumn_mem
  by (fastforce simp: parseColumn_def and_then_eq_Inr new_node_Inr split: option.splits if_splits prod.splits)

lemma parseNumber_Inr: "parseNumber s n = Inr (e, r, m) \<Longrightarrow>
    length r < length s \<and> leaf_of C e \<and> m = n + 1 \<and> m \<le> MAXIMUM_FORMULA_NODES"
  using scan_number_length [of s]
  by (auto simp: parseNumber_def new_node_Inr Let_def split: option.splits if_splits)

lemma replace_error_Inr: "(case x of Inl _ \<Rightarrow> Inl err | Inr r \<Rightarrow> Inr r) = Inr y \<longleftrightarrow> x = Inr y"
  by (cases x) simp_all

lemma parseLiteralConstructor_Inr:
  assumes "parseLiteralConstructor h json s n = Inr (e, r, m)"
  shows "length r < length s \<and> leaf_of C e \<and> m = n + 1 \<and> m \<le> MAXIMUM_FORMULA_NODES"
proof -
  obtain s1 src s2 s3 v where x: "expect 40 (skipWhitespace s) = Inr s1" "parseString (skipWhitespace s1) = Inr (src, s2)"
    "expect 41 (skipWhitespace s2) = Inr s3" "new_node n (Literal v) s3 = Inr (e, r, m)"
    using assms by (auto simp: parseLiteralConstructor_def and_then_eq_Inr Let_def replace_error_Inr split: option.split_asm)
  have "length s1 < length s" "length s2 < length s1" "length s3 < length s2"
    using expect_length [OF x(1)] parseString_length [OF x(2)] expect_length [OF x(3)]
      skip_length [of s] skip_length [of s1] skip_length [of s2] by linarith+
  then show ?thesis using x(4) by (auto simp: new_node_Inr)
qed

lemma word_rest: "is_alpha c \<or> c = 95 \<Longrightarrow> length (dropWhile is_word (c # r)) < length (c # r)"
  using length_dropWhile_le [of is_word r] by (auto simp: is_word_def)

lemma identifier_Parsed:
  "identifier_expression h i rest n = Parsed (Inr (e, r, m)) \<Longrightarrow>
     length r \<le> length rest \<and> leaf_of C e \<and> m = n + 1 \<and> m \<le> MAXIMUM_FORMULA_NODES"
  using parseLiteralConstructor_Inr [of h _ rest n e r m C]
  by (fastforce simp: identifier_expression_def new_node_Inr split: if_splits option.splits)

lemma identifier_CallOf: "identifier_expression h i rest n = CallOf f r \<Longrightarrow> r = rest"
  by (auto simp: identifier_expression_def split: if_splits option.splits)

lemma parse_primary_Parsed:
  assumes p: "parse_primary h cols s n = Parsed (Inr (e, r, m))"
  shows "length r < length s \<and> leaf_of (column_id ` set cols) e \<and> m = n + 1 \<and> m \<le> MAXIMUM_FORMULA_NODES"
proof (cases s)
  case (Cons c q)
  let ?C = "column_id ` set cols"
  consider "c = 91" | "c = 34" | "c \<noteq> 91" "c \<noteq> 34" "c = 45 \<or> is_digit c"
    | "c \<noteq> 91" "c \<noteq> 34" "\<not> (c = 45 \<or> is_digit c)" "is_alpha c \<or> c = 95"
    | "c \<noteq> 91" "c \<noteq> 34" "\<not> (c = 45 \<or> is_digit c)" "\<not> (is_alpha c \<or> c = 95)" by blast
  then show ?thesis
  proof cases
    case 1
    then show ?thesis using p Cons parseColumn_Inr [of h cols q n e r m] by (simp add: parse_primary_def)
  next
    case 2
    then obtain v rest where "parseString s = Inr (v, rest)" "new_node n (Literal (CText v)) rest = Inr (e, r, m)"
      using p Cons by (auto simp: parse_primary_def and_then_eq_Inr)
    then show ?thesis using parseString_length by (auto simp: new_node_Inr)
  next
    case 3
    then show ?thesis using p Cons parseNumber_Inr [of s n e r m ?C] by (simp add: parse_primary_def)
  next
    case 4
    then have i: "identifier_expression h (ascii_upper (takeWhile is_word s)) (dropWhile is_word s) n = Parsed (Inr (e, r, m))"
      using p Cons by (simp add: parse_primary_def)
    have "length (dropWhile is_word s) < length s" using word_rest [OF 4(4), of q] Cons by simp
    then show ?thesis using identifier_Parsed [OF i, of ?C] by auto
  next
    case 5
    then show ?thesis using p Cons by (simp add: parse_primary_def)
  qed
qed (use p in \<open>simp add: parse_primary_def\<close>)

lemma parse_primary_CallOf:
  assumes p: "parse_primary h cols s n = CallOf f r"
  shows "length r < length s"
proof (cases s)
  case (Cons c q)
  then have c: "is_alpha c \<or> c = 95"
    "identifier_expression h (ascii_upper (takeWhile is_word s)) (dropWhile is_word s) n = CallOf f r"
    using p by (auto simp: parse_primary_def split: if_splits)
  then show ?thesis using identifier_CallOf [OF c(2)] word_rest [OF c(1), of q] Cons by simp
qed (use p in \<open>simp add: parse_primary_def\<close>)

text \<open>The elements of an argument list, for any parser that consumes and counts its nodes.\<close>

definition parses :: "(formula_expression \<Rightarrow> bool) \<Rightarrow> (jsstr \<Rightarrow> nat \<Rightarrow> source_error + (formula_expression \<times> jsstr \<times> nat)) \<Rightarrow> bool" where
  "parses Q parse \<longleftrightarrow> (\<forall>s n. parse s n \<noteq> Inl OutOfFuel
     \<and> (\<forall>e r m. parse s n = Inr (e, r, m) \<longrightarrow>
          length r < length s \<and> m = n + formula_nodes e \<and> m \<le> MAXIMUM_FORMULA_NODES \<and> Q e))"

lemma parseMore_spec:
  assumes p: "parses Q parse"
  shows "length s < k \<Longrightarrow> parseMore parse k args s n \<noteq> Inl OutOfFuel"
    and "parseMore parse k args s n = Inr (args', r, m) \<Longrightarrow> length r < length s
      \<and> (\<exists>new. args' = args @ new \<and> m = n + sum_list (map formula_nodes new) \<and> list_all Q new)"
proof (induction k arbitrary: args s n)
  case (Suc k)
  {
    case 1
    show ?case
    proof
      assume a: "parseMore parse (Suc k) args s n = Inl OutOfFuel"
      then obtain e r m where e: "parse s n = Inr (e, r, m)" using p
        by (auto simp: and_then_eq_Inl parses_def)
      obtain c q where q: "skipWhitespace r = c # q" "c = 44"
        "parseMore parse k (args @ [e]) (skipWhitespace q) m = Inl OutOfFuel"
        using a e by (auto split: list.splits if_splits)
      have "length (skipWhitespace q) < k"
        using e p q(1) 1 skip_length [of r] skip_length [of q] by (fastforce simp: parses_def)
      then show False using Suc.IH(1) q(3) by blast
    qed
  next
    case 2
    then obtain e r' m' where e: "parse s n = Inr (e, r', m')" by (auto simp: and_then_eq_Inr)
    then have e': "length r' < length s" "m' = n + formula_nodes e" "Q e" using p by (auto simp: parses_def)
    obtain c q where q: "skipWhitespace r' = c # q" using 2 e by (auto split: list.splits)
    have l: "length q < length r'" using q skip_length [of r'] by simp
    show ?case
    proof (cases "c = 41")
      case True
      then show ?thesis using 2 e q e' l by auto
    next
      case False
      then have m: "parseMore parse k (args @ [e]) (skipWhitespace q) m' = Inr (args', r, m)"
        using 2 e q by (auto split: if_splits)
      obtain new where "length r < length (skipWhitespace q)" "args' = (args @ [e]) @ new"
        "m = m' + sum_list (map formula_nodes new)" "list_all Q new"
        using Suc.IH(2) [OF m] by blast
      then show ?thesis using e' l skip_length [of q] by (auto intro!: exI [of _ "e # new"])
    qed
  }
qed simp_all

lemma parseArguments_spec:
  assumes p: "parses Q parse"
  shows "parseArguments parse s n \<noteq> Inl OutOfFuel"
    and "parseArguments parse s n = Inr (args, r, m) \<Longrightarrow> length r < length s
      \<and> m = n + sum_list (map formula_nodes args) \<and> list_all Q args"
proof -
  have fuel: "parseMore parse (length q + 1) [] q n \<noteq> Inl OutOfFuel" for q
    by (rule parseMore_spec(1) [OF p]) simp
  have fuel1: "parseMore parse 1 [] [] n \<noteq> Inl OutOfFuel"
    by (rule parseMore_spec(1) [OF p]) simp
  have ex: "expect c x \<noteq> Inl OutOfFuel" for c x by (simp add: expect_def split: list.split)
  show "parseArguments parse s n \<noteq> Inl OutOfFuel"
    using fuel [of "_ # _"] fuel1 ex
    by (auto simp: parseArguments_def Let_def and_then_eq_Inl simp del: parseMore.simps split: list.splits if_splits)
  assume a: "parseArguments parse s n = Inr (args, r, m)"
  then obtain r0 where r0: "expect 40 (skipWhitespace s) = Inr r0" by (auto simp: parseArguments_def and_then_eq_Inr)
  have l: "length (skipWhitespace r0) < length s"
    using expect_length [OF r0] skip_length [of s] skip_length [of r0] by simp
  show "length r < length s \<and> m = n + sum_list (map formula_nodes args) \<and> list_all Q args"
  proof (cases "skipWhitespace r0")
    case Nil
    then have "parseMore parse 1 [] [] n = Inr (args, r, m)" using a r0 by (simp add: parseArguments_def del: parseMore.simps)
    then show ?thesis using parseMore_spec(2) [OF p, of 1 "[]" "[]" n args r m] by auto
  next
    case (Cons c q)
    show ?thesis
    proof (cases "c = 41")
      case True
      then show ?thesis using a r0 Cons l by (simp add: parseArguments_def)
    next
      case False
      then have "parseMore parse (length (c # q) + 1) [] (c # q) n = Inr (args, r, m)"
        using a r0 Cons by (simp add: parseArguments_def del: parseMore.simps)
      from parseMore_spec(2) [OF p this] show ?thesis using l Cons by auto
    qed
  qed
qed

lemma parse_primary_fuel: "parse_primary h cols s n \<noteq> Parsed (Inl OutOfFuel)"
proof -
  have nn: "new_node n e r \<noteq> Inl OutOfFuel" for e r by (simp add: new_node_def)
  have ex: "expect c x \<noteq> Inl OutOfFuel" for c x by (simp add: expect_def split: list.split)
  have ps: "parseString x \<noteq> Inl OutOfFuel" for x
    by (simp add: parseString_def split: list.split option.split json.split)
  have rc: "resolveColumn h cols x \<noteq> Inl OutOfFuel" for x
    by (simp add: resolveColumn_def split: list.split)
  have pc: "parseColumn h cols x n \<noteq> Inl OutOfFuel" for x
    using rc nn by (auto simp: parseColumn_def and_then_eq_Inl split: option.split)
  have pn: "parseNumber x n \<noteq> Inl OutOfFuel" for x
    using nn by (auto simp: parseNumber_def Let_def split: option.split)
  have pl: "parseLiteralConstructor h json x n \<noteq> Inl OutOfFuel" for json x
    using ex ps by (auto simp: parseLiteralConstructor_def and_then_eq_Inl Let_def split: option.splits sum.splits)
  have "identifier_expression h i x n \<noteq> Parsed (Inl OutOfFuel)" for i x
    using nn pl by (auto simp: identifier_expression_def split: option.split)
  then show ?thesis
    using pc pn ps nn by (auto simp: parse_primary_def and_then_eq_Inl split: list.split)
qed

lemma parseExpression_parses:
  "parses (\<lambda>e. formula_height e \<le> k \<and> columns_in (column_id ` set cols) e) (parseExpression h cols k)"
proof (induction k)
  case 0
  then show ?case by (simp add: parses_def)
next
  case (Suc k)
  let ?C = "column_id ` set cols"
  note args = parseArguments_spec [OF Suc.IH]
  show ?case
    unfolding parses_def
  proof (intro allI conjI impI)
    fix s n
    show "parseExpression h cols (Suc k) s n \<noteq> Inl OutOfFuel"
      using parse_primary_fuel args(1) by (auto simp: new_node_def and_then_eq_Inl split: primary.splits)
    fix e r m
    assume a: "parseExpression h cols (Suc k) s n = Inr (e, r, m)"
    have "length r < length s \<and> m = n + formula_nodes e \<and> m \<le> MAXIMUM_FORMULA_NODES
        \<and> formula_height e \<le> Suc k \<and> columns_in ?C e"
    proof (cases "parse_primary h cols (skipWhitespace s) n")
      case (Parsed x)
      then have "parse_primary h cols (skipWhitespace s) n = Parsed (Inr (e, r, m))" using a by simp
      from parse_primary_Parsed [OF this] show ?thesis using skip_length [of s] by (simp add: leaf_of_def)
    next
      case (CallOf f rest)
      then obtain as q j where x: "parseArguments (parseExpression h cols k) rest n = Inr (as, q, j)"
        "new_node j (Call f as) q = Inr (e, r, m)"
        using a by (auto simp: and_then_eq_Inr)
      have "length rest < length (skipWhitespace s)" by (rule parse_primary_CallOf [OF CallOf])
      then show ?thesis
        using args(2) [OF x(1)] x(2) skip_length [of s]
        by (auto simp: new_node_Inr formula_height_call list_all_iff simp del: formula_height.simps)
    qed
    then show "length r < length s" "m = n + formula_nodes e" "m \<le> MAXIMUM_FORMULA_NODES"
      "formula_height e \<le> Suc k" "columns_in ?C e" by blast+
  qed
qed

end
