(* ===== verification/FormulaRoundTrip.thy ===== *)
theory FormulaRoundTrip
  imports FormulaLanguage
begin

text \<open>
  Parsing inverts formatting: what \<open>formatFormulaExpression\<close> prints for a formula within the
  limits, \<open>parseFormulaSource\<close> reads back as that formula.
\<close>

section \<open>Tokens read back\<close>

definition at_end :: "jsstr \<Rightarrow> bool" where
  "at_end rest \<longleftrightarrow> rest = [] \<or> hd rest = 41 \<or> hd rest = 44"

lemma at_end_simps [simp]: "at_end []" "at_end (41 # s)" "at_end (44 # s)"
  by (simp_all add: at_end_def)

lemma column_reference_escape:
  "rest = [] \<or> hd rest \<noteq> 93 \<Longrightarrow> column_reference (escapeFormulaColumnName name @ 93 # rest) = Some (name, rest)"
proof (induction name)
  case Nil
  then show ?case by (cases rest) (simp_all add: escapeFormulaColumnName_def)
next
  case (Cons c name)
  then show ?case by (cases "c = 93") (simp_all add: escapeFormulaColumnName_def)
qed

lemma quoted_plain: "c \<noteq> 92 \<Longrightarrow> c \<noteq> 34 \<Longrightarrow>
    quoted_chars (c # s) = map_option (\<lambda>(e, q). (c # e, q)) (quoted_chars s)"
  by simp

lemma quoted_escaped: "quoted_chars (92 # d # s) = map_option (\<lambda>(e, q). (92 # d # e, q)) (quoted_chars s)"
  by simp

lemma hex_digit_plain: "d < 16 \<Longrightarrow> hex_digit d \<noteq> 92 \<and> hex_digit d \<noteq> 34"
  using hex_value_digit [of d] by (auto simp: hex_value_def is_digit_def)

lemma quoted_unicode:
  "quoted_chars (unicode_escape c @ s) = map_option (\<lambda>(e, q). (unicode_escape c @ e, q)) (quoted_chars s)"
proof -
  have n: "unat c < 65536" using unsigned_less [of c] by simp
  then have d: "unat c div 4096 < 16" "unat c div 256 mod 16 < 16" "unat c div 16 mod 16 < 16" "unat c mod 16 < 16"
    by (simp_all add: less_mult_imp_div_less)
  note h = hex_digit_plain [OF d(1)] hex_digit_plain [OF d(2)] hex_digit_plain [OF d(3)] hex_digit_plain [OF d(4)]
  show ?thesis
    using h by (cases "quoted_chars s")
      (simp_all add: unicode_escape_def Let_def quoted_plain quoted_escaped del: quoted_chars.simps split: prod.split)
qed

lemma quoted_unit:
  "quoted_chars (escape_unit c @ s) = map_option (\<lambda>(e, q). (escape_unit c @ e, q)) (quoted_chars s)"
  by (simp add: escape_unit_def quoted_unicode)

lemma quoted_escape_units: "quoted_chars (escape_units s @ 34 # rest) = Some (escape_units s @ [34], rest)"
proof (induction s rule: escape_units.induct)
  case 1
  then show ?case by simp
next
  case (2 c)
  have "quoted_chars (34 # rest) = Some ([34], rest)" by simp
  then show ?case by (simp add: quoted_unicode quoted_unit del: quoted_chars.simps)
next
  case (3 c d s)
  show ?case
  proof (cases "is_high c \<and> is_low d")
    case True
    then have p: "c \<noteq> 34 \<and> c \<noteq> 92" "d \<noteq> 34 \<and> d \<noteq> 92" using surrogate_plain by blast+
    then show ?thesis using True "3.IH"(1) [OF True] by (simp add: quoted_plain del: quoted_chars.simps)
  next
    case False
    let ?one = "if is_high c \<or> is_low c then unicode_escape c else escape_unit c"
    have "quoted_chars (escape_units (c # d # s) @ 34 # rest) =
        quoted_chars (?one @ (escape_units (d # s) @ 34 # rest))"
      by (simp only: escape_units.simps False if_False append_assoc)
    also have "\<dots> = map_option (\<lambda>(e, q). (?one @ e, q)) (quoted_chars (escape_units (d # s) @ 34 # rest))"
      by (cases "is_high c \<or> is_low c") (simp_all only: if_True if_False quoted_unicode quoted_unit)
    also have "\<dots> = Some (escape_units (c # d # s) @ [34], rest)"
      by (simp only: "3.IH"(2) [OF False] escape_units.simps False if_False append_assoc) simp
    finally show ?thesis .
  qed
qed

lemma json_parse_quoted: "json_parse (34 # escape_units s @ [34]) = Some (JStr s)"
proof -
  have "parse_value (Suc n) (34 # escape_units s @ [34]) = Some (JStr s, [])" for n
    using string_chars_escape_units [of s "[]"] by (simp add: skip_json_def json_space_def)
  then show ?thesis unfolding json_parse_def by (simp add: skip_json_def)
qed

lemma parseString_quoted: "parseString (quote_string s @ rest) = Inr (s, rest)"
  by (simp add: parseString_def quote_string_def quoted_escape_units json_parse_quoted)

lemma while_append:
  "rest = [] \<or> \<not> P (hd rest) \<Longrightarrow> takeWhile P (s @ rest) = takeWhile P s \<and> dropWhile P (s @ rest) = dropWhile P s @ rest"
  by (induction s) (cases rest, auto)

lemma at_end_digit: "at_end rest \<Longrightarrow> rest = [] \<or> \<not> is_digit (hd rest)"
  by (auto simp: at_end_def is_digit_def)

lemma at_end_word: "at_end rest \<Longrightarrow> rest = [] \<or> \<not> is_word (hd rest)"
  by (auto simp: at_end_def is_word_def char_class_defs)

lemma scan_integer_append:
  "at_end rest \<Longrightarrow> scan_integer s = Some (ip, r) \<Longrightarrow> scan_integer (s @ rest) = Some (ip, r @ rest)"
  using while_append [where P = is_digit, OF at_end_digit, of rest s]
  by (auto simp: scan_integer_def simp del: takeWhile_append dropWhile_append split: list.splits if_splits)

lemma scan_fraction_append:
  assumes e: "at_end rest" and f: "scan_fraction s = (fp, r)"
  shows "scan_fraction (s @ rest) = (fp, r @ rest)"
proof (cases s)
  case Nil
  then show ?thesis using e f by (cases rest) (auto simp: scan_fraction_def at_end_def)
next
  case (Cons c q)
  then show ?thesis using f while_append [where P = is_digit, OF at_end_digit [OF e], of q] by (auto simp: scan_fraction_def split: if_splits)
qed

lemma scan_sign_append: "at_end rest \<Longrightarrow> scan_sign s = (sg, r) \<Longrightarrow> scan_sign (s @ rest) = (sg, r @ rest)"
  by (cases s; cases rest) (auto simp: scan_sign_def at_end_def split: if_splits)

lemma scan_exponent_append:
  assumes e: "at_end rest" and f: "scan_exponent s = (ep, r)"
  shows "scan_exponent (s @ rest) = (ep, r @ rest)"
proof (cases s)
  case Nil
  then show ?thesis using e f by (cases rest) (auto simp: scan_exponent_def at_end_def)
next
  case (Cons c q)
  obtain sg q' where q: "scan_sign q = (sg, q')" by fastforce
  show ?thesis
    using f q while_append [where P = is_digit, OF at_end_digit [OF e], of q'] scan_sign_append [OF e q] Cons
    by (auto simp: scan_exponent_def split: if_splits)
qed

lemma scan_number_append:
  assumes e: "at_end rest" and s: "scan_number s = Some (m, r)"
  shows "scan_number (s @ rest) = Some (m, r @ rest)"
proof -
  obtain c q where c: "s = c # q" using s by (cases s) (auto simp: scan_number_def scan_integer_def)
  let ?r = "if c = 45 then q else s"
  obtain ip r1 where i: "scan_integer ?r = Some (ip, r1)"
    using s c by (auto simp: scan_number_def split: option.splits if_splits)
  obtain fp r2 where f: "scan_fraction r1 = (fp, r2)" by fastforce
  obtain ep r3 where x: "scan_exponent r2 = (ep, r3)" by fastforce
  have "scan_integer (?r @ rest) = Some (ip, r1 @ rest)" by (rule scan_integer_append [OF e i])
  then show ?thesis
    using s c i f x scan_fraction_append [OF e f] scan_exponent_append [OF e x]
    by (cases "c = 45") (simp_all add: scan_number_def)
qed

lemma scan_number_start: "scan_number s = Some (m, r) \<Longrightarrow> \<exists>c q. s = c # q \<and> (c = 45 \<or> is_digit c)"
  by (cases s) (auto simp: scan_number_def scan_integer_def is_digit_def split: if_splits)

section \<open>Expressions read back\<close>

text \<open>Literals whose printed text reads back; every text, boolean and empty literal does.\<close>

fun literal_reads_back :: "host \<Rightarrow> cell_value \<Rightarrow> bool" where
  "literal_reads_back h (CNumber x) =
     (finite_num x \<and> scan_number (number_to_string x) = Some (number_to_string x, [])
      \<and> string_to_number (number_to_string x) = x)"
| "literal_reads_back h (CTimestamp t) = (literal_value h False t = Some (CTimestamp t))"
| "literal_reads_back h (CJson v) = (literal_value h True (stringify v) = Some (CJson v))"
| "literal_reads_back h _ = True"

fun reads_back :: "host \<Rightarrow> source_column list \<Rightarrow> (jsstr \<Rightarrow> jsstr option) \<Rightarrow> formula_expression \<Rightarrow> bool" where
  "reads_back h cols names (Column c) =
     (case names c of
        None \<Rightarrow> False
      | Some name \<Rightarrow> (case resolveColumn h cols name of Inl _ \<Rightarrow> False | Inr col \<Rightarrow> column_id col = c))"
| "reads_back h cols names (Literal v) = literal_reads_back h v"
| "reads_back h cols names (Call f args) = list_all (reads_back h cols names) args"

definition starts :: "jsstr \<Rightarrow> bool" where
  "starts t \<longleftrightarrow> (\<exists>c q. t = c # q \<and> \<not> is_space c \<and> c \<noteq> 41 \<and> c \<noteq> 61)"

lemma starts_skip: "starts t \<Longrightarrow> skipWhitespace (t @ rest) = t @ rest"
  by (auto simp: starts_def skipWhitespace_def)

lemma skip_Cons: "\<not> is_space c \<Longrightarrow> skipWhitespace (c # s) = c # s"
  by (simp add: skipWhitespace_def)

lemma starts_Cons: "starts (c # q) \<longleftrightarrow> \<not> is_space c \<and> c \<noteq> 41 \<and> c \<noteq> 61"
  by (simp add: starts_def)

lemma starts_append: "starts t \<Longrightarrow> starts (t @ rest)"
  by (auto simp: starts_def)

lemma punctuation [simp]: "\<not> is_space 40" "\<not> is_space 41" "\<not> is_space 44" "is_space 32" "\<not> is_space 34"
  "\<not> is_space 91" "\<not> is_space 45" "\<not> is_word 40"
  by (simp_all add: is_space_def is_word_def char_class_defs)

lemma word_append:
  "list_all is_word w \<Longrightarrow> rest = [] \<or> \<not> is_word (hd rest) \<Longrightarrow> takeWhile is_word (w @ rest) = w \<and> dropWhile is_word (w @ rest) = rest"
  using while_append [where P = is_word, of rest w]
  by (auto simp: list_all_iff takeWhile_eq_all_conv dropWhile_eq_Nil_conv)

lemma parse_primary_word:
  assumes w: "w \<noteq> []" "is_alpha (hd w)" "list_all is_word w" and r: "rest = [] \<or> \<not> is_word (hd rest)"
  shows "parse_primary h cols (w @ rest) n = identifier_expression h (ascii_upper w) rest n"
proof -
  obtain c u where c: "w = c # u" "is_alpha c" using w by (cases w) auto
  have "c \<noteq> 91 \<and> c \<noteq> 34 \<and> c \<noteq> 45 \<and> \<not> is_digit c"
    using c(2) by (auto simp: char_class_defs word_le_nat_alt)
  moreover have "takeWhile is_word (c # u @ rest) = c # u" "dropWhile is_word (c # u @ rest) = rest"
    using word_append [OF w(3) r] c(1) by simp_all
  ultimately show ?thesis using c by (simp add: parse_primary_def del: takeWhile.simps dropWhile.simps)
qed

lemma starts_word: "w \<noteq> [] \<Longrightarrow> is_alpha (hd w) \<Longrightarrow> starts w"
  by (cases w) (auto simp: starts_Cons char_class_defs word_le_nat_alt)

lemma new_node_ok: "n + 1 \<le> MAXIMUM_FORMULA_NODES \<Longrightarrow> new_node n e r = Inr (e, r, n + 1)"
  by (simp add: new_node_def)

lemma constructor_reads:
  assumes "literal_value h json src = Some v" and "n + 1 \<le> MAXIMUM_FORMULA_NODES"
  shows "parseLiteralConstructor h json (40 # quote_string src @ 41 # rest) n = Inr (Literal v, rest, n + 1)"
proof -
  have q: "skipWhitespace (quote_string src @ 41 # rest) = quote_string src @ 41 # rest"
    by (simp add: quote_string_def skipWhitespace_def)
  show ?thesis
    using assms parseString_quoted [of src "41 # rest"]
    by (simp add: parseLiteralConstructor_def expect_def skip_Cons q new_node_ok Let_def)
qed

lemmas word_defs = js_eval is_word_def char_class_defs

lemma words:
  "w \<in> {js ''EMPTY'', js ''TRUE'', js ''FALSE'', js ''TIMESTAMP'', js ''JSON''} \<Longrightarrow>
     w \<noteq> [] \<and> is_alpha (hd w) \<and> list_all is_word w"
  by (elim insertE emptyE) (simp_all add: word_defs)

lemma identifiers:
  "identifier_expression h (ascii_upper (js ''EMPTY'')) r n = Parsed (new_node n (Literal CEmpty) r)"
  "identifier_expression h (ascii_upper (js ''TRUE'')) r n = Parsed (new_node n (Literal (CBoolean True)) r)"
  "identifier_expression h (ascii_upper (js ''FALSE'')) r n = Parsed (new_node n (Literal (CBoolean False)) r)"
  "identifier_expression h (ascii_upper (js ''TIMESTAMP'')) r n = Parsed (parseLiteralConstructor h False r n)"
  "identifier_expression h (ascii_upper (js ''JSON'')) r n = Parsed (parseLiteralConstructor h True r n)"
  by (simp_all add: identifier_expression_def js_eval ascii_upper_def is_lower_def)

lemma function_words:
  "ascii_upper (function_name f) \<noteq> []" "is_alpha (hd (ascii_upper (function_name f)))"
  "list_all is_word (ascii_upper (function_name f))"
  "identifier_expression h (ascii_upper (ascii_upper (function_name f))) r n = CallOf f r"
  by (cases f; simp add: function_name_def js_eval ascii_upper_def is_word_def char_class_defs
      identifier_expression_def function_of_name_def formula_functions_def ascii_lower_def)+

lemma constructor_text:
  assumes w: "w \<in> {js ''TIMESTAMP'', js ''JSON''}" and v: "literal_value h json src = Some v"
    and i: "\<And>r. identifier_expression h (ascii_upper w) r n = Parsed (parseLiteralConstructor h json r n)"
    and n: "n + 1 \<le> MAXIMUM_FORMULA_NODES"
  shows "parse_primary h cols (w @ (40 # quote_string src @ 41 # rest)) n = Parsed (Inr (Literal v, rest, n + 1))"
proof -
  have "w \<noteq> []" "is_alpha (hd w)" "list_all is_word w" using words [of w] w by auto
  then have "parse_primary h cols (w @ (40 # quote_string src @ 41 # rest)) n
      = identifier_expression h (ascii_upper w) (40 # quote_string src @ 41 # rest) n"
    by (rule parse_primary_word) simp
  then show ?thesis by (simp add: i constructor_reads [OF v n])
qed

lemma literal_primary:
  assumes ok: "literal_reads_back h v" and n: "n + 1 \<le> MAXIMUM_FORMULA_NODES" and e: "at_end rest"
  shows "parse_primary h cols (format_literal v @ rest) n = Parsed (Inr (Literal v, rest, n + 1)) \<and> starts (format_literal v)"
proof -
  note e' = at_end_word [OF e]
  have word: "parse_primary h cols (w @ rest) n = identifier_expression h (ascii_upper w) rest n \<and> starts w"
    if "w \<in> {js ''EMPTY'', js ''TRUE'', js ''FALSE''}" for w
    using words [of w] that parse_primary_word [of w rest h cols n] e' starts_word [of w] by auto
  have con: "starts (w @ q)" if "w \<in> {js ''TIMESTAMP'', js ''JSON''}" for w q
    using words [of w] that starts_word [of w] starts_append by auto
  show ?thesis
  proof (cases v)
    case CEmpty
    then show ?thesis using n word [of "js ''EMPTY''"] by (simp add: identifiers(1) new_node_ok)
  next
    case (CBoolean b)
    then show ?thesis using n word [of "js ''TRUE''"] word [of "js ''FALSE''"]
      by (cases b) (simp_all add: identifiers(2,3) new_node_ok)
  next
    case (CText s)
    then show ?thesis
      using n parseString_quoted [of s rest]
      by (simp add: parse_primary_def quote_string_def new_node_ok starts_Cons)
  next
    case (CNumber x)
    let ?t = "number_to_string x"
    have s: "scan_number ?t = Some (?t, [])" "string_to_number ?t = x" "finite_num x" using ok CNumber by simp_all
    obtain c q where c: "?t = c # q" "c = 45 \<or> is_digit c" using scan_number_start [OF s(1)] by blast
    have "scan_number (?t @ rest) = Some (?t, rest)" using scan_number_append [OF e s(1)] by simp
    then have "parseNumber (?t @ rest) n = Inr (Literal (CNumber x), rest, n + 1)"
      using s n by (simp add: parseNumber_def new_node_ok)
    moreover have "c \<noteq> 91 \<and> c \<noteq> 34 \<and> \<not> is_space c \<and> c \<noteq> 41 \<and> c \<noteq> 61"
      using c(2) by (auto simp: is_digit_def is_space_def word_le_nat_alt)
    ultimately show ?thesis using c by (simp add: CNumber parse_primary_def starts_Cons)
  next
    case (CTimestamp t)
    then have v: "literal_value h False t = Some (CTimestamp t)" using ok by simp
    have f: "format_literal v = js ''TIMESTAMP'' @ (40 # quote_string t @ [41])"
      by (simp add: CTimestamp js_eval)
    show ?thesis
      unfolding f using constructor_text [OF _ v identifiers(4) n, of cols rest] con [of "js ''TIMESTAMP''"]
      by (simp add: CTimestamp)
  next
    case (CJson j)
    then have v: "literal_value h True (stringify j) = Some (CJson j)" using ok by simp
    have f: "format_literal v = js ''JSON'' @ (40 # quote_string (stringify j) @ [41])"
      by (simp add: CJson js_eval)
    show ?thesis
      unfolding f using constructor_text [OF _ v identifiers(5) n, of cols rest] con [of "js ''JSON''"]
      by (simp add: CJson)
  qed
qed

text \<open>A parser that reads back each of several texts reads back the list of them.\<close>

definition reads :: "(jsstr \<Rightarrow> nat \<Rightarrow> source_error + (formula_expression \<times> jsstr \<times> nat)) \<Rightarrow> formula_expression \<Rightarrow> jsstr \<Rightarrow> bool" where
  "reads parse e t \<longleftrightarrow> starts t \<and> (\<forall>rest n. at_end rest \<longrightarrow> n + formula_nodes e \<le> MAXIMUM_FORMULA_NODES \<longrightarrow>
     parse (t @ rest) n = Inr (e, rest, n + formula_nodes e))"

lemma starts_join: "ts \<noteq> [] \<Longrightarrow> list_all starts ts \<Longrightarrow> starts (join_with [44, 32] ts)"
  by (cases ts; cases "tl ts") (auto intro: starts_append)

lemma parseMore_join:
  "list_all2 (reads parse) es ts \<Longrightarrow> es \<noteq> [] \<Longrightarrow> length es \<le> k \<Longrightarrow>
     n + sum_list (map formula_nodes es) \<le> MAXIMUM_FORMULA_NODES \<Longrightarrow>
     parseMore parse k acc (join_with [44, 32] ts @ 41 # rest) n
       = Inr (acc @ es, rest, n + sum_list (map formula_nodes es))"
proof (induction es arbitrary: ts k acc n)
  case (Cons e es)
  then obtain t us k' where x: "ts = t # us" "reads parse e t" "list_all2 (reads parse) es us" "k = Suc k'"
    by (cases k) (auto simp: list_all2_Cons1)
  show ?case
  proof (cases es)
    case Nil
    then have "us = []" using x(3) by simp
    then show ?thesis using x(1,2,4) Nil Cons.prems(4) by (simp add: reads_def skip_Cons)
  next
    case (Cons e' es')
    then obtain u us' where us: "us = u # us'" using x(3) by (auto simp: list_all2_Cons1)
    have "list_all starts us" using x(3) by (induction rule: list_all2_induct) (simp_all add: reads_def)
    then have st: "starts (join_with [44, 32] us)" using starts_join us by simp
    have p: "parse (t @ 44 # 32 # join_with [44, 32] us @ 41 # rest) n =
        Inr (e, 44 # 32 # join_with [44, 32] us @ 41 # rest, n + formula_nodes e)"
      using x(2) Cons.prems(4) by (simp add: reads_def)
    have j: "join_with [44, 32] ts @ 41 # rest = t @ 44 # 32 # join_with [44, 32] us @ 41 # rest"
      by (simp add: x(1) us)
    have s: "skipWhitespace (32 # join_with [44, 32] us @ 41 # rest) = join_with [44, 32] us @ 41 # rest"
      using starts_skip [OF st, of "41 # rest"] by (simp add: skipWhitespace_def)
    have "parseMore parse k' (acc @ [e]) (join_with [44, 32] us @ 41 # rest) (n + formula_nodes e)
        = Inr ((acc @ [e]) @ es, rest, (n + formula_nodes e) + sum_list (map formula_nodes es))"
      by (rule Cons.IH [OF x(3)]) (use Cons Cons.prems x(4) in auto)
    then show ?thesis unfolding j x(4) parseMore.simps p by (simp add: skip_Cons s)
  qed
qed simp

section \<open>The round trip\<close>

lemma column_name_not_empty: "names c = Some name \<Longrightarrow> formatFormulaExpression names (Column c) = Inr t \<Longrightarrow> name \<noteq> []"
  by (auto split: if_splits)

lemma column_reads:
  assumes f: "formatFormulaExpression names (Column c) = Inr t" and r: "reads_back h cols names (Column c)"
  shows "reads (parseExpression h cols (Suc k)) (Column c) t"
proof -
  obtain name col where n: "names c = Some name" "resolveColumn h cols name = Inr col" "column_id col = c"
    using r by (auto split: option.splits sum.splits)
  have ne: "name \<noteq> []" and t: "t = formulaColumnReference name" using f n(1) by (auto split: if_splits)
  have "parse_primary h cols (t @ rest) m = Parsed (Inr (Column c, rest, m + 1))"
    if "at_end rest" "m + 1 \<le> MAXIMUM_FORMULA_NODES" for rest m
  proof -
    have "rest = [] \<or> hd rest \<noteq> 93" using that(1) by (auto simp: at_end_def)
    then show ?thesis
      using ne n that by (simp add: t formulaColumnReference_def parse_primary_def parseColumn_def
          column_reference_escape new_node_ok)
  qed
  moreover have s: "starts t" by (simp add: t formulaColumnReference_def starts_Cons)
  ultimately show ?thesis by (simp add: reads_def starts_skip)
qed

lemma literal_reads:
  assumes r: "literal_reads_back h v"
  shows "reads (parseExpression h cols (Suc k)) (Literal v) (format_literal v)"
proof -
  have "starts (format_literal v)" using literal_primary [OF r, of 0 "[]" cols] by (simp add: MAXIMUM_FORMULA_NODES_def)
  then show ?thesis using literal_primary [OF r] by (simp add: reads_def starts_skip)
qed

lemma join_length: "length ts \<le> length (join_with [44, 32] ts) + 1"
  by (induction "[44, 32] :: jsstr" ts rule: join_with.induct) auto

lemma arguments_read:
  assumes a: "list_all2 (reads parse) es ts"
    and n: "n + sum_list (map formula_nodes es) \<le> MAXIMUM_FORMULA_NODES"
  shows "parseArguments parse (40 # join_with [44, 32] ts @ 41 # rest) n
    = Inr (es, rest, n + sum_list (map formula_nodes es))"
proof (cases es)
  case Nil
  then show ?thesis using a by (simp add: parseArguments_def expect_def skip_Cons)
next
  case (Cons e es')
  have "list_all starts ts" using a by (induction rule: list_all2_induct) (simp_all add: reads_def)
  moreover have "ts \<noteq> []" using a Cons by auto
  ultimately have st: "starts (join_with [44, 32] ts)" by (rule starts_join [rotated])
  let ?s = "join_with [44, 32] ts @ 41 # rest"
  have "length es = length ts" using a by (rule list_all2_lengthD)
  then have "length es \<le> length ?s + 1" using join_length [of ts] by simp
  then have "parseMore parse (length ?s + 1) [] ?s n = Inr ([] @ es, rest, n + sum_list (map formula_nodes es))"
    using parseMore_join [OF a _ _ n] Cons by blast
  moreover obtain c q where c: "?s = c # q" "c \<noteq> 41" using st by (auto simp: starts_def)
  moreover have "skipWhitespace (c # q) = c # q" using starts_skip [OF st, of "41 # rest"] c by simp
  ultimately show ?thesis
    by (simp add: parseArguments_def expect_def skip_Cons Let_def del: parseMore.simps)
qed

lemma call_reads:
  assumes a: "list_all2 (reads (parseExpression h cols k)) es ts"
  shows "reads (parseExpression h cols (Suc k)) (Call f es) (ascii_upper (function_name f) @ [40] @ join_with [44, 32] ts @ [41])"
proof -
  let ?w = "ascii_upper (function_name f)"
  have st: "starts ?w" by (rule starts_word) (rule function_words)+
  have "parse_primary h cols (?w @ 40 # s) n = CallOf f (40 # s)" for s n
    using parse_primary_word [OF function_words(1-3), of "40 # s" h cols f n] by (simp add: function_words(4))
  then show ?thesis
    using starts_skip [OF st] starts_append [OF st] arguments_read [OF a]
    by (simp add: reads_def new_node_def)
qed

lemma formatted_reads:
  "formatFormulaExpression names e = Inr t \<Longrightarrow> reads_back h cols names e \<Longrightarrow> formula_height e \<le> k \<Longrightarrow>
     reads (parseExpression h cols k) e t"
proof (induction e arbitrary: t k)
  case (Column c)
  then show ?case using column_reads by (cases k) auto
next
  case (Literal v)
  then show ?case using literal_reads by (cases k) auto
next
  case (Call f es)
  obtain k' where k: "k = Suc k'" using Call.prems(3) by (cases k) auto
  obtain ts where ts: "map_result (formatFormulaExpression names) es = Inr ts"
    "t = ascii_upper (function_name f) @ [40] @ join_with [44, 32] ts @ [41]"
    using Call.prems(1) by (auto simp: and_then_eq_Inr)
  have h: "\<forall>e \<in> set es. formula_height e \<le> k'" using Call.prems(3) k by (simp add: formula_height_call del: formula_height.simps)
  have "list_all2 (reads (parseExpression h cols k')) (map (\<lambda>e. e) es) ts"
    by (rule map_result_all2 [OF ts(1)]) (use Call.IH Call.prems(2) h in \<open>auto simp: list_all_iff\<close>)
  then have "list_all2 (reads (parseExpression h cols k')) es ts" by simp
  then show ?case unfolding ts(2) k by (rule call_reads)
qed


lemma formatted_parses:
  assumes f: "formatFormulaExpression names e = Inr t" and r: "reads_back h cols names e"
    and hn: "formula_height e \<le> MAXIMUM_FORMULA_DEPTH" "formula_nodes e \<le> MAXIMUM_FORMULA_NODES"
  shows "parse_source h cols t = Inr e"
proof -
  have p: "reads (parseExpression h cols MAXIMUM_FORMULA_DEPTH) e t" by (rule formatted_reads [OF f r hn(1)])
  then have "parseExpression h cols MAXIMUM_FORMULA_DEPTH t 0 = Inr (e, [], formula_nodes e)"
    using hn(2) unfolding reads_def by (metis add_0 append_Nil2 at_end_simps(1))
  moreover obtain c q where "t = c # q" "c \<noteq> 61" "skipWhitespace t = t"
    using p starts_skip [of t "[]"] by (auto simp: reads_def starts_def)
  ultimately show ?thesis
    by (simp add: parse_source_def Let_def del: parseExpression.simps) (simp add: skipWhitespace_def)
qed

text \<open>The limits of a formula, as \<open>validateFormulaDefinition\<close> checks them, in terms of its tree.\<close>

lemma limits_size:
  "check_limits 0 (walkFormula 1 e) = Inr () \<longleftrightarrow>
     formula_nodes e \<le> MAXIMUM_FORMULA_NODES \<and> formula_height e \<le> MAXIMUM_FORMULA_DEPTH"
  using length_walk [of 1 e] walk_depth [of 1 e MAXIMUM_FORMULA_DEPTH]
  by (cases "walkFormula 1 e") (auto simp: check_limits_Inr less_Suc_eq_le)

lemma filter_distinct_key:
  "distinct (map f xs) \<Longrightarrow> x \<in> set xs \<Longrightarrow> filter (\<lambda>y. f y = f x) xs = [x]"
proof (induction xs)
  case (Cons y xs)
  show ?case
  proof (cases "x = y")
    case True
    then have "filter (\<lambda>z. f z = f x) xs = []" using Cons.prems(1) by (auto simp: filter_empty_conv) (metis image_eqI)
    then show ?thesis using True by simp
  next
    case False
    then have "f y \<noteq> f x" using Cons.prems by auto
    then show ?thesis using Cons False by simp
  qed
qed simp

definition names_of :: "source_column list \<Rightarrow> jsstr \<Rightarrow> jsstr option" where
  "names_of cols = map_of (map (\<lambda>c. (column_id c, column_name c)) cols)"

lemma names_resolve:
  assumes "distinct (map column_name cols)" and "names_of cols c = Some name"
  obtains col where "resolveColumn h cols name = Inr col" "column_id col = c"
proof -
  obtain col where col: "col \<in> set cols" "column_id col = c" "column_name col = name"
    using assms(2) map_of_SomeD [of "map (\<lambda>c. (column_id c, column_name c)) cols"] by (auto simp: names_of_def)
  have "filter (\<lambda>d. column_name d = name) cols = [col]"
    using filter_distinct_key [OF assms(1) col(1)] col(3) by simp
  then have "resolveColumn h cols name = Inr col" by (simp add: resolveColumn_def)
  then show ?thesis using col(2) by (rule that)
qed

lemma canonical_reads_back: "canonical_value h v \<Longrightarrow> literal_reads_back h v"
proof (cases v)
  case (CNumber x)
  assume "canonical_value h v"
  then obtain r where r: "x = Fin r" "is_double r" using CNumber canonical_number by blast
  then show ?thesis
    using number_scans [OF r(2), of "[]"] number_reads [OF r(2)]
    by (simp add: CNumber ends_numeral_def del: number_to_string.simps)
next
  case (CTimestamp s)
  assume "canonical_value h v"
  then show ?thesis using canonical_zone [of h s] by (auto simp: CTimestamp literal_value_def)
next
  case (CJson w)
  assume "canonical_value h v"
  then show ?thesis using json_reads_back json_value_finite by (simp add: CJson literal_value_def)
qed simp_all

text \<open>The literals of a formula are in the form the program gives to values.\<close>

fun canonical_literals :: "host \<Rightarrow> formula_expression \<Rightarrow> bool" where
  "canonical_literals h (Column c) = True"
| "canonical_literals h (Literal v) = canonical_value h v"
| "canonical_literals h (Call f args) = list_all (canonical_literals h) args"

lemma reads_back_distinct:
  assumes d: "distinct (map column_name cols)"
  shows "formatFormulaExpression (names_of cols) e = Inr t \<Longrightarrow> canonical_literals h e \<Longrightarrow> reads_back h cols (names_of cols) e"
proof (induction e arbitrary: t)
  case (Column c)
  then obtain name where n: "names_of cols c = Some name" by (auto split: option.splits)
  obtain col where "resolveColumn h cols name = Inr col" "column_id col = c" by (rule names_resolve [OF d n])
  then show ?case using n by simp
next
  case (Call f es)
  obtain ts where ts: "map_result (formatFormulaExpression (names_of cols)) es = Inr ts"
    using Call.prems(1) by (auto simp: and_then_eq_Inr)
  have "list_all2 (\<lambda>e _. reads_back h cols (names_of cols) e) (map (\<lambda>e. e) es) ts"
    by (rule map_result_all2 [OF ts]) (use Call in \<open>auto simp: list_all_iff\<close>)
  then show ?case by (simp add: list_all2_conv_all_nth list_all_length)
qed (simp add: canonical_reads_back)

lemma columns_walk: "columns_in C e \<Longrightarrow> Column c \<in> fst ` set (walkFormula d e) \<Longrightarrow> c \<in> C"
proof (induction e arbitrary: d)
  case (Call f args)
  then show ?case unfolding set_walk_call by (fastforce simp: list_all_iff)
qed simp_all

lemma columns_collected: "columns_in C e \<Longrightarrow> set (collectFormulaColumnIds e) \<subseteq> C"
  using columns_walk set_collect by blast

section \<open>The properties\<close>

text \<open>
  C25. Parsing inverts printing: a formula that the validation accepts, printed with the names of
  the columns of a table whose names differ, is read back as the same formula, when the text is
  within the limit of its length and its literals are in the form the program gives to values: any
  text, boolean, finite number or JSON value, and timestamps as \<open>toISOString\<close> prints them
  (\<open>2020-01-01T00:00:00.000Z\<close>, not \<open>2020-01-01T00:00:00Z\<close>) and \<open>Date.parse\<close> reads them.
\<close>

theorem formula_round_trip:
  assumes "validateFormulaDefinition e types = Inr ty" and "distinct (map column_name cols)"
    and "formatFormulaExpression (names_of cols) e = Inr text" and "canonical_literals h e"
    and "length text \<le> MAXIMUM_FORMULA_SOURCE_CHARACTERS"
  shows "parseFormulaSource h text cols = Inr e"
proof -
  have "formula_nodes e \<le> MAXIMUM_FORMULA_NODES \<and> formula_height e \<le> MAXIMUM_FORMULA_DEPTH"
    using assms(1) limits_size by (auto simp: validateFormulaDefinition_def and_then_eq_Inr)
  then have "parse_source h cols text = Inr e"
    using formatted_parses [OF assms(3) reads_back_distinct [OF assms(2,3,4)]] by blast
  then show ?thesis using assms(5) by (simp add: parseFormulaSource_def)
qed

definition sample_columns :: "source_column list" where
  "sample_columns = [\<lparr>column_id = js ''a'', column_name = js ''A ]b'', column_type = TText\<rparr>]"

definition sample_call :: formula_expression where
  "sample_call = Call Fn_concat [Column (js ''a''), Literal (CText (js ''b\<newline>''))]"

definition sample_text :: jsstr where
  "sample_text = js ''CONCAT([A ]]b], '' @ [34] @ js ''b'' @ [92] @ js ''n'' @ [34] @ js '')''"

theorem formula_round_trip_witness:
  "parseFormulaSource ascii_host sample_text sample_columns = Inr sample_call"
proof (rule formula_round_trip)
  show "validateFormulaDefinition sample_call (\<lambda>_. Some TText) = Inr TText" by code_simp
qed code_simp+

text \<open>
  C26. The parser returns for every text, without exhausting its fuel, and what it accepts is
  within the limits of a formula and refers to columns of the list only.
\<close>

theorem parsed_formula_limits:
  "parseFormulaSource h source cols \<noteq> Inl OutOfFuel \<and>
   (case parseFormulaSource h source cols of
      Inl _ \<Rightarrow> True
    | Inr e \<Rightarrow> check_limits 0 (walkFormula 1 e) = Inr ()
        \<and> set (collectFormulaColumnIds e) \<subseteq> column_id ` set cols)"
proof -
  have p: "parseExpression h cols MAXIMUM_FORMULA_DEPTH s n \<noteq> Inl OutOfFuel" for s n
    using parseExpression_parses [of MAXIMUM_FORMULA_DEPTH cols h] unfolding parses_def by blast
  have ok: "formula_nodes e \<le> MAXIMUM_FORMULA_NODES \<and> formula_height e \<le> MAXIMUM_FORMULA_DEPTH
      \<and> columns_in (column_id ` set cols) e"
    if "parseExpression h cols MAXIMUM_FORMULA_DEPTH s 0 = Inr (e, r, m)" for s e r m
    using parseExpression_parses [of MAXIMUM_FORMULA_DEPTH cols h] that unfolding parses_def by force
  have "parseFormulaSource h source cols \<noteq> Inl OutOfFuel"
    using p by (auto simp: parseFormulaSource_def parse_source_def and_then_eq_Inl Let_def
        simp del: parseExpression.simps split: if_splits)
  moreover have "check_limits 0 (walkFormula 1 e) = Inr () \<and> set (collectFormulaColumnIds e) \<subseteq> column_id ` set cols"
    if e: "parseFormulaSource h source cols = Inr e" for e
  proof -
    obtain s rest m where "parseExpression h cols MAXIMUM_FORMULA_DEPTH s 0 = Inr (e, rest, m)"
      using e by (auto simp: parseFormulaSource_def parse_source_def and_then_eq_Inr Let_def
        simp del: parseExpression.simps split: if_splits)
    from ok [OF this] show ?thesis using columns_collected by (simp add: limits_size del: One_nat_def)
  qed
  ultimately show ?thesis by (simp split: sum.split)
qed

end
