(* ===== verification/WorkspacePolicy.thy ===== *)
theory WorkspacePolicy
  imports Prelude
begin

text \<open>
  Roles, permissions and the management of members
  (\<open>packages/domain/src/workspace-policy.ts\<close>). The roles are ordered by what they may do, as
  an instance of \<open>linorder\<close>; the permission tables are shown to respect that order.
\<close>

datatype workspace_role = Member | Admin | Owner

datatype workspace_permission =
    Connectors_manage
  | Credentials_manage
  | Data_read
  | Data_write
  | Members_invite
  | Members_manage
  | Schema_manage
  | Workspace_manage

instantiation workspace_role :: linorder
begin

fun role_rank :: "workspace_role \<Rightarrow> nat" where
  "role_rank Member = 0"
| "role_rank Admin = 1"
| "role_rank Owner = 2"

definition less_eq_workspace_role :: "workspace_role \<Rightarrow> workspace_role \<Rightarrow> bool" where
  "less_eq_workspace_role r s \<longleftrightarrow> role_rank r \<le> role_rank s"

definition less_workspace_role :: "workspace_role \<Rightarrow> workspace_role \<Rightarrow> bool" where
  "less_workspace_role r s \<longleftrightarrow> role_rank r < role_rank s"

instance
proof
  fix r s :: workspace_role
  assume "r \<le> s" "s \<le> r"
  then show "r = s" by (cases r; cases s) (simp_all add: less_eq_workspace_role_def)
qed (auto simp: less_eq_workspace_role_def less_workspace_role_def)

end

lemmas role_order = less_eq_workspace_role_def less_workspace_role_def

definition rolePermissions :: "workspace_role \<Rightarrow> workspace_permission list" where
  "rolePermissions r =
     (case r of
        Owner \<Rightarrow> [Connectors_manage, Credentials_manage, Data_read, Data_write, Members_invite,
                   Members_manage, Schema_manage, Workspace_manage]
      | Admin \<Rightarrow> [Connectors_manage, Credentials_manage, Data_read, Data_write, Members_invite,
                   Members_manage, Schema_manage]
      | Member \<Rightarrow> [Data_read, Data_write])"

definition hasWorkspacePermission :: "workspace_role \<Rightarrow> workspace_permission \<Rightarrow> bool" where
  "hasWorkspacePermission r p \<longleftrightarrow> p \<in> set (rolePermissions r)"

text \<open>The invited role is never \<open>owner\<close>: \<open>workspaceInvitationRoleSchema\<close>.\<close>

definition workspaceInvitationRole :: "workspace_role \<Rightarrow> bool" where
  "workspaceInvitationRole r \<longleftrightarrow> r = Admin \<or> r = Member"

definition canInviteWorkspaceRole :: "workspace_role \<Rightarrow> workspace_role \<Rightarrow> bool" where
  "canInviteWorkspaceRole actor invited =
     (if \<not> hasWorkspacePermission actor Members_invite then False
      else if actor = Owner then True
      else actor = Admin \<and> invited = Member)"

definition canManageWorkspaceMember :: "workspace_role \<Rightarrow> workspace_role \<Rightarrow> bool" where
  "canManageWorkspaceMember actor target =
     (if \<not> hasWorkspacePermission actor Members_manage then False
      else if actor = Owner then target \<noteq> Owner
      else actor = Admin \<and> target = Member)"

text \<open>The format of an address is a check of the schema library.\<close>

definition normalizeWorkspaceEmail :: "(jsstr \<Rightarrow> bool) \<Rightarrow> host \<Rightarrow> jsstr \<Rightarrow> jsstr option" where
  "normalizeWorkspaceEmail valid_email h email =
     (let address = nfkc h (trim email)
      in if valid_email address \<and> length address \<le> 320 then Some (toLocaleLowerCaseEnUS h address) else None)"

lemma permissions_mono: "r \<le> s \<Longrightarrow> hasWorkspacePermission r p \<Longrightarrow> hasWorkspacePermission s p"
  by (cases r; cases s) (auto simp: hasWorkspacePermission_def rolePermissions_def role_order)

lemma manages_below: "canManageWorkspaceMember actor target \<longleftrightarrow> Admin \<le> actor \<and> target < actor"
  by (cases actor; cases target)
    (simp_all add: canManageWorkspaceMember_def hasWorkspacePermission_def rolePermissions_def role_order)

lemma invites_below:
  "workspaceInvitationRole invited \<Longrightarrow> canInviteWorkspaceRole actor invited \<longleftrightarrow> Admin \<le> actor \<and> invited < actor"
  by (cases actor; cases invited)
    (simp_all add: canInviteWorkspaceRole_def workspaceInvitationRole_def hasWorkspacePermission_def
      rolePermissions_def role_order)

section \<open>Properties\<close>

text \<open>
  Authority follows the order of the roles: a higher role has every permission of a lower
  one, and a member is invited or managed exactly by an administrator or owner of a strictly
  higher role. So nobody manages an equal, and nobody manages or invites an owner.
\<close>

lemma roles_ordered:
  "(\<forall>p. hasWorkspacePermission r p \<and> r \<le> s \<longrightarrow> hasWorkspacePermission s p)
   \<and> (canManageWorkspaceMember s r \<longleftrightarrow> Admin \<le> s \<and> r < s)
   \<and> (workspaceInvitationRole r \<longrightarrow> canInviteWorkspaceRole s r = (Admin \<le> s \<and> r < s))"
  by (intro conjI allI impI) (elim conjE, erule (1) permissions_mono, rule manages_below, erule invites_below)

end
