(* ===== verification/GridTables.thy ===== *)
theory GridTables
  imports Rows Formulas GridView Outbox WorkspacePolicy
begin

text \<open>
  The tables that hold the data of a workspace (\<open>packages/db/src/sqlite/schema.ts\<close>), the
  storage of a cell value in five typed columns (\<open>packages/db/src/sqlite/cell-values.ts\<close>) and
  the lookups the operations share. \<open>g_outbox\<close> holds the outbox rows that these operations
  add; \<open>g_fresh\<close> counts the random identifiers drawn so far.
\<close>

section \<open>Stored cell values\<close>

record stored_value =
  valueType :: value_type
  valueText :: "jsstr option"
  valueNumber :: "jsnum option"
  valueBoolean :: "bool option"
  valueTimestamp :: "int option"
  valueJson :: "jsstr option"

text \<open>
  The driver stores a \<open>Date\<close> as its milliseconds (\<open>NaN\<close> as \<open>null\<close>) and a JSON value as its
  text (\<open>null\<close> as \<open>null\<close>).
\<close>

definition no_value :: "value_type \<Rightarrow> stored_value" where
  "no_value t = \<lparr>valueType = t, valueText = None, valueNumber = None, valueBoolean = None,
     valueTimestamp = None, valueJson = None\<rparr>"

fun serializeSqliteCellValue :: "host \<Rightarrow> cell_value \<Rightarrow> stored_value" where
  "serializeSqliteCellValue h CEmpty = no_value TEmpty"
| "serializeSqliteCellValue h (CText s) = (no_value TText)\<lparr>valueText := Some s\<rparr>"
| "serializeSqliteCellValue h (CNumber x) = (no_value TNumber)\<lparr>valueNumber := Some x\<rparr>"
| "serializeSqliteCellValue h (CBoolean b) = (no_value TBoolean)\<lparr>valueBoolean := Some b\<rparr>"
| "serializeSqliteCellValue h (CTimestamp t) = (no_value TTimestamp)\<lparr>valueTimestamp := new_date h t\<rparr>"
| "serializeSqliteCellValue h (CJson v) =
     (no_value TJson)\<lparr>valueJson := (if v = JNull then None else Some (stringify v))\<rparr>"

text \<open>\<open>None\<close> is a stored text that is not JSON, or JSON that the cell schema rejects.\<close>

definition deserializeSqliteCellValue :: "host \<Rightarrow> stored_value \<Rightarrow> cell_value option" where
  "deserializeSqliteCellValue h c =
     (case valueType c of
        TEmpty \<Rightarrow> Some CEmpty
      | TText \<Rightarrow> Some (CText (case valueText c of None \<Rightarrow> [] | Some s \<Rightarrow> s))
      | TNumber \<Rightarrow> Some (CNumber (case valueNumber c of None \<Rightarrow> Fin 0 | Some x \<Rightarrow> x))
      | TBoolean \<Rightarrow> Some (CBoolean (case valueBoolean c of None \<Rightarrow> False | Some b \<Rightarrow> b))
      | TTimestamp \<Rightarrow> Some (CTimestamp (toISOString (case valueTimestamp c of None \<Rightarrow> 0 | Some t \<Rightarrow> t)))
      | TJson \<Rightarrow>
          (case (case valueJson c of None \<Rightarrow> Some JNull | Some s \<Rightarrow> json_parse s) of
             None \<Rightarrow> None
           | Some v \<Rightarrow> if valid_cell_value h (CJson v) then Some (CJson v) else None))"

text \<open>Values that storage gives back as they were: all but timestamps in another form.\<close>

definition storable :: "host \<Rightarrow> cell_value \<Rightarrow> bool" where
  "storable h v \<longleftrightarrow> deserializeSqliteCellValue h (serializeSqliteCellValue h v) = Some v"

lemma storable_simps [simp]:
  "storable h CEmpty" "storable h (CText s)" "storable h (CNumber x)" "storable h (CBoolean b)"
  "storable h (CTimestamp t) \<longleftrightarrow> toISOString (case new_date h t of None \<Rightarrow> 0 | Some u \<Rightarrow> u) = t"
  by (simp_all add: storable_def deserializeSqliteCellValue_def no_value_def)

lemma serialized_type: "valueType (serializeSqliteCellValue h v) = type_of v"
  by (cases v) (simp_all add: no_value_def)

lemma deserialized_type: "deserializeSqliteCellValue h c = Some v \<Longrightarrow> type_of v = valueType c"
  by (auto simp: deserializeSqliteCellValue_def split: value_type.splits option.splits if_splits)

section \<open>Tables\<close>

datatype column_kind = Input_column | Formula_column | Connector_column | Function_column

text \<open>
  The JSON configuration of a column, as the schemas that read it see it: the document of a
  formula, the document of a connector action (only its run mode is read here), or one that
  neither schema accepts.
\<close>

datatype run_mode = Manual_run | On_change

datatype column_configuration =
    FormulaConfiguration formula_expression
  | ConnectorActionConfiguration run_mode
  | OtherConfiguration

record table_row =
  table_id :: jsstr
  table_workspaceId :: jsstr
  table_name :: jsstr
  table_archivedAt :: "int option"

record column_row =
  col_id :: jsstr
  col_workspaceId :: jsstr
  col_tableId :: jsstr
  col_name :: jsstr
  col_kind :: column_kind
  col_valueType :: value_type
  col_position :: jsstr
  col_configuration :: column_configuration
  col_archivedAt :: "int option"

record grid_row =
  row_id :: jsstr
  row_workspaceId :: jsstr
  row_tableId :: jsstr
  row_position :: jsstr
  row_version :: nat
  row_archivedAt :: "int option"
  row_updatedAt :: int

record grid_cell =
  gc_id :: jsstr
  gc_workspaceId :: jsstr
  gc_tableId :: jsstr
  gc_rowId :: jsstr
  gc_columnId :: jsstr
  gc_value :: stored_value
  gc_status :: cell_status
  gc_version :: nat
  gc_updatedAt :: int

record dependency_row =
  dep_workspaceId :: jsstr
  dep_tableId :: jsstr
  dep_columnId :: jsstr
  dependsOnColumnId :: jsstr

datatype destination_status = Destination_active | Destination_paused
datatype trigger_mode = Trigger_manual | Trigger_row_settled

record webhook_row =
  wh_id :: jsstr
  wh_workspaceId :: jsstr
  wh_tableId :: jsstr
  wh_status :: destination_status
  wh_triggerMode :: trigger_mode

record writeback_row =
  wb_id :: jsstr
  wb_workspaceId :: jsstr
  wb_tableId :: jsstr
  wb_status :: destination_status
  wb_triggerMode :: trigger_mode
  wb_recordIdColumnId :: jsstr
  wb_fieldColumnIds :: "jsstr list"
  wb_filterTree :: persisted_filters

datatype settlement_status =
    Settlement_queued | Settlement_running | Settlement_succeeded | Settlement_failed | Settlement_skipped

record settlement_row =
  settlement_id :: jsstr
  settlement_workspaceId :: jsstr
  settlement_tableId :: jsstr
  settlement_rowId :: jsstr
  settlement_rowVersion :: nat
  changedColumnIds :: "jsstr list"
  settlement_status :: settlement_status
  queuedRunCount :: nat
  consumedById :: "jsstr option"

record member_row =
  member_workspaceId :: jsstr
  member_userId :: jsstr
  member_role :: workspace_role

record grid_db =
  g_members :: "member_row list"
  g_tables :: "table_row list"
  g_columns :: "column_row list"
  g_rows :: "grid_row list"
  g_cells :: "grid_cell list"
  g_dependencies :: "dependency_row list"
  g_webhooks :: "webhook_row list"
  g_writebacks :: "writeback_row list"
  g_settlements :: "settlement_row list"
  g_outbox :: "outbox_event list"
  g_fresh :: nat

text \<open>Errors of the operations on these tables.\<close>

datatype grid_error =
    FormulaAccess
  | FormulaConflict
  | FormulaValidation
  | FormulaDefinition
  | StoredValueInvalid
  | RowMissing
  | GridConstraint
  | RowBatchInvalid
  | WorkflowRowsRefused
  | GridAccess
  | GridConflict
  | GridValidation
  | CellValueRejected
  | ColumnConversion conversion_error

section \<open>Reading\<close>

definition table_columns :: "jsstr \<Rightarrow> jsstr \<Rightarrow> grid_db \<Rightarrow> column_row list" where
  "table_columns tableId workspaceId db =
     select_where (\<lambda>c. col_tableId c = tableId \<and> col_workspaceId c = workspaceId) (g_columns db)"

definition row_cells :: "jsstr \<Rightarrow> jsstr \<Rightarrow> jsstr \<Rightarrow> grid_db \<Rightarrow> grid_cell list" where
  "row_cells rowId tableId workspaceId db =
     select_where (\<lambda>c. gc_rowId c = rowId \<and> gc_tableId c = tableId \<and> gc_workspaceId c = workspaceId) (g_cells db)"

text \<open>The value of a column in a row, as the program reads it.\<close>

definition cell_key :: "grid_cell \<Rightarrow> jsstr \<times> jsstr" where
  "cell_key c = (gc_rowId c, gc_columnId c)"

definition value_at :: "host \<Rightarrow> grid_db \<Rightarrow> jsstr \<Rightarrow> jsstr \<Rightarrow> cell_value option" where
  "value_at h db rowId columnId =
     (case row_at cell_key (g_cells db) (rowId, columnId) of
        None \<Rightarrow> None
      | Some c \<Rightarrow> deserializeSqliteCellValue h (gc_value c))"

end
