(* ===== verification/RowMutations.thy ===== *)
theory RowMutations
  imports GridTables
begin

text \<open>
  What follows a change of a row (\<open>packages/db/src/sqlite/row-mutations.ts\<close>): its version is
  raised, and a settlement with its outbox event is queued when something automatic depends
  on the change.
\<close>

text \<open>A random identifier (\<open>crypto.randomUUID()\<close>, also the default of the identifier columns).\<close>

definition new_uuid :: "(nat \<Rightarrow> jsstr) \<Rightarrow> grid_db \<Rightarrow> jsstr \<times> grid_db" where
  "new_uuid uuid db = (uuid (g_fresh db), db\<lparr>g_fresh := Suc (g_fresh db)\<rparr>)"

record row_scope =
  sc_rowId :: jsstr
  sc_tableId :: jsstr
  sc_workspaceId :: jsstr

definition row_in_scope :: "row_scope \<Rightarrow> grid_row \<Rightarrow> bool" where
  "row_in_scope s r \<longleftrightarrow> row_id r = sc_rowId s \<and> row_tableId r = sc_tableId s \<and> row_workspaceId r = sc_workspaceId s"

definition raise_version :: "int \<Rightarrow> grid_row \<Rightarrow> grid_row" where
  "raise_version now r = r\<lparr>row_updatedAt := now, row_version := row_version r + 1\<rparr>"

definition has_automatic_webhook :: "row_scope \<Rightarrow> grid_db \<Rightarrow> bool" where
  "has_automatic_webhook s db \<longleftrightarrow>
     list_ex (\<lambda>w. wh_tableId w = sc_tableId s \<and> wh_workspaceId w = sc_workspaceId s
       \<and> wh_status w = Destination_active \<and> wh_triggerMode w = Trigger_row_settled) (g_webhooks db)"

definition MAXIMUM_WRITEBACK_DESTINATIONS_PER_TABLE :: nat where
  "MAXIMUM_WRITEBACK_DESTINATIONS_PER_TABLE = 20"

definition automatic_writebacks :: "row_scope \<Rightarrow> grid_db \<Rightarrow> writeback_row list" where
  "automatic_writebacks s db =
     take MAXIMUM_WRITEBACK_DESTINATIONS_PER_TABLE
       (select_where (\<lambda>w. wb_tableId w = sc_tableId s \<and> wb_workspaceId w = sc_workspaceId s
         \<and> wb_status w = Destination_active \<and> wb_triggerMode w = Trigger_row_settled) (g_writebacks db))"

text \<open>
  A stored filter that is neither form of a filter tree makes the transaction fail. As
  \<open>Array.prototype.some\<close> stops at the first hit, a later invalid tree is not read.
\<close>

fun relevant_writeback :: "host \<Rightarrow> jsstr list \<Rightarrow> writeback_row list \<Rightarrow> grid_error + bool" where
  "relevant_writeback h changed [] = Inr False"
| "relevant_writeback h changed (w # ws) =
     (case normalizeGridViewFilterTree h (wb_filterTree w) of
        None \<Rightarrow> Inl StoredValueInvalid
      | Some tree \<Rightarrow>
          if list_ex (\<lambda>c. c \<in> set changed)
               (wb_recordIdColumnId w # wb_fieldColumnIds w @ map filter_column (gridViewFilterLeaves tree))
          then Inr True else relevant_writeback h changed ws)"

definition has_automatic_dependent :: "row_scope \<Rightarrow> jsstr list \<Rightarrow> grid_db \<Rightarrow> bool" where
  "has_automatic_dependent s changed db \<longleftrightarrow>
     list_ex (\<lambda>d. dependsOnColumnId d \<in> set changed \<and> dep_tableId d = sc_tableId s
       \<and> dep_workspaceId d = sc_workspaceId s
       \<and> list_ex (\<lambda>c. col_id c = dep_columnId d \<and> col_tableId c = dep_tableId d
            \<and> col_workspaceId c = dep_workspaceId d \<and> col_kind c = Connector_column
            \<and> col_configuration c = ConnectorActionConfiguration On_change) (g_columns db)) (g_dependencies db)"

definition has_pending_delivery :: "row_scope \<Rightarrow> grid_db \<Rightarrow> bool" where
  "has_pending_delivery s db \<longleftrightarrow>
     list_ex (\<lambda>x. settlement_rowId x = sc_rowId s \<and> settlement_tableId x = sc_tableId s
       \<and> settlement_workspaceId x = sc_workspaceId s \<and> settlement_status x = Settlement_succeeded
       \<and> 0 < queuedRunCount x \<and> consumedById x = None) (g_settlements db)"

text \<open>
  The check \<open>rowSettlementInputSchema\<close> of identifiers that the database made is left out.
\<close>

definition settled_event :: "jsstr \<Rightarrow> jsstr \<Rightarrow> row_scope \<Rightarrow> nat \<Rightarrow> int \<Rightarrow> outbox_event" where
  "settled_event eid sid s version now =
     \<lparr>event_id = eid, event_workspaceId = sc_workspaceId s, aggregateType = js ''row_settlement'',
      aggregateId = sid, eventType = js ''table.row_settled'',
      payload = JObj [(js ''rowId'', JStr (sc_rowId s)), (js ''rowVersion'', JNum (Fin (of_nat version))),
        (js ''settlementId'', JStr sid), (js ''tableId'', JStr (sc_tableId s)),
        (js ''workspaceId'', JStr (sc_workspaceId s))],
      event_createdAt = now, publishedAt = None, dispatchClaimId = None, dispatchClaimedAt = None,
      dispatchAttempts = 0, dispatchNextAttemptAt = None, dispatchLastError = None\<rparr>"

definition queue_settlement :: "(nat \<Rightarrow> jsstr) \<Rightarrow> int \<Rightarrow> row_scope \<Rightarrow> jsstr list \<Rightarrow> nat \<Rightarrow> grid_db
    \<Rightarrow> grid_db \<times> jsstr option" where
  "queue_settlement uuid now s changed version db =
     (case new_uuid uuid db of
        (sid, db1) \<Rightarrow>
          if sid \<in> settlement_id ` set (g_settlements db1)
             \<or> (sc_rowId s, version) \<in> (\<lambda>x. (settlement_rowId x, settlement_rowVersion x)) ` set (g_settlements db1)
          then (db1, None)
          else (case new_uuid uuid db1 of
                  (eid, db2) \<Rightarrow>
                    (db2\<lparr>g_settlements := g_settlements db2 @
                        [\<lparr>settlement_id = sid, settlement_workspaceId = sc_workspaceId s,
                          settlement_tableId = sc_tableId s, settlement_rowId = sc_rowId s,
                          settlement_rowVersion = version, changedColumnIds = changed,
                          settlement_status = Settlement_queued, queuedRunCount = 0, consumedById = None\<rparr>],
                      g_outbox := g_outbox db2 @ [settled_event eid sid s version now]\<rparr>, Some sid)))"

definition recordSqliteRowMutationAndMaybeQueueSettlement :: "host \<Rightarrow> (nat \<Rightarrow> jsstr) \<Rightarrow> int \<Rightarrow> row_scope
    \<Rightarrow> jsstr list \<Rightarrow> grid_db \<Rightarrow> grid_error + (grid_db \<times> nat \<times> jsstr option)" where
  "recordSqliteRowMutationAndMaybeQueueSettlement h uuid now s changedIn db =
     (case first_row (select_where (row_in_scope s) (g_rows db)) of
        None \<Rightarrow> Inl RowMissing
      | Some row \<Rightarrow>
          let db1 = db\<lparr>g_rows := update_where (row_in_scope s) (raise_version now) (g_rows db)\<rparr>;
              version = row_version row + 1;
              changed = sort (set_from changedIn)
          in and_then (relevant_writeback h changed (automatic_writebacks s db1)) (\<lambda>writeback.
               if \<not> has_automatic_webhook s db1 \<and> \<not> writeback
                  \<and> \<not> (changed \<noteq> [] \<and> has_automatic_dependent s changed db1) \<and> \<not> has_pending_delivery s db1
               then Inr (db1, version, None)
               else case queue_settlement uuid now s changed version db1 of
                      (db2, settlement) \<Rightarrow> Inr (db2, version, settlement)))"

end
