(* ===== verification/FormulaColumns.thy ===== *)
theory FormulaColumns
  imports RowMutations FormulaLanguage Worklist
begin

text \<open>
  Formula columns on the tables (\<open>packages/db/src/sqlite/formulas.ts\<close>): the recomputation of
  the formulas that depend on changed columns of a row, and the creation of a formula column.
\<close>

section \<open>What has to be recomputed\<close>

text \<open>\<open>dependents\<close>: the columns that depend on a column, in the order of the table.\<close>

definition dependents_of :: "dependency_row list \<Rightarrow> (jsstr \<times> jsstr list) list" where
  "dependents_of dependencies =
     fold (\<lambda>d m. AList.update (dependsOnColumnId d) (get_or [] m (dependsOnColumnId d) @ [dep_columnId d]) m)
       dependencies []"

definition push_dependents :: "jsstr list \<Rightarrow> jsstr list \<Rightarrow> jsstr list" where
  "push_dependents targets reachable =
     fold (\<lambda>d new. if d \<in> set reachable \<or> d \<in> set new then new else new @ [d]) targets []"

lemma set_push_dependents: "set (push_dependents targets reachable) = set targets - set reachable"
  and distinct_push_dependents: "distinct (push_dependents targets reachable)"
proof -
  let ?f = "\<lambda>d new. if d \<in> set reachable \<or> d \<in> set new then new else new @ [d]"
  have "set (fold ?f targets new) = set new \<union> (set targets - set reachable)" for new
    by (induction targets arbitrary: new) auto
  then show "set (push_dependents targets reachable) = set targets - set reachable"
    by (simp add: push_dependents_def)
  have "distinct new \<Longrightarrow> distinct (fold ?f targets new)" for new
    by (induction targets arbitrary: new) auto
  then show "distinct (push_dependents targets reachable)" by (simp add: push_dependents_def)
qed

text \<open>
  The queue behind the cursor is \<open>pending\<close>; every turn either passes an entry or adds a
  dependent to the set, of which there are finitely many.
\<close>

function reach_dependents :: "(jsstr \<times> jsstr list) list \<Rightarrow> jsstr list \<Rightarrow> jsstr list \<Rightarrow> jsstr list" where
  "reach_dependents dependents pending reachable =
     (case pending of
        [] \<Rightarrow> reachable
      | c # rest \<Rightarrow>
          let new = push_dependents (get_or [] dependents c) reachable
          in reach_dependents dependents (rest @ new) (reachable @ new))"
  by pat_completeness auto
termination
proof (relation "measures [\<lambda>(dependents, pending, reachable). card (\<Union> (set ` snd ` set dependents) - set reachable),
    \<lambda>(dependents, pending, reachable). length pending]", goal_cases)
  case 1
  then show ?case by simp
next
  case (2 dependents pending reachable c rest new)
  have new: "set new = set (get_or [] dependents c) - set reachable"
    using 2 by (simp add: set_push_dependents)
  show ?case
  proof (cases "new = []")
    case True
    then show ?thesis using 2 by simp
  next
    case False
    then have "\<Union> (set ` snd ` set dependents) - set (reachable @ new) \<subset> \<Union> (set ` snd ` set dependents) - set reachable"
      using new get_or_targets [of dependents c] by (cases new) auto
    then have "card (\<Union> (set ` snd ` set dependents) - set (reachable @ new)) < card (\<Union> (set ` snd ` set dependents) - set reachable)"
      by (intro psubset_card_mono) simp_all
    then show ?thesis by simp
  qed
qed

declare reach_dependents.simps [simp del]

definition indegrees_of :: "dependency_row list \<Rightarrow> jsstr list \<Rightarrow> (jsstr \<times> int) list" where
  "indegrees_of dependencies reachable =
     fold (\<lambda>d m. if dep_columnId d \<in> set reachable \<and> dependsOnColumnId d \<in> set reachable
                 then AList.update (dep_columnId d) (get_or 0 m (dep_columnId d) + 1) m else m)
       dependencies (map (\<lambda>c. (c, 0)) reachable)"

definition reachable_dependents :: "(jsstr \<times> jsstr list) list \<Rightarrow> jsstr list \<Rightarrow> jsstr \<Rightarrow> jsstr list" where
  "reachable_dependents dependents reachable c = filter (\<lambda>d. d \<in> set reachable) (get_or [] dependents c)"

text \<open>The third loop of Kahn: the ready list is sorted after every turn.\<close>

function order_formulas :: "(jsstr \<Rightarrow> jsstr list) \<Rightarrow> jsstr list \<Rightarrow> (jsstr \<times> int) list \<Rightarrow> jsstr list \<Rightarrow> jsstr list" where
  "order_formulas outs ready indegrees ordered =
     (case ready of
        [] \<Rightarrow> ordered
      | c # rest \<Rightarrow>
          (case relax (\<lambda>d r. r @ [d]) (outs c) indegrees rest of
             (indegrees', ready') \<Rightarrow> order_formulas outs (sort ready') indegrees' (ordered @ [c])))"
  by pat_completeness auto
termination
proof (relation "measure (\<lambda>(outs, ready, indegrees, ordered). work indegrees ready)", goal_cases)
  case 1
  then show ?case by simp
next
  case (2 outs ready indegrees ordered c rest indegrees' ready')
  then have "work indegrees' ready' \<le> work indegrees rest"
    by (intro work_relax [where add = "\<lambda>d r. r @ [d]"]) auto
  then show ?case using 2 by (simp add: work_def)
qed

declare order_formulas.simps [simp del]

definition recomputation_order :: "dependency_row list \<Rightarrow> jsstr list \<Rightarrow> grid_error + jsstr list" where
  "recomputation_order dependencies changed =
     (let dependents = dependents_of dependencies;
          reachable = reach_dependents dependents changed [];
          indegrees = indegrees_of dependencies reachable;
          ready = sort (map fst (filter (\<lambda>(c, degree). degree = 0) indegrees));
          ordered = order_formulas (reachable_dependents dependents reachable) ready indegrees []
      in if length ordered \<noteq> length reachable then Inl FormulaDefinition else Inr ordered)"

section \<open>The order of the recomputation\<close>

definition dep_rel :: "dependency_row list \<Rightarrow> (jsstr \<times> jsstr) set" where
  "dep_rel dependencies = (\<lambda>d. (dependsOnColumnId d, dep_columnId d)) ` set dependencies"

lemma get_or_dependents:
  "get_or [] (dependents_of ds) c = map dep_columnId (filter (\<lambda>d. dependsOnColumnId d = c) ds)"
proof -
  have "get_or [] (fold (\<lambda>d m. AList.update (dependsOnColumnId d) (get_or [] m (dependsOnColumnId d) @ [dep_columnId d]) m) ds m) c
      = get_or [] m c @ map dep_columnId (filter (\<lambda>d. dependsOnColumnId d = c) ds)" for m
    by (induction ds arbitrary: m) auto
  then show ?thesis by (simp add: dependents_of_def)
qed

lemma out_rel_dependents: "out_rel (dependents_of ds) = dep_rel ds"
  by (auto simp: out_rel_def dep_rel_def get_or_dependents)

lemma reach_closed:
  assumes "\<forall>x \<in> Z \<union> set reachable. x \<in> set pending \<or> set (get_or [] m x) \<subseteq> set reachable"
  shows "set reachable \<subseteq> set (reach_dependents m pending reachable)
    \<and> (\<forall>x \<in> Z \<union> set (reach_dependents m pending reachable). set (get_or [] m x) \<subseteq> set (reach_dependents m pending reachable))"
  using assms
proof (induction m pending reachable rule: reach_dependents.induct)
  case (1 m pending reachable)
  show ?case
  proof (cases pending)
    case Nil
    then show ?thesis using "1.prems" by (subst (1 2 3) reach_dependents.simps) simp
  next
    case (Cons c rest)
    let ?new = "push_dependents (get_or [] m c) reachable"
    have "\<forall>x \<in> Z \<union> set (reachable @ ?new). x \<in> set (rest @ ?new) \<or> set (get_or [] m x) \<subseteq> set (reachable @ ?new)"
      using "1.prems" Cons by (auto simp: set_push_dependents)
    from "1.IH" [OF Cons refl this] show ?thesis
      using Cons by (subst (1 2 3) reach_dependents.simps) (auto simp: Let_def)
  qed
qed

lemma reach_sound:
  "x \<in> set (reach_dependents m pending reachable) \<Longrightarrow> x \<in> set reachable \<or> (\<exists>p \<in> set pending. (p, x) \<in> (out_rel m)\<^sup>+)"
proof (induction m pending reachable rule: reach_dependents.induct)
  case (1 m pending reachable)
  show ?case
  proof (cases pending)
    case Nil
    then show ?thesis using "1.prems" by (subst (asm) reach_dependents.simps) simp
  next
    case (Cons c rest)
    let ?new = "push_dependents (get_or [] m c) reachable"
    have step: "(c, p) \<in> out_rel m" if "p \<in> set ?new" for p
      using that by (simp add: out_rel_def set_push_dependents)
    have "x \<in> set (reach_dependents m (rest @ ?new) (reachable @ ?new))"
      using "1.prems" Cons by (subst (asm) reach_dependents.simps) (simp add: Let_def)
    from "1.IH" [OF Cons refl this] show ?thesis
      using Cons step by (auto intro: trancl_into_trancl2)
  qed
qed

lemma reach_distinct: "distinct reachable \<Longrightarrow> distinct (reach_dependents m pending reachable)"
proof (induction m pending reachable rule: reach_dependents.induct)
  case (1 m pending reachable)
  then show ?case
    by (subst reach_dependents.simps) (auto simp: Let_def set_push_dependents distinct_push_dependents split: list.split)
qed

definition affected :: "dependency_row list \<Rightarrow> jsstr list \<Rightarrow> jsstr list" where
  "affected ds changed = reach_dependents (dependents_of ds) changed []"

lemma set_affected: "set (affected ds changed) = {x. \<exists>p \<in> set changed. (p, x) \<in> (dep_rel ds)\<^sup>+}"
proof
  show "set (affected ds changed) \<subseteq> {x. \<exists>p \<in> set changed. (p, x) \<in> (dep_rel ds)\<^sup>+}"
    using reach_sound [of _ "dependents_of ds" changed "[]"] by (auto simp: affected_def out_rel_dependents)
  have closed: "\<forall>x \<in> set changed \<union> set (affected ds changed). set (get_or [] (dependents_of ds) x) \<subseteq> set (affected ds changed)"
    using reach_closed [of "set changed" "[]" changed "dependents_of ds"] by (simp add: affected_def)
  have step: "y \<in> set (affected ds changed)" if "(x, y) \<in> dep_rel ds" "x \<in> set changed \<union> set (affected ds changed)" for x y
    using closed that by (auto simp: out_rel_dependents [symmetric] out_rel_def)
  have "x \<in> set (affected ds changed)" if "(p, x) \<in> (dep_rel ds)\<^sup>+" "p \<in> set changed" for p x
    using that by (induction rule: trancl_induct) (use step in blast)+
  then show "{x. \<exists>p \<in> set changed. (p, x) \<in> (dep_rel ds)\<^sup>+} \<subseteq> set (affected ds changed)" by auto
qed

lemma distinct_affected: "distinct (affected ds changed)"
  by (simp add: affected_def reach_distinct)

lemma indegrees_keys: "map fst (indegrees_of ds R) = R"
proof -
  have "map fst (fold (\<lambda>d m. if dep_columnId d \<in> set R \<and> dependsOnColumnId d \<in> set R
      then AList.update (dep_columnId d) (get_or 0 m (dep_columnId d) + 1) m else m) ds m) = R"
    if "map fst m = R" for m :: "(jsstr \<times> int) list"
    using that
  proof (induction ds arbitrary: m)
    case (Cons d ds)
    then have "fst ` set m = set R" by (metis set_map)
    then show ?case using Cons by (simp add: update_keys)
  qed simp
  then show ?thesis by (simp add: indegrees_of_def comp_def)
qed

lemma get_or_indegrees:
  assumes "n \<in> set R"
  shows "get_or 0 (indegrees_of ds R) n = int (length (filter (\<lambda>d. dep_columnId d = n \<and> dependsOnColumnId d \<in> set R) ds))"
proof -
  have "get_or 0 (fold (\<lambda>d m. if dep_columnId d \<in> set R \<and> dependsOnColumnId d \<in> set R
      then AList.update (dep_columnId d) (get_or 0 m (dep_columnId d) + 1) m else m) ds m) n
      = get_or 0 m n + int (length (filter (\<lambda>d. dep_columnId d = n \<and> dependsOnColumnId d \<in> set R) ds))"
    for m :: "(jsstr \<times> int) list"
    using assms by (induction ds arbitrary: m) auto
  then show ?thesis using assms by (simp add: indegrees_of_def)
qed

lemma count_filter_map: "count_list (map f (filter P xs)) y = length (filter (\<lambda>x. P x \<and> f x = y) xs)"
  by (induction xs) auto

lemma sum_filter_key:
  "finite S \<Longrightarrow> (\<Sum>m \<in> S. int (length (filter (\<lambda>x. k x = m \<and> P x) xs))) = int (length (filter (\<lambda>x. k x \<in> S \<and> P x) xs))"
proof (induction xs)
  case (Cons x xs)
  have "(\<Sum>m \<in> S. int (length (filter (\<lambda>y. k y = m \<and> P y) (x # xs))))
      = (\<Sum>m \<in> S. (if k x = m \<and> P x then 1 else 0) + int (length (filter (\<lambda>y. k y = m \<and> P y) xs)))"
    by (rule sum.cong) auto
  also have "\<dots> = (\<Sum>m \<in> S. (if k x = m \<and> P x then 1 else 0)) + int (length (filter (\<lambda>y. k y \<in> S \<and> P y) xs))"
    using Cons by (simp add: sum.distrib)
  also have "(\<Sum>m \<in> S. (if k x = m \<and> P x then 1 else 0)) = (if k x \<in> S \<and> P x then 1 else (0::int))"
    using Cons.prems by (cases "P x") simp_all
  finally show ?case by auto
qed simp

interpretation formula_loop: kahn_loop
  "order_formulas outs" outs "\<lambda>q. (hd q, tl q)" "\<lambda>d r. r @ [d]" sort
  for outs :: "jsstr \<Rightarrow> jsstr list"
proof (unfold_locales, goal_cases)
  case (1 cnt acc)
  show ?case by (subst order_formulas.simps) simp
next
  case (2 ready x rest cnt cnt' ready' acc)
  then obtain "ready = x # rest" by (cases ready) simp_all
  with 2 show ?case by (subst order_formulas.simps) simp
next
  case (3 ready x rest)
  then show ?case by (cases ready) auto
qed simp_all

lemma recomputation_order_spec:
  fixes ds changed
  defines "R \<equiv> affected ds changed" and "outs \<equiv> reachable_dependents (dependents_of ds) (affected ds changed)"
  shows "recomputation_order ds changed = Inr ord \<Longrightarrow>
      distinct ord \<and> set ord = set R \<and> topological R outs ord"
    and "acyclic (dep_rel ds) \<Longrightarrow> \<exists>ord. recomputation_order ds changed = Inr ord"
proof -
  let ?ind = "indegrees_of ds R"
  let ?ready = "sort (map fst (filter (\<lambda>(c, degree). degree = 0) ?ind))"
  have out: "set (outs m) \<subseteq> set R" for m by (auto simp: outs_def R_def reachable_dependents_def)
  have cnt: "get_or 0 ?ind n = in_count (set R) outs n" if n: "n \<in> set R" for n
  proof -
    have "count_list (outs m) n = length (filter (\<lambda>d. dependsOnColumnId d = m \<and> dep_columnId d = n) ds)" for m
      using n by (simp add: outs_def R_def [symmetric] reachable_dependents_def get_or_dependents filter_map count_filter_map comp_def)
        (metis (mono_tags, lifting))
    then show ?thesis
      unfolding get_or_indegrees [OF n] in_count_def
      using sum_filter_key [of "set R" dependsOnColumnId "\<lambda>d. dep_columnId d = n" ds]
      by (simp add: conj_commute)
  qed
  have ready: "mset ?ready = mset (filter (\<lambda>n. get_or 0 ?ind n = 0) R)"
  proof -
    have "map fst (filter (\<lambda>(c, degree). degree = 0) m) = filter (\<lambda>n. get_or 0 m n = 0) (map fst m)"
      if "distinct (map fst m)" for m :: "(jsstr \<times> int) list"
      using that
    proof (induction m)
      case (Cons x m)
      obtain c v where x: "x = (c, v)" by (cases x)
      have "filter (\<lambda>n. get_or 0 (x # m) n = 0) (map fst m) = filter (\<lambda>n. get_or 0 m n = 0) (map fst m)"
        using Cons.prems x by (intro filter_cong) (auto simp: get_or_def)
      then show ?case using Cons x by (auto simp: get_or_def)
    qed simp
    from this [of ?ind] show ?thesis by (simp add: indegrees_keys R_def distinct_affected)
  qed
  have d: "distinct R" by (simp add: R_def distinct_affected)
  note t = formula_loop.loop_topological [where outs = outs, OF d out cnt ready]
  note l = formula_loop.loop_length [where outs = outs, OF d out cnt ready]
  have o: "recomputation_order ds changed =
      (if length (order_formulas outs ?ready ?ind []) \<noteq> length R then Inl FormulaDefinition
       else Inr (order_formulas outs ?ready ?ind []))"
    by (simp add: recomputation_order_def Let_def R_def outs_def affected_def)
  show "recomputation_order ds changed = Inr ord \<Longrightarrow> distinct ord \<and> set ord = set R \<and> topological R outs ord"
    using t l o by (auto split: if_splits)
  assume "acyclic (dep_rel ds)"
  moreover have "graph_edges R outs \<subseteq> dep_rel ds"
    by (auto simp: graph_edges_def outs_def reachable_dependents_def get_or_dependents dep_rel_def)
  ultimately have "acyclic (graph_edges R outs)" by (rule acyclic_subset)
  then show "\<exists>ord. recomputation_order ds changed = Inr ord" using l o by simp
qed

section \<open>The recomputation of a row\<close>

record recomputation =
  rc_db :: grid_db
  rc_values :: "(jsstr \<times> cell_value) list"
  rc_cells :: "(jsstr \<times> jsstr) list"
  rc_changed :: "jsstr list"

definition active_formulas :: "jsstr \<Rightarrow> jsstr \<Rightarrow> grid_db \<Rightarrow> column_row list" where
  "active_formulas tableId workspaceId db =
     filter (\<lambda>c. col_kind c = Formula_column \<and> col_archivedAt c = None) (table_columns tableId workspaceId db)"

definition table_dependencies :: "jsstr \<Rightarrow> jsstr \<Rightarrow> grid_db \<Rightarrow> dependency_row list" where
  "table_dependencies tableId workspaceId db =
     select_where (\<lambda>d. dep_tableId d = tableId \<and> dep_workspaceId d = workspaceId) (g_dependencies db)"

text \<open>\<open>formulaColumnConfigurationSchema.safeParse\<close>.\<close>

definition formula_of :: "host \<Rightarrow> column_row \<Rightarrow> formula_expression option" where
  "formula_of h c =
     (case col_configuration c of
        FormulaConfiguration e \<Rightarrow> if formulaExpressionSchema h e then Some e else None
      | _ \<Rightarrow> None)"

definition set_cell :: "host \<Rightarrow> int \<Rightarrow> cell_value \<Rightarrow> grid_cell \<Rightarrow> grid_cell" where
  "set_cell h now v c =
     c\<lparr>gc_value := serializeSqliteCellValue h v, gc_status := Succeeded, gc_updatedAt := now,
       gc_version := gc_version c + 1\<rparr>"

definition new_cell :: "host \<Rightarrow> int \<Rightarrow> row_scope \<Rightarrow> jsstr \<Rightarrow> jsstr \<Rightarrow> cell_value \<Rightarrow> grid_cell" where
  "new_cell h now s cid columnId v =
     \<lparr>gc_id = cid, gc_workspaceId = sc_workspaceId s, gc_tableId = sc_tableId s, gc_rowId = sc_rowId s,
      gc_columnId = columnId, gc_value = serializeSqliteCellValue h v, gc_status = Succeeded,
      gc_version = 1, gc_updatedAt = now\<rparr>"

text \<open>
  One formula. \<open>recomputed_type\<close> is the check of the type; the insertion fails on a second
  cell of the row in the column or on an identifier that exists.
\<close>

definition store_formula :: "host \<Rightarrow> (nat \<Rightarrow> jsstr) \<Rightarrow> int \<Rightarrow> row_scope \<Rightarrow> jsstr \<Rightarrow> cell_value
    \<Rightarrow> recomputation \<Rightarrow> grid_error + recomputation" where
  "store_formula h uuid now s f v st =
     (case map_of (rc_cells st) f of
        Some cid \<Rightarrow>
          if select_where (\<lambda>c. gc_id c = cid) (g_cells (rc_db st)) = [] then Inr st
          else Inr (st\<lparr>rc_db := (rc_db st)\<lparr>g_cells := update_where (\<lambda>c. gc_id c = cid) (set_cell h now v) (g_cells (rc_db st))\<rparr>,
                     rc_changed := rc_changed st @ [f]\<rparr>)
      | None \<Rightarrow>
          if v = CEmpty then Inr st
          else (case new_uuid uuid (rc_db st) of
                  (cid, db) \<Rightarrow>
                    if cid \<in> gc_id ` set (g_cells db) \<or> (sc_rowId s, f) \<in> cell_key ` set (g_cells db)
                    then Inl GridConstraint
                    else Inr (st\<lparr>rc_db := db\<lparr>g_cells := g_cells db @ [new_cell h now s cid f v]\<rparr>,
                               rc_cells := AList.update f cid (rc_cells st),
                               rc_changed := rc_changed st @ [f]\<rparr>)))"

definition recompute_formula :: "host \<Rightarrow> (nat \<Rightarrow> jsstr) \<Rightarrow> int \<Rightarrow> row_scope \<Rightarrow> (jsstr \<times> column_row) list
    \<Rightarrow> jsstr \<Rightarrow> recomputation \<Rightarrow> grid_error + recomputation" where
  "recompute_formula h uuid now s formulas f st =
     (case map_of formulas f of
        None \<Rightarrow> Inr st
      | Some column \<Rightarrow>
          (case formula_of h column of
             None \<Rightarrow> Inl FormulaDefinition
           | Some e \<Rightarrow>
               let v = evaluateFormula h (map_of (rc_values st)) e
               in if v \<noteq> CEmpty \<and> type_of v \<noteq> col_valueType column then Inl FormulaDefinition
                  else store_formula h uuid now s f v (st\<lparr>rc_values := AList.update f v (rc_values st)\<rparr>)))"

definition read_cell :: "host \<Rightarrow> grid_cell \<Rightarrow> grid_error + (jsstr \<times> cell_value)" where
  "read_cell h c =
     (case deserializeSqliteCellValue h (gc_value c) of
        None \<Rightarrow> Inl StoredValueInvalid
      | Some v \<Rightarrow> Inr (gc_columnId c, v))"

definition recomputeDependentSqliteFormulasForRow :: "host \<Rightarrow> (nat \<Rightarrow> jsstr) \<Rightarrow> int \<Rightarrow> row_scope \<Rightarrow> jsstr list
    \<Rightarrow> grid_db \<Rightarrow> grid_error + (grid_db \<times> jsstr list)" where
  "recomputeDependentSqliteFormulasForRow h uuid now s changed db =
     (let formulaColumns = active_formulas (sc_tableId s) (sc_workspaceId s) db;
          dependencies = table_dependencies (sc_tableId s) (sc_workspaceId s) db;
          rowCells = row_cells (sc_rowId s) (sc_tableId s) (sc_workspaceId s) db;
          formulas = map_from (map (\<lambda>c. (col_id c, c)) formulaColumns)
      in if changed = [] \<or> formulaColumns = [] then Inr (db, [])
         else and_then (recomputation_order dependencies changed) (\<lambda>ordered.
           if ordered = [] then Inr (db, [])
           else and_then (map_result (read_cell h) rowCells) (\<lambda>values.
           and_then (fold_result (recompute_formula h uuid now s formulas) ordered
               \<lparr>rc_db = db, rc_values = map_from values,
                rc_cells = map_from (map (\<lambda>c. (gc_columnId c, gc_id c)) rowCells), rc_changed = []\<rparr>)
             (\<lambda>st. Inr (rc_db st, rc_changed st)))))"

end
