(* ===== verification/FormulaConsistency.thy ===== *)
theory FormulaConsistency
  imports FormulaColumns
begin

text \<open>
  The recomputation keeps the formulas of a row current. An abstract recomputation on functions
  from columns to values is correct in every topological order; the operation on the tables
  is shown to implement it, without ever failing on tables that satisfy \<open>grid_ok\<close>.
\<close>

section \<open>The abstract recomputation\<close>

type_synonym row_values = "jsstr \<Rightarrow> cell_value"
type_synonym formula_map = "jsstr \<Rightarrow> formula_expression option"

text \<open>A column without a cell reads as empty.\<close>

definition deref :: "(jsstr \<Rightarrow> cell_value option) \<Rightarrow> row_values" where
  "deref values c = (case values c of None \<Rightarrow> CEmpty | Some v \<Rightarrow> v)"

definition eval_on :: "host \<Rightarrow> formula_expression \<Rightarrow> row_values \<Rightarrow> cell_value" where
  "eval_on h e v = evaluateFormula h (\<lambda>c. Some (v c)) e"

lemma evaluate_deref: "evaluateFormula h values e = eval_on h e (deref values)"
  unfolding eval_on_def
proof (induction e)
  case (Column c)
  then show ?case by (simp add: deref_def)
next
  case (Call f args)
  then have "map (evaluateFormula h values) args = map (evaluateFormula h (\<lambda>c. Some (deref values c))) args"
    by simp
  then show ?case by (simp only: evaluateFormula.simps)
qed simp

lemma eval_on_cong: "(\<And>c. c \<in> set (collectFormulaColumnIds e) \<Longrightarrow> v c = w c) \<Longrightarrow> eval_on h e v = eval_on h e w"
  unfolding eval_on_def by (rule evaluate_cong) simp

definition set_formula :: "host \<Rightarrow> formula_map \<Rightarrow> jsstr \<Rightarrow> row_values \<Rightarrow> row_values" where
  "set_formula h F f v = (case F f of None \<Rightarrow> v | Some e \<Rightarrow> v(f := eval_on h e v))"

definition recomputed :: "host \<Rightarrow> formula_map \<Rightarrow> jsstr list \<Rightarrow> row_values \<Rightarrow> row_values" where
  "recomputed h F ord v = fold (set_formula h F) ord v"

lemma recomputed_other: "f \<notin> set ord \<or> F f = None \<Longrightarrow> recomputed h F ord v f = v f"
proof (induction ord arbitrary: v)
  case (Cons g ord)
  then show ?case by (cases "F g") (auto simp: recomputed_def set_formula_def)
qed (simp add: recomputed_def)

text \<open>In an order in which no formula comes before one it reads, every formula ends up current.\<close>

lemma recomputed_current:
  assumes "distinct ord"
    and "\<And>i e. i < length ord \<Longrightarrow> F (ord ! i) = Some e \<Longrightarrow> set (collectFormulaColumnIds e) \<inter> set (drop i ord) = {}"
    and "f \<in> set ord" "F f = Some e"
  shows "recomputed h F ord v f = eval_on h e (recomputed h F ord v)"
  using assms
proof (induction ord arbitrary: v)
  case (Cons g ord)
  let ?v = "set_formula h F g v"
  have r: "recomputed h F (g # ord) v = recomputed h F ord ?v" by (simp add: recomputed_def)
  show ?case
  proof (cases "f = g")
    case True
    have no: "set (collectFormulaColumnIds e) \<inter> set (g # ord) = {}"
      using Cons.prems(2) [of 0 e] Cons.prems(4) True by simp
    have "recomputed h F ord ?v f = eval_on h e v"
      using Cons.prems(1,4) True by (simp add: recomputed_other set_formula_def)
    also have "\<dots> = eval_on h e (recomputed h F ord ?v)"
    proof (rule eval_on_cong)
      fix c
      assume "c \<in> set (collectFormulaColumnIds e)"
      with no have "c \<noteq> g" "c \<notin> set ord" by auto
      then show "v c = recomputed h F ord ?v c"
        by (simp add: recomputed_other set_formula_def split: option.split)
    qed
    finally show ?thesis unfolding r .
  next
    case False
    have "recomputed h F ord ?v f = eval_on h e (recomputed h F ord ?v)"
    proof (rule Cons.IH)
      fix i e'
      assume "i < length ord" "F (ord ! i) = Some e'"
      then show "set (collectFormulaColumnIds e') \<inter> set (drop i ord) = {}"
        using Cons.prems(2) [of "Suc i" e'] by simp
    qed (use Cons.prems False in auto)
    then show ?thesis unfolding r .
  qed
qed simp

section \<open>Values that storage keeps\<close>

fun literals_storable :: "host \<Rightarrow> formula_expression \<Rightarrow> bool" where
  "literals_storable h (Column c) = True"
| "literals_storable h (Literal v) = storable h v"
| "literals_storable h (Call f args) = list_all (literals_storable h) args"

lemma evaluateCall_storable:
  assumes "\<forall>v \<in> set vs. storable h v"
  shows "storable h (evaluateCall h f vs)"
proof -
  have arith: "storable h (evaluate_arithmetic g vs)" for g
    by (simp add: evaluate_arithmetic_def Let_def)
  have strs: "storable h (evaluate_text h g vs)" for g
    by (simp add: evaluate_text_def split: list.split)
  have first: "storable h (or_empty ws)" if "set ws \<subseteq> set vs" for ws
    using that assms by (auto simp: or_empty_def split: list.split)
  show ?thesis
  proof (cases f)
    case Fn_coalesce
    then show ?thesis using assms by (auto simp: evaluateCall_def find_Some_iff split: option.split)
  next
    case Fn_if
    show ?thesis
    proof (cases vs)
      case (Cons c ws)
      have "set (drop 1 ws) \<subseteq> set vs" using set_drop_subset [of 1 ws] Cons by auto
      then show ?thesis using Cons Fn_if first [of ws] first [of "drop 1 ws"]
        by (cases c) (auto simp: evaluateCall_def)
    qed (simp add: evaluateCall_def Fn_if)
  next
    case Fn_equals
    then show ?thesis by (auto simp: evaluateCall_def split: list.split)
  qed (simp_all add: evaluateCall_def arith strs)
qed

lemma eval_on_storable:
  assumes "\<And>c. storable h (v c)"
  shows "literals_storable h e \<Longrightarrow> storable h (eval_on h e v)"
  unfolding eval_on_def
proof (induction e)
  case (Call f args)
  then show ?case by (auto simp: list_all_iff intro!: evaluateCall_storable)
qed (use assms in simp_all)

section \<open>Well-formed tables\<close>

definition column_type :: "grid_db \<Rightarrow> jsstr \<Rightarrow> value_type option" where
  "column_type db c = map_option col_valueType (row_at col_id (g_columns db) c)"

definition value_of :: "host \<Rightarrow> grid_db \<Rightarrow> jsstr \<Rightarrow> row_values" where
  "value_of h db rowId = deref (value_at h db rowId)"

text \<open>A cell belongs to a row and a column, and its value is one of the column's type.\<close>

definition cell_ok :: "host \<Rightarrow> grid_db \<Rightarrow> grid_cell \<Rightarrow> bool" where
  "cell_ok h db c \<longleftrightarrow>
     (\<exists>v t. deserializeSqliteCellValue h (gc_value c) = Some v \<and> storable h v
        \<and> column_type db (gc_columnId c) = Some t \<and> has_type h v t)
     \<and> (\<exists>r \<in> set (g_rows db). row_id r = gc_rowId c \<and> row_tableId r = gc_tableId c
          \<and> row_workspaceId r = gc_workspaceId c)"

definition cells_ok :: "host \<Rightarrow> grid_db \<Rightarrow> bool" where
  "cells_ok h db \<longleftrightarrow> distinct (map gc_id (g_cells db)) \<and> distinct (map cell_key (g_cells db))
     \<and> (\<forall>c \<in> set (g_cells db). cell_ok h db c)"

text \<open>An active formula column is valid at the types of its sources, which are its dependencies.\<close>

definition formula_ok :: "host \<Rightarrow> grid_db \<Rightarrow> column_row \<Rightarrow> bool" where
  "formula_ok h db c \<longleftrightarrow>
     (\<exists>e. formula_of h c = Some e \<and> number_literals_ok e \<and> literals_storable h e
        \<and> inferType (column_type db) e = Inr (col_valueType c)
        \<and> set (collectFormulaColumnIds e) =
            {dependsOnColumnId d | d. d \<in> set (table_dependencies (col_tableId c) (col_workspaceId c) db)
               \<and> dep_columnId d = col_id c})"

definition grid_ok :: "host \<Rightarrow> grid_db \<Rightarrow> bool" where
  "grid_ok h db \<longleftrightarrow> distinct (map col_id (g_columns db)) \<and> distinct (map row_id (g_rows db)) \<and> cells_ok h db
     \<and> (\<forall>c \<in> set (g_columns db). col_kind c = Formula_column \<and> col_archivedAt c = None \<longrightarrow> formula_ok h db c)
     \<and> acyclic (dep_rel (g_dependencies db))
     \<and> (\<forall>d \<in> set (g_dependencies db). {dep_columnId d, dependsOnColumnId d} \<subseteq> col_id ` set (g_columns db))"

text \<open>What \<open>crypto.randomUUID\<close> promises: identifiers that differ from each other and from those in use.\<close>

definition fresh_ids :: "(nat \<Rightarrow> jsstr) \<Rightarrow> grid_db \<Rightarrow> bool" where
  "fresh_ids uuid db \<longleftrightarrow> inj uuid
     \<and> (\<forall>n \<ge> g_fresh db. uuid n \<notin> gc_id ` set (g_cells db) \<union> col_id ` set (g_columns db))"

definition formula_current :: "host \<Rightarrow> grid_db \<Rightarrow> jsstr \<Rightarrow> column_row \<Rightarrow> bool" where
  "formula_current h db rowId c \<longleftrightarrow>
     (case formula_of h c of
        None \<Rightarrow> False
      | Some e \<Rightarrow> value_of h db rowId (col_id c) = eval_on h e (value_of h db rowId))"

lemma cell_ok_cong:
  "column_type db' = column_type db \<Longrightarrow> g_rows db' = g_rows db \<Longrightarrow> cell_ok h db' c = cell_ok h db c"
  by (simp add: cell_ok_def)

lemma value_at_update:
  assumes x: "row_at cell_key (g_cells db) (r, f) = Some x" and P: "\<And>y. y \<in> set (g_cells db) \<Longrightarrow> P y \<longleftrightarrow> y = x"
    and k: "\<And>y. cell_key (g y) = cell_key y" and v: "deserializeSqliteCellValue h (gc_value (g x)) = Some v"
    and db': "g_cells db' = update_where P g (g_cells db)"
  shows "value_at h db' r' c = (if (r', c) = (r, f) then Some v else value_at h db r' c)"
proof -
  have "row_at cell_key (g_cells db') (r', c) = map_option (\<lambda>y. if P y then g y else y) (row_at cell_key (g_cells db) (r', c))"
    unfolding db' update_where_def by (rule row_at_map) (simp add: k)
  moreover have "y = x \<longleftrightarrow> (r', c) = (r, f)" if "row_at cell_key (g_cells db) (r', c) = Some y" for y
    using row_at_Some [OF that] row_at_Some [OF x] x that by auto
  ultimately show ?thesis
    using x P row_at_Some v by (cases "row_at cell_key (g_cells db) (r', c)") (fastforce simp: value_at_def)+
qed

lemma value_at_insert:
  assumes "row_at cell_key (g_cells db) (r, f) = None" and "cell_key x = (r, f)"
    and "deserializeSqliteCellValue h (gc_value x) = Some v" and "g_cells db' = g_cells db @ [x]"
  shows "value_at h db' r' c = (if (r', c) = (r, f) then Some v else value_at h db r' c)"
proof -
  have "row_at cell_key [x] k = (if cell_key x = k then Some x else None)" for k
    by (simp add: row_at_def)
  then have "row_at cell_key (g_cells db') (r', c) =
      (if (r', c) = (r, f) then Some x else row_at cell_key (g_cells db) (r', c))"
    using assms(1,2,4) by (auto simp: row_at_append split: option.split)
  then show ?thesis using assms(3) by (simp add: value_at_def)
qed

text \<open>Writing a value of the column's type keeps the cells well formed.\<close>

lemma cells_ok_update:
  assumes ok: "cells_ok h db" and x: "row_at cell_key (g_cells db) (r, f) = Some x"
    and P: "\<And>y. y \<in> set (g_cells db) \<Longrightarrow> P y \<longleftrightarrow> y = x"
    and g: "\<And>y. gc_id (g y) = gc_id y \<and> cell_key (g y) = cell_key y \<and> gc_tableId (g y) = gc_tableId y
      \<and> gc_workspaceId (g y) = gc_workspaceId y"
    and v: "deserializeSqliteCellValue h (gc_value (g x)) = Some v" "storable h v" "column_type db f = Some ty" "has_type h v ty"
    and db': "db' = db\<lparr>g_cells := update_where P g (g_cells db)\<rparr>"
  shows "cells_ok h db'" and "map gc_id (g_cells db') = map gc_id (g_cells db)"
    and "map_option gc_id (row_at cell_key (g_cells db') k) = map_option gc_id (row_at cell_key (g_cells db) k)"
    and "value_at h db' r' c = (if (r', c) = (r, f) then Some v else value_at h db r' c)"
    and "k \<noteq> (r, f) \<Longrightarrow> row_at cell_key (g_cells db') k = row_at cell_key (g_cells db) k"
proof -
  have upd: "g_cells db' = update_where P g (g_cells db)" by (simp add: db')
  show ids: "map gc_id (g_cells db') = map gc_id (g_cells db)"
    unfolding upd by (rule keys_update_where) (simp add: g)
  have keys: "map cell_key (g_cells db') = map cell_key (g_cells db)"
    unfolding upd by (rule keys_update_where) (simp add: g)
  have same: "column_type db' = column_type db" "g_rows db' = g_rows db"
    by (simp_all add: db' column_type_def fun_eq_iff)
  have xf: "x \<in> set (g_cells db)" "gc_columnId x = f" using row_at_Some [OF x] by (auto simp: cell_key_def)
  have gx: "gc_columnId (g x) = f" "gc_rowId (g x) = gc_rowId x" using g [of x] xf by (auto simp: cell_key_def)
  have "cell_ok h db (g x)" using ok v xf g [of x] gx unfolding cells_ok_def cell_ok_def by auto
  then show "cells_ok h db'"
    using ok P ids keys by (auto simp: cells_ok_def upd set_update_where cell_ok_cong [OF same])
  show "value_at h db' r' c = (if (r', c) = (r, f) then Some v else value_at h db r' c)"
    by (rule value_at_update [OF x P _ v(1) upd]) (use g in auto)
  show "map_option gc_id (row_at cell_key (g_cells db') k) = map_option gc_id (row_at cell_key (g_cells db) k)"
    unfolding upd update_where_def
    by (subst row_at_map) (auto simp: g option.map_comp comp_def intro!: map_option_cong)
  assume "k \<noteq> (r, f)"
  then have "\<not> P y" if "row_at cell_key (g_cells db) k = Some y" for y
    using P [of y] row_at_Some [OF that] row_at_Some [OF x] by auto
  then show "row_at cell_key (g_cells db') k = row_at cell_key (g_cells db) k"
    unfolding upd update_where_def
    by (subst row_at_map) (auto simp: g split: option.split intro!: map_option_idI)
qed

lemma cells_ok_insert:
  assumes ok: "cells_ok h db" and none: "row_at cell_key (g_cells db) (r, f) = None"
    and x: "cell_key x = (r, f)" "gc_id x \<notin> gc_id ` set (g_cells db)"
    and v: "deserializeSqliteCellValue h (gc_value x) = Some v" "storable h v" "column_type db f = Some ty" "has_type h v ty"
    and q: "q \<in> set (g_rows db)" "row_id q = r" "row_tableId q = gc_tableId x" "row_workspaceId q = gc_workspaceId x"
    and db': "g_cells db' = g_cells db @ [x]" "g_columns db' = g_columns db" "g_rows db' = g_rows db"
  shows "cells_ok h db'" and "value_at h db' r' c = (if (r', c) = (r, f) then Some v else value_at h db r' c)"
    and "k \<noteq> (r, f) \<Longrightarrow> row_at cell_key (g_cells db') k = row_at cell_key (g_cells db) k"
proof -
  have same: "column_type db' = column_type db" by (simp add: db' column_type_def fun_eq_iff)
  have "gc_columnId x = f" "gc_rowId x = r" using x(1) by (simp_all add: cell_key_def)
  then have "cell_ok h db x" using v q unfolding cell_ok_def by blast
  then show "cells_ok h db'"
    using ok x none by (auto simp: cells_ok_def db' row_at_None cell_ok_cong [OF same db'(3)])
  show "value_at h db' r' c = (if (r', c) = (r, f) then Some v else value_at h db r' c)"
    by (rule value_at_insert [OF none x(1) v(1) db'(1)])
  show "row_at cell_key (g_cells db') k = row_at cell_key (g_cells db) k" if "k \<noteq> (r, f)"
    using that x(1) by (simp add: db' row_at_append) (auto simp: row_at_def split: option.split)
qed

lemma only_cell:
  assumes "cells_ok h db" and "row_at cell_key (g_cells db) k = Some x" and "y \<in> set (g_cells db)"
  shows "gc_id y = gc_id x \<longleftrightarrow> y = x"
  using assms row_at_Some [OF assms(2)] by (auto simp: cells_ok_def distinct_map dest: inj_onD)

section \<open>One formula\<close>

text \<open>Two states of the tables that differ at most in the cells and the identifiers drawn.\<close>

definition cells_only :: "grid_db \<Rightarrow> grid_db \<Rightarrow> bool" where
  "cells_only db db0 \<longleftrightarrow> (\<exists>cs n. db = db0\<lparr>g_cells := cs, g_fresh := n\<rparr>)"

lemma cells_only_refl [simp]: "cells_only db db"
  unfolding cells_only_def by (intro exI [of _ "g_cells db"] exI [of _ "g_fresh db"]) simp

lemma cells_only_update:
  assumes "cells_only db db0"
  shows "cells_only (db\<lparr>g_cells := cs\<rparr>) db0" and "cells_only (db\<lparr>g_fresh := n\<rparr>) db0"
proof -
  obtain cs' n' where db: "db = db0\<lparr>g_cells := cs', g_fresh := n'\<rparr>" using assms by (auto simp: cells_only_def)
  show "cells_only (db\<lparr>g_cells := cs\<rparr>) db0" unfolding cells_only_def db by (intro exI [of _ cs] exI [of _ n']) simp
  show "cells_only (db\<lparr>g_fresh := n\<rparr>) db0" unfolding cells_only_def db by (intro exI [of _ cs'] exI [of _ n]) simp
qed

lemma cells_only_frame:
  assumes "cells_only db db0"
  shows "g_columns db = g_columns db0" and "g_rows db = g_rows db0" and "g_dependencies db = g_dependencies db0"
    and "g_members db = g_members db0" and "g_tables db = g_tables db0" and "g_webhooks db = g_webhooks db0"
    and "g_writebacks db = g_writebacks db0" and "g_settlements db = g_settlements db0" and "g_outbox db = g_outbox db0"
  using assms by (auto simp: cells_only_def)

definition formula_column_id :: "grid_db \<Rightarrow> jsstr \<Rightarrow> bool" where
  "formula_column_id db f \<longleftrightarrow> (\<exists>c \<in> set (g_columns db). col_id c = f \<and> col_kind c = Formula_column)"

text \<open>Only formula cells of the row change.\<close>

definition same_inputs :: "jsstr \<Rightarrow> grid_db \<Rightarrow> grid_db \<Rightarrow> bool" where
  "same_inputs rowId db' db \<longleftrightarrow> (\<forall>k. fst k \<noteq> rowId \<or> \<not> formula_column_id db (snd k) \<longrightarrow>
     row_at cell_key (g_cells db') k = row_at cell_key (g_cells db) k)"

lemma same_inputs_value:
  "same_inputs rowId db' db \<Longrightarrow> q \<noteq> rowId \<or> \<not> formula_column_id db c \<Longrightarrow> value_at h db' q c = value_at h db q c"
  by (simp add: same_inputs_def value_at_def)

lemma same_inputs_step:
  assumes "same_inputs r db1 db0" and "formula_column_id db0 f"
    and "\<And>k. k \<noteq> (r, f) \<Longrightarrow> row_at cell_key (g_cells db2) k = row_at cell_key (g_cells db1) k"
  shows "same_inputs r db2 db0"
  unfolding same_inputs_def
proof (intro allI impI)
  fix k
  assume k: "fst k \<noteq> r \<or> \<not> formula_column_id db0 (snd k)"
  then have "k \<noteq> (r, f)" using assms(2) by auto
  then show "row_at cell_key (g_cells db2) k = row_at cell_key (g_cells db0) k"
    using assms(1,3) k unfolding same_inputs_def by metis
qed

text \<open>The memory of the loop agrees with the tables.\<close>

definition tracks :: "host \<Rightarrow> (nat \<Rightarrow> jsstr) \<Rightarrow> grid_db \<Rightarrow> row_scope \<Rightarrow> recomputation \<Rightarrow> bool" where
  "tracks h uuid db0 s st \<longleftrightarrow>
     cells_only (rc_db st) db0 \<and> cells_ok h (rc_db st) \<and> fresh_ids uuid (rc_db st)
     \<and> deref (map_of (rc_values st)) = value_of h (rc_db st) (sc_rowId s)
     \<and> (\<forall>c. map_of (rc_cells st) c = map_option gc_id (row_at cell_key (g_cells (rc_db st)) (sc_rowId s, c)))
     \<and> same_inputs (sc_rowId s) (rc_db st) db0"

lemma deref_update: "deref (map_of (AList.update f v m)) = (deref (map_of m))(f := v)"
  by (auto simp: deref_def update_conv' fun_eq_iff)

lemma tracks_frame:
  assumes "tracks h uuid db0 s st"
  shows "g_columns (rc_db st) = g_columns db0" and "g_rows (rc_db st) = g_rows db0"
    and "column_type (rc_db st) = column_type db0"
  using cells_only_frame [of "rc_db st" db0] assms
  by (simp_all add: tracks_def column_type_def fun_eq_iff)

lemma value_of_update:
  "(\<And>r' c. value_at h db' r' c = (if (r', c) = (row, f) then Some v else value_at h db r' c)) \<Longrightarrow>
     value_of h db' row = (value_of h db row)(f := v)"
  by (auto simp: value_of_def deref_def fun_eq_iff)

lemma store_existing:
  fixes now :: int
  assumes t: "tracks h uuid db0 s st" and v: "storable h v" "column_type db0 f = Some ty" "has_type h v ty" "formula_column_id db0 f"
    and x: "row_at cell_key (g_cells (rc_db st)) (sc_rowId s, f) = Some x"
  defines "st' \<equiv> st\<lparr>rc_values := AList.update f v (rc_values st),
      rc_db := (rc_db st)\<lparr>g_cells := update_where (\<lambda>c. gc_id c = gc_id x) (set_cell h now v) (g_cells (rc_db st))\<rparr>,
      rc_changed := rc_changed st @ [f]\<rparr>"
  shows "tracks h uuid db0 s st' \<and> value_of h (rc_db st') (sc_rowId s) = (value_of h (rc_db st) (sc_rowId s))(f := v)"
proof -
  let ?db = "rc_db st" and ?row = "sc_rowId s"
  have ok: "cells_ok h ?db" using t by (simp add: tracks_def)
  have upd: "rc_db st' = ?db\<lparr>g_cells := update_where (\<lambda>c. gc_id c = gc_id x) (set_cell h now v) (g_cells ?db)\<rparr>"
    by (simp add: st'_def)
  have g: "gc_id (set_cell h now v y) = gc_id y \<and> cell_key (set_cell h now v y) = cell_key y
      \<and> gc_tableId (set_cell h now v y) = gc_tableId y \<and> gc_workspaceId (set_cell h now v y) = gc_workspaceId y" for y
    by (simp add: set_cell_def cell_key_def)
  have sv: "deserializeSqliteCellValue h (gc_value (set_cell h now v x)) = Some v"
    using v(1) by (simp add: set_cell_def storable_def)
  have ct: "column_type ?db f = Some ty" using v(2) tracks_frame(3) [OF t] by simp
  note w = cells_ok_update [OF ok x only_cell [OF ok x] g sv v(1) ct v(3) upd]
  have fresh: "fresh_ids uuid (rc_db st')"
    using t arg_cong [OF w(2), of set] by (simp add: tracks_def fresh_ids_def) (simp add: st'_def)
  have "cells_only (rc_db st') db0"
    using t by (simp add: tracks_def st'_def cells_only_update)
  moreover have "rc_cells st' = rc_cells st" "rc_values st' = AList.update f v (rc_values st)" by (simp_all add: st'_def)
  moreover have "same_inputs ?row (rc_db st') db0"
    by (rule same_inputs_step [OF _ v(4) w(5)]) (use t in \<open>simp add: tracks_def\<close>)
  ultimately show ?thesis
    using t w(1,3) fresh value_of_update [OF w(4)] by (simp add: tracks_def deref_update)
qed

lemma store_new:
  fixes now :: int
  assumes t: "tracks h uuid db0 s st" and v: "storable h v" "column_type db0 f = Some ty" "has_type h v ty" "formula_column_id db0 f"
    and r: "r \<in> set (g_rows db0)" "row_in_scope s r"
    and none: "row_at cell_key (g_cells (rc_db st)) (sc_rowId s, f) = None"
  defines "cid \<equiv> uuid (g_fresh (rc_db st))"
  defines "db \<equiv> (rc_db st)\<lparr>g_fresh := Suc (g_fresh (rc_db st))\<rparr>"
  defines "st' \<equiv> st\<lparr>rc_values := AList.update f v (rc_values st),
      rc_db := db\<lparr>g_cells := g_cells db @ [new_cell h now s cid f v]\<rparr>,
      rc_cells := AList.update f cid (rc_cells st), rc_changed := rc_changed st @ [f]\<rparr>"
  shows "cid \<notin> gc_id ` set (g_cells db) \<and> (sc_rowId s, f) \<notin> cell_key ` set (g_cells db)
    \<and> tracks h uuid db0 s st' \<and> value_of h (rc_db st') (sc_rowId s) = (value_of h (rc_db st) (sc_rowId s))(f := v)"
proof -
  let ?db = "rc_db st" and ?row = "sc_rowId s" and ?x = "new_cell h now s cid f v"
  have ok: "cells_ok h ?db" using t by (simp add: tracks_def)
  have fr: "inj uuid" "\<And>n. g_fresh ?db \<le> n \<Longrightarrow> uuid n \<notin> gc_id ` set (g_cells ?db) \<union> col_id ` set (g_columns ?db)"
    using t by (auto simp: tracks_def fresh_ids_def)
  have cid: "cid \<notin> gc_id ` set (g_cells ?db)" using fr(2) [of "g_fresh ?db"] by (simp add: cid_def)
  have upd: "g_cells (rc_db st') = g_cells ?db @ [?x]" "g_columns (rc_db st') = g_columns ?db" "g_rows (rc_db st') = g_rows ?db"
    by (simp_all add: st'_def db_def)
  have x: "cell_key ?x = (?row, f)" "gc_id ?x = cid" "gc_tableId ?x = sc_tableId s" "gc_workspaceId ?x = sc_workspaceId s"
    "deserializeSqliteCellValue h (gc_value ?x) = Some v"
    using v(1) by (simp_all add: cell_key_def new_cell_def storable_def)
  have q: "r \<in> set (g_rows ?db)" "row_id r = ?row" "row_tableId r = gc_tableId ?x" "row_workspaceId r = gc_workspaceId ?x"
    using r x tracks_frame [OF t] by (simp_all add: row_in_scope_def)
  have ct: "column_type ?db f = Some ty" using v(2) tracks_frame(3) [OF t] by simp
  have idx: "gc_id ?x \<notin> gc_id ` set (g_cells ?db)" using x cid by simp
  note w = cells_ok_insert [OF ok none x(1) idx x(5) v(1) ct v(3) q upd]
  have "uuid n \<noteq> cid" if "Suc (g_fresh ?db) \<le> n" for n
    using fr(1) that by (auto simp: cid_def dest: injD)
  then have fresh: "fresh_ids uuid (rc_db st')"
    using fr by (auto simp: fresh_ids_def upd x st'_def db_def)
  have look: "map_of (rc_cells st') c = map_option gc_id (row_at cell_key (g_cells (rc_db st')) (?row, c))" for c
  proof -
    have "map_of (rc_cells st) c = map_option gc_id (row_at cell_key (g_cells ?db) (?row, c))"
      using t by (simp add: tracks_def)
    moreover have "row_at cell_key [?x] (?row, c) = (if c = f then Some ?x else None)"
      using x(1) by (auto simp: row_at_def)
    moreover have "rc_cells st' = AList.update f cid (rc_cells st)" by (simp add: st'_def)
    ultimately show ?thesis using none x(2)
      by (auto simp: upd row_at_append update_conv' split: option.split)
  qed
  have "cells_only (rc_db st') db0" using t by (simp add: tracks_def st'_def db_def cells_only_update)
  moreover have "rc_values st' = AList.update f v (rc_values st)" by (simp add: st'_def)
  moreover have "same_inputs ?row (rc_db st') db0"
    by (rule same_inputs_step [OF _ v(4) w(3)]) (use t in \<open>simp add: tracks_def\<close>)
  ultimately have "tracks h uuid db0 s st'"
    using t w(1) fresh look value_of_update [OF w(2)] by (simp add: tracks_def deref_update)
  then show ?thesis using cid none value_of_update [OF w(2)] by (simp add: db_def row_at_None)
qed

lemma store_formula_tracks:
  assumes t: "tracks h uuid db0 s st" and v: "storable h v" "column_type db0 f = Some ty" "has_type h v ty" "formula_column_id db0 f"
    and r: "r \<in> set (g_rows db0)" "row_in_scope s r"
  shows "\<exists>st'. store_formula h uuid now s f v (st\<lparr>rc_values := AList.update f v (rc_values st)\<rparr>) = Inr st'
    \<and> tracks h uuid db0 s st' \<and> value_of h (rc_db st') (sc_rowId s) = (value_of h (rc_db st) (sc_rowId s))(f := v)"
proof (cases "row_at cell_key (g_cells (rc_db st)) (sc_rowId s, f)")
  case (Some x)
  then have "map_of (rc_cells st) f = Some (gc_id x)" using t by (simp add: tracks_def)
  moreover have "x \<in> set (g_cells (rc_db st))" using row_at_Some [OF Some] by blast
  ultimately show ?thesis
    using store_existing [OF t v Some, of now] by (auto simp: store_formula_def select_where_empty)
next
  case None
  then have m: "map_of (rc_cells st) f = None" using t by (simp add: tracks_def)
  show ?thesis
  proof (cases "v = CEmpty")
    case True
    have e: "value_of h (rc_db st) (sc_rowId s) f = CEmpty" using None by (simp add: value_of_def deref_def value_at_def)
    then have "(value_of h (rc_db st) (sc_rowId s))(f := v) = value_of h (rc_db st) (sc_rowId s)"
      using True by (simp add: fun_eq_iff)
    then show ?thesis
      using t m True by (simp add: store_formula_def tracks_def deref_update)
  next
    case False
    show ?thesis
      using store_new [OF t v r None, of now] m False by (simp add: store_formula_def new_uuid_def)
  qed
qed

lemma recompute_formula_tracks:
  assumes t: "tracks h uuid db0 s st" and ok: "grid_ok h db0" and r: "r \<in> set (g_rows db0)" "row_in_scope s r"
    and F: "\<And>f c. map_of formulas f = Some c \<Longrightarrow> c \<in> set (g_columns db0) \<and> col_id c = f \<and> col_kind c = Formula_column \<and> formula_ok h db0 c"
  shows "\<exists>st'. recompute_formula h uuid now s formulas f st = Inr st' \<and> tracks h uuid db0 s st'
    \<and> value_of h (rc_db st') (sc_rowId s) =
        set_formula h (\<lambda>f. case map_of formulas f of None \<Rightarrow> None | Some c \<Rightarrow> formula_of h c) f
          (value_of h (rc_db st) (sc_rowId s))"
proof (cases "map_of formulas f")
  case None
  then show ?thesis using t by (simp add: recompute_formula_def set_formula_def)
next
  case (Some c)
  have c: "c \<in> set (g_columns db0)" "col_id c = f" "formula_ok h db0 c" and fc: "formula_column_id db0 f"
    using F [OF Some] by (auto simp: formula_column_id_def)
  obtain e where e: "formula_of h c = Some e" "number_literals_ok e" "literals_storable h e"
    "inferType (column_type db0) e = Inr (col_valueType c)"
    using c(3) by (auto simp: formula_ok_def)
  have schema: "formulaExpressionSchema h e"
    using e(1) by (auto simp: formula_of_def split: column_configuration.splits if_splits)
  let ?val = "value_of h (rc_db st) (sc_rowId s)"
  let ?v = "eval_on h e ?val"
  have val: "evaluateFormula h (map_of (rc_values st)) e = ?v"
    using t by (simp add: evaluate_deref tracks_def)
  have cell: "storable h (?val c') \<and> (\<forall>t. column_type db0 c' = Some t \<longrightarrow> has_type h (?val c') t)" for c'
  proof (cases "row_at cell_key (g_cells (rc_db st)) (sc_rowId s, c')")
    case None
    then show ?thesis by (simp add: value_of_def deref_def value_at_def)
  next
    case (Some x)
    note x = row_at_Some [OF Some]
    have "cell_ok h (rc_db st) x" using t x by (auto simp: tracks_def cells_ok_def)
    then show ?thesis using x Some tracks_frame(3) [OF t]
      by (auto simp: cell_ok_def cell_key_def value_of_def deref_def value_at_def)
  qed
  have st: "storable h ?v" by (rule eval_on_storable [OF _ e(3)]) (use cell in blast)
  have "cells_typed h (column_type db0) (\<lambda>c. Some (?val c))" using cell by (simp add: cells_typed_def)
  from evaluate_type [OF this e(4) schema e(2)] have ty: "has_type h ?v (col_valueType c)" by (simp add: eval_on_def)
  have ct: "column_type db0 f = Some (col_valueType c)"
    using row_at_mem [of col_id "g_columns db0" c] c(1,2) ok by (simp add: column_type_def grid_ok_def)
  have chk: "\<not> (?v \<noteq> CEmpty \<and> type_of ?v \<noteq> col_valueType c)" using ty by (auto simp: has_type_def)
  show ?thesis
    using store_formula_tracks [OF t st ct ty fc r, of now] Some e(1) val chk
    by (simp add: recompute_formula_def set_formula_def Let_def)
qed

section \<open>All the formulas of a row\<close>

lemma recompute_formulas_tracks:
  assumes ok: "grid_ok h db0" and r: "r \<in> set (g_rows db0)" "row_in_scope s r"
    and F: "\<And>f c. map_of formulas f = Some c \<Longrightarrow> c \<in> set (g_columns db0) \<and> col_id c = f \<and> col_kind c = Formula_column \<and> formula_ok h db0 c"
  shows "tracks h uuid db0 s st \<Longrightarrow> \<exists>st'. fold_result (recompute_formula h uuid now s formulas) ord st = Inr st'
    \<and> tracks h uuid db0 s st'
    \<and> value_of h (rc_db st') (sc_rowId s) =
        recomputed h (\<lambda>f. case map_of formulas f of None \<Rightarrow> None | Some c \<Rightarrow> formula_of h c) ord
          (value_of h (rc_db st) (sc_rowId s))"
proof (induction ord arbitrary: st)
  case Nil
  then show ?case by (simp add: recomputed_def)
next
  case (Cons f ord)
  obtain st1 where s1: "recompute_formula h uuid now s formulas f st = Inr st1" "tracks h uuid db0 s st1"
    "value_of h (rc_db st1) (sc_rowId s) =
        set_formula h (\<lambda>f. case map_of formulas f of None \<Rightarrow> None | Some c \<Rightarrow> formula_of h c) f
          (value_of h (rc_db st) (sc_rowId s))"
    using recompute_formula_tracks [OF Cons.prems ok r F, of formulas now f] by blast
  show ?case using Cons.IH [OF s1(2)] s1(1,3) by (simp add: recomputed_def)
qed

lemma map_from_distinct:
  assumes "distinct (map fst es)"
  shows "map_from es = es"
proof -
  have "fold (\<lambda>(k, v) m. AList.update k v m) es m = m @ es"
    if "distinct (map fst es)" "fst ` set m \<inter> fst ` set es = {}" for m
    using that
  proof (induction es arbitrary: m)
    case (Cons e es)
    obtain k v where e: "e = (k, v)" by (cases e)
    have "AList.update k v m = m @ [(k, v)]" using Cons.prems(2) e by (intro update_append_other) auto
    moreover have "fold (\<lambda>(k, v) m. AList.update k v m) es (m @ [(k, v)]) = (m @ [(k, v)]) @ es"
      by (rule Cons.IH) (use Cons.prems e in auto)
    ultimately show ?case using e by simp
  qed simp
  from this [of "[]"] assms show ?thesis by (simp add: map_from_def)
qed

lemma map_of_row:
  "map_of (map (\<lambda>c. (gc_columnId c, g c)) (filter (\<lambda>c. gc_rowId c = row) cs)) k = map_option g (row_at cell_key cs (row, k))"
  by (induction cs) (auto simp: row_at_def cell_key_def)

lemma row_cells_all:
  assumes ok: "grid_ok h db" and r: "r \<in> set (g_rows db)" "row_in_scope s r"
  shows "row_cells (sc_rowId s) (sc_tableId s) (sc_workspaceId s) db = filter (\<lambda>c. gc_rowId c = sc_rowId s) (g_cells db)"
  unfolding row_cells_def select_where_def
proof (rule filter_cong [OF refl])
  fix c
  assume "c \<in> set (g_cells db)"
  then obtain r' where r': "r' \<in> set (g_rows db)" "row_id r' = gc_rowId c" "row_tableId r' = gc_tableId c" "row_workspaceId r' = gc_workspaceId c"
    using ok by (auto simp: grid_ok_def cells_ok_def cell_ok_def)
  have "r' = r" if "gc_rowId c = sc_rowId s"
    using ok r r' that unfolding grid_ok_def distinct_map row_in_scope_def by (metis inj_onD)
  then show "(gc_rowId c = sc_rowId s \<and> gc_tableId c = sc_tableId s \<and> gc_workspaceId c = sc_workspaceId s) = (gc_rowId c = sc_rowId s)"
    using r r' by (auto simp: row_in_scope_def)
qed

lemma start_tracks:
  assumes ok: "grid_ok h db" and fresh: "fresh_ids uuid db" and r: "r \<in> set (g_rows db)" "row_in_scope s r"
  defines "cs \<equiv> row_cells (sc_rowId s) (sc_tableId s) (sc_workspaceId s) db"
  shows "\<exists>values. map_result (read_cell h) cs = Inr values
    \<and> tracks h uuid db s \<lparr>rc_db = db, rc_values = map_from values,
        rc_cells = map_from (map (\<lambda>c. (gc_columnId c, gc_id c)) cs), rc_changed = []\<rparr>"
proof -
  have cs: "cs = filter (\<lambda>c. gc_rowId c = sc_rowId s) (g_cells db)"
    unfolding cs_def by (rule row_cells_all [OF ok r])
  let ?g = "\<lambda>c. the (deserializeSqliteCellValue h (gc_value c))"
  have some: "\<exists>v. deserializeSqliteCellValue h (gc_value c) = Some v" if "c \<in> set (g_cells db)" for c
    using ok that by (auto simp: grid_ok_def cells_ok_def cell_ok_def)
  have rd: "read_cell h c = Inr (gc_columnId c, ?g c)" if "c \<in> set (g_cells db)" for c
    using some [OF that] by (auto simp: read_cell_def)
  have read: "map_result (read_cell h) cs = Inr (map (\<lambda>c. (gc_columnId c, ?g c)) cs)"
    unfolding map_result_Inr_iff list_all2_map2 list_all2_same using rd by (simp add: cs)
  have d: "distinct (map gc_columnId cs)"
  proof -
    have "distinct (map cell_key (g_cells db))" using ok by (simp add: grid_ok_def cells_ok_def)
    then show ?thesis unfolding cs by (auto simp: distinct_map inj_on_def cell_key_def)
  qed
  have "deref (map_of (map (\<lambda>c. (gc_columnId c, ?g c)) cs)) c = value_of h db (sc_rowId s) c" for c
  proof (cases "row_at cell_key (g_cells db) (sc_rowId s, c)")
    case (Some x)
    then obtain v where "deserializeSqliteCellValue h (gc_value x) = Some v"
      using some row_at_Some [OF Some] by blast
    then show ?thesis using Some by (simp add: deref_def cs map_of_row value_of_def value_at_def)
  qed (simp add: deref_def cs map_of_row value_of_def value_at_def)
  then have val: "deref (map_of (map (\<lambda>c. (gc_columnId c, ?g c)) cs)) = value_of h db (sc_rowId s)"
    by (rule ext)
  have ids: "map_of (map (\<lambda>c. (gc_columnId c, gc_id c)) cs) c = map_option gc_id (row_at cell_key (g_cells db) (sc_rowId s, c))" for c
    by (simp add: cs map_of_row)
  show ?thesis
    using read ok fresh val ids by (simp add: tracks_def same_inputs_def grid_ok_def map_from_distinct comp_def d)
qed

text \<open>The formulas of a table as the program looks them up.\<close>

definition formulas_by_id :: "row_scope \<Rightarrow> grid_db \<Rightarrow> (jsstr \<times> column_row) list" where
  "formulas_by_id s db = map_from (map (\<lambda>c. (col_id c, c)) (active_formulas (sc_tableId s) (sc_workspaceId s) db))"

lemma set_active_formulas:
  "c \<in> set (active_formulas t w db) \<longleftrightarrow> c \<in> set (g_columns db) \<and> col_tableId c = t \<and> col_workspaceId c = w
     \<and> col_kind c = Formula_column \<and> col_archivedAt c = None"
  by (auto simp: active_formulas_def table_columns_def select_where_def)

lemma map_of_formulas:
  assumes "grid_ok h db"
  shows "map_of (formulas_by_id s db) f = Some c \<longleftrightarrow> c \<in> set (active_formulas (sc_tableId s) (sc_workspaceId s) db) \<and> col_id c = f"
proof -
  have d: "distinct (map col_id (active_formulas (sc_tableId s) (sc_workspaceId s) db))"
    using assms by (simp add: grid_ok_def active_formulas_def table_columns_def select_where_def distinct_map_filter)
  have "formulas_by_id s db = map (\<lambda>c. (col_id c, c)) (active_formulas (sc_tableId s) (sc_workspaceId s) db)"
    unfolding formulas_by_id_def by (rule keys_map_from [OF d])
  then show ?thesis using d by (auto simp: map_of_eq_Some_iff comp_def)
qed

lemma order_respects_reads:
  assumes ord: "distinct ord" "set ord = set (affected ds changed)"
      "topological (affected ds changed) (reachable_dependents (dependents_of ds) (affected ds changed)) ord"
    and i: "i < length ord"
    and reads: "\<And>c. c \<in> S \<Longrightarrow> (c, ord ! i) \<in> dep_rel ds"
  shows "S \<inter> set (drop i ord) = {}"
proof (rule ccontr)
  assume "S \<inter> set (drop i ord) \<noteq> {}"
  then obtain c where c: "c \<in> S" "c \<in> set (drop i ord)" by auto
  then have "c \<in> set (affected ds changed)" using ord(2) by (metis in_set_dropD)
  moreover have "ord ! i \<in> set (reachable_dependents (dependents_of ds) (affected ds changed) c)"
    using reads [OF c(1)] ord(2) i nth_mem [of i ord]
    by (auto simp: reachable_dependents_def get_or_dependents dep_rel_def)
  ultimately have "c \<in> set (take i ord)" using ord(3) i by (auto simp: topological_def)
  then show False using c(2) ord(1) by (metis append_take_drop_id disjoint_iff distinct_append)
qed

section \<open>The recomputation on the tables\<close>

text \<open>The columns that depend on one of the changed columns, directly or through formulas.\<close>

definition depends_on_changed :: "row_scope \<Rightarrow> grid_db \<Rightarrow> jsstr list \<Rightarrow> jsstr \<Rightarrow> bool" where
  "depends_on_changed s db changed c \<longleftrightarrow>
     (\<exists>p \<in> set changed. (p, c) \<in> (dep_rel (table_dependencies (sc_tableId s) (sc_workspaceId s) db))\<^sup>+)"

lemma depends_affected:
  "depends_on_changed s db changed c \<longleftrightarrow> c \<in> set (affected (table_dependencies (sc_tableId s) (sc_workspaceId s) db) changed)"
  by (simp add: depends_on_changed_def set_affected)

definition formula_map_of :: "host \<Rightarrow> row_scope \<Rightarrow> grid_db \<Rightarrow> formula_map" where
  "formula_map_of h s db f = (case map_of (formulas_by_id s db) f of None \<Rightarrow> None | Some c \<Rightarrow> formula_of h c)"

text \<open>The operation implements the abstract recomputation in the order of the dependencies.\<close>

lemma recompute_refines:
  assumes ok: "grid_ok h db" and fresh: "fresh_ids uuid db" and r: "r \<in> set (g_rows db)" "row_in_scope s r"
  obtains db' ids ord where "recomputeDependentSqliteFormulasForRow h uuid now s changed db = Inr (db', ids)"
    and "cells_only db' db" and "cells_ok h db'" and "fresh_ids uuid db'"
    and "same_inputs (sc_rowId s) db' db"
    and "value_of h db' (sc_rowId s) = recomputed h (formula_map_of h s db) ord (value_of h db (sc_rowId s))"
    and "active_formulas (sc_tableId s) (sc_workspaceId s) db = [] \<and> ord = []
      \<or> recomputation_order (table_dependencies (sc_tableId s) (sc_workspaceId s) db) changed = Inr ord"
proof -
  let ?ds = "table_dependencies (sc_tableId s) (sc_workspaceId s) db"
  let ?cs = "row_cells (sc_rowId s) (sc_tableId s) (sc_workspaceId s) db"
  have "dep_rel ?ds \<subseteq> dep_rel (g_dependencies db)"
    by (auto simp: dep_rel_def table_dependencies_def select_where_def)
  then have "acyclic (dep_rel ?ds)" using ok acyclic_subset by (auto simp: grid_ok_def)
  then obtain ord where ord: "recomputation_order ?ds changed = Inr ord"
    using recomputation_order_spec(2) by blast
  show ?thesis
  proof (cases "changed = [] \<or> active_formulas (sc_tableId s) (sc_workspaceId s) db = [] \<or> ord = []")
    case True
    have "recomputation_order ?ds [] = Inr ord" if "changed = []" using ord that by simp
    then have "ord = []" if "changed = []"
      using recomputation_order_spec(1) [of ?ds "[]" ord] that by (simp add: set_affected)
    then have o: "ord = [] \<or> active_formulas (sc_tableId s) (sc_workspaceId s) db = []" using True by blast
    have rec: "recomputeDependentSqliteFormulasForRow h uuid now s changed db = Inr (db, [])"
      using True ord by (auto simp: recomputeDependentSqliteFormulasForRow_def Let_def)
    show ?thesis
      by (rule that [OF rec, of "[]"]) (use ok fresh o ord in \<open>auto simp: grid_ok_def recomputed_def same_inputs_def\<close>)
  next
    case False
    obtain vals where v: "map_result (read_cell h) ?cs = Inr vals"
      "tracks h uuid db s \<lparr>rc_db = db, rc_values = map_from vals,
        rc_cells = map_from (map (\<lambda>c. (gc_columnId c, gc_id c)) ?cs), rc_changed = []\<rparr>"
      using start_tracks [OF ok fresh r] by blast
    have F: "c \<in> set (g_columns db) \<and> col_id c = f \<and> col_kind c = Formula_column \<and> formula_ok h db c" if "map_of (formulas_by_id s db) f = Some c" for f c
      using that ok unfolding map_of_formulas [OF ok] set_active_formulas by (auto simp: grid_ok_def)
    obtain st' where st': "fold_result (recompute_formula h uuid now s (formulas_by_id s db)) ord
        \<lparr>rc_db = db, rc_values = map_from vals,
          rc_cells = map_from (map (\<lambda>c. (gc_columnId c, gc_id c)) ?cs), rc_changed = []\<rparr> = Inr st'"
      "tracks h uuid db s st'"
      "value_of h (rc_db st') (sc_rowId s) = recomputed h (formula_map_of h s db) ord (value_of h db (sc_rowId s))"
      using recompute_formulas_tracks [OF ok r F v(2), of "formulas_by_id s db" now ord]
      unfolding formula_map_of_def [abs_def] by auto
    have rec: "recomputeDependentSqliteFormulasForRow h uuid now s changed db = Inr (rc_db st', rc_changed st')"
      using False ord v(1) st'(1) by (simp add: recomputeDependentSqliteFormulasForRow_def formulas_by_id_def Let_def)
    show ?thesis
      by (rule that [OF rec _ _ _ _ st'(3)]) (use st'(2) ord in \<open>auto simp: tracks_def\<close>)
  qed
qed

lemma grid_ok_cells:
  assumes "cells_only db' db" and "cells_ok h db'" and ok: "grid_ok h db"
  shows "grid_ok h db'"
proof -
  note f = cells_only_frame [OF assms(1)]
  have "column_type db' = column_type db" by (simp add: column_type_def f fun_eq_iff)
  then have "formula_ok h db' c = formula_ok h db c" for c
    by (simp add: formula_ok_def table_dependencies_def f)
  then show ?thesis using assms(2) ok by (simp add: grid_ok_def f)
qed

lemma formula_reads:
  assumes ok: "grid_ok h db" and c: "c \<in> set (active_formulas t w db)"
  obtains e where "formula_of h c = Some e"
    and "\<forall>d \<in> set (collectFormulaColumnIds e). (d, col_id c) \<in> dep_rel (table_dependencies t w db)"
proof -
  have "formula_ok h db c" "col_tableId c = t" "col_workspaceId c = w"
    using ok c unfolding set_active_formulas by (auto simp: grid_ok_def)
  then obtain e where e: "formula_of h c = Some e" and
    deps: "set (collectFormulaColumnIds e) = {dependsOnColumnId d | d. d \<in> set (table_dependencies t w db) \<and> dep_columnId d = col_id c}"
    by (auto simp: formula_ok_def)
  have "(d, col_id c) \<in> dep_rel (table_dependencies t w db)" if "d \<in> set (collectFormulaColumnIds e)" for d
    using that deps by (force simp: dep_rel_def)
  then show ?thesis using that e by blast
qed

lemma recomputed_formula_current:
  assumes ok: "grid_ok h db" and ord: "recomputation_order (table_dependencies (sc_tableId s) (sc_workspaceId s) db) changed = Inr ord"
    and c: "c \<in> set (active_formulas (sc_tableId s) (sc_workspaceId s) db)" and e: "formula_of h c = Some e"
    and stale: "\<not> depends_on_changed s db changed (col_id c) \<Longrightarrow> v (col_id c) = eval_on h e v"
  shows "recomputed h (formula_map_of h s db) ord v (col_id c) = eval_on h e (recomputed h (formula_map_of h s db) ord v)"
proof -
  let ?ds = "table_dependencies (sc_tableId s) (sc_workspaceId s) db" and ?F = "formula_map_of h s db"
  note spec = recomputation_order_spec(1) [OF ord]
  have reads: "set (collectFormulaColumnIds e') \<inter> set (drop i ord) = {}"
    if i: "i < length ord" and F: "?F (ord ! i) = Some e'" for i e'
  proof -
    obtain c' where c': "c' \<in> set (active_formulas (sc_tableId s) (sc_workspaceId s) db)" "col_id c' = ord ! i" "formula_of h c' = Some e'"
      using F by (auto simp: formula_map_of_def map_of_formulas [OF ok] split: option.splits)
    obtain e'' where "formula_of h c' = Some e''"
      "\<forall>d \<in> set (collectFormulaColumnIds e''). (d, col_id c') \<in> dep_rel ?ds"
      by (rule formula_reads [OF ok c'(1)])
    then have d: "\<And>d. d \<in> set (collectFormulaColumnIds e') \<Longrightarrow> (d, ord ! i) \<in> dep_rel ?ds" using c' by simp
    show ?thesis by (rule order_respects_reads [OF _ _ _ i d]) (use spec in auto)
  qed
  have F: "?F (col_id c) = Some e"
    using c e map_of_formulas [OF ok, of s "col_id c" c] by (simp add: formula_map_of_def)
  show ?thesis
  proof (cases "depends_on_changed s db changed (col_id c)")
    case True
    then have "col_id c \<in> set ord" using spec by (simp add: depends_affected)
    then show ?thesis using recomputed_current [where F = ?F and ord = ord and f = "col_id c" and e = e] reads F spec by blast
  next
    case False
    have "d \<notin> set ord" if "d \<in> set (collectFormulaColumnIds e)" for d
    proof
      assume "d \<in> set ord"
      then have "depends_on_changed s db changed d" using spec by (simp add: depends_affected)
      moreover have "(d, col_id c) \<in> dep_rel ?ds" using formula_reads [OF ok c] e that by (metis option.inject)
      ultimately have "depends_on_changed s db changed (col_id c)"
        by (auto simp: depends_on_changed_def intro: trancl_into_trancl)
      with False show False by contradiction
    qed
    then have "eval_on h e (recomputed h ?F ord v) = eval_on h e v"
      by (intro eval_on_cong) (simp add: recomputed_other)
    moreover have "col_id c \<notin> set ord" using False spec by (simp add: depends_affected)
    ultimately show ?thesis using stale [OF False] by (simp add: recomputed_other)
  qed
qed

lemma recompute_current:
  assumes ok: "grid_ok h db" and fresh: "fresh_ids uuid db" and r: "r \<in> set (g_rows db)" "row_in_scope s r"
    and stale: "\<forall>c \<in> set (active_formulas (sc_tableId s) (sc_workspaceId s) db).
      \<not> depends_on_changed s db changed (col_id c) \<longrightarrow> formula_current h db (sc_rowId s) c"
  obtains db' ids where "recomputeDependentSqliteFormulasForRow h uuid now s changed db = Inr (db', ids)"
    and "grid_ok h db'" and "cells_only db' db" and "fresh_ids uuid db'"
    and "\<forall>c \<in> set (active_formulas (sc_tableId s) (sc_workspaceId s) db). formula_current h db' (sc_rowId s) c"
    and "same_inputs (sc_rowId s) db' db"
    and "\<forall>c. \<not> depends_on_changed s db changed c \<or> c \<notin> col_id ` set (active_formulas (sc_tableId s) (sc_workspaceId s) db)
         \<longrightarrow> value_of h db' (sc_rowId s) c = value_of h db (sc_rowId s) c"
proof -
  let ?A = "active_formulas (sc_tableId s) (sc_workspaceId s) db" and ?row = "sc_rowId s"
  let ?F = "formula_map_of h s db"
  obtain db' ids ord where rec: "recomputeDependentSqliteFormulasForRow h uuid now s changed db = Inr (db', ids)"
    and only: "cells_only db' db" and cells: "cells_ok h db'" and fresh': "fresh_ids uuid db'"
    and other: "same_inputs ?row db' db"
    and val: "value_of h db' ?row = recomputed h ?F ord (value_of h db ?row)"
    and ord: "?A = [] \<and> ord = []
      \<or> recomputation_order (table_dependencies (sc_tableId s) (sc_workspaceId s) db) changed = Inr ord"
    by (rule recompute_refines [OF ok fresh r])
  have "formula_current h db' ?row c" if c: "c \<in> set ?A" for c
  proof -
    have o: "recomputation_order (table_dependencies (sc_tableId s) (sc_workspaceId s) db) changed = Inr ord"
      using ord c by auto
    obtain e where e: "formula_of h c = Some e"
      "\<forall>d \<in> set (collectFormulaColumnIds e). (d, col_id c) \<in> dep_rel (table_dependencies (sc_tableId s) (sc_workspaceId s) db)"
      by (rule formula_reads [OF ok c])
    show ?thesis
      using recomputed_formula_current [OF ok o c e(1), of "value_of h db ?row"] bspec [OF stale c] e(1)
      by (simp add: formula_current_def val)
  qed
  moreover have "value_of h db' ?row c = value_of h db ?row c"
    if "\<not> depends_on_changed s db changed c \<or> c \<notin> col_id ` set ?A" for c
  proof -
    have "c \<notin> set ord \<or> ?F c = None"
      using that ord recomputation_order_spec(1) map_of_formulas [OF ok, of s c]
      by (cases "map_of (formulas_by_id s db) c") (force simp: depends_affected formula_map_of_def)+
    then show ?thesis by (simp add: val recomputed_other)
  qed
  ultimately show ?thesis using that [OF rec grid_ok_cells [OF only cells ok] only fresh'] other by blast
qed

section \<open>Properties\<close>

text \<open>
  C27. The recomputation makes every formula of a row current: if the formulas that do not
  depend on the changed columns were current, then it succeeds, and afterwards every active
  formula cell of the row holds the value of its formula on the cells of the row. It keeps the
  tables well formed, and changes no other row, no input cell and no formula that does not
  depend on the change.
\<close>

theorem recomputation_current:
  assumes "grid_ok h db" and "fresh_ids uuid db" and "r \<in> set (g_rows db)" and "row_in_scope s r"
    and "\<And>c. c \<in> set (active_formulas (sc_tableId s) (sc_workspaceId s) db) \<Longrightarrow>
      \<not> depends_on_changed s db changed (col_id c) \<Longrightarrow> formula_current h db (sc_rowId s) c"
  shows "\<exists>db' ids. recomputeDependentSqliteFormulasForRow h uuid now s changed db = Inr (db', ids)
    \<and> grid_ok h db' \<and> cells_only db' db
    \<and> (\<forall>c \<in> set (active_formulas (sc_tableId s) (sc_workspaceId s) db). formula_current h db' (sc_rowId s) c)
    \<and> (\<forall>r c. r \<noteq> sc_rowId s \<longrightarrow> value_at h db' r c = value_at h db r c)
    \<and> (\<forall>c. \<not> depends_on_changed s db changed c \<or> c \<notin> col_id ` set (active_formulas (sc_tableId s) (sc_workspaceId s) db)
         \<longrightarrow> value_of h db' (sc_rowId s) c = value_of h db (sc_rowId s) c)"
proof -
  have stale: "\<forall>c \<in> set (active_formulas (sc_tableId s) (sc_workspaceId s) db).
      \<not> depends_on_changed s db changed (col_id c) \<longrightarrow> formula_current h db (sc_rowId s) c"
    using assms(5) by blast
  show ?thesis by (rule recompute_current [OF assms(1-4) stale]) (use same_inputs_value in blast)
qed

definition sample_uuid :: "nat \<Rightarrow> jsstr" where
  "sample_uuid n = replicate (Suc n) 117"

definition sample_scope :: row_scope where
  "sample_scope = \<lparr>sc_rowId = js ''r'', sc_tableId = js ''t'', sc_workspaceId = js ''w''\<rparr>"

definition sample_column :: "string \<Rightarrow> column_kind \<Rightarrow> column_configuration \<Rightarrow> column_row" where
  "sample_column c k conf = \<lparr>col_id = js c, col_workspaceId = js ''w'', col_tableId = js ''t'', col_name = js c,
     col_kind = k, col_valueType = TText, col_position = js c, col_configuration = conf, col_archivedAt = None\<rparr>"

definition sample_grid_formula :: formula_expression where
  "sample_grid_formula = Call Fn_concat [Column (js ''a'')]"

definition sample_grid :: grid_db where
  "sample_grid = \<lparr>g_members = [\<lparr>member_workspaceId = js ''w'', member_userId = js ''m'', member_role = Admin\<rparr>],
     g_tables = [\<lparr>table_id = js ''t'', table_workspaceId = js ''w'', table_name = js ''T'', table_archivedAt = None\<rparr>],
     g_columns = [sample_column ''a'' Input_column OtherConfiguration,
       sample_column ''f'' Formula_column (FormulaConfiguration sample_grid_formula)],
     g_rows = [\<lparr>row_id = js ''r'', row_workspaceId = js ''w'', row_tableId = js ''t'', row_position = js ''p'',
       row_version = 1, row_archivedAt = None, row_updatedAt = 0\<rparr>],
     g_cells = [\<lparr>gc_id = js ''c'', gc_workspaceId = js ''w'', gc_tableId = js ''t'', gc_rowId = js ''r'',
       gc_columnId = js ''a'', gc_value = serializeSqliteCellValue ascii_host (CText (js ''x'')),
       gc_status = Idle, gc_version = 1, gc_updatedAt = 0\<rparr>],
     g_dependencies = [\<lparr>dep_workspaceId = js ''w'', dep_tableId = js ''t'', dep_columnId = js ''f'',
       dependsOnColumnId = js ''a''\<rparr>],
     g_webhooks = [], g_writebacks = [], g_settlements = [], g_outbox = [], g_fresh = 0\<rparr>"

lemma sample_uuid_inj: "inj sample_uuid"
  by (rule injI) (metis Suc_inject length_replicate sample_uuid_def)

lemma sample_fresh: "fresh_ids sample_uuid sample_grid"
proof -
  have "sample_uuid n \<noteq> js ''c''" "sample_uuid n \<noteq> js ''a''" "sample_uuid n \<noteq> js ''f''" for n
    by (simp_all add: sample_uuid_def js_eval)
  then show ?thesis by (auto simp: fresh_ids_def sample_uuid_inj sample_grid_def sample_column_def)
qed

lemma sample_grid_ok: "grid_ok ascii_host sample_grid"
proof -
  have "dep_rel (g_dependencies sample_grid) = {(js ''a'', js ''f'')}"
    by (simp add: sample_grid_def dep_rel_def)
  moreover have "acyclic {(js ''a'', js ''f'')}"
    by (rule acyclicI_order [of _ "\<lambda>c. if c = js ''a'' then 1 else (0 :: nat)"]) (auto simp: js_eval)
  ultimately have acyc: "acyclic (dep_rel (g_dependencies sample_grid))" by simp
  have ty: "column_type sample_grid (js ''a'') = Some TText"
    by (simp add: column_type_def sample_grid_def sample_column_def row_at_def)
  have cells: "cells_ok ascii_host sample_grid"
    using ty by (auto simp: cells_ok_def cell_ok_def sample_grid_def deserializeSqliteCellValue_def no_value_def)
  have col: "collectFormulaColumnIds sample_grid_formula = [js ''a'']" by code_simp
  have "formula_ok ascii_host sample_grid (sample_column ''f'' Formula_column (FormulaConfiguration sample_grid_formula))"
    using ty col unfolding formula_ok_def
    by (auto simp: formula_of_def sample_column_def sample_grid_formula_def call_type_def assertArity_def exact_arity_def
        table_dependencies_def select_where_def ascii_host_def js_eval) (auto simp: sample_grid_def js_eval)
  then show ?thesis
    using acyc cells by (auto simp: grid_ok_def) (auto simp: sample_grid_def sample_column_def js_eval)
qed

theorem recomputation_current_witness:
  "\<exists>db' ids. recomputeDependentSqliteFormulasForRow ascii_host sample_uuid 5 sample_scope [js ''a''] sample_grid = Inr (db', ids)
     \<and> grid_ok ascii_host db'"
proof -
  have r: "hd (g_rows sample_grid) \<in> set (g_rows sample_grid)" "row_in_scope sample_scope (hd (g_rows sample_grid))"
    by (simp_all add: sample_grid_def row_in_scope_def sample_scope_def)
  have "(js ''a'', js ''f'') \<in> dep_rel (table_dependencies (js ''t'') (js ''w'') sample_grid)"
    by (simp add: dep_rel_def table_dependencies_def select_where_def sample_grid_def)
  then have "depends_on_changed sample_scope sample_grid [js ''a''] (js ''f'')"
    by (auto simp: depends_on_changed_def sample_scope_def)
  then have "depends_on_changed sample_scope sample_grid [js ''a''] (col_id c)"
    if "c \<in> set (active_formulas (sc_tableId sample_scope) (sc_workspaceId sample_scope) sample_grid)" for c
    using that by (auto simp: set_active_formulas) (auto simp: sample_grid_def sample_column_def)
  then show ?thesis
    using recomputation_current [OF sample_grid_ok sample_fresh r, of "[js ''a'']" 5] by blast
qed

end
