(* ===== verification/FormulaCreation.thy ===== *)
theory FormulaCreation
  imports FormulaConsistency
begin

text \<open>
  The creation of a formula column (\<open>createSqliteFormulaColumn\<close> of
  \<open>packages/db/src/sqlite/formulas.ts\<close>): its checks, the column and its dependencies, and the
  recomputation of every active row.
\<close>

section \<open>The operation\<close>

record create_formula_input =
  cf_expression :: "formula_expression option"
  cf_source :: "jsstr option"
  cf_name :: jsstr
  cf_tableId :: jsstr
  cf_userId :: jsstr
  cf_workspaceId :: jsstr

definition MAXIMUM_TABLE_COLUMNS :: nat where
  "MAXIMUM_TABLE_COLUMNS = 256"

definition requireFormulaTableAccess :: "create_formula_input \<Rightarrow> grid_db \<Rightarrow> grid_error + unit" where
  "requireFormulaTableAccess inp db =
     (case first_row [m. t \<leftarrow> g_tables db, m \<leftarrow> g_members db,
             member_workspaceId m = table_workspaceId t \<and> member_userId m = cf_userId inp
             \<and> table_id t = cf_tableId inp \<and> table_workspaceId t = cf_workspaceId inp \<and> table_archivedAt t = None] of
        None \<Rightarrow> Inl FormulaAccess
      | Some m \<Rightarrow> if hasWorkspacePermission (member_role m) Schema_manage then Inr () else Inl FormulaAccess)"

definition available_columns :: "create_formula_input \<Rightarrow> grid_db \<Rightarrow> column_row list" where
  "available_columns inp db =
     filter (\<lambda>c. col_archivedAt c = None) (table_columns (cf_tableId inp) (cf_workspaceId inp) db)"

definition source_column_of :: "column_row \<Rightarrow> source_column" where
  "source_column_of c = \<lparr>column_id = col_id c, column_name = col_name c, column_type = col_valueType c\<rparr>"

definition requested_expression :: "host \<Rightarrow> create_formula_input \<Rightarrow> column_row list \<Rightarrow> grid_error + formula_expression" where
  "requested_expression h inp available =
     (case cf_source inp of
        Some source \<Rightarrow>
          (case parseFormulaSource h source (map source_column_of available) of
             Inl _ \<Rightarrow> Inl FormulaValidation
           | Inr e \<Rightarrow> Inr e)
      | None \<Rightarrow> (case cf_expression inp of None \<Rightarrow> Inl FormulaValidation | Some e \<Rightarrow> Inr e))"

text \<open>The checks on the name, the number of columns and a column of the same name.\<close>

definition check_name :: "create_formula_input \<Rightarrow> grid_db \<Rightarrow> grid_error + jsstr" where
  "check_name inp db =
     (let name = trim (cf_name inp); cols = table_columns (cf_tableId inp) (cf_workspaceId inp) db
      in if name = [] \<or> 120 < length name then Inl FormulaValidation
         else and_then (requireFormulaTableAccess inp db) (\<lambda>_.
           if MAXIMUM_TABLE_COLUMNS \<le> length cols then Inl FormulaValidation
           else if list_ex (\<lambda>c. ascii_lower (col_name c) = ascii_lower name) cols then Inl FormulaConflict
           else Inr name))"

text \<open>The checks on the expression: its shape, its sources and its type.\<close>

definition check_expression :: "host \<Rightarrow> formula_expression \<Rightarrow> column_row list \<Rightarrow> grid_error + (jsstr list \<times> value_type)" where
  "check_expression h e available =
     (if \<not> formulaExpressionSchema h e then Inl FormulaValidation
      else let dependencyIds = collectFormulaColumnIds e;
               sources = filter (\<lambda>c. col_id c \<in> set dependencyIds) available
           in if dependencyIds = [] then Inl FormulaValidation
              else if length sources \<noteq> length dependencyIds then Inl FormulaAccess
              else (case validateFormulaDefinition e (map_of (map_from (map (\<lambda>c. (col_id c, col_valueType c)) sources))) of
                      Inl _ \<Rightarrow> Inl FormulaValidation
                    | Inr t \<Rightarrow> Inr (dependencyIds, t)))"

definition formula_column :: "create_formula_input \<Rightarrow> jsstr \<Rightarrow> jsstr \<Rightarrow> jsstr \<Rightarrow> formula_expression \<Rightarrow> value_type \<Rightarrow> column_row" where
  "formula_column inp cid name pos e t =
     \<lparr>col_id = cid, col_workspaceId = cf_workspaceId inp, col_tableId = cf_tableId inp, col_name = name,
      col_kind = Formula_column, col_valueType = t, col_position = pos,
      col_configuration = FormulaConfiguration e, col_archivedAt = None\<rparr>"

text \<open>
  The rows of the column and of its dependencies. The first random identifier is drawn for the
  position, the second is the column's.
\<close>

definition insert_formula :: "(nat \<Rightarrow> jsstr) \<Rightarrow> int \<Rightarrow> create_formula_input \<Rightarrow> jsstr \<Rightarrow> formula_expression
    \<Rightarrow> jsstr list \<Rightarrow> value_type \<Rightarrow> grid_db \<Rightarrow> grid_error + (grid_db \<times> column_row)" where
  "insert_formula uuid now inp name e dependencyIds t db =
     (case new_uuid uuid db of
        (suffix, db1) \<Rightarrow>
          (case new_uuid uuid db1 of
             (cid, db2) \<Rightarrow>
               let created = formula_column inp cid name (js ''y-'' @ decimal_digits (nat now) @ js ''-'' @ suffix) e t;
                   deps = map (\<lambda>d. \<lparr>dep_workspaceId = cf_workspaceId inp, dep_tableId = cf_tableId inp,
                     dep_columnId = cid, dependsOnColumnId = d\<rparr>) dependencyIds
               in if cid \<in> col_id ` set (g_columns db2) \<or> cid \<in> set dependencyIds then Inl GridConstraint
                  else Inr (db2\<lparr>g_columns := g_columns db2 @ [created], g_dependencies := g_dependencies db2 @ deps\<rparr>,
                            created)))"

definition active_rows :: "jsstr \<Rightarrow> jsstr \<Rightarrow> grid_db \<Rightarrow> grid_row list" where
  "active_rows tableId workspaceId db =
     sort_key row_position (select_where (\<lambda>r. row_tableId r = tableId \<and> row_workspaceId r = workspaceId
       \<and> row_archivedAt r = None) (g_rows db))"

definition scope_of :: "grid_row \<Rightarrow> row_scope" where
  "scope_of r = \<lparr>sc_rowId = row_id r, sc_tableId = row_tableId r, sc_workspaceId = row_workspaceId r\<rparr>"

definition settle_row :: "host \<Rightarrow> (nat \<Rightarrow> jsstr) \<Rightarrow> int \<Rightarrow> jsstr list \<Rightarrow> grid_row \<Rightarrow> grid_db \<Rightarrow> grid_error + grid_db" where
  "settle_row h uuid now dependencyIds r db =
     and_then (recomputeDependentSqliteFormulasForRow h uuid now (scope_of r) dependencyIds db) (\<lambda>(db', ids).
       if ids = [] then Inr db'
       else and_then (recordSqliteRowMutationAndMaybeQueueSettlement h uuid now (scope_of r) ids db')
              (\<lambda>(db'', _). Inr db''))"

definition createSqliteFormulaColumn :: "host \<Rightarrow> (nat \<Rightarrow> jsstr) \<Rightarrow> int \<Rightarrow> create_formula_input \<Rightarrow> grid_db
    \<Rightarrow> grid_error + (grid_db \<times> column_row)" where
  "createSqliteFormulaColumn h uuid now inp db =
     (if (cf_expression inp = None) = (cf_source inp = None) then Inl FormulaValidation
      else and_then (check_name inp db) (\<lambda>name.
           and_then (requested_expression h inp (available_columns inp db)) (\<lambda>e.
           and_then (check_expression h e (available_columns inp db)) (\<lambda>(dependencyIds, t).
           and_then (insert_formula uuid now inp name e dependencyIds t db) (\<lambda>(db1, created).
           and_then (fold_result (settle_row h uuid now dependencyIds)
               (active_rows (cf_tableId inp) (cf_workspaceId inp) db1) db1) (\<lambda>db2.
             Inr (db2, created)))))))"

section \<open>Row mutations keep the tables well formed\<close>

definition row_signature :: "grid_row \<Rightarrow> jsstr \<times> jsstr \<times> jsstr \<times> int option" where
  "row_signature r = (row_id r, row_tableId r, row_workspaceId r, row_archivedAt r)"

text \<open>States with the same cells, columns and dependencies, and the same rows up to their versions.\<close>

definition rows_only :: "grid_db \<Rightarrow> grid_db \<Rightarrow> bool" where
  "rows_only db' db \<longleftrightarrow> g_cells db' = g_cells db \<and> g_columns db' = g_columns db
     \<and> g_dependencies db' = g_dependencies db \<and> g_writebacks db' = g_writebacks db
     \<and> map row_signature (g_rows db') = map row_signature (g_rows db) \<and> g_fresh db \<le> g_fresh db'"

lemma queue_settlement_frame:
  assumes "queue_settlement uuid now s changed version db = (db', sid)"
  shows "g_cells db' = g_cells db \<and> g_columns db' = g_columns db \<and> g_dependencies db' = g_dependencies db
    \<and> g_writebacks db' = g_writebacks db \<and> g_rows db' = g_rows db \<and> g_fresh db \<le> g_fresh db'"
  using assms by (auto simp: queue_settlement_def new_uuid_def Let_def split: if_splits)

lemma record_rows_only:
  assumes "recordSqliteRowMutationAndMaybeQueueSettlement h uuid now s changed db = Inr (db', v, sid)"
  shows "rows_only db' db"
proof -
  let ?db1 = "db\<lparr>g_rows := update_where (row_in_scope s) (raise_version now) (g_rows db)\<rparr>"
  have sig: "map row_signature (update_where (row_in_scope s) (raise_version now) (g_rows db)) = map row_signature (g_rows db)"
    by (rule keys_update_where) (simp add: row_signature_def raise_version_def)
  obtain row b where "first_row (select_where (row_in_scope s) (g_rows db)) = Some row"
    and "db' = ?db1 \<or> (\<exists>version ch sid. queue_settlement uuid now s ch version ?db1 = (db', sid))"
    using assms unfolding recordSqliteRowMutationAndMaybeQueueSettlement_def Let_def
    by (auto simp: and_then_eq_Inr split: option.splits if_splits prod.splits)
  then show ?thesis using queue_settlement_frame [of uuid now s _ _ ?db1 db'] sig by (fastforce simp: rows_only_def)
qed

lemma rows_only_signature:
  assumes "rows_only db' db" and "r \<in> set (g_rows db)"
  shows "\<exists>r' \<in> set (g_rows db'). row_signature r' = row_signature r"
proof -
  have "row_signature r \<in> set (map row_signature (g_rows db'))" using assms by (simp add: rows_only_def)
  then show ?thesis by (metis (no_types, lifting) image_iff list.set_map)
qed

lemma rows_only_grid_ok:
  assumes d: "rows_only db' db" and ok: "grid_ok h db"
  shows "grid_ok h db'"
proof -
  have f: "g_cells db' = g_cells db" "g_columns db' = g_columns db" "g_dependencies db' = g_dependencies db"
    using d by (simp_all add: rows_only_def)
  have ids: "map row_id (g_rows db') = map row_id (g_rows db)"
  proof -
    have e: "map row_id rs = map fst (map row_signature rs)" for rs by (simp add: row_signature_def)
    show ?thesis unfolding e using d by (simp only: rows_only_def)
  qed
  have ct: "column_type db' = column_type db" by (simp add: column_type_def f fun_eq_iff)
  have "cell_ok h db' c" if "cell_ok h db c" for c
  proof -
    obtain r where r: "r \<in> set (g_rows db)" "row_id r = gc_rowId c" "row_tableId r = gc_tableId c" "row_workspaceId r = gc_workspaceId c"
      using \<open>cell_ok h db c\<close> by (auto simp: cell_ok_def)
    then show ?thesis using rows_only_signature [OF d r(1)] that unfolding cell_ok_def ct
      by (auto simp: row_signature_def)
  qed
  moreover have "formula_ok h db' c = formula_ok h db c" for c
    by (simp add: formula_ok_def ct table_dependencies_def f)
  ultimately show ?thesis using ok by (simp add: grid_ok_def cells_ok_def f ids)
qed

lemma rows_only_fresh: "rows_only db' db \<Longrightarrow> fresh_ids uuid db \<Longrightarrow> fresh_ids uuid db'"
  by (auto simp: rows_only_def fresh_ids_def)

lemma rows_only_value: "rows_only db' db \<Longrightarrow> value_at h db' r c = value_at h db r c"
  by (simp add: rows_only_def value_at_def)

lemma formula_current_cong:
  assumes "\<And>c. value_at h db' r c = value_at h db r c"
  shows "formula_current h db' r c = formula_current h db r c"
proof -
  have "value_at h db' r = value_at h db r" using assms by (rule ext)
  then have v: "value_of h db' r = value_of h db r" by (simp add: value_of_def)
  show ?thesis unfolding formula_current_def v ..
qed

lemma rows_only_current: "rows_only db' db \<Longrightarrow> formula_current h db' r c = formula_current h db r c"
  by (rule formula_current_cong) (rule rows_only_value)

section \<open>One row after another\<close>

text \<open>What the loop over the rows never changes.\<close>

definition same_schema :: "grid_db \<Rightarrow> grid_db \<Rightarrow> bool" where
  "same_schema db' db \<longleftrightarrow> g_columns db' = g_columns db \<and> g_dependencies db' = g_dependencies db
     \<and> map row_signature (g_rows db') = map row_signature (g_rows db)"

lemma same_schema_active: "same_schema db' db \<Longrightarrow> active_formulas t w db' = active_formulas t w db"
  and same_schema_depends: "same_schema db' db \<Longrightarrow> depends_on_changed s db' changed c = depends_on_changed s db changed c"
  by (simp_all add: same_schema_def active_formulas_def table_columns_def depends_on_changed_def table_dependencies_def)

lemma settle_row_current:
  assumes ok: "grid_ok h db" and fresh: "fresh_ids uuid db"
    and r: "r' \<in> set (g_rows db)" "row_signature r' = row_signature r"
    and stale: "\<And>c. c \<in> set (active_formulas (row_tableId r) (row_workspaceId r) db) \<Longrightarrow>
      \<not> depends_on_changed (scope_of r) db changed (col_id c) \<Longrightarrow> formula_current h db (row_id r) c"
    and settle: "settle_row h uuid now changed r db = Inr db'"
  shows "grid_ok h db' \<and> fresh_ids uuid db' \<and> same_schema db' db
    \<and> (\<forall>c \<in> set (active_formulas (row_tableId r) (row_workspaceId r) db). formula_current h db' (row_id r) c)
    \<and> (\<forall>q c. q \<noteq> row_id r \<longrightarrow> formula_current h db' q c = formula_current h db q c)"
proof -
  have sc: "row_in_scope (scope_of r) r'"
    using r(2) by (simp add: row_in_scope_def scope_of_def row_signature_def)
  have sel: "sc_tableId (scope_of r) = row_tableId r" "sc_workspaceId (scope_of r) = row_workspaceId r"
    "sc_rowId (scope_of r) = row_id r" by (simp_all add: scope_of_def)
  have stale': "\<forall>c \<in> set (active_formulas (sc_tableId (scope_of r)) (sc_workspaceId (scope_of r)) db).
      \<not> depends_on_changed (scope_of r) db changed (col_id c) \<longrightarrow> formula_current h db (sc_rowId (scope_of r)) c"
    using stale sel by simp
  obtain db1 ids where rec: "recomputeDependentSqliteFormulasForRow h uuid now (scope_of r) changed db = Inr (db1, ids)"
    and one: "grid_ok h db1" "cells_only db1 db" "fresh_ids uuid db1"
      "\<forall>c \<in> set (active_formulas (sc_tableId (scope_of r)) (sc_workspaceId (scope_of r)) db). formula_current h db1 (sc_rowId (scope_of r)) c"
      "same_inputs (sc_rowId (scope_of r)) db1 db"
    by (rule recompute_current [OF ok fresh r(1) sc stale'])
  note f = cells_only_frame [OF one(2)]
  have other: "formula_current h db1 q c = formula_current h db q c" if "q \<noteq> row_id r" for q c
    by (rule formula_current_cong) (use same_inputs_value [OF one(5)] that sel in simp)
  have "rows_only db' db1"
    using settle rec record_rows_only by (auto simp: settle_row_def and_then_eq_Inr rows_only_def split: if_splits)
  then have ro: "rows_only db' db1" .
  have "formula_current h db' q c = formula_current h db q c" if "q \<noteq> row_id r" for q c
    using rows_only_current [OF ro] other [OF that] by simp
  moreover have "\<forall>c \<in> set (active_formulas (row_tableId r) (row_workspaceId r) db). formula_current h db' (row_id r) c"
    using one(4) rows_only_current [OF ro] sel by simp
  moreover have "same_schema db' db" using ro f by (simp add: same_schema_def rows_only_def)
  ultimately show ?thesis
    using rows_only_grid_ok [OF ro one(1)] rows_only_fresh [OF ro one(3)] by blast
qed

lemma settle_rows_current:
  fixes t w :: jsstr
  defines "A db \<equiv> active_formulas t w db"
  assumes "grid_ok h db" and "fresh_ids uuid db" and "distinct (map row_id rs)"
    and "\<forall>r \<in> set rs. row_tableId r = t \<and> row_workspaceId r = w \<and> (\<exists>r' \<in> set (g_rows db). row_signature r' = row_signature r)"
    and "\<forall>r \<in> set rs. \<forall>c \<in> set (A db). \<not> depends_on_changed (scope_of r) db changed (col_id c) \<longrightarrow> formula_current h db (row_id r) c"
    and "fold_result (settle_row h uuid now changed) rs db = Inr db'"
  shows "grid_ok h db' \<and> fresh_ids uuid db' \<and> same_schema db' db
    \<and> (\<forall>r \<in> set rs. \<forall>c \<in> set (A db). formula_current h db' (row_id r) c)
    \<and> (\<forall>q c. q \<notin> row_id ` set rs \<longrightarrow> formula_current h db' q c = formula_current h db q c)"
  using assms(2-)
proof (induction rs arbitrary: db)
  case Nil
  then show ?case by (simp add: same_schema_def)
next
  case (Cons r rs)
  obtain db1 where s1: "settle_row h uuid now changed r db = Inr db1"
    and s2: "fold_result (settle_row h uuid now changed) rs db1 = Inr db'"
    using Cons.prems(6) by (auto simp: and_then_eq_Inr)
  obtain r' where r': "r' \<in> set (g_rows db)" "row_signature r' = row_signature r"
    and tw: "row_tableId r = t" "row_workspaceId r = w" using Cons.prems(4) by auto
  have stale: "formula_current h db (row_id r) c"
    if "c \<in> set (active_formulas (row_tableId r) (row_workspaceId r) db)" "\<not> depends_on_changed (scope_of r) db changed (col_id c)" for c
    using Cons.prems(5) that tw by (simp add: A_def)
  note one = settle_row_current [OF Cons.prems(1,2) r' stale s1]
  have sch: "same_schema db1 db" using one by blast
  have A1: "A db1 = A db" unfolding A_def by (rule same_schema_active [OF sch])
  have rows1: "\<exists>q' \<in> set (g_rows db1). row_signature q' = row_signature q" if ex: "\<exists>q' \<in> set (g_rows db). row_signature q' = row_signature q" for q
  proof -
    obtain q' where "q' \<in> set (g_rows db)" "row_signature q' = row_signature q" using ex by blast
    then have "row_signature q \<in> set (map row_signature (g_rows db))" by (metis image_eqI list.set_map)
    then have "row_signature q \<in> set (map row_signature (g_rows db1))" using sch by (simp only: same_schema_def)
    then show ?thesis by auto
  qed
  have "grid_ok h db' \<and> fresh_ids uuid db' \<and> same_schema db' db1
    \<and> (\<forall>r \<in> set rs. \<forall>c \<in> set (A db1). formula_current h db' (row_id r) c)
    \<and> (\<forall>q c. q \<notin> row_id ` set rs \<longrightarrow> formula_current h db' q c = formula_current h db1 q c)"
  proof (rule Cons.IH)
    show "grid_ok h db1" "fresh_ids uuid db1" using one by blast+
    show "distinct (map row_id rs)" using Cons.prems(3) by simp
    show "\<forall>r \<in> set rs. row_tableId r = t \<and> row_workspaceId r = w \<and> (\<exists>r' \<in> set (g_rows db1). row_signature r' = row_signature r)"
      using Cons.prems(4) rows1 by simp
    show "\<forall>r \<in> set rs. \<forall>c \<in> set (A db1). \<not> depends_on_changed (scope_of r) db1 changed (col_id c) \<longrightarrow> formula_current h db1 (row_id r) c"
    proof (intro ballI impI)
      fix q c
      assume q: "q \<in> set rs" and c: "c \<in> set (A db1)" "\<not> depends_on_changed (scope_of q) db1 changed (col_id c)"
      have "row_id q \<noteq> row_id r" using Cons.prems(3) q by (simp add: image_iff) (metis)
      moreover have "formula_current h db (row_id q) c"
        using Cons.prems(5) q c A1 same_schema_depends [OF sch] by simp
      ultimately show "formula_current h db1 (row_id q) c" using one by blast
    qed
    show "fold_result (settle_row h uuid now changed) rs db1 = Inr db'" by (rule s2)
  qed
  note two = this
  have "row_id r \<notin> row_id ` set rs" using Cons.prems(3) by auto
  then have "\<forall>c \<in> set (A db). formula_current h db' (row_id r) c"
    using one two tw by (simp add: A_def)
  moreover have "same_schema db' db" using sch two by (simp add: same_schema_def)
  ultimately show ?case using one two A1 by auto
qed

section \<open>The new column\<close>

lemma infer_mono:
  assumes "\<And>c t. types c = Some t \<Longrightarrow> types' c = Some t"
  shows "inferType types e = Inr t \<Longrightarrow> inferType types' e = Inr t"
proof (induction e arbitrary: t)
  case (Column c)
  then show ?case using assms by (auto split: option.splits)
next
  case (Call f args)
  obtain ts where ts: "map_result (inferType types) args = Inr ts" using Call.prems by (auto simp: and_then_eq_Inr)
  have "list_all2 (\<lambda>a t. inferType types' a = Inr t) (map (\<lambda>a. a) args) ts"
    by (rule map_result_all2 [OF ts]) (use Call.IH in blast)
  then have "map_result (inferType types') args = Inr ts" by (simp add: map_result_Inr_iff)
  then show ?case using Call.prems ts by simp
qed simp

lemma row_at_extend: "row_at key rows k = Some r \<Longrightarrow> row_at key (rows @ extra) k = Some r"
  by (simp add: row_at_append)

lemma distinct_active_rows:
  assumes "distinct (map row_id (g_rows db))"
  shows "distinct (map row_id (active_rows t w db))"
proof -
  have d: "distinct (g_rows db)" "inj_on row_id (set (g_rows db))" using assms by (simp_all add: distinct_map)
  have "inj_on row_id (set (active_rows t w db))"
    by (rule inj_on_subset [OF d(2)]) (auto simp: active_rows_def select_where_def)
  then show ?thesis using d(1) by (simp add: active_rows_def select_where_def distinct_map)
qed

lemma checked_expression:
  assumes d: "distinct (map col_id available)" and c: "check_expression h e available = Inr (ids, t)"
  shows "formulaExpressionSchema h e \<and> ids = collectFormulaColumnIds e \<and> ids \<noteq> [] \<and> set ids \<subseteq> col_id ` set available
    \<and> t \<noteq> TEmpty \<and> inferType (map_of (map (\<lambda>c. (col_id c, col_valueType c)) available)) e = Inr t"
proof -
  let ?src = "filter (\<lambda>c. col_id c \<in> set ids) available"
  have x: "formulaExpressionSchema h e" "ids = collectFormulaColumnIds e" "ids \<noteq> []" "length ?src = length ids"
    and v: "validateFormulaDefinition e (map_of (map_from (map (\<lambda>c. (col_id c, col_valueType c)) ?src))) = Inr t"
    using c by (auto simp: check_expression_def Let_def split: if_splits sum.splits)
  have di: "distinct ids" by (simp add: x(2) collectFormulaColumnIds_def)
  have ds: "distinct (map col_id ?src)" using d by (simp add: distinct_map_filter)
  have "card (col_id ` set ?src) = card (set ids)"
    using x(4) di ds by (metis distinct_card length_map list.set_map)
  moreover have "col_id ` set ?src \<subseteq> set ids" by auto
  ultimately have "col_id ` set ?src = set ids" by (simp add: card_subset_eq)
  then have sub: "set ids \<subseteq> col_id ` set available" by auto
  have "inferType (map_of (map (\<lambda>c. (col_id c, col_valueType c)) ?src)) e = Inr t" "t \<noteq> TEmpty"
    using v map_from_distinct [of "map (\<lambda>c. (col_id c, col_valueType c)) ?src"] ds
    by (auto simp: validateFormulaDefinition_def and_then_eq_Inr comp_def split: if_splits)
  moreover have "map_of (map (\<lambda>c. (col_id c, col_valueType c)) available) k = Some ty"
    if "map_of (map (\<lambda>c. (col_id c, col_valueType c)) ?src) k = Some ty" for k ty
  proof -
    have "(k, ty) \<in> set (map (\<lambda>c. (col_id c, col_valueType c)) available)" using map_of_SomeD [OF that] by auto
    then show ?thesis using d by (intro map_of_is_SomeI) (simp_all add: comp_def)
  qed
  ultimately show ?thesis using x sub infer_mono by blast
qed

lemma acyclic_sink:
  assumes "acyclic r" and "x \<notin> Domain r" and "x \<notin> S"
  shows "acyclic (r \<union> S \<times> {x})"
proof -
  have "b \<noteq> x \<longrightarrow> (a, b) \<in> r\<^sup>+" if "(a, b) \<in> (r \<union> S \<times> {x})\<^sup>+" for a b
    using that by (induction rule: trancl_induct) (use assms(2,3) in \<open>auto intro: trancl_into_trancl\<close>)
  moreover have "(x, x) \<notin> (r \<union> S \<times> {x})\<^sup>+"
    using assms(2,3) by (auto dest: tranclD)
  ultimately show ?thesis using assms(1) by (auto simp: acyclic_def)
qed

lemma insert_formula_ok:
  assumes ok: "grid_ok h db" and fresh: "fresh_ids uuid db"
    and e: "formulaExpressionSchema h e" "number_literals_ok e" "literals_storable h e" "ids = collectFormulaColumnIds e"
      "set ids \<subseteq> col_id ` set (available_columns inp db)"
      "inferType (map_of (map (\<lambda>c. (col_id c, col_valueType c)) (available_columns inp db))) e = Inr t"
    and ins: "insert_formula uuid now inp name e ids t db = Inr (db1, created)"
  shows "grid_ok h db1 \<and> fresh_ids uuid db1 \<and> g_columns db1 = g_columns db @ [created] \<and> g_rows db1 = g_rows db
    \<and> g_cells db1 = g_cells db \<and> col_id created \<notin> col_id ` set (g_columns db)
    \<and> created = formula_column inp (col_id created) name (col_position created) e t
    \<and> (\<forall>d \<in> set ids. (d, col_id created) \<in> dep_rel (table_dependencies (cf_tableId inp) (cf_workspaceId inp) db1))
    \<and> set (g_dependencies db) \<subseteq> set (g_dependencies db1)"
proof -
  let ?cid = "uuid (Suc (g_fresh db))"
  let ?deps = "map (\<lambda>d. \<lparr>dep_workspaceId = cf_workspaceId inp, dep_tableId = cf_tableId inp,
     dep_columnId = ?cid, dependsOnColumnId = d\<rparr>) ids"
  obtain pos where created: "created = formula_column inp ?cid name pos e t"
    and new: "?cid \<notin> col_id ` set (g_columns db)"
    and db1: "db1 = db\<lparr>g_fresh := Suc (Suc (g_fresh db)), g_columns := g_columns db @ [created],
       g_dependencies := g_dependencies db @ ?deps\<rparr>"
    using ins by (auto simp: insert_formula_def new_uuid_def Let_def split: if_splits)
  have f: "g_columns db1 = g_columns db @ [created]" "g_rows db1 = g_rows db" "g_cells db1 = g_cells db"
    "g_dependencies db1 = g_dependencies db @ ?deps" "g_fresh db1 = Suc (Suc (g_fresh db))"
    by (simp_all add: db1)
  have cid: "col_id created = ?cid" "col_kind created = Formula_column" "col_valueType created = t"
    "col_tableId created = cf_tableId inp" "col_workspaceId created = cf_workspaceId inp"
    by (simp_all add: created formula_column_def)
  have dc: "distinct (map col_id (g_columns db))" using ok by (simp add: grid_ok_def)
  have sub: "set ids \<subseteq> col_id ` set (g_columns db)"
    using e(5) by (auto simp: available_columns_def table_columns_def select_where_def)
  have ct: "column_type db k = Some ty \<Longrightarrow> column_type db1 k = Some ty" for k ty
    by (auto simp: column_type_def f dest: row_at_extend)
  have avail: "column_type db1 k = Some ty"
    if m: "map_of (map (\<lambda>c. (col_id c, col_valueType c)) (available_columns inp db)) k = Some ty" for k ty
  proof -
    obtain c where "c \<in> set (g_columns db)" "col_id c = k" "col_valueType c = ty"
      using map_of_SomeD [OF m] by (auto simp: available_columns_def table_columns_def select_where_def)
    then have "column_type db k = Some ty" using row_at_mem [OF dc] by (force simp: column_type_def)
    then show ?thesis by (rule ct)
  qed
  have fk: "\<And>d. d \<in> set (g_dependencies db) \<Longrightarrow> {dep_columnId d, dependsOnColumnId d} \<subseteq> col_id ` set (g_columns db)"
    using ok unfolding grid_ok_def by blast
  have cells: "cells_ok h db1"
  proof -
    have "cell_ok h db1 c" if "cell_ok h db c" for c using that ct unfolding cell_ok_def f by blast
    then show ?thesis using ok by (simp add: grid_ok_def cells_ok_def f)
  qed
  have old: "formula_ok h db1 c" if c: "c \<in> set (g_columns db)" and o: "formula_ok h db c" for c
  proof -
    have "dep_columnId d \<noteq> col_id c" if "d \<in> set ?deps" for d using that c new by auto
    then have "{dependsOnColumnId d | d. d \<in> set (table_dependencies (col_tableId c) (col_workspaceId c) db1) \<and> dep_columnId d = col_id c}
        = {dependsOnColumnId d | d. d \<in> set (table_dependencies (col_tableId c) (col_workspaceId c) db) \<and> dep_columnId d = col_id c}"
      by (auto simp: table_dependencies_def select_where_def f)
    note same = this
    obtain e' where e': "formula_of h c = Some e'" "number_literals_ok e'" "literals_storable h e'"
      "inferType (column_type db) e' = Inr (col_valueType c)"
      "set (collectFormulaColumnIds e') =
         {dependsOnColumnId d | d. d \<in> set (table_dependencies (col_tableId c) (col_workspaceId c) db) \<and> dep_columnId d = col_id c}"
      using o by (auto simp: formula_ok_def)
    show ?thesis
      unfolding formula_ok_def same using e' infer_mono [OF ct e'(4)] by (intro exI [of _ e'] conjI)
  qed
  have deps: "{dependsOnColumnId d | d. d \<in> set (table_dependencies (cf_tableId inp) (cf_workspaceId inp) db1) \<and> dep_columnId d = ?cid} = set ids"
    (is "?L = _")
  proof
    have nd: "dep_columnId d \<noteq> ?cid" if "d \<in> set (g_dependencies db)" for d using fk [OF that] new by auto
    then show "?L \<subseteq> set ids" by (auto simp: table_dependencies_def select_where_def f)
    show "set ids \<subseteq> ?L"
    proof
      fix x
      assume "x \<in> set ids"
      then have "\<lparr>dep_workspaceId = cf_workspaceId inp, dep_tableId = cf_tableId inp, dep_columnId = ?cid, dependsOnColumnId = x\<rparr>
          \<in> set (table_dependencies (cf_tableId inp) (cf_workspaceId inp) db1)"
        by (simp add: table_dependencies_def select_where_def f)
      then show "x \<in> ?L" by force
    qed
  qed
  have mine: "formula_ok h db1 created"
    using e(1-4) infer_mono [OF avail e(6)] deps
    unfolding formula_ok_def cid by (intro exI [of _ e]) (simp add: created formula_column_def formula_of_def)
  have rel: "dep_rel (g_dependencies db1) = dep_rel (g_dependencies db) \<union> set ids \<times> {?cid}"
    unfolding dep_rel_def f set_append image_Un set_map image_image by auto
  have "acyclic (dep_rel (g_dependencies db1))"
    unfolding rel by (rule acyclic_sink) (use ok fk new sub in \<open>auto simp: grid_ok_def dep_rel_def\<close>)
  then have grid: "grid_ok h db1"
    using ok cells old mine new fk sub cid unfolding grid_ok_def by (auto simp: f)
  have inj: "inj uuid" using fresh by (simp add: fresh_ids_def)
  have "uuid n \<noteq> ?cid" if "Suc (Suc (g_fresh db)) \<le> n" for n
    using inj that by (auto dest: injD)
  then have "fresh_ids uuid db1" using fresh by (auto simp: fresh_ids_def f cid)
  moreover have "(d, ?cid) \<in> dep_rel (table_dependencies (cf_tableId inp) (cf_workspaceId inp) db1)" if "d \<in> set ids" for d
    using deps that by (force simp: dep_rel_def)
  moreover have "created = formula_column inp ?cid name (col_position created) e t"
    by (simp add: created formula_column_def)
  ultimately show ?thesis using grid f cid new by simp
qed

section \<open>Properties\<close>

lemma formula_created:
  assumes "grid_ok h db" and "fresh_ids uuid db"
    and "createSqliteFormulaColumn h uuid now inp db = Inr (db', created)"
    and "requested_expression h inp (available_columns inp db) = Inr e" and "number_literals_ok e" and "literals_storable h e"
    and "\<And>r c. r \<in> set (active_rows (cf_tableId inp) (cf_workspaceId inp) db) \<Longrightarrow>
      c \<in> set (active_formulas (cf_tableId inp) (cf_workspaceId inp) db) \<Longrightarrow> formula_current h db (row_id r) c"
  shows "grid_ok h db' \<and> fresh_ids uuid db' \<and> formula_of h created = Some e \<and> g_columns db' = g_columns db @ [created]
    \<and> map row_signature (g_rows db') = map row_signature (g_rows db)
    \<and> col_tableId created = cf_tableId inp \<and> col_workspaceId created = cf_workspaceId inp
    \<and> (\<forall>c \<in> insert created (set (active_formulas (cf_tableId inp) (cf_workspaceId inp) db)).
         \<forall>r \<in> set (active_rows (cf_tableId inp) (cf_workspaceId inp) db). formula_current h db' (row_id r) c)
    \<and> (\<forall>q c. q \<notin> row_id ` set (active_rows (cf_tableId inp) (cf_workspaceId inp) db)
         \<longrightarrow> formula_current h db' q c = formula_current h db q c)"
proof -
  let ?t = "cf_tableId inp" and ?w = "cf_workspaceId inp"
  obtain name ids t db1 where chk: "check_expression h e (available_columns inp db) = Inr (ids, t)"
    and ins: "insert_formula uuid now inp name e ids t db = Inr (db1, created)"
    and loop: "fold_result (settle_row h uuid now ids) (active_rows ?t ?w db1) db1 = Inr db'"
    using assms(3,4) by (auto simp: createSqliteFormulaColumn_def and_then_eq_Inr split: if_splits)
  have d: "distinct (map col_id (available_columns inp db))"
    using assms(1) by (simp add: grid_ok_def available_columns_def table_columns_def select_where_def distinct_map_filter)
  note c = checked_expression [OF d chk]
  note n = insert_formula_ok [OF assms(1,2) _ assms(5,6) _ _ _ ins]
  have one: "grid_ok h db1" "fresh_ids uuid db1" "g_columns db1 = g_columns db @ [created]" "g_rows db1 = g_rows db"
    "g_cells db1 = g_cells db" "created = formula_column inp (col_id created) name (col_position created) e t"
    "\<forall>d \<in> set ids. (d, col_id created) \<in> dep_rel (table_dependencies ?t ?w db1)"
    using n c by auto
  have rows: "active_rows ?t ?w db1 = active_rows ?t ?w db" by (simp add: active_rows_def one(4))
  have sel: "col_kind created = Formula_column" "col_archivedAt created = None" "col_tableId created = ?t"
    "col_workspaceId created = ?w" "col_configuration created = FormulaConfiguration e"
    by (subst one(6), simp add: formula_column_def)+
  have A: "active_formulas ?t ?w db1 = active_formulas ?t ?w db @ [created]"
    using one(3) sel by (simp add: active_formulas_def table_columns_def select_where_def)
  have new: "depends_on_changed (scope_of r) db1 ids (col_id created)" if "r \<in> set (active_rows ?t ?w db)" for r
  proof -
    have "row_tableId r = ?t" "row_workspaceId r = ?w" using that by (auto simp: active_rows_def select_where_def)
    moreover obtain x where "x \<in> set ids" using c by (metis list.set_intros(1) neq_Nil_conv)
    ultimately show ?thesis using one(7) by (auto simp: depends_on_changed_def scope_of_def)
  qed
  have current: "formula_current h db1 q c = formula_current h db q c" for q c
    by (rule formula_current_cong) (simp add: value_at_def one(5))
  have dr: "distinct (map row_id (active_rows ?t ?w db))"
    using assms(1) by (simp add: distinct_active_rows grid_ok_def)
  have loop': "fold_result (settle_row h uuid now ids) (active_rows ?t ?w db) db1 = Inr db'" using loop rows by simp
  have "grid_ok h db' \<and> fresh_ids uuid db' \<and> same_schema db' db1
    \<and> (\<forall>r \<in> set (active_rows ?t ?w db). \<forall>c \<in> set (active_formulas ?t ?w db1). formula_current h db' (row_id r) c)
    \<and> (\<forall>q c. q \<notin> row_id ` set (active_rows ?t ?w db) \<longrightarrow> formula_current h db' q c = formula_current h db1 q c)"
    by (rule settle_rows_current [OF one(1,2) dr _ _ loop'])
      (use assms(7) new current in \<open>auto simp: A active_rows_def select_where_def one(4)\<close>)
  moreover have "formula_of h created = Some e"
    using sel c by (simp add: formula_of_def)
  ultimately show ?thesis using one(3,4) sel current by (auto simp: A same_schema_def)
qed

text \<open>
  C28. Creating a formula column keeps the tables well formed (in particular the dependencies
  stay acyclic), and afterwards every formula of the table, the new one included, is current
  at every active row. The literals of the expression have to be in the form storage keeps.
\<close>

theorem formula_column_created:
  assumes "grid_ok h db" and "fresh_ids uuid db"
    and "createSqliteFormulaColumn h uuid now inp db = Inr (db', created)"
    and "requested_expression h inp (available_columns inp db) = Inr e" and "number_literals_ok e" and "literals_storable h e"
    and "\<And>r c. r \<in> set (active_rows (cf_tableId inp) (cf_workspaceId inp) db) \<Longrightarrow>
      c \<in> set (active_formulas (cf_tableId inp) (cf_workspaceId inp) db) \<Longrightarrow> formula_current h db (row_id r) c"
  shows "grid_ok h db' \<and> formula_of h created = Some e
    \<and> (\<forall>c \<in> insert created (set (active_formulas (cf_tableId inp) (cf_workspaceId inp) db)).
         \<forall>r \<in> set (active_rows (cf_tableId inp) (cf_workspaceId inp) db). formula_current h db' (row_id r) c)"
  using formula_created [OF assms] by blast

definition creation_grid :: grid_db where
  "creation_grid = sample_grid\<lparr>g_columns := [sample_column ''a'' Input_column OtherConfiguration], g_dependencies := []\<rparr>"

definition creation_input :: create_formula_input where
  "creation_input = \<lparr>cf_expression = Some sample_grid_formula, cf_source = None, cf_name = js ''g'',
     cf_tableId = js ''t'', cf_userId = js ''m'', cf_workspaceId = js ''w''\<rparr>"

lemma creation_columns:
  "g_columns creation_grid = [sample_column ''a'' Input_column OtherConfiguration]" "g_dependencies creation_grid = []"
  "distinct (map row_id (g_rows creation_grid))"
  by (simp_all add: creation_grid_def sample_grid_def)

lemma creation_grid_ok: "grid_ok ascii_host creation_grid"
proof -
  have ty: "column_type creation_grid (js ''a'') = Some TText"
    by (simp add: column_type_def creation_grid_def sample_column_def row_at_def)
  then have cells: "cells_ok ascii_host creation_grid"
    by (auto simp: cells_ok_def cell_ok_def creation_grid_def sample_grid_def deserializeSqliteCellValue_def no_value_def)
  show ?thesis
    unfolding grid_ok_def using cells by (simp add: creation_columns dep_rel_def sample_column_def acyclic_def)
qed

lemma creation_fresh: "fresh_ids sample_uuid creation_grid"
proof -
  have "sample_uuid n \<noteq> js ''c''" "sample_uuid n \<noteq> js ''a''" for n by (simp_all add: sample_uuid_def js_eval)
  then show ?thesis
    by (auto simp: fresh_ids_def sample_uuid_inj creation_grid_def sample_grid_def sample_column_def)
qed

lemma creation_succeeds:
  "(case createSqliteFormulaColumn ascii_host sample_uuid 5 creation_input creation_grid of Inr _ \<Rightarrow> True | Inl _ \<Rightarrow> False)"
  by code_simp

theorem formula_column_created_witness:
  "\<exists>db' created. createSqliteFormulaColumn ascii_host sample_uuid 5 creation_input creation_grid = Inr (db', created)
     \<and> grid_ok ascii_host db' \<and> formula_of ascii_host created = Some sample_grid_formula"
proof -
  obtain db' created where c: "createSqliteFormulaColumn ascii_host sample_uuid 5 creation_input creation_grid = Inr (db', created)"
    using creation_succeeds by (auto split: sum.splits)
  have r: "requested_expression ascii_host creation_input (available_columns creation_input creation_grid) = Inr sample_grid_formula"
    by (simp add: requested_expression_def creation_input_def)
  have l: "number_literals_ok sample_grid_formula" "literals_storable ascii_host sample_grid_formula"
    by (simp_all add: sample_grid_formula_def)
  have "active_formulas t w creation_grid = []" for t w
    by (simp add: active_formulas_def table_columns_def select_where_def creation_grid_def sample_column_def)
  then show ?thesis
    using formula_column_created [OF creation_grid_ok creation_fresh c r l] c by auto
qed

end
