(* ===== verification/GridEdits.thy ===== *)
theory GridEdits
  imports FormulaCreation
begin

text \<open>
  The edits of a grid (\<open>packages/db/src/sqlite/grid.ts\<close>): creating a row, writing a cell with an
  expected version, and reading a row back.
\<close>

section \<open>Operations\<close>

record grid_scope =
  gs_tableId :: jsstr
  gs_userId :: jsstr
  gs_workspaceId :: jsstr

definition grid_member :: "grid_scope \<Rightarrow> jsstr \<Rightarrow> member_row \<Rightarrow> bool" where
  "grid_member sc workspaceId m \<longleftrightarrow> member_workspaceId m = workspaceId \<and> member_userId m = gs_userId sc"

definition requireTableAccess :: "grid_scope \<Rightarrow> grid_db \<Rightarrow> grid_error + (jsstr \<times> jsstr)" where
  "requireTableAccess sc db =
     (case first_row [(table_id t, table_name t). t \<leftarrow> g_tables db, m \<leftarrow> g_members db,
             grid_member sc (table_workspaceId t) m \<and> table_id t = gs_tableId sc
             \<and> table_workspaceId t = gs_workspaceId sc \<and> table_archivedAt t = None] of
        None \<Rightarrow> Inl GridAccess
      | Some t \<Rightarrow> Inr t)"

text \<open>\<open>SqliteGridCell\<close>.\<close>

record grid_cell_view =
  view_id :: jsstr
  view_status :: cell_status
  view_value :: cell_value
  view_version :: nat

definition toGridCell :: "host \<Rightarrow> grid_cell \<Rightarrow> grid_error + grid_cell_view" where
  "toGridCell h c =
     (case deserializeSqliteCellValue h (gc_value c) of
        None \<Rightarrow> Inl StoredValueInvalid
      | Some v \<Rightarrow> Inr \<lparr>view_id = gc_id c, view_status = gc_status c, view_value = v, view_version = gc_version c\<rparr>)"

text \<open>The new row; its position starts with the time, so later rows come later.\<close>

definition createSqliteGridRow :: "(nat \<Rightarrow> jsstr) \<Rightarrow> int \<Rightarrow> grid_scope \<Rightarrow> grid_db \<Rightarrow> grid_error + (grid_db \<times> grid_row)" where
  "createSqliteGridRow uuid now sc db =
     and_then (requireTableAccess sc db) (\<lambda>_.
       case new_uuid uuid db of
         (suffix, db1) \<Rightarrow>
           (case new_uuid uuid db1 of
              (rid, db2) \<Rightarrow>
                let row = \<lparr>row_id = rid, row_workspaceId = gs_workspaceId sc, row_tableId = gs_tableId sc,
                      row_position = pad 13 now @ js ''-'' @ suffix, row_version = 1, row_archivedAt = None,
                      row_updatedAt = now\<rparr>
                in if rid \<in> row_id ` set (g_rows db2) then Inl GridConstraint
                   else Inr (db2\<lparr>g_rows := g_rows db2 @ [row]\<rparr>, row)))"

text \<open>\<open>getSqliteGridRow\<close>: the row with its cells in active columns.\<close>

definition visible_cells :: "grid_scope \<Rightarrow> jsstr \<Rightarrow> grid_db \<Rightarrow> grid_cell list" where
  "visible_cells sc rowId db =
     [x. x \<leftarrow> row_cells rowId (gs_tableId sc) (gs_workspaceId sc) db, c \<leftarrow> g_columns db, m \<leftarrow> g_members db,
       col_id c = gc_columnId x \<and> col_tableId c = gc_tableId x \<and> col_workspaceId c = gc_workspaceId x
       \<and> col_archivedAt c = None \<and> grid_member sc (gc_workspaceId x) m]"

definition getSqliteGridRow :: "host \<Rightarrow> grid_scope \<Rightarrow> jsstr \<Rightarrow> grid_db \<Rightarrow> grid_error + (grid_row \<times> (jsstr \<times> grid_cell_view) list)" where
  "getSqliteGridRow h sc rowId db =
     and_then (requireTableAccess sc db) (\<lambda>_.
       case first_row [r. r \<leftarrow> g_rows db, m \<leftarrow> g_members db, grid_member sc (row_workspaceId r) m \<and> row_id r = rowId
              \<and> row_tableId r = gs_tableId sc \<and> row_workspaceId r = gs_workspaceId sc \<and> row_archivedAt r = None] of
         None \<Rightarrow> Inl GridAccess
       | Some r \<Rightarrow>
           and_then (map_result (\<lambda>x. and_then (toGridCell h x) (\<lambda>v. Inr (gc_columnId x, v)))
               (visible_cells sc rowId db)) (\<lambda>cs. Inr (r, map_from cs)))"

record write_input =
  we_scope :: grid_scope
  we_columnId :: jsstr
  we_expectedVersion :: int
  we_rowId :: jsstr
  we_value :: cell_value

text \<open>The column and the row of an accessible cell.\<close>

definition write_target :: "write_input \<Rightarrow> grid_db \<Rightarrow> (column_kind \<times> value_type) option" where
  "write_target inp db =
     first_row [(col_kind c, col_valueType c). r \<leftarrow> g_rows db, c \<leftarrow> g_columns db, m \<leftarrow> g_members db,
       col_id c = we_columnId inp \<and> col_tableId c = row_tableId r \<and> col_workspaceId c = row_workspaceId r
       \<and> col_archivedAt c = None \<and> grid_member (we_scope inp) (row_workspaceId r) m \<and> row_id r = we_rowId inp
       \<and> row_tableId r = gs_tableId (we_scope inp) \<and> row_workspaceId r = gs_workspaceId (we_scope inp)
       \<and> row_archivedAt r = None]"

definition write_scope :: "write_input \<Rightarrow> row_scope" where
  "write_scope inp = \<lparr>sc_rowId = we_rowId inp, sc_tableId = gs_tableId (we_scope inp),
     sc_workspaceId = gs_workspaceId (we_scope inp)\<rparr>"

definition edit_cell :: "host \<Rightarrow> int \<Rightarrow> cell_value \<Rightarrow> grid_cell \<Rightarrow> grid_cell" where
  "edit_cell h now v c = (set_cell h now v c)\<lparr>gc_status := Idle\<rparr>"

text \<open>The cell itself: inserted at version 0, otherwise updated at exactly the expected version.\<close>

definition put_cell :: "host \<Rightarrow> (nat \<Rightarrow> jsstr) \<Rightarrow> int \<Rightarrow> write_input \<Rightarrow> grid_db \<Rightarrow> grid_error + (grid_db \<times> grid_cell)" where
  "put_cell h uuid now inp db =
     (let s = write_scope inp; v = we_value inp
      in case first_row (select_where (\<lambda>c. gc_workspaceId c = sc_workspaceId s \<and> gc_tableId c = sc_tableId s
                \<and> gc_rowId c = sc_rowId s \<and> gc_columnId c = we_columnId inp) (g_cells db)) of
           None \<Rightarrow>
             if we_expectedVersion inp \<noteq> 0 then Inl GridConflict
             else (case new_uuid uuid db of
                     (cid, db1) \<Rightarrow>
                       let created = (new_cell h now s cid (we_columnId inp) v)\<lparr>gc_status := Idle\<rparr>
                       in if cid \<in> gc_id ` set (g_cells db1) \<or> cell_key created \<in> cell_key ` set (g_cells db1)
                          then Inl GridConstraint
                          else Inr (db1\<lparr>g_cells := g_cells db1 @ [created]\<rparr>, created))
         | Some existing \<Rightarrow>
             let owned = (\<lambda>c. gc_id c = gc_id existing \<and> gc_workspaceId c = sc_workspaceId s
                   \<and> int (gc_version c) = we_expectedVersion inp)
             in (case first_row (select_where owned (g_cells db)) of
                   None \<Rightarrow> Inl GridConflict
                 | Some x \<Rightarrow> Inr (db\<lparr>g_cells := update_where owned (edit_cell h now v) (g_cells db)\<rparr>,
                                  edit_cell h now v x)))"

text \<open>The dependent formulas and the mutation of the row.\<close>

definition settle_edit :: "host \<Rightarrow> (nat \<Rightarrow> jsstr) \<Rightarrow> int \<Rightarrow> row_scope \<Rightarrow> jsstr \<Rightarrow> grid_db \<Rightarrow> grid_error + grid_db" where
  "settle_edit h uuid now s columnId db =
     and_then (recomputeDependentSqliteFormulasForRow h uuid now s [columnId] db) (\<lambda>(db1, ids).
     and_then (recordSqliteRowMutationAndMaybeQueueSettlement h uuid now s (columnId # ids) db1) (\<lambda>(db2, _).
       Inr db2))"

definition writeSqliteGridCell :: "host \<Rightarrow> (nat \<Rightarrow> jsstr) \<Rightarrow> int \<Rightarrow> write_input \<Rightarrow> grid_db
    \<Rightarrow> grid_error + (grid_db \<times> grid_cell_view)" where
  "writeSqliteGridCell h uuid now inp db =
     (if \<not> editable_cell_value h (we_value inp) then Inl CellValueRejected
      else case write_target inp db of
             None \<Rightarrow> Inl GridAccess
           | Some (kind, t) \<Rightarrow>
               if kind \<noteq> Input_column then Inl GridValidation
               else if we_value inp \<noteq> CEmpty \<and> type_of (we_value inp) \<noteq> t then Inl GridValidation
               else and_then (put_cell h uuid now inp db) (\<lambda>(db1, written).
                    and_then (settle_edit h uuid now (write_scope inp) (we_columnId inp) db1) (\<lambda>db2.
                    and_then (toGridCell h written) (\<lambda>cell. Inr (db2, cell)))))"

section \<open>A written cell\<close>

text \<open>What storage makes of the value; only timestamps and JSON can come back in another form.\<close>

definition reads_back :: "host \<Rightarrow> cell_value \<Rightarrow> cell_value \<Rightarrow> bool" where
  "reads_back h v v' \<longleftrightarrow> deserializeSqliteCellValue h (serializeSqliteCellValue h v) = Some v' \<and> storable h v'
     \<and> has_type h v' (type_of v)"

lemma reads_back_plain:
  "reads_back h (CText s) (CText s)" "reads_back h CEmpty CEmpty" "reads_back h (CBoolean b) (CBoolean b)"
  by (simp_all add: reads_back_def deserializeSqliteCellValue_def no_value_def)

lemma unique_row: "distinct (map key rows) \<Longrightarrow> x \<in> set rows \<Longrightarrow> y \<in> set rows \<Longrightarrow> key x = key y \<Longrightarrow> x = y"
  by (auto simp: distinct_map dest: inj_onD)

lemma first_row_find: "first_row (select_where P rows) = find P rows"
  by (induction rows) (auto simp: first_row_def select_where_def)

lemma first_row_mem: "first_row rows = Some r \<Longrightarrow> r \<in> set rows"
  by (auto simp: first_row_def split: list.splits)

lemma set_write_target:
  assumes "write_target inp db = Some (k, t)"
  obtains r c where "r \<in> set (g_rows db)" "row_in_scope (write_scope inp) r" "row_archivedAt r = None" "c \<in> set (g_columns db)"
    "col_id c = we_columnId inp" "col_kind c = k" "col_valueType c = t"
  using first_row_mem [OF assms [unfolded write_target_def]]
  by (auto simp: row_in_scope_def write_scope_def)

text \<open>The search for the existing cell finds the cell of the row in the column.\<close>

lemma existing_cell:
  assumes ok: "grid_ok h db" and r: "r \<in> set (g_rows db)" "row_in_scope s r"
  shows "first_row (select_where (\<lambda>c. gc_workspaceId c = sc_workspaceId s \<and> gc_tableId c = sc_tableId s
      \<and> gc_rowId c = sc_rowId s \<and> gc_columnId c = f) (g_cells db)) = row_at cell_key (g_cells db) (sc_rowId s, f)"
    (is "first_row (select_where ?P _) = _")
proof -
  have "?P c \<longleftrightarrow> cell_key c = (sc_rowId s, f)" if c: "c \<in> set (g_cells db)" for c
  proof -
    obtain q where q: "q \<in> set (g_rows db)" "row_id q = gc_rowId c" "row_tableId q = gc_tableId c" "row_workspaceId q = gc_workspaceId c"
      using ok c by (auto simp: grid_ok_def cells_ok_def cell_ok_def)
    have "q = r" if g: "gc_rowId c = sc_rowId s"
      by (rule unique_row [of row_id "g_rows db"]) (use ok q r g in \<open>simp_all add: grid_ok_def row_in_scope_def\<close>)
    then show ?thesis using q r(2) by (auto simp: cell_key_def row_in_scope_def)
  qed
  then show ?thesis unfolding first_row_find row_at_def by (intro find_cong) auto
qed

lemma fresh_ids_step:
  assumes "fresh_ids uuid db" and "g_columns db1 = g_columns db"
    and "gc_id ` set (g_cells db1) \<subseteq> insert (uuid (g_fresh db)) (gc_id ` set (g_cells db))"
    and "g_fresh db1 = Suc (g_fresh db)"
  shows "fresh_ids uuid db1"
proof -
  have inj: "inj uuid" using assms(1) by (simp add: fresh_ids_def)
  have "uuid n \<notin> gc_id ` set (g_cells db1) \<union> col_id ` set (g_columns db1)" if n: "g_fresh db1 \<le> n" for n
  proof -
    have "uuid n \<noteq> uuid (g_fresh db)" using assms(4) n by (simp add: inj_eq [OF inj])
    moreover have "g_fresh db \<le> n" using assms(4) n by simp
    then have "uuid n \<notin> gc_id ` set (g_cells db) \<union> col_id ` set (g_columns db)"
      using assms(1) unfolding fresh_ids_def by blast
    ultimately show ?thesis
      using subsetD [OF assms(3), of "uuid n"] unfolding assms(2) Un_iff insert_iff by meson
  qed
  then show ?thesis using inj by (simp add: fresh_ids_def)
qed

definition cell_written :: "host \<Rightarrow> (nat \<Rightarrow> jsstr) \<Rightarrow> write_input \<Rightarrow> cell_value \<Rightarrow> grid_db \<Rightarrow> grid_db \<Rightarrow> grid_cell \<Rightarrow> bool" where
  "cell_written h uuid inp v' db db1 x \<longleftrightarrow> cells_only db1 db \<and> cells_ok h db1 \<and> fresh_ids uuid db1 \<and> x \<in> set (g_cells db1)
     \<and> cell_key x = (we_rowId inp, we_columnId inp) \<and> deserializeSqliteCellValue h (gc_value x) = Some v'
     \<and> int (gc_version x) = we_expectedVersion inp + 1
     \<and> (\<forall>q c. value_at h db1 q c = (if (q, c) = (we_rowId inp, we_columnId inp) then Some v' else value_at h db q c))"

lemma put_new_cell:
  assumes ok: "grid_ok h db" and fresh: "fresh_ids uuid db" and r: "r \<in> set (g_rows db)" "row_in_scope (write_scope inp) r"
    and v: "reads_back h (we_value inp) v'" "column_type db (we_columnId inp) = Some t" "has_type h v' t"
    and put: "put_cell h uuid now inp db = Inr (db1, x)"
    and none: "row_at cell_key (g_cells db) (sc_rowId (write_scope inp), we_columnId inp) = None"
  shows "cell_written h uuid inp v' db db1 x"
proof -
  let ?s = "write_scope inp" and ?f = "we_columnId inp" and ?v = "we_value inp" and ?cid = "uuid (g_fresh db)"
  have cells: "cells_ok h db" using ok by (simp add: grid_ok_def)
  have rb: "deserializeSqliteCellValue h (serializeSqliteCellValue h ?v) = Some v'" "storable h v'"
    using v(1) by (simp_all add: reads_back_def)
  have x: "x = (new_cell h now ?s ?cid ?f ?v)\<lparr>gc_status := Idle\<rparr>" "we_expectedVersion inp = 0"
    "?cid \<notin> gc_id ` set (g_cells db)"
    and db1: "db1 = db\<lparr>g_fresh := Suc (g_fresh db), g_cells := g_cells db @ [x]\<rparr>"
    using put unfolding put_cell_def Let_def existing_cell [OF ok r] none option.case
    by (auto simp: new_uuid_def split: if_splits)
  have upd: "g_cells db1 = g_cells db @ [x]" "g_columns db1 = g_columns db" "g_rows db1 = g_rows db"
    by (simp_all add: db1)
  have xk: "cell_key x = (sc_rowId ?s, ?f)" "gc_id x = ?cid" "gc_tableId x = sc_tableId ?s" "gc_workspaceId x = sc_workspaceId ?s"
    "deserializeSqliteCellValue h (gc_value x) = Some v'" "gc_version x = 1"
    using rb by (simp_all add: x(1) cell_key_def new_cell_def)
  have q: "row_id r = sc_rowId ?s" "row_tableId r = gc_tableId x" "row_workspaceId r = gc_workspaceId x"
    using r xk by (simp_all add: row_in_scope_def)
  have idx: "gc_id x \<notin> gc_id ` set (g_cells db)" using xk x by simp
  note w = cells_ok_insert [OF cells none xk(1) idx xk(5) rb(2) v(2,3) r(1) q upd]
  have "fresh_ids uuid db1"
    by (rule fresh_ids_step [OF fresh]) (use xk in \<open>auto simp: upd\<close>, simp add: db1)
  moreover have "cells_only db1 db" by (simp add: db1 cells_only_update)
  ultimately show ?thesis using w xk x(2) upd by (simp add: cell_written_def write_scope_def)
qed

lemma put_old_cell:
  assumes ok: "grid_ok h db" and fresh: "fresh_ids uuid db" and r: "r \<in> set (g_rows db)" "row_in_scope (write_scope inp) r"
    and v: "reads_back h (we_value inp) v'" "column_type db (we_columnId inp) = Some t" "has_type h v' t"
    and put: "put_cell h uuid now inp db = Inr (db1, x)"
    and old: "row_at cell_key (g_cells db) (sc_rowId (write_scope inp), we_columnId inp) = Some y"
  shows "cell_written h uuid inp v' db db1 x"
proof -
  let ?s = "write_scope inp" and ?f = "we_columnId inp" and ?g = "edit_cell h now (we_value inp)"
  let ?P = "\<lambda>c. gc_id c = gc_id y \<and> gc_workspaceId c = sc_workspaceId ?s \<and> int (gc_version c) = we_expectedVersion inp"
  have cells: "cells_ok h db" using ok by (simp add: grid_ok_def)
  have rb: "deserializeSqliteCellValue h (serializeSqliteCellValue h (we_value inp)) = Some v'" "storable h v'"
    using v(1) by (simp_all add: reads_back_def)
  obtain z where z: "first_row (select_where ?P (g_cells db)) = Some z" "x = ?g z"
    and db1: "db1 = db\<lparr>g_cells := update_where ?P ?g (g_cells db)\<rparr>"
    using put unfolding put_cell_def Let_def existing_cell [OF ok r] old option.case
    by (auto split: option.splits)
  have zP: "z \<in> set (g_cells db)" "?P z" using first_row_mem [OF z(1)] by (auto simp: select_where_def)
  have zy: "z = y" using only_cell [OF cells old zP(1)] zP(2) by simp
  have P: "?P c \<longleftrightarrow> c = y" if "c \<in> set (g_cells db)" for c
    using only_cell [OF cells old that] zP(2) zy by auto
  have g: "gc_id (?g c) = gc_id c \<and> cell_key (?g c) = cell_key c \<and> gc_tableId (?g c) = gc_tableId c
      \<and> gc_workspaceId (?g c) = gc_workspaceId c" for c
    by (simp add: edit_cell_def set_cell_def cell_key_def)
  have gv: "deserializeSqliteCellValue h (gc_value (?g y)) = Some v'"
    using rb by (simp add: edit_cell_def set_cell_def)
  note w = cells_ok_update [OF cells old P g gv rb(2) v(2,3) db1]
  have fr: "fresh_ids uuid db1"
    using fresh arg_cong [OF w(2), of set] by (simp add: fresh_ids_def) (simp add: db1)
  have "cells_only db1 db" by (simp add: db1 cells_only_update)
  moreover have "x \<in> set (g_cells db1)" using zP z(2) by (auto simp: db1 set_update_where)
  moreover have "cell_key x = (sc_rowId ?s, ?f)" using g z(2) zy row_at_Some [OF old] by simp
  moreover have "int (gc_version x) = we_expectedVersion inp + 1" using zP z(2) by (simp add: edit_cell_def set_cell_def)
  ultimately show ?thesis using w(1,4) fr gv z(2) zy by (simp add: cell_written_def write_scope_def)
qed

lemma put_cell_written:
  assumes "grid_ok h db" and "fresh_ids uuid db" and "r \<in> set (g_rows db)" "row_in_scope (write_scope inp) r"
    and "reads_back h (we_value inp) v'" "column_type db (we_columnId inp) = Some t" "has_type h v' t"
    and "put_cell h uuid now inp db = Inr (db1, x)"
  shows "cell_written h uuid inp v' db db1 x"
  using put_new_cell [OF assms] put_old_cell [OF assms]
  by (cases "row_at cell_key (g_cells db) (sc_rowId (write_scope inp), we_columnId inp)")

section \<open>A written cell and the formulas of its row\<close>

lemma settle_edit_current:
  assumes ok: "grid_ok h db" and fresh: "fresh_ids uuid db" and r: "r \<in> set (g_rows db)" "row_in_scope s r"
    and stale: "\<forall>c \<in> set (active_formulas (sc_tableId s) (sc_workspaceId s) db).
      \<not> depends_on_changed s db [f] (col_id c) \<longrightarrow> formula_current h db (sc_rowId s) c"
    and settle: "settle_edit h uuid now s f db = Inr db'"
  shows "grid_ok h db' \<and> fresh_ids uuid db' \<and> same_schema db' db \<and> same_inputs (sc_rowId s) db' db
    \<and> (\<forall>c \<in> set (active_formulas (sc_tableId s) (sc_workspaceId s) db). formula_current h db' (sc_rowId s) c)"
proof -
  obtain db1 ids where rec: "recomputeDependentSqliteFormulasForRow h uuid now s [f] db = Inr (db1, ids)"
    and one: "grid_ok h db1" "cells_only db1 db" "fresh_ids uuid db1"
      "\<forall>c \<in> set (active_formulas (sc_tableId s) (sc_workspaceId s) db). formula_current h db1 (sc_rowId s) c"
      "same_inputs (sc_rowId s) db1 db"
    by (rule recompute_current [OF ok fresh r stale])
  obtain v sid where "recordSqliteRowMutationAndMaybeQueueSettlement h uuid now s (f # ids) db1 = Inr (db', v, sid)"
    using settle rec by (auto simp: settle_edit_def and_then_eq_Inr)
  then have ro: "rows_only db' db1" by (rule record_rows_only)
  note fr = cells_only_frame [OF one(2)]
  have "same_schema db' db" "g_cells db' = g_cells db1" using ro fr by (simp_all add: same_schema_def rows_only_def)
  then show ?thesis
    using one rows_only_current [OF ro] rows_only_grid_ok [OF ro one(1)] rows_only_fresh [OF ro one(3)]
    by (simp add: same_inputs_def)
qed

lemma write_cell_parts:
  assumes "writeSqliteGridCell h uuid now inp db = Inr (db', cell)"
  obtains t db1 x where "editable_cell_value h (we_value inp)" and "write_target inp db = Some (Input_column, t)"
    and "we_value inp = CEmpty \<or> type_of (we_value inp) = t" and "put_cell h uuid now inp db = Inr (db1, x)"
    and "settle_edit h uuid now (write_scope inp) (we_columnId inp) db1 = Inr db'" and "toGridCell h x = Inr cell"
  using assms by (auto simp: writeSqliteGridCell_def and_then_eq_Inr split: if_splits option.splits)

text \<open>The formulas of the row that do not read the written column stay current.\<close>

lemma written_stale:
  assumes ok: "grid_ok h db" and c: "c \<in> set (active_formulas (sc_tableId s) (sc_workspaceId s) db)"
    and cur: "formula_current h db q c" and f: "\<not> formula_column_id db f"
    and d: "\<not> depends_on_changed s db [f] (col_id c)"
    and val: "\<And>c. c \<noteq> f \<Longrightarrow> value_at h db1 q c = value_at h db q c"
  shows "formula_current h db1 q c"
proof -
  obtain e where e: "formula_of h c = Some e"
    "\<forall>d \<in> set (collectFormulaColumnIds e). (d, col_id c) \<in> dep_rel (table_dependencies (sc_tableId s) (sc_workspaceId s) db)"
    by (rule formula_reads [OF ok c])
  have same: "value_of h db1 q k = value_of h db q k" if "k \<noteq> f" for k
    using val [OF that] by (simp add: value_of_def deref_def)
  have "f \<notin> set (collectFormulaColumnIds e)" using e(2) d by (auto simp: depends_on_changed_def)
  then have "eval_on h e (value_of h db1 q) = eval_on h e (value_of h db q)"
    by (intro eval_on_cong) (auto intro: same)
  moreover have "col_id c \<noteq> f" using c f by (auto simp: set_active_formulas formula_column_id_def)
  ultimately show ?thesis using cur e(1) same by (simp add: formula_current_def)
qed

definition edited :: "host \<Rightarrow> (nat \<Rightarrow> jsstr) \<Rightarrow> write_input \<Rightarrow> cell_value \<Rightarrow> grid_db \<Rightarrow> grid_db \<Rightarrow> grid_cell \<Rightarrow> bool" where
  "edited h uuid inp v' db db' x \<longleftrightarrow> grid_ok h db' \<and> fresh_ids uuid db' \<and> same_schema db' db
     \<and> (\<forall>c \<in> set (active_formulas (gs_tableId (we_scope inp)) (gs_workspaceId (we_scope inp)) db).
          formula_current h db' (we_rowId inp) c)
     \<and> row_at cell_key (g_cells db') (we_rowId inp, we_columnId inp) = Some x
     \<and> deserializeSqliteCellValue h (gc_value x) = Some v' \<and> int (gc_version x) = we_expectedVersion inp + 1
     \<and> (\<forall>q c. q \<noteq> we_rowId inp \<or> c \<noteq> we_columnId inp \<and> \<not> formula_column_id db c \<longrightarrow>
          value_at h db' q c = value_at h db q c)"

lemma write_cell_edited:
  assumes ok: "grid_ok h db" and fresh: "fresh_ids uuid db" and rb: "reads_back h (we_value inp) v'"
    and cur: "\<forall>c \<in> set (active_formulas (gs_tableId (we_scope inp)) (gs_workspaceId (we_scope inp)) db).
      formula_current h db (we_rowId inp) c"
    and w: "writeSqliteGridCell h uuid now inp db = Inr (db', cell)"
  obtains x where "edited h uuid inp v' db db' x" and "toGridCell h x = Inr cell"
proof -
  let ?s = "write_scope inp" and ?f = "we_columnId inp" and ?q = "we_rowId inp"
  have s: "sc_rowId ?s = ?q" "sc_tableId ?s = gs_tableId (we_scope inp)" "sc_workspaceId ?s = gs_workspaceId (we_scope inp)"
    by (simp_all add: write_scope_def)
  obtain t db1 x where tgt: "write_target inp db = Some (Input_column, t)"
    and ty: "we_value inp = CEmpty \<or> type_of (we_value inp) = t" and put: "put_cell h uuid now inp db = Inr (db1, x)"
    and settle: "settle_edit h uuid now ?s ?f db1 = Inr db'" and cell: "toGridCell h x = Inr cell"
    by (rule write_cell_parts [OF w])
  obtain r c where r: "r \<in> set (g_rows db)" "row_in_scope ?s r" and c: "c \<in> set (g_columns db)" "col_id c = ?f"
    "col_kind c = Input_column" "col_valueType c = t"
    by (rule set_write_target [OF tgt])
  have dc: "distinct (map col_id (g_columns db))" using ok by (simp add: grid_ok_def)
  have ct: "column_type db ?f = Some t" using row_at_mem [OF dc c(1)] c by (simp add: column_type_def)
  have vt: "has_type h v' t" using rb ty by (auto simp: reads_back_def has_type_def)
  have nf: "\<not> formula_column_id db ?f"
  proof
    assume "formula_column_id db ?f"
    then obtain c' where c': "c' \<in> set (g_columns db)" "col_id c' = ?f" "col_kind c' = Formula_column"
      by (auto simp: formula_column_id_def)
    then have "c' = c" using unique_row [OF dc c'(1) c(1)] c(2) by simp
    then show False using c'(3) c(3) by simp
  qed
  have one: "cell_written h uuid inp v' db db1 x" by (rule put_cell_written [OF ok fresh r rb ct vt put])
  then have co: "cells_only db1 db" by (simp add: cell_written_def)
  note fr = cells_only_frame [OF co]
  have ok1: "grid_ok h db1" by (rule grid_ok_cells [OF co _ ok]) (use one in \<open>simp add: cell_written_def\<close>)
  have act: "active_formulas u v db1 = active_formulas u v db" for u v by (simp add: active_formulas_def table_columns_def fr)
  have dep: "depends_on_changed ?s db1 ch k = depends_on_changed ?s db ch k" for ch k
    by (simp add: depends_on_changed_def table_dependencies_def fr)
  have fc: "formula_column_id db1 = formula_column_id db" by (simp add: formula_column_id_def fr fun_eq_iff)
  have stale: "\<forall>c \<in> set (active_formulas (sc_tableId ?s) (sc_workspaceId ?s) db1).
      \<not> depends_on_changed ?s db1 [?f] (col_id c) \<longrightarrow> formula_current h db1 (sc_rowId ?s) c"
    unfolding act dep
    by (intro ballI impI, rule written_stale [OF ok _ _ nf])
      (use cur one in \<open>auto simp: s cell_written_def\<close>)
  have r1: "r \<in> set (g_rows db1)" using r fr by simp
  have fr1: "fresh_ids uuid db1" using one by (simp add: cell_written_def)
  note two = settle_edit_current [OF ok1 fr1 r1 r(2) stale settle]
  have si: "same_inputs ?q db' db1" using two s by simp
  have "cell_key x = (?q, ?f)" "x \<in> set (g_cells db1)" "distinct (map cell_key (g_cells db1))"
    using one by (simp_all add: cell_written_def cells_ok_def)
  then have "row_at cell_key (g_cells db1) (?q, ?f) = Some x" using row_at_mem [of cell_key] by metis
  then have x: "row_at cell_key (g_cells db') (?q, ?f) = Some x"
    using si nf by (simp add: same_inputs_def fc)
  have "value_at h db' q c = value_at h db q c" if "q \<noteq> ?q \<or> c \<noteq> ?f \<and> \<not> formula_column_id db c" for q c
    using same_inputs_value [OF si] that one by (auto simp: fc cell_written_def)
  moreover have "same_schema db' db" using two fr by (simp add: same_schema_def)
  ultimately have "edited h uuid inp v' db db' x"
    using two x one by (simp add: edited_def s act cell_written_def)
  then show ?thesis using that cell by blast
qed

section \<open>A new row\<close>

lemma row_created:
  assumes ok: "grid_ok h db" and fresh: "fresh_ids uuid db" and c: "createSqliteGridRow uuid now sc db = Inr (db', row)"
  shows "grid_ok h db'" and "fresh_ids uuid db'" and "g_rows db' = g_rows db @ [row]" and "g_columns db' = g_columns db"
    and "g_cells db' = g_cells db" and "row_id row \<notin> row_id ` set (g_rows db)" and "row_archivedAt row = None"
    and "row_tableId row = gs_tableId sc" and "row_workspaceId row = gs_workspaceId sc"
    and "value_of h db' (row_id row) = (\<lambda>_. CEmpty)"
proof -
  have row: "row_id row \<notin> row_id ` set (g_rows db)" "row_archivedAt row = None" "row_tableId row = gs_tableId sc"
    "row_workspaceId row = gs_workspaceId sc"
    and db': "db' = db\<lparr>g_fresh := Suc (Suc (g_fresh db)), g_rows := g_rows db @ [row]\<rparr>"
    using c by (auto simp: createSqliteGridRow_def and_then_eq_Inr new_uuid_def Let_def split: if_splits)
  have f: "g_rows db' = g_rows db @ [row]" "g_columns db' = g_columns db" "g_cells db' = g_cells db"
    "g_dependencies db' = g_dependencies db" by (simp_all add: db')
  have ct: "column_type db' = column_type db" by (simp add: column_type_def f fun_eq_iff)
  have "cell_ok h db' c" if "cell_ok h db c" for c using that unfolding cell_ok_def ct f by auto
  then have "cells_ok h db'" using ok by (simp add: grid_ok_def cells_ok_def f)
  moreover have "formula_ok h db' c = formula_ok h db c" for c by (simp add: formula_ok_def ct table_dependencies_def f)
  ultimately show "grid_ok h db'" using ok row(1) by (simp add: grid_ok_def f)
  show "fresh_ids uuid db'" using fresh by (simp add: fresh_ids_def db')
  have nc: "gc_rowId x \<noteq> row_id row" if x: "x \<in> set (g_cells db)" for x
  proof -
    have "cell_ok h db x" using ok x by (simp add: grid_ok_def cells_ok_def)
    then obtain q where "q \<in> set (g_rows db)" "row_id q = gc_rowId x" by (auto simp: cell_ok_def)
    then show ?thesis using row(1) by (metis imageI)
  qed
  then have "row_at cell_key (g_cells db) (row_id row, c) = None" for c
    using nc by (auto simp: row_at_None cell_key_def) metis
  then show "value_of h db' (row_id row) = (\<lambda>_. CEmpty)"
    by (simp add: value_of_def deref_def value_at_def f fun_eq_iff)
  show "g_rows db' = g_rows db @ [row]" "g_columns db' = g_columns db" "g_cells db' = g_cells db"
    "row_id row \<notin> row_id ` set (g_rows db)" "row_archivedAt row = None"
    "row_tableId row = gs_tableId sc" "row_workspaceId row = gs_workspaceId sc"
    using row f by simp_all
qed

section \<open>Current grids\<close>

definition current_row :: "host \<Rightarrow> grid_db \<Rightarrow> grid_row \<Rightarrow> bool" where
  "current_row h db r \<longleftrightarrow>
     (\<forall>c \<in> set (active_formulas (row_tableId r) (row_workspaceId r) db). formula_current h db (row_id r) c)"

definition all_current :: "host \<Rightarrow> grid_db \<Rightarrow> bool" where
  "all_current h db \<longleftrightarrow> (\<forall>r \<in> set (g_rows db). row_archivedAt r = None \<longrightarrow> current_row h db r)"

text \<open>A formula that is empty on a row without cells.\<close>

definition blank_formula :: "host \<Rightarrow> column_row \<Rightarrow> bool" where
  "blank_formula h c \<longleftrightarrow> (\<forall>e. formula_of h c = Some e \<longrightarrow> eval_on h e (\<lambda>_. CEmpty) = CEmpty)"

definition blank_formulas :: "host \<Rightarrow> grid_db \<Rightarrow> bool" where
  "blank_formulas h db \<longleftrightarrow> (\<forall>c \<in> set (g_columns db). col_kind c = Formula_column \<and> col_archivedAt c = None \<longrightarrow> blank_formula h c)"

lemma all_current_via:
  assumes "map row_signature (g_rows db') = map row_signature (g_rows db)"
    and "\<And>r c. r \<in> set (g_rows db) \<Longrightarrow> row_archivedAt r = None \<Longrightarrow>
      c \<in> set (active_formulas (row_tableId r) (row_workspaceId r) db') \<Longrightarrow> formula_current h db' (row_id r) c"
  shows "all_current h db'"
  unfolding all_current_def current_row_def
proof (intro ballI impI)
  fix r c
  assume r: "r \<in> set (g_rows db')" "row_archivedAt r = None"
    and c: "c \<in> set (active_formulas (row_tableId r) (row_workspaceId r) db')"
  have "row_signature r \<in> set (map row_signature (g_rows db))" using r(1) assms(1) by (metis image_eqI list.set_map)
  then obtain q where "q \<in> set (g_rows db)" "row_signature q = row_signature r" by auto
  then show "formula_current h db' (row_id r) c" using assms(2) [of q c] r c by (simp add: row_signature_def)
qed

lemma write_keeps_current:
  assumes ok: "grid_ok h db" and fresh: "fresh_ids uuid db" and cur: "all_current h db"
    and rb: "reads_back h (we_value inp) v'" and w: "writeSqliteGridCell h uuid now inp db = Inr (db', cell)"
  shows "grid_ok h db' \<and> fresh_ids uuid db' \<and> all_current h db' \<and> g_columns db' = g_columns db"
proof -
  let ?t = "gs_tableId (we_scope inp)" and ?w = "gs_workspaceId (we_scope inp)" and ?q = "we_rowId inp"
  obtain t db1 x where tgt: "write_target inp db = Some (Input_column, t)" by (rule write_cell_parts [OF w])
  obtain r c where r: "r \<in> set (g_rows db)" "row_in_scope (write_scope inp) r" "row_archivedAt r = None"
    by (rule set_write_target [OF tgt])
  have r': "row_id r = ?q" "row_tableId r = ?t" "row_workspaceId r = ?w" using r(2) by (simp_all add: row_in_scope_def write_scope_def)
  have "current_row h db r" using cur r by (simp add: all_current_def)
  then have "\<forall>c \<in> set (active_formulas ?t ?w db). formula_current h db ?q c" by (simp add: current_row_def r')
  then obtain x where e: "edited h uuid inp v' db db' x" by (rule write_cell_edited [OF ok fresh rb _ w])
  then have sch: "same_schema db' db" by (simp add: edited_def)
  have "formula_current h db' (row_id q) c" if q: "q \<in> set (g_rows db)" "row_archivedAt q = None"
    and c: "c \<in> set (active_formulas (row_tableId q) (row_workspaceId q) db')" for q c
  proof (cases "row_id q = ?q")
    case True
    have "q = r" by (rule unique_row [of row_id "g_rows db"]) (use ok q r r' True in \<open>simp_all add: grid_ok_def\<close>)
    then show ?thesis using e c r' by (simp add: edited_def same_schema_active [OF sch])
  next
    case False
    then have "formula_current h db' (row_id q) c = formula_current h db (row_id q) c"
      using e by (intro formula_current_cong) (simp add: edited_def)
    then show ?thesis using cur q c by (simp add: all_current_def current_row_def same_schema_active [OF sch])
  qed
  then have "all_current h db'" using sch by (intro all_current_via) (simp_all add: same_schema_def)
  then show ?thesis using e sch by (simp add: edited_def same_schema_def)
qed

lemma formula_keeps_current:
  assumes ok: "grid_ok h db" and fresh: "fresh_ids uuid db" and cur: "all_current h db" and blank: "blank_formulas h db"
    and c: "createSqliteFormulaColumn h uuid now inp db = Inr (db', created)"
    and e: "requested_expression h inp (available_columns inp db) = Inr e" "number_literals_ok e" "literals_storable h e"
      "eval_on h e (\<lambda>_. CEmpty) = CEmpty"
  shows "grid_ok h db' \<and> fresh_ids uuid db' \<and> all_current h db' \<and> blank_formulas h db'"
proof -
  let ?t = "cf_tableId inp" and ?w = "cf_workspaceId inp"
  have "formula_current h db (row_id r) f" if "r \<in> set (active_rows ?t ?w db)" "f \<in> set (active_formulas ?t ?w db)" for r f
    using cur that by (auto simp: all_current_def current_row_def active_rows_def select_where_def)
  note n = formula_created [OF ok fresh c e(1-3) this]
  have cols: "g_columns db' = g_columns db @ [created]" and fo: "formula_of h created = Some e"
    and tw: "col_tableId created = ?t" "col_workspaceId created = ?w" using n by simp_all
  have act: "set (active_formulas u v db') \<subseteq> (if u = ?t \<and> v = ?w then insert created (set (active_formulas u v db))
      else set (active_formulas u v db))" for u v
    by (auto simp: active_formulas_def table_columns_def select_where_def cols tw)
  have "formula_current h db' (row_id q) f" if q: "q \<in> set (g_rows db)" "row_archivedAt q = None"
    and f: "f \<in> set (active_formulas (row_tableId q) (row_workspaceId q) db')" for q f
  proof (cases "row_tableId q = ?t \<and> row_workspaceId q = ?w")
    case True
    then have "q \<in> set (active_rows ?t ?w db)" using q by (simp add: active_rows_def select_where_def)
    then show ?thesis using n f act [of ?t ?w] True by auto
  next
    case False
    have "row_id q \<notin> row_id ` set (active_rows ?t ?w db)"
    proof
      assume "row_id q \<in> row_id ` set (active_rows ?t ?w db)"
      then obtain x where x: "x \<in> set (g_rows db)" "row_id x = row_id q" "row_tableId x = ?t" "row_workspaceId x = ?w"
        by (auto simp: active_rows_def select_where_def)
      have "x = q" by (rule unique_row [of row_id "g_rows db"]) (use ok x(1,2) q(1) in \<open>simp_all add: grid_ok_def\<close>)
      then show False using False x by simp
    qed
    then have "formula_current h db' (row_id q) f = formula_current h db (row_id q) f" using n by blast
    moreover have "f \<in> set (active_formulas (row_tableId q) (row_workspaceId q) db)"
      using f act [of "row_tableId q" "row_workspaceId q"] False by auto
    ultimately show ?thesis using cur q by (simp add: all_current_def current_row_def)
  qed
  then have "all_current h db'" using n by (intro all_current_via) simp_all
  moreover have "blank_formulas h db'" using blank fo e(4) by (simp add: blank_formulas_def cols) (simp add: blank_formula_def)
  ultimately show ?thesis using n by simp
qed

section \<open>Reading back\<close>

lemma map_of_map_from_rev: "map_of (map_from es) k = map_of (rev es) k"
proof -
  have "map_of (fold (\<lambda>(k, v) m. AList.update k v m) es m) k = (map_of m ++ map_of (rev es)) k" for m
    by (induction es arbitrary: m) (auto simp: update_conv' map_add_def split: option.splits)
  then show ?thesis by (simp add: map_from_def)
qed

lemma map_from_one:
  assumes "(k, v) \<in> set es" and "\<And>u. (k, u) \<in> set es \<Longrightarrow> u = v"
  shows "map_of (map_from es) k = Some v"
proof -
  have "k \<in> fst ` set (rev es)" using assms(1) by force
  then obtain u where u: "map_of (rev es) k = Some u" by (metis domIff dom_map_of_conv_image_fst not_None_eq)
  then have "u = v" using assms(2) map_of_SomeD [OF u] by simp
  then show ?thesis using u by (simp add: map_of_map_from_rev)
qed

lemma map_result_ex: "(\<And>x. x \<in> set xs \<Longrightarrow> \<exists>y. g x = Inr y) \<Longrightarrow> \<exists>ys. map_result g xs = Inr ys"
  by (induction xs) fastforce+

lemma map_result_mem: "map_result g xs = Inr ys \<Longrightarrow> x \<in> set xs \<Longrightarrow> \<exists>y \<in> set ys. g x = Inr y"
  by (induction xs arbitrary: ys) (auto simp: and_then_eq_Inr)

lemma map_result_from: "map_result g xs = Inr ys \<Longrightarrow> y \<in> set ys \<Longrightarrow> \<exists>x \<in> set xs. g x = Inr y"
  by (induction xs arbitrary: ys) (auto simp: and_then_eq_Inr)

lemma toGridCell_ok:
  assumes "cells_ok h db" and "x \<in> set (g_cells db)"
  shows "\<exists>v. toGridCell h x = Inr v"
  using assms by (auto simp: toGridCell_def cells_ok_def cell_ok_def)

lemma get_row:
  assumes ok: "grid_ok h db" and t: "requireTableAccess sc db = Inr tbl"
    and r: "r \<in> set (g_rows db)" "row_tableId r = gs_tableId sc" "row_workspaceId r = gs_workspaceId sc" "row_archivedAt r = None"
    and x: "row_at cell_key (g_cells db) (row_id r, f) = Some x"
    and c: "c \<in> set (g_columns db)" "col_id c = f" "col_tableId c = gs_tableId sc" "col_workspaceId c = gs_workspaceId sc"
      "col_archivedAt c = None"
    and v: "toGridCell h x = Inr v"
  shows "\<exists>q cs. getSqliteGridRow h sc (row_id r) db = Inr (q, cs) \<and> map_of cs f = Some v"
proof -
  have cells: "cells_ok h db" using ok by (simp add: grid_ok_def)
  obtain m where m: "m \<in> set (g_members db)" "grid_member sc (gs_workspaceId sc) m"
    using t by (auto simp: requireTableAccess_def split: option.splits dest!: first_row_mem)
  let ?rs = "[q. q \<leftarrow> g_rows db, m \<leftarrow> g_members db, grid_member sc (row_workspaceId q) m \<and> row_id q = row_id r
      \<and> row_tableId q = gs_tableId sc \<and> row_workspaceId q = gs_workspaceId sc \<and> row_archivedAt q = None]"
  have "r \<in> set ?rs" using r m by auto
  then obtain q where q: "first_row ?rs = Some q" by (cases ?rs) (auto simp: first_row_def)
  let ?xs = "visible_cells sc (row_id r) db" and ?g = "\<lambda>x. and_then (toGridCell h x) (\<lambda>v. Inr (gc_columnId x, v))"
  have mem: "y \<in> set (g_cells db) \<and> gc_rowId y = row_id r" if "y \<in> set ?xs" for y
    using that by (auto simp: visible_cells_def row_cells_def select_where_def)
  have "\<exists>cs. map_result ?g ?xs = Inr cs"
    by (rule map_result_ex) (use toGridCell_ok [OF cells] mem in \<open>fastforce simp: and_then_eq_Inr\<close>)
  then obtain cs where cs: "map_result ?g ?xs = Inr cs" by blast
  have xm: "x \<in> set (g_cells db)" "gc_rowId x = row_id r" "gc_columnId x = f" using row_at_Some [OF x] by (auto simp: cell_key_def)
  have xs: "x \<in> set ?xs"
  proof -
    have "cell_ok h db x" using cells xm(1) by (simp add: cells_ok_def)
    then obtain p where p: "p \<in> set (g_rows db)" "row_id p = gc_rowId x" "row_tableId p = gc_tableId x" "row_workspaceId p = gc_workspaceId x"
      by (auto simp: cell_ok_def)
    have "p = r" by (rule unique_row [of row_id "g_rows db"]) (use ok p r xm in \<open>simp_all add: grid_ok_def\<close>)
    then show ?thesis using xm p r c m by (auto simp: visible_cells_def row_cells_def select_where_def)
  qed
  have one: "y = x" if "y \<in> set ?xs" "gc_columnId y = f" for y
    by (rule unique_row [of cell_key "g_cells db"])
      (use cells mem [OF that(1)] that(2) xm in \<open>simp_all add: cells_ok_def cell_key_def\<close>)
  have "(f, v) \<in> set cs" using map_result_mem [OF cs xs] v xm by (auto simp: and_then_eq_Inr)
  moreover have "u = v" if "(f, u) \<in> set cs" for u
    using map_result_from [OF cs that] one v by (auto simp: and_then_eq_Inr)
  ultimately have "map_of (map_from cs) f = Some v" by (rule map_from_one)
  moreover have "getSqliteGridRow h sc (row_id r) db = Inr (q, map_from cs)"
    using t q cs by (simp add: getSqliteGridRow_def)
  ultimately show ?thesis by (intro exI conjI)
qed

lemma stale_write_refused:
  assumes ok: "grid_ok h db" and x: "row_at cell_key (g_cells db) (we_rowId inp, we_columnId inp) = Some x"
    and v: "int (gc_version x) \<noteq> we_expectedVersion inp"
  shows "writeSqliteGridCell h uuid now inp db \<noteq> Inr p"
proof
  let ?s = "write_scope inp"
  assume "writeSqliteGridCell h uuid now inp db = Inr p"
  then obtain t db1 y where tgt: "write_target inp db = Some (Input_column, t)" and put: "put_cell h uuid now inp db = Inr (db1, y)"
    using write_cell_parts by (metis surj_pair)
  obtain r where r: "r \<in> set (g_rows db)" "row_in_scope ?s r" using set_write_target [OF tgt] by metis
  have x': "row_at cell_key (g_cells db) (sc_rowId ?s, we_columnId inp) = Some x" using x by (simp add: write_scope_def)
  have cells: "cells_ok h db" using ok by (simp add: grid_ok_def)
  obtain z where z: "first_row (select_where (\<lambda>c. gc_id c = gc_id x \<and> gc_workspaceId c = sc_workspaceId ?s
      \<and> int (gc_version c) = we_expectedVersion inp) (g_cells db)) = Some z"
    using put unfolding put_cell_def Let_def existing_cell [OF ok r] x' option.case
    by (auto split: option.splits)
  then have "z \<in> set (g_cells db)" "gc_id z = gc_id x" "int (gc_version z) = we_expectedVersion inp"
    using first_row_mem [OF z] by (auto simp: select_where_def)
  then show False using only_cell [OF cells x] v by auto
qed

lemma write_signatures:
  assumes w: "writeSqliteGridCell h uuid now inp db = Inr (db', cell)" and sch: "same_schema db' db"
  obtains r c where "r \<in> set (g_rows db')" "row_id r = we_rowId inp" "row_tableId r = gs_tableId (we_scope inp)"
    "row_workspaceId r = gs_workspaceId (we_scope inp)" "row_archivedAt r = None"
    "c \<in> set (g_columns db')" "col_id c = we_columnId inp" "col_tableId c = gs_tableId (we_scope inp)"
    "col_workspaceId c = gs_workspaceId (we_scope inp)" "col_archivedAt c = None"
proof -
  obtain t where tgt: "write_target inp db = Some (Input_column, t)" by (rule write_cell_parts [OF w])
  obtain r c where rc: "r \<in> set (g_rows db)" "row_id r = we_rowId inp" "row_tableId r = gs_tableId (we_scope inp)"
    "row_workspaceId r = gs_workspaceId (we_scope inp)" "row_archivedAt r = None"
    "c \<in> set (g_columns db)" "col_id c = we_columnId inp" "col_tableId c = gs_tableId (we_scope inp)"
    "col_workspaceId c = gs_workspaceId (we_scope inp)" "col_archivedAt c = None"
    using first_row_mem [OF tgt [unfolded write_target_def]] by auto
  have "row_signature r \<in> set (map row_signature (g_rows db'))" using rc(1) sch by (simp add: same_schema_def)
  then obtain q where "q \<in> set (g_rows db')" "row_signature q = row_signature r" by auto
  then show ?thesis using that [of q c] rc sch by (simp add: row_signature_def same_schema_def)
qed

section \<open>Histories of edits\<close>

datatype grid_edit =
    CreateRow grid_scope
  | WriteCell write_input
  | CreateFormula create_formula_input

text \<open>One request at its time: a transaction that throws leaves the tables as they were.\<close>

fun run_edit :: "host \<Rightarrow> (nat \<Rightarrow> jsstr) \<Rightarrow> int \<times> grid_edit \<Rightarrow> grid_db \<Rightarrow> grid_db" where
  "run_edit h uuid (now, CreateRow sc) db = (case createSqliteGridRow uuid now sc db of Inl _ \<Rightarrow> db | Inr (db', _) \<Rightarrow> db')"
| "run_edit h uuid (now, WriteCell inp) db = (case writeSqliteGridCell h uuid now inp db of Inl _ \<Rightarrow> db | Inr (db', _) \<Rightarrow> db')"
| "run_edit h uuid (now, CreateFormula inp) db =
     (case createSqliteFormulaColumn h uuid now inp db of Inl _ \<Rightarrow> db | Inr (db', _) \<Rightarrow> db')"

text \<open>Written values come back from storage, and formulas are empty on a row without cells.\<close>

fun edit_ok :: "host \<Rightarrow> grid_edit \<Rightarrow> bool" where
  "edit_ok h (CreateRow sc) = True"
| "edit_ok h (WriteCell inp) = (\<exists>v'. reads_back h (we_value inp) v')"
| "edit_ok h (CreateFormula inp) =
     (\<forall>available e. requested_expression h inp available = Inr e \<longrightarrow>
        number_literals_ok e \<and> literals_storable h e \<and> eval_on h e (\<lambda>_. CEmpty) = CEmpty)"

definition grid_current :: "host \<Rightarrow> (nat \<Rightarrow> jsstr) \<Rightarrow> grid_db \<Rightarrow> bool" where
  "grid_current h uuid db \<longleftrightarrow> grid_ok h db \<and> fresh_ids uuid db \<and> all_current h db \<and> blank_formulas h db"

lemma row_creation_current:
  assumes ok: "grid_ok h db" and fresh: "fresh_ids uuid db" and cur: "all_current h db"
    and c: "createSqliteGridRow uuid now sc db = Inr (db', row)"
  shows "all_current h db' \<longleftrightarrow>
    (\<forall>c \<in> set (active_formulas (gs_tableId sc) (gs_workspaceId sc) db). blank_formula h c)"
proof -
  note n = row_created [OF ok fresh c]
  have act: "active_formulas u v db' = active_formulas u v db" for u v by (simp add: active_formulas_def table_columns_def n(4))
  have same: "formula_current h db' q f = formula_current h db q f" for q f
    by (rule formula_current_cong) (simp add: value_at_def n(5))
  have old: "current_row h db' r" if "r \<in> set (g_rows db)" "row_archivedAt r = None" for r
    using cur that by (simp add: all_current_def current_row_def act same)
  have "formula_current h db' (row_id row) f \<longleftrightarrow> blank_formula h f" if fm: "f \<in> set (active_formulas u v db)" for f u v
  proof -
    obtain e where "formula_of h f = Some e" by (rule formula_reads [OF ok fm])
    then show ?thesis by (auto simp: formula_current_def n(10) blank_formula_def)
  qed
  then have "current_row h db' row \<longleftrightarrow> (\<forall>c \<in> set (active_formulas (gs_tableId sc) (gs_workspaceId sc) db). blank_formula h c)"
    by (simp add: current_row_def act n(8,9))
  then show ?thesis using old n(7) by (auto simp: all_current_def n(3))
qed

lemma run_edit_current:
  assumes cur: "grid_current h uuid db" and e: "edit_ok h e"
  shows "grid_current h uuid (run_edit h uuid (now, e) db)"
proof -
  have g: "grid_ok h db" "fresh_ids uuid db" "all_current h db" "blank_formulas h db" using cur by (simp_all add: grid_current_def)
  show ?thesis
  proof (cases e)
    case (CreateRow sc)
    have "grid_current h uuid db'" if c: "createSqliteGridRow uuid now sc db = Inr (db', row)" for db' row
    proof -
      note n = row_created [OF g(1,2) c]
      have "\<forall>c \<in> set (active_formulas (gs_tableId sc) (gs_workspaceId sc) db). blank_formula h c"
        using g(4) by (auto simp: blank_formulas_def set_active_formulas)
      then have "all_current h db'" using row_creation_current [OF g(1-3) c] by simp
      then show ?thesis using n(1,2,4) g(4) by (simp add: grid_current_def blank_formulas_def)
    qed
    then show ?thesis using cur CreateRow by (auto split: sum.split)
  next
    case (WriteCell inp)
    then obtain v' where rb: "reads_back h (we_value inp) v'" using e by auto
    have "grid_current h uuid db'" if w: "writeSqliteGridCell h uuid now inp db = Inr (db', cell)" for db' cell
      using write_keeps_current [OF g(1-3) rb w] g(4) by (simp add: grid_current_def blank_formulas_def)
    then show ?thesis using cur WriteCell by (auto split: sum.split)
  next
    case (CreateFormula inp)
    have "grid_current h uuid db'" if c: "createSqliteFormulaColumn h uuid now inp db = Inr (db', created)" for db' created
    proof -
      obtain f where "requested_expression h inp (available_columns inp db) = Inr f"
        using c by (auto simp: createSqliteFormulaColumn_def and_then_eq_Inr split: if_splits)
      then show ?thesis using formula_keeps_current [OF g c] e CreateFormula by (simp add: grid_current_def)
    qed
    then show ?thesis using cur CreateFormula by (auto split: sum.split)
  qed
qed

section \<open>Properties\<close>

text \<open>
  C29. Over any history of row creations, cell edits and formula creations, every formula cell
  of every active row is current: it holds the value of its formula on the row. A request that
  fails changes nothing. Formulas have to be empty on a row without cells (the next property
  says why), and written timestamps and JSON values must come back from storage.
\<close>

theorem grid_stays_current:
  assumes "grid_current h uuid db" and "\<And>now e. (now, e) \<in> set es \<Longrightarrow> edit_ok h e"
  shows "grid_current h uuid (fold (run_edit h uuid) es db)"
  using assms
proof (induction es arbitrary: db)
  case (Cons p es)
  obtain now e where p: "p = (now, e)" by (cases p)
  have "grid_current h uuid (run_edit h uuid p db)"
    unfolding p by (rule run_edit_current) (use Cons.prems p in auto)
  moreover have "\<And>now e. (now, e) \<in> set es \<Longrightarrow> edit_ok h e" using Cons.prems(2) by (meson list.set_intros(2))
  ultimately have "grid_current h uuid (fold (run_edit h uuid) es (run_edit h uuid p db))" by (rule Cons.IH)
  then show ?case by simp
qed simp

text \<open>
  C30. Creating a row keeps every formula current exactly if the formulas of the table are
  empty on a row without cells: the operation does not compute the formulas of the new row, so
  a formula such as \<open>COALESCE([a], "none")\<close> stays empty there until a source is edited.
\<close>

theorem new_row_current_iff:
  assumes "grid_ok h db" and "fresh_ids uuid db" and "all_current h db"
    and "createSqliteGridRow uuid now sc db = Inr (db', row)"
  shows "all_current h db' \<longleftrightarrow>
    (\<forall>c \<in> set (active_formulas (gs_tableId sc) (gs_workspaceId sc) db). blank_formula h c)"
  using assms by (rule row_creation_current)

text \<open>
  C31. A successful write of a cell: the answer carries the value as storage keeps it and the
  next version; nothing but this cell and formula cells of the row changes; who may open the
  table reads exactly the answered cell; and a second write of the cell with any other expected
  version than the answered one is refused, so that no update is lost.
\<close>

theorem cell_write_effect:
  assumes "grid_ok h db" and "fresh_ids uuid db" and "reads_back h (we_value inp) v'"
    and "\<forall>c \<in> set (active_formulas (gs_tableId (we_scope inp)) (gs_workspaceId (we_scope inp)) db).
      formula_current h db (we_rowId inp) c"
    and "writeSqliteGridCell h uuid now inp db = Inr (db', cell)"
  shows "view_value cell = v' \<and> int (view_version cell) = we_expectedVersion inp + 1
    \<and> (\<forall>q c. q \<noteq> we_rowId inp \<or> c \<noteq> we_columnId inp \<and> \<not> formula_column_id db c \<longrightarrow>
         value_at h db' q c = value_at h db q c)
    \<and> (\<forall>tbl. requireTableAccess (we_scope inp) db' = Inr tbl \<longrightarrow>
         (\<exists>r cs. getSqliteGridRow h (we_scope inp) (we_rowId inp) db' = Inr (r, cs)
            \<and> map_of cs (we_columnId inp) = Some cell))
    \<and> (\<forall>inp2 uuid2 now2 p. we_rowId inp2 = we_rowId inp \<and> we_columnId inp2 = we_columnId inp
         \<and> we_expectedVersion inp2 \<noteq> int (view_version cell) \<longrightarrow> writeSqliteGridCell h uuid2 now2 inp2 db' \<noteq> Inr p)"
proof -
  obtain x where e: "edited h uuid inp v' db db' x" and x: "toGridCell h x = Inr cell"
    by (rule write_cell_edited [OF assms])
  have ok: "grid_ok h db'" and at: "row_at cell_key (g_cells db') (we_rowId inp, we_columnId inp) = Some x"
    and sch: "same_schema db' db" using e by (simp_all add: edited_def)
  have cell: "view_value cell = v'" "view_version cell = gc_version x"
    using e x by (auto simp: toGridCell_def edited_def)
  obtain r c where r: "r \<in> set (g_rows db')" "row_tableId r = gs_tableId (we_scope inp)"
    "row_workspaceId r = gs_workspaceId (we_scope inp)" "row_archivedAt r = None" and q: "row_id r = we_rowId inp"
    and c: "c \<in> set (g_columns db')" "col_id c = we_columnId inp" "col_tableId c = gs_tableId (we_scope inp)"
      "col_workspaceId c = gs_workspaceId (we_scope inp)" "col_archivedAt c = None"
    by (rule write_signatures [OF assms(5) sch])
  have "\<exists>r cs. getSqliteGridRow h (we_scope inp) (we_rowId inp) db' = Inr (r, cs) \<and> map_of cs (we_columnId inp) = Some cell"
    if "requireTableAccess (we_scope inp) db' = Inr tbl" for tbl
    using get_row [OF ok that r at [folded q] c x] q by simp
  moreover have "writeSqliteGridCell h uuid2 now2 inp2 db' \<noteq> Inr p"
    if "we_rowId inp2 = we_rowId inp \<and> we_columnId inp2 = we_columnId inp \<and> we_expectedVersion inp2 \<noteq> int (view_version cell)"
    for inp2 uuid2 now2 p
    by (rule stale_write_refused [OF ok, of inp2 x]) (use that at cell in simp_all)
  ultimately show ?thesis using e cell by (simp add: edited_def)
qed

section \<open>Witnesses\<close>

definition sample_grid_scope :: grid_scope where
  "sample_grid_scope = \<lparr>gs_tableId = js ''t'', gs_userId = js ''m'', gs_workspaceId = js ''w''\<rparr>"

definition sample_write :: write_input where
  "sample_write = \<lparr>we_scope = sample_grid_scope, we_columnId = js ''a'', we_expectedVersion = 1, we_rowId = js ''r'',
     we_value = CText (js ''y'')\<rparr>"

definition coalesce_input :: create_formula_input where
  "coalesce_input = creation_input\<lparr>cf_expression := Some (Call Fn_coalesce [Column (js ''a'')])\<rparr>"

definition sample_edits :: "(int \<times> grid_edit) list" where
  "sample_edits = [(5, CreateFormula coalesce_input), (6, WriteCell sample_write), (7, CreateRow sample_grid_scope)]"

text \<open>The sample grid without rows: its formula is \<open>CONCAT([a])\<close>, which is not empty on a new row.\<close>

definition rowless_grid :: grid_db where
  "rowless_grid = sample_grid\<lparr>g_rows := [], g_cells := []\<rparr>"

lemma creation_grid_current: "grid_current ascii_host sample_uuid creation_grid"
proof -
  have "active_formulas t w creation_grid = []" for t w
    by (simp add: active_formulas_def table_columns_def select_where_def creation_columns sample_column_def)
  moreover have "blank_formulas ascii_host creation_grid"
    by (simp add: blank_formulas_def creation_columns sample_column_def)
  ultimately show ?thesis
    using creation_grid_ok creation_fresh by (simp add: grid_current_def all_current_def current_row_def)
qed

lemma rowless_grid_ok: "grid_ok ascii_host rowless_grid" "fresh_ids sample_uuid rowless_grid"
proof -
  have ct: "column_type rowless_grid = column_type sample_grid" by (simp add: column_type_def rowless_grid_def fun_eq_iff)
  have "formula_ok ascii_host rowless_grid c = formula_ok ascii_host sample_grid c" for c
    by (simp add: formula_ok_def ct table_dependencies_def) (simp add: rowless_grid_def)
  moreover have "cells_ok ascii_host rowless_grid" by (simp add: cells_ok_def rowless_grid_def)
  ultimately show "grid_ok ascii_host rowless_grid"
    using sample_grid_ok by (simp add: grid_ok_def) (simp add: rowless_grid_def)
  show "fresh_ids sample_uuid rowless_grid" using sample_fresh by (simp add: fresh_ids_def rowless_grid_def)
qed

lemma sample_formula_of:
  "formula_of ascii_host (sample_column ''f'' Formula_column (FormulaConfiguration sample_grid_formula)) = Some sample_grid_formula"
  by code_simp

lemma sample_row_created:
  "(case createSqliteGridRow sample_uuid 5 sample_grid_scope rowless_grid of Inr _ \<Rightarrow> True | Inl _ \<Rightarrow> False)"
  by code_simp

lemma sample_target: "write_target sample_write creation_grid = Some (Input_column, TText)"
  by code_simp

lemma sample_write_body:
  "(case and_then (put_cell ascii_host sample_uuid 6 sample_write creation_grid) (\<lambda>(db1, written).
      and_then (settle_edit ascii_host sample_uuid 6 (write_scope sample_write) (we_columnId sample_write) db1) (\<lambda>db2.
      and_then (toGridCell ascii_host written) (\<lambda>cell. Inr (db2, cell)))) of Inr _ \<Rightarrow> True | Inl _ \<Rightarrow> False)"
  by code_simp

lemma sample_written:
  "\<exists>db' cell. writeSqliteGridCell ascii_host sample_uuid 6 sample_write creation_grid = Inr (db', cell)"
proof -
  have v: "we_value sample_write = CText (js ''y'')" by (simp add: sample_write_def)
  have "editable_cell_value ascii_host (CText (js ''y''))"
    using utf8ByteLength_bounds [of "js ''y''"]
    by (simp add: editable_cell_value_def editableCellByteLength_def MAXIMUM_EDITABLE_CELL_BYTES_def)
  then show ?thesis
    using sample_write_body by (simp add: writeSqliteGridCell_def sample_target v split: sum.splits prod.splits)
qed

theorem grid_stays_current_witness:
  "grid_current ascii_host sample_uuid (fold (run_edit ascii_host sample_uuid) sample_edits creation_grid)"
proof (rule grid_stays_current [OF creation_grid_current])
  fix now e
  assume "(now, e) \<in> set sample_edits"
  moreover have "edit_ok ascii_host (WriteCell sample_write)"
    using reads_back_plain(1) by (auto simp: sample_write_def)
  moreover have "eval_on ascii_host (Call Fn_coalesce [Column (js ''a'')]) (\<lambda>_. CEmpty) = CEmpty" by code_simp
  then have "edit_ok ascii_host (CreateFormula coalesce_input)"
    by (auto simp: coalesce_input_def creation_input_def requested_expression_def)
  ultimately show "edit_ok ascii_host e" by (auto simp: sample_edits_def)
qed

theorem new_row_current_iff_witness:
  "\<exists>db' row. createSqliteGridRow sample_uuid 5 sample_grid_scope rowless_grid = Inr (db', row) \<and> \<not> all_current ascii_host db'"
proof -
  obtain db' row where c: "createSqliteGridRow sample_uuid 5 sample_grid_scope rowless_grid = Inr (db', row)"
    using sample_row_created by (auto split: sum.splits)
  have cur: "all_current ascii_host rowless_grid" by (simp add: all_current_def rowless_grid_def)
  let ?f = "sample_column ''f'' Formula_column (FormulaConfiguration sample_grid_formula)"
  have "?f \<in> set (active_formulas (js ''t'') (js ''w'') rowless_grid)"
    by (simp add: set_active_formulas rowless_grid_def sample_grid_def) (simp add: sample_column_def)
  moreover have "eval_on ascii_host sample_grid_formula (\<lambda>_. CEmpty) \<noteq> CEmpty" by code_simp
  then have "\<not> blank_formula ascii_host ?f"
    using sample_formula_of by (simp add: blank_formula_def)
  ultimately have "\<not> all_current ascii_host db'"
    using new_row_current_iff [OF rowless_grid_ok cur c] by (auto simp: sample_grid_scope_def)
  then show ?thesis using c by blast
qed

theorem cell_write_effect_witness:
  "\<exists>db' cell. writeSqliteGridCell ascii_host sample_uuid 6 sample_write creation_grid = Inr (db', cell)
     \<and> view_value cell = CText (js ''y'') \<and> int (view_version cell) = 2"
proof -
  obtain db' cell where w: "writeSqliteGridCell ascii_host sample_uuid 6 sample_write creation_grid = Inr (db', cell)"
    using sample_written by blast
  have "active_formulas t w creation_grid = []" for t w
    by (simp add: active_formulas_def table_columns_def select_where_def creation_columns sample_column_def)
  then have cur: "\<forall>c \<in> set (active_formulas (gs_tableId (we_scope sample_write)) (gs_workspaceId (we_scope sample_write)) creation_grid).
      formula_current ascii_host creation_grid (we_rowId sample_write) c" by simp
  have "reads_back ascii_host (we_value sample_write) (CText (js ''y''))" by (simp add: sample_write_def reads_back_plain(1))
  from cell_write_effect [OF creation_grid_ok creation_fresh this cur w] w show ?thesis by (simp add: sample_write_def)
qed

end
