(* ===== verification/SavedViews.thy ===== *)
theory SavedViews
  imports GridEdits
begin

text \<open>
  Saved views of a table (\<open>packages/db/src/sqlite/grid-views.ts\<close>, the request schemas of
  \<open>packages/domain/src/grid-view-policy.ts\<close>): creating, updating, deleting, listing and reading
  them, with the checks of their columns. The views are a table of their own beside the grid.
\<close>

section \<open>Requests and rows\<close>

definition MAXIMUM_SAVED_GRID_VIEWS_PER_TABLE :: nat where
  "MAXIMUM_SAVED_GRID_VIEWS_PER_TABLE = 50"

datatype sort_direction = Ascending | Descending

record grid_view_sort =
  sort_columnId :: jsstr
  sort_direction :: sort_direction

record saved_view_row =
  view_row_id :: jsstr
  view_workspaceId :: jsstr
  view_tableId :: jsstr
  view_name :: jsstr
  view_filters :: persisted_filters
  view_sort :: "grid_view_sort option"
  view_createdByUserId :: "jsstr option"
  view_createdAt :: int
  view_updatedAt :: int

text \<open>A request with a tree or, in the old form, with at most five filters.\<close>

record view_request_input =
  rq_filters :: persisted_filters
  rq_name :: jsstr
  rq_sort :: "grid_view_sort option"

record view_request =
  req_filterTree :: filter_group
  req_name :: jsstr
  req_sort :: "grid_view_sort option"

definition plain_name :: "jsstr \<Rightarrow> bool" where
  "plain_name name \<longleftrightarrow> \<not> list_ex (\<lambda>c. c \<le> 0x1F \<or> c = 0x7F) name"

definition gridViewName :: "host \<Rightarrow> jsstr \<Rightarrow> jsstr option" where
  "gridViewName h value =
     (let name = nfkc h (trim value)
      in if 1 \<le> length name \<and> length name \<le> 80 \<and> plain_name name then Some name else None)"

definition parseViewRequest :: "host \<Rightarrow> view_request_input \<Rightarrow> grid_error + view_request" where
  "parseViewRequest h inp =
     (case (normalizeGridViewFilterTree h (rq_filters inp), gridViewName h (rq_name inp)) of
        (Some tree, Some name) \<Rightarrow>
          if (case rq_sort inp of None \<Rightarrow> True | Some s \<Rightarrow> valid_uuid h (sort_columnId s))
          then Inr \<lparr>req_filterTree = tree, req_name = name, req_sort = rq_sort inp\<rparr>
          else Inl GridValidation
      | _ \<Rightarrow> Inl GridValidation)"

section \<open>Operations\<close>

text \<open>\<open>SqliteSavedGridViewSummary\<close>: the row with its filters read as a tree.\<close>

record saved_view =
  sv_id :: jsstr
  sv_name :: jsstr
  sv_filterTree :: filter_group
  sv_sort :: "grid_view_sort option"

definition toSqliteSavedGridViewSummary :: "host \<Rightarrow> saved_view_row \<Rightarrow> grid_error + saved_view" where
  "toSqliteSavedGridViewSummary h v =
     (case normalizeGridViewFilterTree h (view_filters v) of
        None \<Rightarrow> Inl StoredValueInvalid
      | Some tree \<Rightarrow> Inr \<lparr>sv_id = view_row_id v, sv_name = view_name v, sv_filterTree = tree, sv_sort = view_sort v\<rparr>)"

definition requireActiveTableMembership :: "grid_scope \<Rightarrow> grid_db \<Rightarrow> grid_error + unit" where
  "requireActiveTableMembership sc db = and_then (requireTableAccess sc db) (\<lambda>_. Inr ())"

definition in_view_scope :: "grid_scope \<Rightarrow> saved_view_row \<Rightarrow> bool" where
  "in_view_scope sc v \<longleftrightarrow> view_workspaceId v = gs_workspaceId sc \<and> view_tableId v = gs_tableId sc"

definition view_columns :: "filter_group \<Rightarrow> grid_view_sort option \<Rightarrow> jsstr list" where
  "view_columns tree srt =
     set_from (map filter_column (gridViewFilterLeaves tree)
       @ (case srt of None \<Rightarrow> [] | Some s \<Rightarrow> [sort_columnId s]))"

definition validateViewColumns :: "grid_scope \<Rightarrow> filter_group \<Rightarrow> grid_view_sort option \<Rightarrow> grid_db \<Rightarrow> grid_error + unit" where
  "validateViewColumns sc tree srt db =
     (let columnIds = view_columns tree srt
      in if columnIds = [] then Inr ()
         else let activeColumns = select_where (\<lambda>c. col_workspaceId c = gs_workspaceId sc \<and> col_tableId c = gs_tableId sc
                    \<and> col_id c \<in> set columnIds \<and> col_archivedAt c = None) (g_columns db);
                  typeByColumn = map_of (map_from (map (\<lambda>c. (col_id c, col_valueType c)) activeColumns))
              in if length activeColumns \<noteq> length columnIds then Inl GridValidation
                 else if list_ex (\<lambda>f. \<not> gridViewFilterAcceptsValueType f (the (typeByColumn (filter_column f))))
                           (gridViewFilterLeaves tree) then Inl GridValidation
                 else (case srt of
                         None \<Rightarrow> Inr ()
                       | Some s \<Rightarrow> if typeByColumn (sort_columnId s) = Some TJson then Inl GridValidation else Inr ()))"

definition findDuplicateName :: "grid_scope \<Rightarrow> jsstr \<Rightarrow> jsstr option \<Rightarrow> saved_view_row list \<Rightarrow> bool" where
  "findDuplicateName sc name excludedViewId views \<longleftrightarrow>
     first_row (select_where (\<lambda>v. in_view_scope sc v \<and> ascii_lower (view_name v) = ascii_lower name
       \<and> (case excludedViewId of None \<Rightarrow> True | Some i \<Rightarrow> i = [] \<or> view_row_id v \<noteq> i)) views) \<noteq> None"

definition listSqliteSavedGridViews :: "host \<Rightarrow> grid_scope \<Rightarrow> grid_db \<Rightarrow> saved_view_row list \<Rightarrow> grid_error + saved_view list" where
  "listSqliteSavedGridViews h sc db views =
     and_then (requireActiveTableMembership sc db) (\<lambda>_.
       map_result (toSqliteSavedGridViewSummary h)
         (sort_key (\<lambda>v. (view_createdAt v, view_row_id v))
           [v. v \<leftarrow> views, m \<leftarrow> g_members db, grid_member sc (view_workspaceId v) m \<and> in_view_scope sc v]))"

definition getSqliteSavedGridView :: "host \<Rightarrow> grid_scope \<Rightarrow> jsstr \<Rightarrow> grid_db \<Rightarrow> saved_view_row list \<Rightarrow> grid_error + saved_view" where
  "getSqliteSavedGridView h sc viewId db views =
     and_then (requireActiveTableMembership sc db) (\<lambda>_.
       case first_row [v. v \<leftarrow> views, m \<leftarrow> g_members db,
              grid_member sc (view_workspaceId v) m \<and> view_row_id v = viewId \<and> in_view_scope sc v] of
         None \<Rightarrow> Inl GridAccess
       | Some v \<Rightarrow>
           and_then (toSqliteSavedGridViewSummary h v) (\<lambda>summary.
           and_then (validateViewColumns sc (sv_filterTree summary) (sv_sort summary) db) (\<lambda>_. Inr summary)))"

text \<open>The primary key and the unique index on the table and the name.\<close>

definition view_keys_ok :: "saved_view_row list \<Rightarrow> bool" where
  "view_keys_ok views \<longleftrightarrow> distinct (map view_row_id views) \<and> distinct (map (\<lambda>v. (view_tableId v, view_name v)) views)"

definition createSqliteSavedGridView :: "host \<Rightarrow> grid_scope \<Rightarrow> view_request_input \<Rightarrow> jsstr \<Rightarrow> int \<Rightarrow> grid_db
    \<Rightarrow> saved_view_row list \<Rightarrow> grid_error + (saved_view_row list \<times> saved_view)" where
  "createSqliteSavedGridView h sc inp vid now db views =
     and_then (parseViewRequest h inp) (\<lambda>request.
     and_then (requireActiveTableMembership sc db) (\<lambda>_.
     and_then (validateViewColumns sc (req_filterTree request) (req_sort request) db) (\<lambda>_.
       if MAXIMUM_SAVED_GRID_VIEWS_PER_TABLE \<le> length (select_where (in_view_scope sc) views) then Inl GridValidation
       else if findDuplicateName sc (req_name request) None views then Inl GridConflict
       else let created = \<lparr>view_row_id = vid, view_workspaceId = gs_workspaceId sc, view_tableId = gs_tableId sc,
                  view_name = req_name request, view_filters = CanonicalTree (req_filterTree request),
                  view_sort = req_sort request, view_createdByUserId = Some (gs_userId sc),
                  view_createdAt = now, view_updatedAt = now\<rparr>
            in if view_keys_ok (views @ [created])
               then and_then (toSqliteSavedGridViewSummary h created) (\<lambda>summary. Inr (views @ [created], summary))
               else Inl GridConstraint)))"

definition set_view :: "view_request \<Rightarrow> int \<Rightarrow> saved_view_row \<Rightarrow> saved_view_row" where
  "set_view request now v = v\<lparr>view_filters := CanonicalTree (req_filterTree request), view_name := req_name request,
     view_sort := req_sort request, view_updatedAt := now\<rparr>"

definition updateSqliteSavedGridView :: "host \<Rightarrow> grid_scope \<Rightarrow> jsstr \<Rightarrow> view_request_input \<Rightarrow> int \<Rightarrow> grid_db
    \<Rightarrow> saved_view_row list \<Rightarrow> grid_error + (saved_view_row list \<times> saved_view)" where
  "updateSqliteSavedGridView h sc viewId inp now db views =
     and_then (parseViewRequest h inp) (\<lambda>request.
     and_then (requireActiveTableMembership sc db) (\<lambda>_.
     and_then (validateViewColumns sc (req_filterTree request) (req_sort request) db) (\<lambda>_.
       if findDuplicateName sc (req_name request) (Some viewId) views then Inl GridConflict
       else let target = (\<lambda>v. view_row_id v = viewId \<and> in_view_scope sc v);
                views' = update_where target (set_view request now) views
            in if \<not> view_keys_ok views' then Inl GridConstraint
               else (case first_row (select_where target views) of
                       None \<Rightarrow> Inl GridAccess
                     | Some v \<Rightarrow> and_then (toSqliteSavedGridViewSummary h (set_view request now v))
                                 (\<lambda>summary. Inr (views', summary))))))"

definition deleteSqliteSavedGridView :: "grid_scope \<Rightarrow> jsstr \<Rightarrow> grid_db \<Rightarrow> saved_view_row list
    \<Rightarrow> grid_error + (saved_view_row list \<times> jsstr)" where
  "deleteSqliteSavedGridView sc viewId db views =
     and_then (requireActiveTableMembership sc db) (\<lambda>_.
       let target = (\<lambda>v. view_row_id v = viewId \<and> in_view_scope sc v)
       in if select_where target views = [] then Inl GridAccess
          else Inr (filter (\<lambda>v. \<not> target v) views, viewId))"

section \<open>What the views of a table keep\<close>

definition view_ok :: "host \<Rightarrow> saved_view_row \<Rightarrow> bool" where
  "view_ok h v \<longleftrightarrow> (\<exists>tree. view_filters v = CanonicalTree tree \<and> gridViewFilterTree h tree)
     \<and> 1 \<le> length (view_name v) \<and> length (view_name v) \<le> 80 \<and> plain_name (view_name v)"

definition same_table :: "saved_view_row \<Rightarrow> saved_view_row \<Rightarrow> bool" where
  "same_table v w \<longleftrightarrow> view_workspaceId v = view_workspaceId w \<and> view_tableId v = view_tableId w"

definition views_ok :: "host \<Rightarrow> saved_view_row list \<Rightarrow> bool" where
  "views_ok h views \<longleftrightarrow> view_keys_ok views \<and> (\<forall>v \<in> set views. view_ok h v)
     \<and> (\<forall>v \<in> set views. \<forall>w \<in> set views. same_table v w \<and> ascii_lower (view_name v) = ascii_lower (view_name w) \<longrightarrow> v = w)
     \<and> (\<forall>sc. length (filter (in_view_scope sc) views) \<le> MAXIMUM_SAVED_GRID_VIEWS_PER_TABLE)"

inductive view_step :: "host \<Rightarrow> saved_view_row list \<Rightarrow> saved_view_row list \<Rightarrow> bool" for h where
  view_created: "createSqliteSavedGridView h sc inp vid now db views = Inr (views', v) \<Longrightarrow> view_step h views views'"
| view_updated: "updateSqliteSavedGridView h sc vid inp now db views = Inr (views', v) \<Longrightarrow> view_step h views views'"
| view_deleted: "deleteSqliteSavedGridView sc vid db views = Inr (views', i) \<Longrightarrow> view_step h views views'"

inductive_cases view_stepE: "view_step h views views'"

lemma parsed_request:
  "parseViewRequest h inp = Inr request \<Longrightarrow> (\<exists>p. normalizeGridViewFilterTree h p = Some (req_filterTree request))
     \<and> 1 \<le> length (req_name request) \<and> length (req_name request) \<le> 80 \<and> plain_name (req_name request)"
  by (auto simp: parseViewRequest_def gridViewName_def Let_def split: option.splits if_splits)

lemma summary_tree:
  "toSqliteSavedGridViewSummary h v = Inr s \<Longrightarrow> view_filters v = CanonicalTree tree \<Longrightarrow> gridViewFilterTree h tree"
  by (auto simp: toSqliteSavedGridViewSummary_def normalizeGridViewFilterTree_def split: option.splits if_splits)

text \<open>A name that is not a duplicate in its table.\<close>

lemma no_duplicate:
  assumes "\<not> findDuplicateName sc name ex views" and "v \<in> set views" and "in_view_scope sc v"
    and "case ex of None \<Rightarrow> True | Some i \<Rightarrow> view_row_id v \<noteq> i"
  shows "ascii_lower (view_name v) \<noteq> ascii_lower name"
  using assms by (auto simp: findDuplicateName_def first_row_find find_None_iff split: option.splits)

lemma scope_table: "in_view_scope sc w \<Longrightarrow> same_table v w \<longleftrightarrow> in_view_scope sc v"
  by (auto simp: in_view_scope_def same_table_def)

lemma created_views_ok:
  assumes ok: "views_ok h views" and c: "createSqliteSavedGridView h sc inp vid now db views = Inr (views', s)"
  shows "views_ok h views'"
proof -
  obtain request new where p: "parseViewRequest h inp = Inr request"
    and few: "length (select_where (in_view_scope sc) views) < MAXIMUM_SAVED_GRID_VIEWS_PER_TABLE"
    and dup: "\<not> findDuplicateName sc (req_name request) None views" and keys: "view_keys_ok (views @ [new])"
    and sum: "toSqliteSavedGridViewSummary h new = Inr s" and views': "views' = views @ [new]"
    and new: "view_filters new = CanonicalTree (req_filterTree request)" "view_name new = req_name request" "in_view_scope sc new"
    using c by (auto simp: createSqliteSavedGridView_def and_then_eq_Inr Let_def in_view_scope_def not_le split: if_splits)
  have "view_ok h new" using parsed_request [OF p] summary_tree [OF sum new(1)] new by (simp add: view_ok_def)
  moreover have "ascii_lower (view_name v) \<noteq> ascii_lower (view_name new)" if "v \<in> set views" "same_table v new" for v
    using no_duplicate [OF dup that(1)] that(2) new scope_table [OF new(3), of v] by simp
  moreover have "length (filter (in_view_scope sc') views') \<le> MAXIMUM_SAVED_GRID_VIEWS_PER_TABLE" for sc'
  proof (cases "in_view_scope sc' new")
    case True
    then have "in_view_scope sc' = in_view_scope sc" using new(3) by (auto simp: in_view_scope_def fun_eq_iff)
    then show ?thesis using few new(3) by (simp add: views' select_where_def)
  next
    case False
    then show ?thesis using ok by (simp add: views' views_ok_def)
  qed
  ultimately show ?thesis using ok keys by (fastforce simp: views_ok_def views' same_table_def)
qed

lemma updated_views_ok:
  assumes ok: "views_ok h views" and c: "updateSqliteSavedGridView h sc vid inp now db views = Inr (views', s)"
  shows "views_ok h views'"
proof -
  let ?t = "\<lambda>v. view_row_id v = vid \<and> in_view_scope sc v"
  obtain request v0 where p: "parseViewRequest h inp = Inr request"
    and dup: "\<not> findDuplicateName sc (req_name request) (Some vid) views" and keys: "view_keys_ok views'"
    and sum: "toSqliteSavedGridViewSummary h (set_view request now v0) = Inr s"
    and views': "views' = update_where ?t (set_view request now) views"
    using c by (auto simp: updateSqliteSavedGridView_def and_then_eq_Inr Let_def split: if_splits option.splits)
  define g where "g v = (if ?t v then set_view request now v else v)" for v
  have v': "views' = map g views" by (simp add: views' update_where_def g_def)
  have tree: "gridViewFilterTree h (req_filterTree request)" by (rule summary_tree [OF sum]) (simp add: set_view_def)
  have sel: "view_row_id (g v) = view_row_id v" "in_view_scope sc' (g v) = in_view_scope sc' v" for v sc'
    by (simp_all add: g_def set_view_def in_view_scope_def)
  have tab: "same_table (g v) (g w) = same_table v w" for v w by (simp add: g_def set_view_def same_table_def)
  have only: "v = w" if "v \<in> set views" "w \<in> set views" "?t v" "?t w" for v w
    by (rule unique_row [of view_row_id views]) (use ok that in \<open>simp_all add: views_ok_def view_keys_ok_def\<close>)
  have new: "ascii_lower (view_name v) \<noteq> ascii_lower (req_name request)" if "v \<in> set views" "\<not> ?t v" "in_view_scope sc v" for v
    using no_duplicate [OF dup that(1,3)] that(2,3) by simp
  have name: "view_name (g v) = (if ?t v then req_name request else view_name v)" for v by (simp add: g_def set_view_def)
  have names: "g v = g w" if m: "v \<in> set views" "w \<in> set views" and st: "same_table v w"
    and eq: "ascii_lower (view_name (g v)) = ascii_lower (view_name (g w))" for v w
  proof -
    have scope: "in_view_scope sc v = in_view_scope sc w" using st by (auto simp: same_table_def in_view_scope_def)
    consider "?t v" "?t w" | "?t v" "\<not> ?t w" | "\<not> ?t v" "?t w" | "\<not> ?t v" "\<not> ?t w" by blast
    then show ?thesis
    proof cases
      case 1
      then show ?thesis using only [OF m] by simp
    next
      case 2
      then show ?thesis using new [OF m(2)] eq scope by (auto simp: name)
    next
      case 3
      then show ?thesis using new [OF m(1)] eq scope by (auto simp: name)
    next
      case 4
      have "ascii_lower (view_name v) = ascii_lower (view_name w)"
        using eq unfolding name if_not_P [OF 4(1)] if_not_P [OF 4(2)] .
      then have "v = w" using ok m st by (simp add: views_ok_def)
      then show ?thesis by simp
    qed
  qed
  have "view_ok h (g v)" if "v \<in> set views" for v
    using ok that parsed_request [OF p] tree by (simp add: views_ok_def) (simp add: g_def view_ok_def set_view_def)
  moreover have "length (filter (in_view_scope sc') views') = length (filter (in_view_scope sc') views)" for sc'
    using sel(2) by (simp add: v' filter_map comp_def)
  ultimately show ?thesis using ok keys names tab unfolding views_ok_def v' by simp
qed

lemma deleted_views_ok:
  assumes ok: "views_ok h views" and c: "deleteSqliteSavedGridView sc vid db views = Inr (views', i)"
  shows "views_ok h views'"
proof -
  obtain P where v': "views' = filter P views"
    using c by (auto simp: deleteSqliteSavedGridView_def and_then_eq_Inr Let_def split: if_splits)
  have "length (filter (in_view_scope sc') views') \<le> length (filter (in_view_scope sc') views)" for sc'
    proof -
    have "filter (in_view_scope sc') (filter P views) = filter P (filter (in_view_scope sc') views)"
      by (simp add: conj_commute)
    then show ?thesis by (simp only: v' length_filter_le)
  qed
  then show ?thesis using ok by (fastforce simp: views_ok_def view_keys_ok_def v' distinct_map_filter intro: order_trans)
qed

section \<open>Properties\<close>

text \<open>
  C32. Over any history of the saved views of a workspace: every stored view carries a valid
  filter tree in the canonical form and a clean name, no table has two views whose names differ
  only in the case of ASCII letters, and none has more than fifty views.
\<close>

theorem saved_views_history:
  assumes "(view_step h)\<^sup>*\<^sup>* [] views"
  shows "views_ok h views"
  using assms
proof (induction rule: rtranclp_induct)
  case base
  then show ?case by (simp add: views_ok_def view_keys_ok_def)
next
  case (step y z)
  from step.hyps(2) step.IH show ?case
    by (elim view_stepE) (blast intro: created_views_ok updated_views_ok deleted_views_ok)+
qed

definition sample_view_request :: view_request_input where
  "sample_view_request = \<lparr>rq_filters = LegacyFilters [EmptyFilter (js ''a'') Is_empty], rq_name = js '' My view'',
     rq_sort = None\<rparr>"

lemma sample_view_created:
  "(case createSqliteSavedGridView ascii_host sample_grid_scope sample_view_request (js ''v'') 5 creation_grid [] of
      Inr (views, v) \<Rightarrow> views \<noteq> [] \<and> sv_name v = js ''My view'' | Inl _ \<Rightarrow> False)"
  by code_simp

theorem saved_views_history_witness:
  "\<exists>views. views \<noteq> [] \<and> views_ok ascii_host views"
proof -
  obtain views v where c: "createSqliteSavedGridView ascii_host sample_grid_scope sample_view_request (js ''v'') 5
      creation_grid [] = Inr (views, v)" "views \<noteq> []"
    using sample_view_created by (auto split: sum.splits)
  have "(view_step ascii_host)\<^sup>*\<^sup>* [] views" using view_created [OF c(1)] by blast
  then show ?thesis using saved_views_history c(2) by blast
qed

end
