(* ===== verification/Keyset.thy ===== *)
theory Keyset
  imports Comparators
begin

text \<open>
  Paging by key: a page is the next rows, in an order, after the row the cursor was made from.
  The interface asks of a cursor that it selects exactly the rows after its own; then the pages
  are consecutive pieces of the ordered list of all rows.
\<close>

definition page_rows :: "('r \<Rightarrow> 'r \<Rightarrow> int) \<Rightarrow> ('c \<Rightarrow> 'r \<Rightarrow> bool) \<Rightarrow> nat \<Rightarrow> 'c option \<Rightarrow> 'r list \<Rightarrow> 'r list" where
  "page_rows cmp after n cursor rows =
     take n (sort_by cmp (filter (\<lambda>r. case cursor of None \<Rightarrow> True | Some c \<Rightarrow> after c r) rows))"

locale keyset =
  fixes cmp :: "'r \<Rightarrow> 'r \<Rightarrow> int" and after :: "'c \<Rightarrow> 'r \<Rightarrow> bool" and cursor_of :: "'r \<Rightarrow> 'c" and fits :: "'r \<Rightarrow> bool"
  assumes comparator: "comparator cmp"
    and after_iff: "fits x \<Longrightarrow> fits y \<Longrightarrow> after (cursor_of x) y \<longleftrightarrow> cmp x y < 0"
begin

lemma sorted_strict:
  assumes "distinct rows" and key: "\<And>x y. x \<in> set rows \<Longrightarrow> y \<in> set rows \<Longrightarrow> cmp x y = 0 \<Longrightarrow> x = y"
  shows "sorted_wrt (\<lambda>x y. cmp x y < 0) (sort_by cmp rows)"
proof -
  have d: "distinct (sort_by cmp rows)" using assms(1) by (metis mset_sort_by mset_eq_imp_distinct_iff)
  have s: "sorted_wrt (\<lambda>x y. cmp x y \<le> 0) (sort_by cmp rows)" by (rule sorted_sort_by [OF comparator])
  show ?thesis unfolding sorted_wrt_iff_nth_less
  proof (intro allI impI)
    fix i j
    assume ij: "i < j" "j < length (sort_by cmp rows)"
    then have le: "cmp (sort_by cmp rows ! i) (sort_by cmp rows ! j) \<le> 0"
      using s by (simp add: sorted_wrt_iff_nth_less)
    have m: "sort_by cmp rows ! i \<in> set rows" "sort_by cmp rows ! j \<in> set rows"
      using ij nth_mem [of i "sort_by cmp rows"] nth_mem [of j "sort_by cmp rows"] by simp_all
    have "sort_by cmp rows ! i \<noteq> sort_by cmp rows ! j" using d ij by (simp add: nth_eq_iff_index_eq)
    then have "cmp (sort_by cmp rows ! i) (sort_by cmp rows ! j) \<noteq> 0" using key [OF m] by blast
    then show "cmp (sort_by cmp rows ! i) (sort_by cmp rows ! j) < 0" using le by simp
  qed
qed

lemma after_suffix:
  assumes rows: "distinct rows" "\<And>x y. x \<in> set rows \<Longrightarrow> y \<in> set rows \<Longrightarrow> cmp x y = 0 \<Longrightarrow> x = y"
    and fit: "\<And>x. x \<in> set rows \<Longrightarrow> fits x" and i: "i < length rows"
  shows "sort_by cmp (filter (after (cursor_of (sort_by cmp rows ! i))) rows) = drop (Suc i) (sort_by cmp rows)"
proof -
  let ?S = "sort_by cmp rows" and ?P = "after (cursor_of (sort_by cmp rows ! i))"
  have len: "i < length ?S" using i by (metis mset_sort_by mset_eq_length)
  have at: "?S ! i \<in> set rows" using nth_mem [OF len] by simp
  have "mset (filter ?P rows) = mset (filter (\<lambda>y. cmp (?S ! i) y < 0) ?S)"
    using after_iff fit at by (auto intro: filter_mset_cong)
  also have "\<dots> = mset (drop (Suc i) ?S)"
    by (simp only: filter_after [OF comparator sorted_strict [OF rows] len])
  finally have m: "mset (filter ?P rows) = mset (drop (Suc i) ?S)" .
  have key: "x = y" if "x \<in> set rows" "y \<in> set rows" "cmp x y \<le> 0" "cmp y x \<le> 0" for x y
    using rows(2) [OF that(1,2)] that(3,4) comparator_flip [OF comparator, of x y] comparator_zero [OF comparator, of y x] by simp
  show ?thesis
  proof (rule sorted_unique_on [OF key])
    show "sorted_wrt (\<lambda>x y. cmp x y \<le> 0) (sort_by cmp (filter ?P rows))" by (rule sorted_sort_by [OF comparator])
    show "sorted_wrt (\<lambda>x y. cmp x y \<le> 0) (drop (Suc i) ?S)"
      using sorted_sort_by [OF comparator] by (rule sorted_wrt_drop)
    show "mset (sort_by cmp (filter ?P rows)) = mset (drop (Suc i) ?S)" using m by simp
    show "set (sort_by cmp (filter ?P rows)) \<subseteq> set rows" by auto
  qed
qed

end

end
