(* ===== verification/GridPaging.thy ===== *)
theory GridPaging
  imports SavedViews Keyset WorkflowPolicy "HOL-Library.Option_ord" "HOL-Library.Sublist"
begin

text \<open>
  The paged snapshot of a grid (\<open>packages/db/src/sqlite/grid.ts\<close>): the rows of a view that match
  a search, one page at a time, by position or by the view's sort column, with cursors that
  name the last row of a page.
\<close>

section \<open>Sort values\<close>

datatype sort_value = SortText jsstr | SortNumber jsnum | SortBoolean bool | SortTime int

definition sortable :: "value_type \<Rightarrow> bool" where
  "sortable t \<longleftrightarrow> t \<noteq> TEmpty \<and> t \<noteq> TJson"

fun stored_sort_value :: "value_type \<Rightarrow> stored_value \<Rightarrow> sort_value option" where
  "stored_sort_value TText v = map_option SortText (valueText v)"
| "stored_sort_value TNumber v = map_option SortNumber (valueNumber v)"
| "stored_sort_value TBoolean v = map_option SortBoolean (valueBoolean v)"
| "stored_sort_value TTimestamp v = map_option SortTime (valueTimestamp v)"
| "stored_sort_value _ v = None"

text \<open>
  How SQLite orders the values of one type: texts by their UTF-8 bytes, which is the order of
  their code points, numbers by value. Stored numbers are finite.
\<close>

fun sort_rank :: "sort_value \<Rightarrow> nat list \<times> rat" where
  "sort_rank (SortText s) = (code_points s, 0)"
| "sort_rank (SortNumber x) = ([], case x of Fin r \<Rightarrow> r | _ \<Rightarrow> 0)"
| "sort_rank (SortBoolean b) = ([], if b then 1 else 0)"
| "sort_rank (SortTime t) = ([], of_int t)"

record selected_row =
  sel_id :: jsstr
  sel_position :: jsstr
  sel_version :: nat
  sel_empty :: bool
  sel_value :: "sort_value option"

definition directed :: "sort_direction \<Rightarrow> ('a \<Rightarrow> 'a \<Rightarrow> int) \<Rightarrow> 'a \<Rightarrow> 'a \<Rightarrow> int" where
  "directed d cmp = (if d = Ascending then cmp else reversed cmp)"

definition sel_rank :: "selected_row \<Rightarrow> (nat list \<times> rat) option" where
  "sel_rank r = map_option sort_rank (sel_value r)"

text \<open>The two \<open>order by\<close> clauses.\<close>

definition position_order :: "selected_row \<Rightarrow> selected_row \<Rightarrow> int" where
  "position_order = or_else (compare_with sel_position) (compare_with sel_id)"

definition sorted_order :: "sort_direction \<Rightarrow> selected_row \<Rightarrow> selected_row \<Rightarrow> int" where
  "sorted_order d = or_else (compare_with sel_empty)
     (or_else (directed d (compare_with sel_rank)) (directed d (compare_with sel_id)))"

section \<open>Cursors\<close>

datatype cursor_value = CursorNull | CursorBoolean bool | CursorText jsstr

record position_cursor =
  cu_id :: jsstr
  cu_position :: jsstr
  cu_query :: "jsstr option"

record sorted_cursor =
  cu_columnId :: jsstr
  cu_direction :: sort_direction
  cu_empty :: bool
  cu_rowId :: jsstr
  cu_searchQuery :: "jsstr option"
  cu_value :: cursor_value
  cu_viewId :: jsstr

datatype grid_cursor = PositionCursor position_cursor | SortedCursor sorted_cursor

definition json_or_null :: "jsstr option \<Rightarrow> json" where
  "json_or_null s = (case s of None \<Rightarrow> JNull | Some t \<Rightarrow> JStr t)"

fun cursor_json :: "grid_cursor \<Rightarrow> json" where
  "cursor_json (SortedCursor c) = JObj
     [(js ''columnId'', JStr (cu_columnId c)),
      (js ''direction'', JStr (case cu_direction c of Ascending \<Rightarrow> js ''asc'' | Descending \<Rightarrow> js ''desc'')),
      (js ''empty'', JBool (cu_empty c)), (js ''kind'', JStr (js ''sorted'')), (js ''rowId'', JStr (cu_rowId c)),
      (js ''searchQuery'', json_or_null (cu_searchQuery c)),
      (js ''value'', case cu_value c of CursorNull \<Rightarrow> JNull | CursorBoolean b \<Rightarrow> JBool b | CursorText s \<Rightarrow> JStr s),
      (js ''viewId'', JStr (cu_viewId c))]"
| "cursor_json (PositionCursor c) = JObj
     [(js ''id'', JStr (cu_id c)), (js ''kind'', JStr (js ''position'')), (js ''position'', JStr (cu_position c)),
      (js ''searchQuery'', json_or_null (cu_query c))]"

text \<open>
  A cursor travels as the base64url text, without padding, of its JSON; \<open>Buffer\<close> gives back what
  it encoded. Only the length of the text matters here.
\<close>

definition cursor_length :: "grid_cursor \<Rightarrow> nat" where
  "cursor_length c = (4 * utf8ByteLength (stringify (cursor_json c)) + 2) div 3"

definition hex_unit :: "code_unit \<Rightarrow> bool" where
  "hex_unit c \<longleftrightarrow> is_digit c \<or> 97 \<le> c \<and> c \<le> 102 \<or> 65 \<le> c \<and> c \<le> 70"

definition isUuid :: "jsstr \<Rightarrow> bool" where
  "isUuid s \<longleftrightarrow> length s = 36 \<and>
     list_all (\<lambda>(i, c). if i \<in> {8, 13, 18, 23} then c = 45
        else if i = 14 then 49 \<le> c \<and> c \<le> 56
        else if i = 19 then c \<in> {56, 57, 97, 98, 65, 66}
        else hex_unit c) (enumerate 0 s)"

definition short_query :: "jsstr option \<Rightarrow> bool" where
  "short_query q = (case q of None \<Rightarrow> True | Some s \<Rightarrow> length s \<le> 120)"

text \<open>The checks of the shape that the types of the model leave open.\<close>

fun decodeGridCursor :: "grid_cursor \<Rightarrow> grid_error + grid_cursor" where
  "decodeGridCursor (SortedCursor c) =
     (if 1024 < cursor_length (SortedCursor c) \<or> \<not> short_query (cu_searchQuery c)
        \<or> \<not> isUuid (cu_columnId c) \<or> \<not> isUuid (cu_rowId c) \<or> \<not> isUuid (cu_viewId c)
        \<or> (case cu_value c of CursorText s \<Rightarrow> 4096 < length s | _ \<Rightarrow> False)
      then Inl GridValidation else Inr (SortedCursor c))"
| "decodeGridCursor (PositionCursor c) =
     (if 1024 < cursor_length (PositionCursor c) \<or> \<not> short_query (cu_query c)
        \<or> \<not> isUuid (cu_id c) \<or> 512 < length (cu_position c)
      then Inl GridValidation else Inr (PositionCursor c))"

fun normalizeSortedCursorValue :: "sort_value \<Rightarrow> value_type \<Rightarrow> grid_error + cursor_value" where
  "normalizeSortedCursorValue (SortText s) TText = Inr (CursorText s)"
| "normalizeSortedCursorValue (SortNumber x) TNumber = Inr (CursorText (number_to_string x))"
| "normalizeSortedCursorValue (SortBoolean b) TBoolean = Inr (CursorBoolean b)"
| "normalizeSortedCursorValue (SortTime t) TTimestamp =
     (if \<bar>t\<bar> \<le> max_time then Inr (CursorText (toISOString t)) else Inl GridValidation)"
| "normalizeSortedCursorValue _ _ = Inl GridValidation"

fun parseSortedCursorValue :: "host \<Rightarrow> cursor_value \<Rightarrow> value_type \<Rightarrow> grid_error + sort_value" where
  "parseSortedCursorValue h (CursorText s) TText = Inr (SortText s)"
| "parseSortedCursorValue h (CursorText s) TNumber =
     (if finite_num (string_to_number s) then Inr (SortNumber (string_to_number s)) else Inl GridValidation)"
| "parseSortedCursorValue h (CursorBoolean b) TBoolean = Inr (SortBoolean b)"
| "parseSortedCursorValue h (CursorText s) TTimestamp =
     (case new_date h s of None \<Rightarrow> Inl GridValidation | Some t \<Rightarrow> Inr (SortTime t))"
| "parseSortedCursorValue h _ _ = Inl GridValidation"

definition encodeGridCursor :: "selected_row \<Rightarrow> saved_view option \<Rightarrow> jsstr option \<Rightarrow> (jsstr \<Rightarrow> value_type option)
    \<Rightarrow> grid_error + grid_cursor" where
  "encodeGridCursor row view query types =
     (case (view, Option.bind view sv_sort) of
        (Some v, Some s) \<Rightarrow>
          (case types (sort_columnId s) of
             None \<Rightarrow> Inl GridValidation
           | Some t \<Rightarrow>
               if \<not> sortable t then Inl GridValidation
               else and_then (if sel_empty row then Inr CursorNull
                       else case sel_value row of None \<Rightarrow> Inl GridValidation | Some x \<Rightarrow> normalizeSortedCursorValue x t)
                 (\<lambda>value. Inr (SortedCursor \<lparr>cu_columnId = sort_columnId s, cu_direction = sort_direction s,
                    cu_empty = sel_empty row, cu_rowId = sel_id row, cu_searchQuery = query, cu_value = value,
                    cu_viewId = sv_id v\<rparr>)))
      | _ \<Rightarrow> Inr (PositionCursor \<lparr>cu_id = sel_id row, cu_position = sel_position row, cu_query = query\<rparr>))"

definition position_after :: "position_cursor \<Rightarrow> selected_row \<Rightarrow> bool" where
  "position_after c r \<longleftrightarrow> cu_position c < sel_position r \<or> sel_position r = cu_position c \<and> cu_id c < sel_id r"

definition buildSortedCursorPredicate :: "host \<Rightarrow> sorted_cursor \<Rightarrow> value_type \<Rightarrow> grid_error + (selected_row \<Rightarrow> bool)" where
  "buildSortedCursorPredicate h c t =
     (let rowAfter = (\<lambda>r. if cu_direction c = Ascending then cu_rowId c < sel_id r else sel_id r < cu_rowId c)
      in if cu_empty c then Inr (\<lambda>r. sel_empty r \<and> rowAfter r)
         else if cu_value c = CursorNull then Inl GridValidation
         else and_then (parseSortedCursorValue h (cu_value c) t) (\<lambda>v.
           let valueAfter = (\<lambda>x. if cu_direction c = Ascending then sort_rank v < sort_rank x else sort_rank x < sort_rank v)
           in Inr (\<lambda>r. \<not> sel_empty r
                  \<and> (case sel_value r of None \<Rightarrow> False
                     | Some x \<Rightarrow> valueAfter x \<or> sort_rank x = sort_rank v \<and> rowAfter r)
                \<or> sel_empty r)))"

section \<open>The rows of a page\<close>

text \<open>\<open>text like pattern escape '\'\<close>: SQLite folds the case of ASCII letters.\<close>

definition same_letter :: "code_unit \<Rightarrow> code_unit \<Rightarrow> bool" where
  "same_letter c d \<longleftrightarrow> ascii_lower [c] = ascii_lower [d]"

fun sql_like :: "jsstr \<Rightarrow> jsstr \<Rightarrow> bool" where
  "sql_like [] s = (s = [])"
| "sql_like (p # ps) s =
     (if p = 37 then sql_like ps s \<or> (case s of [] \<Rightarrow> False | c # s' \<Rightarrow> sql_like (p # ps) s')
      else if p = 92 then (case ps of [] \<Rightarrow> False
        | q # qs \<Rightarrow> (case s of [] \<Rightarrow> False | c # s' \<Rightarrow> same_letter q c \<and> sql_like qs s'))
      else (case s of [] \<Rightarrow> False | c # s' \<Rightarrow> (p = 95 \<or> same_letter p c) \<and> sql_like ps s'))"

definition escape_like :: "jsstr \<Rightarrow> jsstr" where
  "escape_like q = concat (map (\<lambda>c. if c \<in> {92, 37, 95} then [92, c] else [c]) q)"

definition search_pattern :: "jsstr \<Rightarrow> jsstr" where
  "search_pattern q = [37] @ escape_like q @ [37]"

definition in_row :: "grid_row \<Rightarrow> grid_cell \<Rightarrow> bool" where
  "in_row r c \<longleftrightarrow> gc_workspaceId c = row_workspaceId r \<and> gc_tableId c = row_tableId r \<and> gc_rowId c = row_id r"

text \<open>The text the triggers of the migrations store for the search is an argument.\<close>

definition buildSqliteGridSearchPredicate :: "(grid_cell \<Rightarrow> jsstr) \<Rightarrow> jsstr option \<Rightarrow> grid_db \<Rightarrow> grid_row \<Rightarrow> bool" where
  "buildSqliteGridSearchPredicate search_text query db r =
     (case query of
        None \<Rightarrow> True
      | Some q \<Rightarrow> list_ex (\<lambda>c. in_row r c \<and> sql_like (search_pattern q) (search_text c)) (g_cells db))"

definition filter_cells :: "host \<Rightarrow> grid_db \<Rightarrow> grid_row \<Rightarrow> (jsstr \<times> cell_row) list" where
  "filter_cells h db r =
     [(gc_columnId c, \<lparr>cell_value = v, cell_status = gc_status c\<rparr>).
        c \<leftarrow> select_where (in_row r) (g_cells db), Some v \<leftarrow> [deserializeSqliteCellValue h (gc_value c)]]"

definition visible_rows :: "host \<Rightarrow> (grid_cell \<Rightarrow> jsstr) \<Rightarrow> grid_scope \<Rightarrow> saved_view option \<Rightarrow> jsstr option \<Rightarrow> grid_db \<Rightarrow> grid_row list" where
  "visible_rows h search_text sc view query db =
     [r. r \<leftarrow> g_rows db, m \<leftarrow> g_members db,
       grid_member sc (row_workspaceId r) m \<and> row_workspaceId r = gs_workspaceId sc \<and> row_tableId r = gs_tableId sc
       \<and> row_archivedAt r = None
       \<and> (case view of None \<Rightarrow> True | Some v \<Rightarrow> filterTreePredicate h (filter_cells h db r) (sv_filterTree v))
       \<and> buildSqliteGridSearchPredicate search_text query db r]"

definition position_row :: "grid_row \<Rightarrow> selected_row" where
  "position_row r = \<lparr>sel_id = row_id r, sel_position = row_position r, sel_version = row_version r,
     sel_empty = True, sel_value = None\<rparr>"

text \<open>\<open>sqliteGridViewSortExpressions\<close> on the left join with the cell of the sort column, of which
  there is at most one.\<close>

definition sorted_row :: "value_type \<Rightarrow> jsstr \<Rightarrow> grid_db \<Rightarrow> grid_row \<Rightarrow> selected_row" where
  "sorted_row t columnId db r =
     (let cell = first_row (select_where (\<lambda>c. in_row r c \<and> gc_columnId c = columnId) (g_cells db))
      in \<lparr>sel_id = row_id r, sel_position = row_position r, sel_version = row_version r,
          sel_empty = (case cell of None \<Rightarrow> True | Some c \<Rightarrow> valueType (gc_value c) = TEmpty),
          sel_value = (case cell of None \<Rightarrow> None | Some c \<Rightarrow> stored_sort_value t (gc_value c))\<rparr>)"

fun cursor_query :: "grid_cursor \<Rightarrow> jsstr option" where
  "cursor_query (PositionCursor c) = cu_query c"
| "cursor_query (SortedCursor c) = cu_searchQuery c"

definition selectSqliteGridRows :: "host \<Rightarrow> (grid_cell \<Rightarrow> jsstr) \<Rightarrow> grid_scope \<Rightarrow> saved_view option \<Rightarrow> grid_cursor option
    \<Rightarrow> nat \<Rightarrow> jsstr option \<Rightarrow> (jsstr \<Rightarrow> value_type option) \<Rightarrow> grid_db \<Rightarrow> grid_error + selected_row list" where
  "selectSqliteGridRows h search_text sc view cursor limit query types db =
     (if (case cursor of None \<Rightarrow> False | Some c \<Rightarrow> cursor_query c \<noteq> query) then Inl GridValidation
      else case (view, Option.bind view sv_sort) of
        (Some v, Some s) \<Rightarrow>
          (case types (sort_columnId s) of
             None \<Rightarrow> Inl GridValidation
           | Some t \<Rightarrow>
               if \<not> sortable t then Inl GridValidation
               else let rs = map (sorted_row t (sort_columnId s) db) (visible_rows h search_text sc view query db)
                    in (case cursor of
                          None \<Rightarrow> Inr (page_rows (sorted_order (sort_direction s)) (\<lambda>(_ :: sorted_cursor) _. True) limit None rs)
                        | Some (PositionCursor _) \<Rightarrow> Inl GridValidation
                        | Some (SortedCursor c) \<Rightarrow>
                            if cu_viewId c \<noteq> sv_id v \<or> cu_columnId c \<noteq> sort_columnId s \<or> cu_direction c \<noteq> sort_direction s
                            then Inl GridValidation
                            else and_then (buildSortedCursorPredicate h c t) (\<lambda>P.
                              Inr (page_rows (sorted_order (sort_direction s)) (\<lambda>_. P) limit (Some c) rs))))
      | _ \<Rightarrow>
          (case cursor of
             Some (SortedCursor _) \<Rightarrow> Inl GridValidation
           | Some (PositionCursor c) \<Rightarrow>
               Inr (page_rows position_order position_after limit (Some c)
                 (map position_row (visible_rows h search_text sc view query db)))
           | None \<Rightarrow>
               Inr (page_rows position_order position_after limit None
                 (map position_row (visible_rows h search_text sc view query db)))))"

section \<open>Search\<close>

lemma like_percent: "sql_like (37 # ps) s \<longleftrightarrow> (\<exists>t. suffix t s \<and> sql_like ps t)"
proof (induction s)
  case Nil
  show ?case by (subst sql_like.simps) simp
next
  case (Cons c s)
  have "sql_like (37 # ps) (c # s) \<longleftrightarrow> sql_like ps (c # s) \<or> sql_like (37 # ps) s" by (subst sql_like.simps) simp
  then show ?case unfolding Cons.IH by (auto simp: suffix_Cons)
qed

lemma like_any [simp]: "sql_like [37] s"
  by (auto simp: like_percent simp del: sql_like.simps(2) intro: exI [of _ "[]"])

lemma like_literal: "sql_like (escape_like q @ [37]) s \<longleftrightarrow> prefix (ascii_lower q) (ascii_lower s)"
proof (induction q arbitrary: s)
  case Nil
  then show ?case by (simp add: escape_like_def ascii_lower_def del: sql_like.simps(2))
next
  case (Cons c q)
  have e: "escape_like (c # q) = (if c \<in> {92, 37, 95} then [92, c] else [c]) @ escape_like q" by (simp add: escape_like_def)
  show ?case
  proof (cases s)
    case Nil
    then show ?thesis using e by (auto simp: ascii_lower_def)
  next
    case (Cons d s')
    then show ?thesis using e Cons.IH by (auto simp: ascii_lower_def same_letter_def)
  qed
qed

lemma lower_drop: "drop n (ascii_lower s) = ascii_lower (drop n s)"
  by (simp add: ascii_lower_def drop_map)

lemma like_search: "sql_like (search_pattern q) s \<longleftrightarrow> sublist (ascii_lower q) (ascii_lower s)"
proof -
  have "sql_like (search_pattern q) s \<longleftrightarrow> (\<exists>t. suffix t s \<and> prefix (ascii_lower q) (ascii_lower t))"
    by (simp add: search_pattern_def like_percent like_literal del: sql_like.simps(2))
  also have "\<dots> \<longleftrightarrow> (\<exists>t. suffix t (ascii_lower s) \<and> prefix (ascii_lower q) t)"
    by (fastforce simp: ascii_lower_def suffix_def map_eq_append_conv)
  also have "\<dots> \<longleftrightarrow> sublist (ascii_lower q) (ascii_lower s)"
    by (auto simp: sublist_altdef')
  finally show ?thesis .
qed

text \<open>
  C33. A search selects a row exactly if some cell of the row has a search text that contains
  the query, upper and lower case of ASCII letters alike: the characters with a meaning in a
  pattern stand for themselves.
\<close>

theorem search_matches_text:
  "buildSqliteGridSearchPredicate search_text (Some q) db r \<longleftrightarrow>
     (\<exists>c \<in> set (g_cells db). in_row r c \<and> sublist (ascii_lower q) (ascii_lower (search_text c)))"
  by (simp add: buildSqliteGridSearchPredicate_def list_ex_iff like_search)

section \<open>The snapshot\<close>

definition parseGridSearchQuery :: "host \<Rightarrow> jsstr option \<Rightarrow> grid_error + jsstr option" where
  "parseGridSearchQuery h value =
     (case value of
        None \<Rightarrow> Inr None
      | Some s \<Rightarrow> if trim s = [] then Inr None
          else (case gridSearchQuery h s of None \<Rightarrow> Inl GridValidation | Some q \<Rightarrow> Inr (Some q)))"

definition readConnectorRunMode :: "column_configuration \<Rightarrow> run_mode" where
  "readConnectorRunMode doc =
     (case doc of ConnectorActionConfiguration mode \<Rightarrow> mode | _ \<Rightarrow> Manual_run)"

record column_view =
  cv_id :: jsstr
  cv_kind :: column_kind
  cv_name :: jsstr
  cv_position :: jsstr
  cv_runMode :: "run_mode option"
  cv_valueType :: value_type

record row_view =
  rv_id :: jsstr
  rv_position :: jsstr
  rv_version :: nat
  rv_cells :: "(jsstr \<times> grid_cell_view) list"

record grid_snapshot =
  snap_view :: "(jsstr \<times> jsstr) option"
  snap_columns :: "column_view list"
  snap_hasMore :: bool
  snap_next :: "grid_cursor option"
  snap_rows :: "row_view list"
  snap_query :: "jsstr option"
  snap_table :: "jsstr \<times> jsstr"
  snap_workspaceId :: jsstr

record snapshot_options =
  so_cursor :: "grid_cursor option"
  so_limit :: "int option"
  so_query :: "jsstr option"
  so_viewId :: "jsstr option"

definition grid_columns :: "grid_scope \<Rightarrow> grid_db \<Rightarrow> column_row list" where
  "grid_columns sc db = sort_key col_position
     [c. c \<leftarrow> g_columns db, m \<leftarrow> g_members db, grid_member sc (col_workspaceId c) m
       \<and> col_workspaceId c = gs_workspaceId sc \<and> col_tableId c = gs_tableId sc \<and> col_archivedAt c = None]"

definition column_types :: "grid_scope \<Rightarrow> grid_db \<Rightarrow> jsstr \<Rightarrow> value_type option" where
  "column_types sc db = map_of (map_from (map (\<lambda>c. (col_id c, col_valueType c)) (grid_columns sc db)))"

definition toColumnView :: "column_row \<Rightarrow> column_view" where
  "toColumnView c = \<lparr>cv_id = col_id c, cv_kind = col_kind c, cv_name = col_name c, cv_position = col_position c,
     cv_runMode = (if col_kind c = Connector_column then Some (readConnectorRunMode (col_configuration c)) else None),
     cv_valueType = col_valueType c\<rparr>"

definition page_cells :: "grid_scope \<Rightarrow> jsstr list \<Rightarrow> grid_db \<Rightarrow> grid_cell list" where
  "page_cells sc rowIds db =
     (if rowIds = [] then []
      else [x. x \<leftarrow> g_cells db, m \<leftarrow> g_members db, grid_member sc (gc_workspaceId x) m
             \<and> gc_workspaceId x = gs_workspaceId sc \<and> gc_tableId x = gs_tableId sc \<and> gc_rowId x \<in> set rowIds])"

text \<open>The view a request names; an empty identifier names none.\<close>

definition active_view :: "host \<Rightarrow> grid_scope \<Rightarrow> jsstr option \<Rightarrow> grid_db \<Rightarrow> saved_view_row list \<Rightarrow> grid_error + saved_view option" where
  "active_view h sc viewId db views =
     (case viewId of
        None \<Rightarrow> Inr None
      | Some i \<Rightarrow> if i = [] then Inr None
          else and_then (getSqliteSavedGridView h sc i db views) (\<lambda>v. Inr (Some v)))"

definition page_limit :: "int option \<Rightarrow> nat" where
  "page_limit limit = nat (max 1 (min (case limit of None \<Rightarrow> 100 | Some n \<Rightarrow> n) 200))"

definition row_views :: "selected_row list \<Rightarrow> (grid_cell \<times> grid_cell_view) list \<Rightarrow> row_view list" where
  "row_views gridRows cs = map (\<lambda>(i, r). \<lparr>rv_id = i, rv_position = sel_position r, rv_version = sel_version r,
       rv_cells = map_from [(gc_columnId c, v). (c, v) \<leftarrow> cs, gc_rowId c = i]\<rparr>)
     (map_from (map (\<lambda>r. (sel_id r, r)) gridRows))"

definition getSqliteGridSnapshot :: "host \<Rightarrow> (grid_cell \<Rightarrow> jsstr) \<Rightarrow> grid_scope \<Rightarrow> snapshot_options \<Rightarrow> grid_db
    \<Rightarrow> saved_view_row list \<Rightarrow> grid_error + grid_snapshot" where
  "getSqliteGridSnapshot h search_text sc options db views =
     and_then (requireTableAccess sc db) (\<lambda>table.
     and_then (parseGridSearchQuery h (so_query options)) (\<lambda>query.
     and_then (case so_cursor options of None \<Rightarrow> Inr None | Some c \<Rightarrow> and_then (decodeGridCursor c) (\<lambda>c. Inr (Some c))) (\<lambda>cursor.
     and_then (active_view h sc (so_viewId options) db views) (\<lambda>view.
       let limit = page_limit (so_limit options); types = column_types sc db
       in and_then (selectSqliteGridRows h search_text sc view cursor (limit + 1) query types db) (\<lambda>selectedRows.
            let hasMore = limit < length selectedRows; gridRows = take limit selectedRows
            in and_then (map_result (\<lambda>x. and_then (toGridCell h x) (\<lambda>v. Inr (x, v)))
                 (page_cells sc (map sel_id gridRows) db)) (\<lambda>cs.
               and_then (if hasMore \<and> gridRows \<noteq> []
                         then and_then (encodeGridCursor (last gridRows) view query types) (\<lambda>c. Inr (Some c))
                         else Inr None) (\<lambda>next.
                 Inr \<lparr>snap_view = map_option (\<lambda>v. (sv_id v, sv_name v)) view,
                      snap_columns = map toColumnView (grid_columns sc db), snap_hasMore = hasMore, snap_next = next,
                      snap_rows = row_views gridRows cs, snap_query = query, snap_table = table,
                      snap_workspaceId = gs_workspaceId sc\<rparr>)))))))"

section \<open>Cursors and orders\<close>

definition position_cursor_of :: "jsstr option \<Rightarrow> selected_row \<Rightarrow> position_cursor" where
  "position_cursor_of q r = \<lparr>cu_id = sel_id r, cu_position = sel_position r, cu_query = q\<rparr>"

interpretation position_pages: keyset position_order position_after "position_cursor_of q" "\<lambda>_. True" for q
  by unfold_locales
    (auto simp: position_order_def position_after_def position_cursor_of_def or_else_iff compare_with_iff comparator_or_else)

definition sorted_cursor_value :: "value_type \<Rightarrow> selected_row \<Rightarrow> cursor_value" where
  "sorted_cursor_value t r =
     (if sel_empty r then CursorNull
      else case sel_value r of None \<Rightarrow> CursorNull
        | Some x \<Rightarrow> (case normalizeSortedCursorValue x t of Inl _ \<Rightarrow> CursorNull | Inr cv \<Rightarrow> cv))"

definition sorted_cursor_of :: "value_type \<Rightarrow> saved_view \<Rightarrow> grid_view_sort \<Rightarrow> jsstr option \<Rightarrow> selected_row \<Rightarrow> sorted_cursor" where
  "sorted_cursor_of t v s q r =
     \<lparr>cu_columnId = sort_columnId s, cu_direction = sort_direction s, cu_empty = sel_empty r, cu_rowId = sel_id r,
      cu_searchQuery = q, cu_value = sorted_cursor_value t r, cu_viewId = sv_id v\<rparr>"

definition sorted_after :: "host \<Rightarrow> value_type \<Rightarrow> sorted_cursor \<Rightarrow> selected_row \<Rightarrow> bool" where
  "sorted_after h t c r = (case buildSortedCursorPredicate h c t of Inl _ \<Rightarrow> False | Inr P \<Rightarrow> P r)"

text \<open>A row whose sort value a cursor of the column's type can carry and give back.\<close>

definition sort_fits :: "host \<Rightarrow> value_type \<Rightarrow> selected_row \<Rightarrow> bool" where
  "sort_fits h t r =
     (if sel_empty r then sel_value r = None
      else case sel_value r of None \<Rightarrow> False
        | Some x \<Rightarrow> (case normalizeSortedCursorValue x t of Inl _ \<Rightarrow> False
            | Inr cv \<Rightarrow> (case parseSortedCursorValue h cv t of Inl _ \<Rightarrow> False | Inr y \<Rightarrow> sort_rank y = sort_rank x)))"

lemma normalized_value: "normalizeSortedCursorValue x t = Inr cv \<Longrightarrow> cv \<noteq> CursorNull"
  by (induction x t rule: normalizeSortedCursorValue.induct) (auto split: if_splits)

lemma directed_iff:
  "directed d (compare_with f) x y < 0 \<longleftrightarrow> (if d = Ascending then f x < f y else f y < f x)"
  "directed d (compare_with f) x y = 0 \<longleftrightarrow> f x = f y"
  by (simp_all add: directed_def compare_with_iff reversed_iff)

lemma sorted_order_comparator: "comparator (sorted_order d)"
  by (simp add: sorted_order_def directed_def comparator_or_else comparator_reversed)

lemma sorted_after_iff:
  assumes x: "sort_fits h t x" and y: "sort_fits h t y"
  shows "sorted_after h t (sorted_cursor_of t v s q x) y \<longleftrightarrow> sorted_order (sort_direction s) x y < 0"
proof (cases "sel_empty x")
  case True
  then show ?thesis using x y
    by (auto simp: sorted_after_def buildSortedCursorPredicate_def sorted_cursor_of_def sorted_order_def Let_def
        or_else_iff directed_iff compare_with_iff sort_fits_def sel_rank_def)
next
  case False
  with x obtain a cv b where a: "sel_value x = Some a" "normalizeSortedCursorValue a t = Inr cv"
    "parseSortedCursorValue h cv t = Inr b" "sort_rank b = sort_rank a"
    unfolding sort_fits_def by (auto split: option.splits sum.splits)
  show ?thesis
  proof (cases "sel_empty y")
    case True
    then show ?thesis using False a normalized_value [OF a(2)]
      by (simp add: sorted_after_def buildSortedCursorPredicate_def sorted_cursor_of_def sorted_cursor_value_def
          sorted_order_def Let_def or_else_iff compare_with_iff)
  next
    case yne: False
    with y obtain c where c: "sel_value y = Some c" unfolding sort_fits_def by (auto split: option.splits)
    show ?thesis using False yne a c normalized_value [OF a(2)]
      by (auto simp: sorted_after_def buildSortedCursorPredicate_def sorted_cursor_of_def sorted_cursor_value_def
          sorted_order_def Let_def or_else_iff compare_with_iff directed_iff sel_rank_def)
  qed
qed

interpretation sorted_pages: keyset "sorted_order (sort_direction s)" "sorted_after h t" "sorted_cursor_of t v s q" "sort_fits h t"
  for h t v s q
  by unfold_locales (simp_all add: sorted_after_iff sorted_order_comparator)

section \<open>Which cursors fit\<close>

definition plain_unit :: "code_unit \<Rightarrow> bool" where
  "plain_unit c \<longleftrightarrow> 32 \<le> c \<and> c < 127 \<and> c \<noteq> 34 \<and> c \<noteq> 92"

lemma plain_unit_escape: "plain_unit c \<Longrightarrow> \<not> is_high c \<and> \<not> is_low c \<and> escape_unit c = [c]"
  by (auto simp: plain_unit_def is_high_def is_low_def escape_unit_def not_less word_less_nat_alt word_le_nat_alt)

lemma plain_escape: "list_all plain_unit s \<Longrightarrow> escape_units s = s"
  by (induction s rule: escape_units.induct) (auto simp: plain_unit_escape)

lemma plain_quote: "list_all plain_unit s \<Longrightarrow> quote_string s = 34 # s @ [34]"
  by (simp add: quote_string_def plain_escape)

lemma ascii_bytes: "list_all (\<lambda>c. c < 128) s \<Longrightarrow> utf8ByteLength s = length s"
proof (induction s rule: code_points.induct)
  case 1
  then show ?case by (simp add: utf8ByteLength_def)
next
  case (2 c)
  then show ?case by (simp add: utf8ByteLength_def utf8_width_def word_less_nat_alt)
next
  case (3 c d s)
  then have "\<not> is_high c" by (auto simp: is_high_def word_less_nat_alt word_le_nat_alt)
  then show ?case using 3 by (simp add: utf8ByteLength_def utf8_width_def word_less_nat_alt)
qed

lemma plain_ascii: "list_all plain_unit s \<Longrightarrow> list_all (\<lambda>c. c < 128) s"
  by (induction s) (auto simp: plain_unit_def word_less_nat_alt)

definition ascii_within :: "nat \<Rightarrow> jsstr \<Rightarrow> bool" where
  "ascii_within n s \<longleftrightarrow> length s \<le> n \<and> list_all (\<lambda>c. c < 128) s"

lemma ascii_within_quote: "list_all plain_unit s \<Longrightarrow> length s + 2 \<le> n \<Longrightarrow> ascii_within n (quote_string s)"
  by (simp add: ascii_within_def plain_quote plain_ascii)

lemma ascii_within_append: "ascii_within a s \<Longrightarrow> ascii_within b t \<Longrightarrow> ascii_within (a + b) (s @ t)"
  by (simp add: ascii_within_def)

lemma ascii_within_cons: "c < 128 \<Longrightarrow> ascii_within b t \<Longrightarrow> ascii_within (Suc b) (c # t)"
  by (simp add: ascii_within_def)

lemma ascii_within_nil: "ascii_within 0 []"
  by (simp add: ascii_within_def)

lemma ascii_within_le: "ascii_within a s \<Longrightarrow> a \<le> b \<Longrightarrow> ascii_within b s"
  by (simp add: ascii_within_def)

lemma cursor_words:
  "ascii_within 13 (quote_string (js ''columnId''))" "ascii_within 13 (quote_string (js ''direction''))"
  "ascii_within 13 (quote_string (js ''empty''))" "ascii_within 13 (quote_string (js ''kind''))"
  "ascii_within 13 (quote_string (js ''sorted''))" "ascii_within 13 (quote_string (js ''rowId''))"
  "ascii_within 13 (quote_string (js ''searchQuery''))" "ascii_within 13 (quote_string (js ''value''))"
  "ascii_within 13 (quote_string (js ''viewId''))" "ascii_within 13 (quote_string (js ''asc''))"
  "ascii_within 13 (quote_string (js ''desc''))" "ascii_within 13 (js ''true'')" "ascii_within 13 (js ''false'')"
  "ascii_within 13 (js ''null'')"
  by code_simp+

lemma sorted_cursor_short:
  assumes ids: "length (cu_columnId c) \<le> 36" "length (cu_rowId c) \<le> 36" "length (cu_viewId c) \<le> 36"
    "list_all plain_unit (cu_columnId c @ cu_rowId c @ cu_viewId c)"
    and q: "case cu_searchQuery c of None \<Rightarrow> True | Some s \<Rightarrow> length s \<le> 120 \<and> list_all plain_unit s"
    and v: "case cu_value c of CursorText s \<Rightarrow> length s \<le> 300 \<and> list_all plain_unit s | _ \<Rightarrow> True"
  shows "cursor_length (SortedCursor c) \<le> 1024"
proof -
  have b: "ascii_within 13 (stringify (JBool b))" for b by (simp add: cursor_words)
  have d: "ascii_within 13 (quote_string (case cu_direction c of Ascending \<Rightarrow> js ''asc'' | Descending \<Rightarrow> js ''desc''))"
    by (cases "cu_direction c") (simp_all add: cursor_words)
  have i: "ascii_within 38 (quote_string (cu_columnId c))" "ascii_within 38 (quote_string (cu_rowId c))"
    "ascii_within 38 (quote_string (cu_viewId c))"
    by (rule ascii_within_quote; use ids in simp)+
  have s: "ascii_within 122 (stringify (json_or_null (cu_searchQuery c)))"
    using q cursor_words by (auto simp: json_or_null_def intro: ascii_within_quote ascii_within_le split: option.splits)
  have t: "ascii_within 302 (stringify (case cu_value c of CursorNull \<Rightarrow> JNull | CursorBoolean b \<Rightarrow> JBool b | CursorText s \<Rightarrow> JStr s))"
    using v cursor_words
    by (auto intro: ascii_within_quote ascii_within_le [OF cursor_words(12)] ascii_within_le [OF cursor_words(13)]
        ascii_within_le [OF cursor_words(14)] split: cursor_value.splits)
  have units: "c \<in> {44, 58, 123, 125} \<Longrightarrow> ascii_within b t \<Longrightarrow> ascii_within (Suc b) (c # t)" for c b t
    by (rule ascii_within_cons) auto
  have "ascii_within 720 (stringify (cursor_json (SortedCursor c)))"
    by (rule ascii_within_le)
      (simp only: cursor_json.simps stringify.simps(4,6) list.map prod.case join_with.simps append_assoc append_Cons append_Nil,
       (rule units [OF insertI1] units [OF insertI2 [OF insertI1]] units [OF insertI2 [OF insertI2 [OF insertI1]]]
        units [OF insertI2 [OF insertI2 [OF insertI2 [OF insertI1]]]] ascii_within_append ascii_within_nil cursor_words b d i s t)+, simp_all)
  then have "utf8ByteLength (stringify (cursor_json (SortedCursor c))) \<le> 720" by (simp only: ascii_bytes ascii_within_def)
  then show ?thesis unfolding cursor_length_def by linarith
qed

lemma length_escape: "length s \<le> length (escape_units s)"
proof (induction s rule: escape_units.induct)
  case 1
  then show ?case by simp
next
  case (2 c)
  then show ?case by (simp add: unicode_escape_def escape_unit_def Let_def)
next
  case (3 c d s)
  then show ?case by (cases "is_high c \<and> is_low d") (auto simp: unicode_escape_def escape_unit_def Let_def)
qed

lemma long_sort_value_refused:
  assumes "\<not> sel_empty r" "sel_value r = Some (SortText s)" "769 \<le> length s"
  shows "decodeGridCursor (SortedCursor (sorted_cursor_of TText v srt q r)) = Inl GridValidation"
proof -
  define c where "c = sorted_cursor_of TText v srt q r"
  have l: "length (quote_string s) \<le> length (stringify (cursor_json (SortedCursor c)))"
    using assms(1,2) by (simp add: c_def sorted_cursor_of_def sorted_cursor_value_def)
  have "769 \<le> length (quote_string s)" using assms(3) length_escape [of s] by (simp add: quote_string_def)
  then have "769 \<le> utf8ByteLength (stringify (cursor_json (SortedCursor c)))"
    using l utf8ByteLength_bounds [of "stringify (cursor_json (SortedCursor c))"] by linarith
  then have "1024 < cursor_length (SortedCursor c)" unfolding cursor_length_def by linarith
  then show ?thesis by (simp add: c_def [symmetric])
qed

end
