(* ===== verification/WorkflowData.thy ===== *)
theory WorkflowData
  imports GridPaging
begin

text \<open>
  The row batches of workflow steps (\<open>packages/db/src/sqlite/workflow-data.ts\<close>,
  \<open>packages/domain/src/workflow-rows.ts\<close>): selecting the rows of a table or view page by page,
  splitting a batch by a filter, and copying a batch into another table.
\<close>

section \<open>Batches\<close>

definition MAXIMUM_WORKFLOW_ROW_BATCH_SIZE :: nat where
  "MAXIMUM_WORKFLOW_ROW_BATCH_SIZE = 500"

definition MAXIMUM_WORKFLOW_WRITE_CELLS :: nat where
  "MAXIMUM_WORKFLOW_WRITE_CELLS = 5000"

record row_reference =
  ref_rowId :: jsstr
  ref_tableId :: jsstr

definition workflowRowBatch :: "host \<Rightarrow> row_reference list \<Rightarrow> grid_error + row_reference list" where
  "workflowRowBatch h batch =
     (if length batch \<le> MAXIMUM_WORKFLOW_ROW_BATCH_SIZE
         \<and> list_all (\<lambda>r. valid_uuid h (ref_rowId r) \<and> valid_uuid h (ref_tableId r)) batch
      then Inr batch else Inl RowBatchInvalid)"

section \<open>Selection\<close>

record selection_input =
  sl_searchQuery :: "jsstr option"
  sl_tableId :: jsstr
  sl_userId :: jsstr
  sl_viewId :: "jsstr option"
  sl_workspaceId :: jsstr

definition selection_scope :: "selection_input \<Rightarrow> grid_scope" where
  "selection_scope inp = \<lparr>gs_tableId = sl_tableId inp, gs_userId = sl_userId inp, gs_workspaceId = sl_workspaceId inp\<rparr>"

definition selection_page :: "host \<Rightarrow> (grid_cell \<Rightarrow> jsstr) \<Rightarrow> selection_input \<Rightarrow> grid_db \<Rightarrow> saved_view_row list
    \<Rightarrow> grid_cursor option \<Rightarrow> nat \<Rightarrow> grid_error + grid_snapshot" where
  "selection_page h search_text inp db views cursor selected =
     getSqliteGridSnapshot h search_text (selection_scope inp)
       \<lparr>so_cursor = cursor, so_limit = Some (min 200 (int MAXIMUM_WORKFLOW_ROW_BATCH_SIZE + 1 - int selected)),
        so_query = sl_searchQuery inp, so_viewId = sl_viewId inp\<rparr> db views"

lemma map_from_nonempty: "es \<noteq> [] \<Longrightarrow> map_from es \<noteq> []"
proof (induction es rule: rev_induct)
  case (snoc e es)
  have "AList.update k v m \<noteq> []" for k v and m :: "('a \<times> 'b) list" by (cases m) auto
  then show ?case by (simp add: map_from_def split_beta)
qed simp

lemma next_page_rows:
  assumes "getSqliteGridSnapshot h search_text sc options db views = Inr snap" "snap_next snap \<noteq> None"
  shows "snap_rows snap \<noteq> []"
proof -
  obtain gridRows cs where "snap_rows snap = row_views gridRows cs" "gridRows \<noteq> []"
    using assms unfolding getSqliteGridSnapshot_def Let_def and_then_eq_Inr
    by (auto split: if_splits)
  then show ?thesis by (simp add: row_views_def map_from_nonempty)
qed

text \<open>The \<open>do ... while\<close> over the pages.\<close>

function select_pages :: "host \<Rightarrow> (grid_cell \<Rightarrow> jsstr) \<Rightarrow> selection_input \<Rightarrow> grid_db \<Rightarrow> saved_view_row list
    \<Rightarrow> grid_cursor option \<Rightarrow> row_reference list \<Rightarrow> grid_error + row_reference list" where
  "select_pages h search_text inp db views cursor selected =
     (case selection_page h search_text inp db views cursor (length selected) of
        Inl e \<Rightarrow> Inl e
      | Inr snapshot \<Rightarrow>
          let selected' = selected @ map (\<lambda>r. \<lparr>ref_rowId = rv_id r, ref_tableId = sl_tableId inp\<rparr>) (snap_rows snapshot)
          in if MAXIMUM_WORKFLOW_ROW_BATCH_SIZE < length selected' then Inl WorkflowRowsRefused
             else (case snap_next snapshot of
                     None \<Rightarrow> Inr selected'
                   | Some c \<Rightarrow> select_pages h search_text inp db views (Some c) selected'))"
  by pat_completeness auto
termination
proof (relation "measure (\<lambda>(h, search_text, inp, db, views, cursor, selected).
    MAXIMUM_WORKFLOW_ROW_BATCH_SIZE + 1 - length selected)", goal_cases)
  case 1
  show ?case by simp
next
  case (2 h search_text inp db views cursor selected snapshot selected' c)
  then have "snap_rows snapshot \<noteq> []" unfolding selection_page_def by (intro next_page_rows) auto
  then show ?case using 2 by (cases "snap_rows snapshot") auto
qed

declare select_pages.simps [simp del]

definition selectSqliteWorkflowRowBatch :: "host \<Rightarrow> (grid_cell \<Rightarrow> jsstr) \<Rightarrow> selection_input \<Rightarrow> grid_db \<Rightarrow> saved_view_row list
    \<Rightarrow> grid_error + row_reference list" where
  "selectSqliteWorkflowRowBatch h search_text inp db views =
     and_then (select_pages h search_text inp db views None []) (workflowRowBatch h)"

section \<open>The pages of a listing\<close>

definition listing :: "host \<Rightarrow> (grid_cell \<Rightarrow> jsstr) \<Rightarrow> grid_scope \<Rightarrow> saved_view option \<Rightarrow> jsstr option \<Rightarrow> grid_db \<Rightarrow> selected_row list" where
  "listing h search_text sc view query db =
     (case Option.bind view sv_sort of
        None \<Rightarrow> sort_by position_order (map position_row (visible_rows h search_text sc view query db))
      | Some s \<Rightarrow>
          (case column_types sc db (sort_columnId s) of
             None \<Rightarrow> []
           | Some t \<Rightarrow> sort_by (sorted_order (sort_direction s))
               (map (sorted_row t (sort_columnId s) db) (visible_rows h search_text sc view query db))))"

text \<open>A row whose cursor the code accepts again and whose sort value the cursor carries.\<close>

definition pageable :: "host \<Rightarrow> grid_scope \<Rightarrow> saved_view option \<Rightarrow> jsstr option \<Rightarrow> grid_db \<Rightarrow> selected_row \<Rightarrow> bool" where
  "pageable h sc view query db r \<longleftrightarrow>
     (case encodeGridCursor r view query (column_types sc db) of Inl _ \<Rightarrow> False | Inr c \<Rightarrow> decodeGridCursor c = Inr c)
     \<and> (case Option.bind view sv_sort of
          None \<Rightarrow> True
        | Some s \<Rightarrow> (case column_types sc db (sort_columnId s) of None \<Rightarrow> False | Some t \<Rightarrow> sort_fits h t r))"

text \<open>The sort column of the view, if there is one, is a column one can sort by.\<close>

definition listable :: "grid_scope \<Rightarrow> saved_view option \<Rightarrow> grid_db \<Rightarrow> bool" where
  "listable sc view db \<longleftrightarrow>
     (case Option.bind view sv_sort of
        None \<Rightarrow> True
      | Some s \<Rightarrow> (case column_types sc db (sort_columnId s) of None \<Rightarrow> False | Some t \<Rightarrow> sortable t))"

definition unique_members :: "grid_db \<Rightarrow> bool" where
  "unique_members db \<longleftrightarrow> distinct (map (\<lambda>m. (member_workspaceId m, member_userId m)) (g_members db))"

lemma one_match: "distinct (map key ms) \<Longrightarrow> length (filter (\<lambda>m. key m = k) ms) \<le> 1"
  by (induction ms) (auto simp: filter_empty_conv image_iff)

lemma joined_row: "concat (map (\<lambda>m. if P m then [r] else []) ms) = replicate (length (filter P ms)) r"
  by (induction ms) auto

lemma joined_distinct:
  assumes "\<And>r. length (filter (Q r) ms) \<le> 1" and "distinct (map f rows)"
  shows "distinct (map f (concat (map (\<lambda>r. concat (map (\<lambda>m. if Q r m then [r] else []) ms)) rows)))"
  using assms(2)
proof (induction rows)
  case (Cons r rows)
  have n: "length (filter (Q r) ms) = 0 \<or> length (filter (Q r) ms) = 1" using assms(1) [of r] by linarith
  have s: "set (concat (map (\<lambda>r. concat (map (\<lambda>m. if Q r m then [r] else []) ms)) rows)) \<subseteq> set rows"
    by (auto split: if_splits)
  have o: "f x \<noteq> f r" if "x \<in> set rows" for x using that Cons.prems by (auto simp: image_iff)
  show ?case using n Cons s by (auto simp: joined_row dest: o)
qed simp

lemma visible_ids:
  assumes "unique_members db" "distinct (map row_id (g_rows db))"
  shows "distinct (map row_id (visible_rows h search_text sc view query db))"
proof -
  have "length (filter (\<lambda>m. grid_member sc w m \<and> C) (g_members db)) \<le> 1" for w C
    using one_match [OF assms(1) [unfolded unique_members_def], of "(w, gs_userId sc)"]
    by (cases C) (simp_all add: grid_member_def)
  then show ?thesis unfolding visible_rows_def by (intro joined_distinct [OF _ assms(2)])
qed

lemma listing_ids:
  assumes "unique_members db" "distinct (map row_id (g_rows db))"
  shows "distinct (map sel_id (listing h search_text sc view query db))"
proof -
  have sorted: "distinct (map sel_id (sort_by c rs))" if "distinct (map sel_id rs)" for c rs
    using that by (metis mset_sort_by mset_map mset_eq_imp_distinct_iff)
  show ?thesis using visible_ids [OF assms, of h search_text sc view query]
    by (auto intro!: sorted simp: listing_def o_def position_row_def sorted_row_def Let_def split: option.splits)
qed

text \<open>The cursor of the page that starts at a place of the listing.\<close>

definition cursor_at :: "saved_view option \<Rightarrow> jsstr option \<Rightarrow> (jsstr \<Rightarrow> value_type option) \<Rightarrow> selected_row list \<Rightarrow> nat \<Rightarrow> grid_cursor option" where
  "cursor_at view query types rs k =
     (if k = 0 then None
      else case encodeGridCursor (rs ! (k - 1)) view query types of Inl _ \<Rightarrow> None | Inr c \<Rightarrow> Some c)"

lemma page_start: "page_rows cmp after n None rs = take n (sort_by cmp rs)"
  by (simp add: page_rows_def)

lemma sort_fits_value:
  assumes "sort_fits h t r" "sortable t" "types (sort_columnId s) = Some t" "sv_sort v = Some s"
  shows "encodeGridCursor r (Some v) query types = Inr (SortedCursor (sorted_cursor_of t v s query r))"
  using assms by (auto simp: encodeGridCursor_def sort_fits_def sorted_cursor_of_def sorted_cursor_value_def
      split: if_splits option.splits sum.splits)

lemma sorted_predicate:
  assumes "sort_fits h t r"
  shows "\<exists>P. buildSortedCursorPredicate h (sorted_cursor_of t v s query r) t = Inr P"
  using assms normalized_value
  by (fastforce simp: buildSortedCursorPredicate_def sort_fits_def sorted_cursor_of_def sorted_cursor_value_def Let_def
      split: if_splits option.splits sum.splits)

lemma position_page:
  assumes keys: "distinct (map row_id vs)" and S: "S = sort_by position_order (map position_row vs)"
    and i: "i < length S"
  shows "page_rows position_order position_after n (Some (position_cursor_of q (S ! i))) (map position_row vs)
    = take n (drop (Suc i) S)"
proof -
  have d: "distinct (map sel_id (map position_row vs))" using keys by (simp add: o_def position_row_def)
  have "sort_by position_order (filter (position_after (position_cursor_of q (S ! i))) (map position_row vs)) = drop (Suc i) S"
    unfolding S
  proof (rule position_pages.after_suffix)
    show "distinct (map position_row vs)" using d unfolding distinct_map [of sel_id] by (rule conjunct1)
    show "x = y" if "x \<in> set (map position_row vs)" "y \<in> set (map position_row vs)" "position_order x y = 0" for x y
      using unique_row [OF d that(1,2)] that(3) by (simp add: position_order_def or_else_iff compare_with_iff)
    show "i < length (map position_row vs)" using i unfolding S by (metis mset_sort_by mset_eq_length)
  qed simp
  then show ?thesis by (simp add: page_rows_def)
qed

lemma sorted_page:
  assumes keys: "distinct (map row_id vs)" and rs: "rs = map (sorted_row t c db) vs"
    and S: "S = sort_by (sorted_order (sort_direction s)) rs"
    and fit: "\<And>r. r \<in> set rs \<Longrightarrow> sort_fits h t r" and i: "i < length S"
    and P: "buildSortedCursorPredicate h (sorted_cursor_of t v s q (S ! i)) t = Inr P"
  shows "page_rows (sorted_order (sort_direction s)) (\<lambda>_. P) n (Some x) rs = take n (drop (Suc i) S)"
proof -
  have d: "distinct (map sel_id rs)" using keys by (simp add: rs o_def sorted_row_def Let_def)
  have e: "sorted_after h t (sorted_cursor_of t v s q (S ! i)) = P" using P by (auto simp: sorted_after_def)
  have "sort_by (sorted_order (sort_direction s)) (filter (sorted_after h t (sorted_cursor_of t v s q (S ! i))) rs) = drop (Suc i) S"
    unfolding S
  proof (rule sorted_pages.after_suffix)
    show "distinct rs" using d unfolding distinct_map [of sel_id] by (rule conjunct1)
    show "a = b" if "a \<in> set rs" "b \<in> set rs" "sorted_order (sort_direction s) a b = 0" for a b
      using unique_row [OF d that(1,2)] that(3) by (simp add: sorted_order_def or_else_iff directed_iff)
    show "i < length rs" using i unfolding S by (metis mset_sort_by mset_eq_length)
  qed (rule fit)
  then show ?thesis unfolding e by (simp add: page_rows_def)
qed

lemma selected_page:
  assumes members: "unique_members db" and ids: "distinct (map row_id (g_rows db))" and l: "listable sc view db"
    and S: "S = listing h search_text sc view query db" and k: "k = 0 \<or> k < length S"
    and p: "\<And>r. r \<in> set S \<Longrightarrow> pageable h sc view query db r"
  shows "selectSqliteGridRows h search_text sc view (cursor_at view query (column_types sc db) S k) n query (column_types sc db) db
    = Inr (take n (drop k S))"
proof -
  define vs where "vs = visible_rows h search_text sc view query db"
  have keys: "distinct (map row_id vs)" unfolding vs_def by (rule visible_ids [OF members ids])
  show ?thesis
  proof (cases "Option.bind view sv_sort")
    case None
    then have S': "S = sort_by position_order (map position_row vs)" by (simp add: S listing_def vs_def)
    have c: "encodeGridCursor r view query (column_types sc db) = Inr (PositionCursor (position_cursor_of query r))" for r
      using None by (auto simp: encodeGridCursor_def position_cursor_of_def split: option.splits)
    show ?thesis
    proof (cases k)
      case 0
      then show ?thesis using None
        by (auto simp: selectSqliteGridRows_def cursor_at_def page_start S' vs_def split: option.splits)
    next
      case (Suc i)
      then show ?thesis using None k position_page [OF keys S', of i n query]
        by (auto simp: selectSqliteGridRows_def cursor_at_def c position_cursor_of_def vs_def split: option.splits)
    qed
  next
    case (Some s)
    then obtain v where v: "view = Some v" "sv_sort v = Some s" by (cases view) auto
    obtain t where t: "column_types sc db (sort_columnId s) = Some t" "sortable t"
      using l Some by (auto simp: listable_def split: option.splits)
    define rs where "rs = map (sorted_row t (sort_columnId s) db) vs"
    have S': "S = sort_by (sorted_order (sort_direction s)) rs" using Some t by (simp add: S listing_def rs_def vs_def)
    have fit: "sort_fits h t r" if "r \<in> set rs" for r
      using p [of r] that S' Some t by (simp add: pageable_def)
    show ?thesis
    proof (cases k)
      case 0
      then show ?thesis using v t S' by (simp add: selectSqliteGridRows_def cursor_at_def page_start rs_def vs_def Let_def)
    next
      case (Suc i)
      then have i: "i < length S" using k by simp
      then have f: "sort_fits h t (S ! i)" using fit nth_mem [OF i] S' by simp
      obtain P where P: "buildSortedCursorPredicate h (sorted_cursor_of t v s query (S ! i)) t = Inr P"
        using sorted_predicate [OF f] by blast
      have c: "encodeGridCursor (S ! i) view query (column_types sc db) = Inr (SortedCursor (sorted_cursor_of t v s query (S ! i)))"
        using sort_fits_value [of h t "S ! i" "column_types sc db" s v query] f t v by simp
      have g: "cursor_at view query (column_types sc db) S k = Some (SortedCursor (sorted_cursor_of t v s query (S ! i)))"
        using Suc c by (simp add: cursor_at_def)
      show ?thesis unfolding g using v t P Suc sorted_page [OF keys rs_def S' fit i P, of n]
        by (simp add: selectSqliteGridRows_def Let_def rs_def vs_def sorted_cursor_of_def)
    qed
  qed
qed

text \<open>What the pages of one listing share.\<close>

definition page_setting :: "host \<Rightarrow> (grid_cell \<Rightarrow> jsstr) \<Rightarrow> grid_scope \<Rightarrow> jsstr option \<Rightarrow> saved_view option \<Rightarrow> grid_db \<Rightarrow> selected_row list \<Rightarrow> bool" where
  "page_setting h search_text sc query view db S \<longleftrightarrow>
     grid_ok h db \<and> unique_members db \<and> listable sc view db \<and> S = listing h search_text sc view query db
     \<and> list_all (pageable h sc view query db) S"

lemma page_cursor:
  assumes "page_setting h search_text sc query view db S" "0 < j" "j \<le> length S"
  shows "\<exists>c. cursor_at view query (column_types sc db) S j = Some c
    \<and> encodeGridCursor (S ! (j - 1)) view query (column_types sc db) = Inr c \<and> decodeGridCursor c = Inr c"
proof -
  have "j - 1 < length S" using assms(2,3) by simp
  then have "pageable h sc view query db (S ! (j - 1))"
    using assms(1) nth_mem [of "j - 1" S] by (simp only: page_setting_def list_all_iff)
  then show ?thesis using assms(2) by (auto simp: pageable_def cursor_at_def split: sum.splits)
qed

lemma row_view_ids:
  assumes "distinct (map sel_id rs)"
  shows "map rv_id (row_views rs cs) = map sel_id rs"
  by (simp add: row_views_def keys_map_from [OF assms] o_def)

lemma page_cells_readable:
  assumes "grid_ok h db"
  shows "\<exists>cs. map_result (\<lambda>x. and_then (toGridCell h x) (\<lambda>v. Inr (x, v))) (page_cells sc ids db) = Inr cs"
proof (rule map_result_ex)
  fix x
  assume "x \<in> set (page_cells sc ids db)"
  then have "x \<in> set (g_cells db)" by (auto simp: page_cells_def split: if_splits)
  then obtain v where "toGridCell h x = Inr v"
    using toGridCell_ok [of h db x] assms by (auto simp: grid_ok_def)
  then show "\<exists>y. and_then (toGridCell h x) (\<lambda>v. Inr (x, v)) = Inr y" by simp
qed

lemma snapshot_page:
  assumes set: "page_setting h search_text sc query view db S"
    and t: "requireTableAccess sc db = Inr tbl" and q: "parseGridSearchQuery h raw = Inr query"
    and v: "active_view h sc viewId db views = Inr view" and k: "k = 0 \<or> k < length S"
    and n: "n = page_limit limit" and c: "cursor = cursor_at view query (column_types sc db) S k"
  shows "\<exists>snap. getSqliteGridSnapshot h search_text sc
      \<lparr>so_cursor = cursor, so_limit = limit, so_query = raw, so_viewId = viewId\<rparr> db views = Inr snap
    \<and> map rv_id (snap_rows snap) = map sel_id (take n (drop k S))
    \<and> snap_next snap = (if k + n < length S then cursor_at view query (column_types sc db) S (k + n) else None)"
proof -
  have ids: "unique_members db" "distinct (map row_id (g_rows db))" and l: "listable sc view db"
    and S: "S = listing h search_text sc view query db" and ok: "grid_ok h db"
    using set by (simp_all add: page_setting_def grid_ok_def)
  have p: "pageable h sc view query db r" if "r \<in> set S" for r
    using set that by (simp add: page_setting_def list_all_iff)
  have d: "distinct (map sel_id S)" unfolding S by (rule listing_ids [OF ids])
  have n1: "1 \<le> n" unfolding n page_limit_def by simp
  have dec: "(case cursor of None \<Rightarrow> Inr None | Some c \<Rightarrow> and_then (decodeGridCursor c) (\<lambda>c. Inr (Some c))) = Inr cursor"
    using page_cursor [OF set, of k] k by (cases "k = 0") (auto simp: c cursor_at_def [of _ _ _ _ 0])
  have sel: "selectSqliteGridRows h search_text sc view cursor (n + 1) query (column_types sc db) db = Inr (take (n + 1) (drop k S))"
    unfolding c by (rule selected_page [OF ids l S k p])
  obtain cs where cs: "map_result (\<lambda>x. and_then (toGridCell h x) (\<lambda>v. Inr (x, v)))
      (page_cells sc (map sel_id (take n (take (n + 1) (drop k S)))) db) = Inr cs"
    using page_cells_readable [OF ok] by blast
  define gridRows where "gridRows = take n (take (n + 1) (drop k S))"
  have g: "gridRows = take n (drop k S)" by (simp add: gridRows_def min_def)
  have gd: "distinct (map sel_id gridRows)" using d unfolding g by (simp add: take_map [symmetric] drop_map [symmetric])
  have more: "n < length (take (n + 1) (drop k S)) \<longleftrightarrow> k + n < length S" by auto
  have nxt: "(if k + n < length S \<and> gridRows \<noteq> []
        then and_then (encodeGridCursor (last gridRows) view query (column_types sc db)) (\<lambda>c. Inr (Some c)) else Inr None)
      = Inr (if k + n < length S then cursor_at view query (column_types sc db) S (k + n) else None)"
  proof (cases "k + n < length S")
    case True
    then have len: "length gridRows = n" by (simp add: g)
    then have ne: "gridRows \<noteq> []" using n1 by auto
    have "last gridRows = S ! (k + n - 1)" using True n1 len ne by (simp add: last_conv_nth g)
    then show ?thesis using True ne n1 page_cursor [OF set, of "k + n"] by auto
  qed simp
  note cs' = cs [folded gridRows_def]
  show ?thesis
    unfolding getSqliteGridSnapshot_def Let_def snapshot_options.select_convs t q and_then.simps dec v n [symmetric] sel
      gridRows_def [symmetric] cs' more nxt
    using row_view_ids [OF gd, of cs] by (simp add: g)
qed

definition reference_of :: "jsstr \<Rightarrow> selected_row \<Rightarrow> row_reference" where
  "reference_of tableId r = \<lparr>ref_rowId = sel_id r, ref_tableId = tableId\<rparr>"

lemma selected_pages:
  assumes set: "page_setting h search_text (selection_scope inp) query view db S"
    and t: "requireTableAccess (selection_scope inp) db = Inr tbl"
    and q: "parseGridSearchQuery h (sl_searchQuery inp) = Inr query"
    and v: "active_view h (selection_scope inp) (sl_viewId inp) db views = Inr view"
  shows "k = 0 \<or> k < length S \<Longrightarrow> k \<le> 500 \<Longrightarrow> selected = map (reference_of (sl_tableId inp)) (take k S)
    \<Longrightarrow> cursor = cursor_at view query (column_types (selection_scope inp) db) S k
    \<Longrightarrow> select_pages h search_text inp db views cursor selected
      = (if 500 < length S then Inl WorkflowRowsRefused else Inr (map (reference_of (sl_tableId inp)) S))"
proof (induction "501 - k" arbitrary: k cursor selected rule: less_induct)
  case (less k)
  let ?ref = "reference_of (sl_tableId inp)"
  have len: "length selected = k" using less.prems by auto
  define n where "n = min 200 (501 - k)"
  have n: "n = page_limit (Some (min 200 (int MAXIMUM_WORKFLOW_ROW_BATCH_SIZE + 1 - int k)))" "1 \<le> n" "n \<le> 501 - k"
    using less.prems(2) by (auto simp: n_def page_limit_def MAXIMUM_WORKFLOW_ROW_BATCH_SIZE_def)
  obtain snap where page: "selection_page h search_text inp db views cursor (length selected) = Inr snap"
    and rows: "map rv_id (snap_rows snap) = map sel_id (take n (drop k S))"
    and nxt: "snap_next snap = (if k + n < length S then cursor_at view query (column_types (selection_scope inp) db) S (k + n) else None)"
    using snapshot_page [OF set t q v less.prems(1) n(1) less.prems(4)] unfolding selection_page_def len by blast
  have "map (\<lambda>r. \<lparr>ref_rowId = rv_id r, ref_tableId = sl_tableId inp\<rparr>) (snap_rows snap) = map ?ref (take n (drop k S))"
    using arg_cong [OF rows, of "map (\<lambda>i. \<lparr>ref_rowId = i, ref_tableId = sl_tableId inp\<rparr>)"]
    by (simp add: reference_of_def [abs_def] o_def)
  then have sel: "selected @ map (\<lambda>r. \<lparr>ref_rowId = rv_id r, ref_tableId = sl_tableId inp\<rparr>) (snap_rows snap) = map ?ref (take (k + n) S)"
    using less.prems(3) by (simp add: take_add)
  have step: "select_pages h search_text inp db views cursor selected =
     (if 500 < length (take (k + n) S) then Inl WorkflowRowsRefused
      else case snap_next snap of None \<Rightarrow> Inr (map ?ref (take (k + n) S))
        | Some c \<Rightarrow> select_pages h search_text inp db views (Some c) (map ?ref (take (k + n) S)))"
    by (subst select_pages.simps) (simp add: page sel Let_def MAXIMUM_WORKFLOW_ROW_BATCH_SIZE_def)
  show ?case
  proof (cases "k + n < length S \<and> k + n \<le> 500")
    case True
    obtain c where c: "cursor_at view query (column_types (selection_scope inp) db) S (k + n) = Some c"
      using page_cursor [OF set, of "k + n"] True n(2) by auto
    have "select_pages h search_text inp db views (Some c) (map ?ref (take (k + n) S))
        = (if 500 < length S then Inl WorkflowRowsRefused else Inr (map ?ref S))"
      by (rule less.hyps [of "k + n"]) (use True n(2) c in auto)
    then show ?thesis using True c by (simp add: step nxt)
  next
    case False
    have "n = 200 \<or> n = 501 - k" by (auto simp: n_def)
    then show ?thesis using False n(3) less.prems(2) by (auto simp: step nxt)
  qed
qed

section \<open>What a row needs for its cursor\<close>

text \<open>
  The payload of a stored cell is in the column of its type, an empty cell has none, and
  \<open>Date.parse\<close> reads a stored timestamp in the form \<open>toISOString\<close> gives it.
\<close>

definition payload_stored :: "host \<Rightarrow> stored_value \<Rightarrow> bool" where
  "payload_stored h c \<longleftrightarrow>
     (case valueType c of
        TEmpty \<Rightarrow> c = no_value TEmpty
      | TText \<Rightarrow> valueText c \<noteq> None
      | TNumber \<Rightarrow> valueNumber c \<noteq> None
      | TBoolean \<Rightarrow> valueBoolean c \<noteq> None
      | TTimestamp \<Rightarrow> (case valueTimestamp c of None \<Rightarrow> False | Some t \<Rightarrow> new_date h (toISOString t) = Some t)
      | TJson \<Rightarrow> True)"

text \<open>
  The identifiers in the cursor of a row are UUIDs, its position is at most 512 code units, and the
  text of the cursor at most 1024 characters, which bounds the sort value.
\<close>

definition cursor_fits :: "grid_scope \<Rightarrow> saved_view option \<Rightarrow> jsstr option \<Rightarrow> grid_db \<Rightarrow> selected_row \<Rightarrow> bool" where
  "cursor_fits sc view query db r \<longleftrightarrow> isUuid (sel_id r) \<and>
     (case (view, Option.bind view sv_sort) of
        (Some v, Some s) \<Rightarrow> isUuid (sort_columnId s) \<and> isUuid (sv_id v)
          \<and> (case column_types sc db (sort_columnId s) of None \<Rightarrow> True
             | Some t \<Rightarrow> cursor_length (SortedCursor (sorted_cursor_of t v s query r)) \<le> 1024)
      | _ \<Rightarrow> length (sel_position r) \<le> 512 \<and> cursor_length (PositionCursor (position_cursor_of query r)) \<le> 1024)"

lemma column_types_type:
  assumes "grid_ok h db" and "column_types sc db c = Some t"
  shows "column_type db c = Some t"
proof -
  have "(c, t) \<in> set (map (\<lambda>c. (col_id c, col_valueType c)) (grid_columns sc db))"
    using map_of_SomeD [OF assms(2) [unfolded column_types_def map_of_map_from_rev]] by simp
  then obtain d where "d \<in> set (g_columns db)" "col_id d = c" "col_valueType d = t"
    by (auto simp: grid_columns_def split: if_splits)
  then show ?thesis using row_at_mem [of col_id "g_columns db" d] assms(1) by (simp add: column_type_def grid_ok_def)
qed

lemma payload_sort_value:
  assumes v: "deserializeSqliteCellValue h c = Some v" "has_type h v t" and p: "payload_stored h c" and t: "sortable t"
  shows "sort_fits h t \<lparr>sel_id = i, sel_position = p', sel_version = n, sel_empty = (valueType c = TEmpty),
    sel_value = stored_sort_value t c\<rparr>"
proof (cases "valueType c = TEmpty")
  case True
  then show ?thesis using p t by (cases t) (simp_all add: payload_stored_def sort_fits_def no_value_def)
next
  case False
  then have ty: "valueType c = t" "v \<noteq> CEmpty" using deserialized_type [OF v(1)] v(2) by (auto simp: has_type_def)
  show ?thesis
  proof (cases t)
    case TText
    then show ?thesis using p ty by (auto simp: payload_stored_def sort_fits_def)
  next
    case TNumber
    then obtain x where x: "valueNumber c = Some x" using p ty by (auto simp: payload_stored_def)
    then have "v = CNumber x" using v(1) ty TNumber by (simp add: deserializeSqliteCellValue_def)
    then obtain r where r: "x = Fin r" "is_double r" using v(2) by (cases x) (simp_all add: has_type_def number_of_def)
    then show ?thesis using x ty TNumber number_reads [OF r(2)] by (simp add: sort_fits_def del: number_to_string.simps)
  next
    case TBoolean
    then show ?thesis using p ty by (auto simp: payload_stored_def sort_fits_def)
  next
    case TTimestamp
    then obtain u where u: "valueTimestamp c = Some u" "new_date h (toISOString u) = Some u"
      using p ty by (auto simp: payload_stored_def split: option.splits)
    then have "\<bar>u\<bar> \<le> max_time" by (auto simp: new_date_def split: option.splits if_splits)
    then show ?thesis using u ty TTimestamp by (simp add: sort_fits_def)
  qed (use t in \<open>simp_all add: sortable_def\<close>)
qed

lemma sorted_row_fits:
  assumes ok: "grid_ok h db" and p: "\<forall>c \<in> set (g_cells db). payload_stored h (gc_value c)"
    and t: "column_types sc db columnId = Some t" "sortable t"
  shows "sort_fits h t (sorted_row t columnId db r)"
proof (cases "first_row (select_where (\<lambda>c. in_row r c \<and> gc_columnId c = columnId) (g_cells db))")
  case None
  then show ?thesis by (simp add: sorted_row_def sort_fits_def)
next
  case (Some c)
  then have c: "c \<in> set (g_cells db)" "gc_columnId c = columnId"
    using first_row_mem [OF Some] by (auto simp: select_where_def)
  obtain v u where v: "deserializeSqliteCellValue h (gc_value c) = Some v" "column_type db columnId = Some u" "has_type h v u"
    using ok c by (auto simp: grid_ok_def cells_ok_def cell_ok_def)
  then have "has_type h v t" using column_types_type [OF ok t(1)] by simp
  from payload_sort_value [OF v(1) this _ t(2)] p c(1) show ?thesis by (simp add: sorted_row_def Some)
qed

lemma position_row_cursor:
  assumes "Option.bind view sv_sort = None"
  shows "encodeGridCursor r view query types = Inr (PositionCursor (position_cursor_of query r))"
  using assms by (auto simp: encodeGridCursor_def position_cursor_of_def split: option.splits)

lemma listed_pageable:
  assumes ok: "grid_ok h db" and p: "\<forall>c \<in> set (g_cells db). payload_stored h (gc_value c)"
    and l: "listable sc view db" and q: "parseGridSearchQuery h raw = Inr query"
    and r: "r \<in> set (listing h search_text sc view query db)" and f: "cursor_fits sc view query db r"
  shows "pageable h sc view query db r"
proof -
  have short: "short_query query"
    using q by (auto simp: parseGridSearchQuery_def gridSearchQuery_def short_query_def Let_def split: option.splits if_splits)
  show ?thesis
  proof (cases "Option.bind view sv_sort")
    case None
    then have "decodeGridCursor (PositionCursor (position_cursor_of query r)) = Inr (PositionCursor (position_cursor_of query r))"
      using f short by (auto simp: cursor_fits_def position_cursor_of_def split: option.splits)
    then show ?thesis using None by (simp add: pageable_def position_row_cursor del: decodeGridCursor.simps)
  next
    case (Some s)
    then obtain v where v: "view = Some v" "sv_sort v = Some s" by (cases view) auto
    obtain t where t: "column_types sc db (sort_columnId s) = Some t" "sortable t"
      using l Some by (auto simp: listable_def split: option.splits)
    obtain r' where "r = sorted_row t (sort_columnId s) db r'" using r Some t by (auto simp: listing_def)
    then have fit: "sort_fits h t r" using sorted_row_fits [OF ok p t] by simp
    let ?c = "sorted_cursor_of t v s query r"
    have e: "encodeGridCursor r view query (column_types sc db) = Inr (SortedCursor ?c)"
      unfolding v(1) by (rule sort_fits_value [where types = "column_types sc db", OF fit t(2,1) v(2)])
    have len: "cursor_length (SortedCursor ?c) \<le> 1024" "isUuid (sel_id r)" "isUuid (sort_columnId s)" "isUuid (sv_id v)"
      using f v t by (simp_all add: cursor_fits_def)
    have "length x \<le> 4096" if "cu_value ?c = CursorText x" for x
    proof -
      have "length (quote_string x) \<le> length (stringify (cursor_json (SortedCursor ?c)))" using that by simp
      moreover have "length (stringify (cursor_json (SortedCursor ?c))) \<le> 1024"
        using len(1) utf8ByteLength_bounds [of "stringify (cursor_json (SortedCursor ?c))"] unfolding cursor_length_def by linarith
      ultimately show ?thesis using length_escape [of x] by (simp add: quote_string_def)
    qed
    then have "decodeGridCursor (SortedCursor ?c) = Inr (SortedCursor ?c)"
      using len short unfolding decodeGridCursor.simps
      by (cases "cu_value ?c") (simp_all add: sorted_cursor_of_def not_less)
    then show ?thesis using e fit v t by (simp add: pageable_def del: decodeGridCursor.simps)
  qed
qed

text \<open>
  C34. The selection of a workflow trigger is the whole listing. Reading a table or view page by
  page, with the cursor of each page's last row, gives every row that the view and the search
  select, once and in the order of the view, if there are at most 500 of them, and the size error
  otherwise; whatever is hidden behind page sizes and cursors does not show. The condition is that the
  cursor of every row is within the bounds of its decoder, 1024 characters of text above all: a sort
  value of 769 code units or more makes the selection fail (\<open>long_sort_value_refused\<close>).
\<close>

theorem batch_is_listing:
  assumes "grid_ok h db" and "unique_members db" and "listable (selection_scope inp) view db"
    and "requireTableAccess (selection_scope inp) db = Inr tbl"
    and "parseGridSearchQuery h (sl_searchQuery inp) = Inr query"
    and "active_view h (selection_scope inp) (sl_viewId inp) db views = Inr view"
    and "S = listing h search_text (selection_scope inp) view query db"
    and "list_all (cursor_fits (selection_scope inp) view query db) S"
    and "\<forall>c \<in> set (g_cells db). payload_stored h (gc_value c)"
    and "valid_uuid h (sl_tableId inp)" and "list_all (\<lambda>r. valid_uuid h (sel_id r)) S"
  shows "selectSqliteWorkflowRowBatch h search_text inp db views =
    (if 500 < length S then Inl WorkflowRowsRefused else Inr (map (reference_of (sl_tableId inp)) S))"
proof -
  have "pageable h (selection_scope inp) view query db r" if "r \<in> set S" for r
    using listed_pageable [OF assms(1,9,3,5), of r search_text] assms(7,8) that by (simp add: list_all_iff)
  then have set: "page_setting h search_text (selection_scope inp) query view db S"
    using assms(1-3,7) by (simp add: page_setting_def list_all_iff)
  show ?thesis using selected_pages [OF set assms(4-6), of 0 "[]" None] assms(10,11)
    by (simp add: selectSqliteWorkflowRowBatch_def cursor_at_def workflowRowBatch_def list_all_iff reference_of_def
        MAXIMUM_WORKFLOW_ROW_BATCH_SIZE_def)
qed

section \<open>A selection\<close>

definition paged_id :: "code_unit \<Rightarrow> jsstr" where
  "paged_id d = js ''00000000-0000-4000-8000-00000000000'' @ [d]"

definition paged_row :: "code_unit \<Rightarrow> grid_row" where
  "paged_row d = \<lparr>row_id = paged_id d, row_workspaceId = js ''w'', row_tableId = js ''t'', row_position = js ''p'',
     row_version = 1, row_archivedAt = None, row_updatedAt = 0\<rparr>"

definition paged_cell :: "code_unit \<Rightarrow> jsstr \<Rightarrow> grid_cell" where
  "paged_cell d s = \<lparr>gc_id = [d], gc_workspaceId = js ''w'', gc_tableId = js ''t'', gc_rowId = paged_id d,
     gc_columnId = paged_id 65, gc_value = (no_value TText)\<lparr>valueText := Some s\<rparr>, gc_status = Idle, gc_version = 1,
     gc_updatedAt = 0\<rparr>"

text \<open>Three rows, two of which a search for \<open>xyz\<close> finds, in a view sorted by their texts.\<close>

definition paged_grid :: grid_db where
  "paged_grid = \<lparr>g_members = [\<lparr>member_workspaceId = js ''w'', member_userId = js ''m'', member_role = Owner\<rparr>],
     g_tables = [\<lparr>table_id = js ''t'', table_workspaceId = js ''w'', table_name = js ''T'', table_archivedAt = None\<rparr>],
     g_columns = [\<lparr>col_id = paged_id 65, col_workspaceId = js ''w'', col_tableId = js ''t'', col_name = js ''A'',
       col_kind = Input_column, col_valueType = TText, col_position = js ''p'', col_configuration = OtherConfiguration,
       col_archivedAt = None\<rparr>],
     g_rows = [paged_row 49, paged_row 50, paged_row 51],
     g_cells = [paged_cell 49 (js ''xyz''), paged_cell 50 (js ''no''), paged_cell 51 (js ''A_XyZ'')],
     g_dependencies = [], g_webhooks = [], g_writebacks = [], g_settlements = [], g_outbox = [], g_fresh = 0\<rparr>"

definition paged_view :: saved_view_row where
  "paged_view = \<lparr>view_row_id = paged_id 66, view_workspaceId = js ''w'', view_tableId = js ''t'', view_name = js ''V'',
     view_filters = LegacyFilters [],
     view_sort = Some \<lparr>sort_columnId = paged_id 65, sort_direction = Ascending\<rparr>,
     view_createdByUserId = None, view_createdAt = 0, view_updatedAt = 0\<rparr>"

definition paged_input :: selection_input where
  "paged_input = \<lparr>sl_searchQuery = Some (js ''xyz''), sl_tableId = js ''t'', sl_userId = js ''m'',
     sl_viewId = Some (paged_id 66), sl_workspaceId = js ''w''\<rparr>"

definition cell_text :: "grid_cell \<Rightarrow> jsstr" where
  "cell_text c = (case valueText (gc_value c) of None \<Rightarrow> [] | Some s \<Rightarrow> s)"

definition paged_active :: saved_view where
  "paged_active = \<lparr>sv_id = paged_id 66, sv_name = js ''V'', sv_filterTree = FilterGroup [] And, sv_sort = view_sort paged_view\<rparr>"

lemma paged_view_active:
  "active_view ascii_host (selection_scope paged_input) (sl_viewId paged_input) paged_grid [paged_view] = Inr (Some paged_active)"
  by code_simp

lemma paged_query: "parseGridSearchQuery ascii_host (sl_searchQuery paged_input) = Inr (Some (js ''xyz''))"
  by code_simp

lemma paged_table: "requireTableAccess (selection_scope paged_input) paged_grid = Inr (js ''t'', js ''T'')"
  by code_simp

lemma paged_listable: "listable (selection_scope paged_input) (Some paged_active) paged_grid"
  by code_simp

lemma paged_units: "list_all plain_unit (paged_id 51)" "list_all plain_unit (paged_id 49)"
  "list_all plain_unit (paged_id 65)" "list_all plain_unit (paged_id 66)" "list_all plain_unit (js ''xyz'')"
  "list_all plain_unit (js ''A_XyZ'')"
  by code_simp+

lemma paged_uuids: "isUuid (paged_id 51)" "isUuid (paged_id 49)" "isUuid (paged_id 65)" "isUuid (paged_id 66)"
  by code_simp+

lemma paged_listing:
  "listing ascii_host cell_text (selection_scope paged_input) (Some paged_active) (Some (js ''xyz'')) paged_grid =
     [\<lparr>sel_id = paged_id 51, sel_position = js ''p'', sel_version = 1, sel_empty = False,
       sel_value = Some (SortText (js ''A_XyZ''))\<rparr>,
      \<lparr>sel_id = paged_id 49, sel_position = js ''p'', sel_version = 1, sel_empty = False,
       sel_value = Some (SortText (js ''xyz''))\<rparr>]"
  by code_simp

lemma paged_type: "column_types (selection_scope paged_input) paged_grid (paged_id 65) = Some TText"
  by code_simp

lemma paged_cursors:
  "list_all (cursor_fits (selection_scope paged_input) (Some paged_active) (Some (js ''xyz'')) paged_grid)
     (listing ascii_host cell_text (selection_scope paged_input) (Some paged_active) (Some (js ''xyz'')) paged_grid)"
proof -
  have n: "length (paged_id d) = 36" for d by (simp add: paged_id_def js_eval)
  have page: "cursor_fits (selection_scope paged_input) (Some paged_active) (Some (js ''xyz'')) paged_grid
      \<lparr>sel_id = paged_id d, sel_position = js ''p'', sel_version = 1, sel_empty = False, sel_value = Some (SortText s)\<rparr>"
    if "isUuid (paged_id d)" "list_all plain_unit (paged_id d)" "length s \<le> 300" "list_all plain_unit s" for d s
  proof -
    define r where "r = \<lparr>sel_id = paged_id d, sel_position = js ''p'', sel_version = 1, sel_empty = False, sel_value = Some (SortText s)\<rparr>"
    define srt where "srt = \<lparr>sort_columnId = paged_id 65, sort_direction = Ascending\<rparr>"
    have s: "sv_sort paged_active = Some srt" by (simp add: srt_def paged_active_def paged_view_def)
    have v: "sv_id paged_active = paged_id 66" by (simp add: paged_active_def)
    have "cursor_length (SortedCursor (sorted_cursor_of TText paged_active srt (Some (js ''xyz'')) r)) \<le> 1024"
      by (rule sorted_cursor_short)
        (use that paged_units in \<open>simp_all add: sorted_cursor_of_def sorted_cursor_value_def r_def srt_def v n js_eval\<close>)
    then show ?thesis unfolding r_def [symmetric] cursor_fits_def
      using that(1) paged_uuids by (simp add: s v paged_type srt_def [symmetric]) (simp add: r_def srt_def paged_type)
  qed
  have len: "length (js ''xyz'') \<le> 300" "length (js ''A_XyZ'') \<le> 300" by (simp_all add: js_eval)
  show ?thesis unfolding paged_listing list.pred_inject(2) by (intro conjI page paged_units paged_uuids len) simp
qed

lemma paged_payloads: "\<forall>c \<in> set (g_cells paged_grid). payload_stored ascii_host (gc_value c)"
  by (simp add: paged_grid_def paged_cell_def payload_stored_def no_value_def)

lemma paged_ok: "grid_ok ascii_host paged_grid" "unique_members paged_grid"
proof -
  have ty: "column_type paged_grid (paged_id 65) = Some TText"
    by (simp add: column_type_def paged_grid_def row_at_def)
  have "cells_ok ascii_host paged_grid"
    by (auto simp: cells_ok_def cell_ok_def paged_grid_def paged_cell_def paged_row_def paged_id_def cell_key_def
        deserializeSqliteCellValue_def no_value_def column_type_def row_at_def)
  then show "grid_ok ascii_host paged_grid"
    unfolding grid_ok_def by (simp add: paged_grid_def dep_rel_def acyclic_def paged_row_def paged_id_def)
  show "unique_members paged_grid" by (simp add: unique_members_def paged_grid_def)
qed

theorem batch_is_listing_witness:
  "selectSqliteWorkflowRowBatch ascii_host cell_text paged_input paged_grid [paged_view] =
     Inr [\<lparr>ref_rowId = paged_id 51, ref_tableId = js ''t''\<rparr>, \<lparr>ref_rowId = paged_id 49, ref_tableId = js ''t''\<rparr>]"
proof -
  have uuid: "valid_uuid ascii_host t = (t \<noteq> [])" for t by (simp add: ascii_host_def)
  have "valid_uuid ascii_host (sl_tableId paged_input)" by (simp add: uuid paged_input_def js_eval)
  moreover have "list_all (\<lambda>r. valid_uuid ascii_host (sel_id r))
      (listing ascii_host cell_text (selection_scope paged_input) (Some paged_active) (Some (js ''xyz'')) paged_grid)"
    by (simp add: paged_listing uuid paged_id_def)
  ultimately show ?thesis
    using batch_is_listing [OF paged_ok paged_listable paged_table paged_query paged_view_active refl paged_cursors paged_payloads]
    by (simp add: paged_listing reference_of_def) (simp add: paged_input_def)
qed

end
