(* ===== verification/RowBatches.thy ===== *)
theory RowBatches
  imports WorkflowData
begin

text \<open>
  Splitting a batch of rows by a filter and copying a batch into another table
  (\<open>packages/db/src/sqlite/workflow-data.ts\<close>).
\<close>

section \<open>Splitting a batch\<close>

text \<open>\<open>grouped.set(key, [...(grouped.get(key) ?? []), row])\<close> for every reference.\<close>

definition group_by_table :: "row_reference list \<Rightarrow> (jsstr \<times> row_reference list) list" where
  "group_by_table refs =
     fold (\<lambda>r m. AList.update (ref_tableId r) (get_or [] m (ref_tableId r) @ [r]) m) refs []"

text \<open>The slices of a loop over offsets.\<close>

function chunks :: "nat \<Rightarrow> 'a list \<Rightarrow> 'a list list" where
  "chunks n xs = (if xs = [] \<or> n = 0 then [] else take n xs # chunks n (drop n xs))"
  by pat_completeness auto
termination by (relation "measure (\<lambda>(n, xs). length xs)") auto

declare chunks.simps [simp del]

definition available_rows :: "jsstr \<Rightarrow> jsstr \<Rightarrow> jsstr list \<Rightarrow> grid_db \<Rightarrow> grid_row list" where
  "available_rows workspaceId tableId ids db =
     [r. r \<leftarrow> g_rows db, t \<leftarrow> g_tables db, table_id t = row_tableId r \<and> table_workspaceId t = row_workspaceId r
       \<and> row_workspaceId r = workspaceId \<and> row_tableId r = tableId \<and> row_id r \<in> set ids
       \<and> row_archivedAt r = None \<and> table_archivedAt t = None]"

definition matching_rows :: "host \<Rightarrow> jsstr \<Rightarrow> jsstr \<Rightarrow> jsstr list \<Rightarrow> filter_group \<Rightarrow> grid_db \<Rightarrow> grid_row list" where
  "matching_rows h workspaceId tableId ids filterTree db =
     select_where (\<lambda>r. row_workspaceId r = workspaceId \<and> row_tableId r = tableId \<and> row_id r \<in> set ids
       \<and> row_archivedAt r = None \<and> filterTreePredicate h (filter_cells h db r) filterTree) (g_rows db)"

definition partition_chunk :: "host \<Rightarrow> jsstr \<Rightarrow> filter_group \<Rightarrow> grid_db \<Rightarrow> jsstr \<times> jsstr list \<Rightarrow> jsstr list \<Rightarrow> grid_error + jsstr list" where
  "partition_chunk h workspaceId filterTree db = (\<lambda>(tableId, chunk) matchedIds.
     if length (available_rows workspaceId tableId chunk db) \<noteq> length chunk then Inl WorkflowRowsRefused
     else Inr (fold set_add (map row_id (matching_rows h workspaceId tableId chunk filterTree db)) matchedIds))"

text \<open>Both schemas of the input throw the same error of the schema library.\<close>

definition partitionSqliteWorkflowRowBatch :: "host \<Rightarrow> row_reference list \<Rightarrow> filter_group \<Rightarrow> jsstr \<Rightarrow> grid_db
    \<Rightarrow> grid_error + (row_reference list \<times> row_reference list)" where
  "partitionSqliteWorkflowRowBatch h batchInput filterTree workspaceId db =
     and_then (workflowRowBatch h batchInput) (\<lambda>batch.
       if \<not> gridViewFilterTree h filterTree then Inl RowBatchInvalid
       else and_then (fold_result (partition_chunk h workspaceId filterTree db)
              [(tableId, chunk). (tableId, refs) \<leftarrow> group_by_table batch, chunk \<leftarrow> chunks 200 (map ref_rowId refs)] [])
            (\<lambda>matchedIds. Inr (filter (\<lambda>r. ref_rowId r \<in> set matchedIds) batch,
                                filter (\<lambda>r. ref_rowId r \<notin> set matchedIds) batch)))"

section \<open>Splitting as a specification\<close>

definition row_available :: "jsstr \<Rightarrow> grid_db \<Rightarrow> row_reference \<Rightarrow> bool" where
  "row_available workspaceId db ref \<longleftrightarrow>
     (\<exists>r \<in> set (g_rows db). \<exists>t \<in> set (g_tables db). row_id r = ref_rowId ref \<and> row_tableId r = ref_tableId ref
        \<and> row_workspaceId r = workspaceId \<and> row_archivedAt r = None
        \<and> table_id t = ref_tableId ref \<and> table_workspaceId t = workspaceId \<and> table_archivedAt t = None)"

definition row_matches :: "host \<Rightarrow> filter_group \<Rightarrow> grid_db \<Rightarrow> row_reference \<Rightarrow> bool" where
  "row_matches h filterTree db ref \<longleftrightarrow>
     (\<exists>r \<in> set (g_rows db). row_id r = ref_rowId ref \<and> filterTreePredicate h (filter_cells h db r) filterTree)"

lemma concat_chunks: "0 < n \<Longrightarrow> concat (chunks n xs) = xs"
  by (induction n xs rule: chunks.induct) (subst chunks.simps, auto)

lemma group_members:
  "get_or [] (group_by_table refs) t = filter (\<lambda>r. ref_tableId r = t) refs"
proof -
  have "get_or [] (fold (\<lambda>r m. AList.update (ref_tableId r) (get_or [] m (ref_tableId r) @ [r]) m) refs m) t
      = get_or [] m t @ filter (\<lambda>r. ref_tableId r = t) refs" for m
    by (induction refs arbitrary: m) (auto simp: get_or_def update_conv')
  from this [of "[]"] show ?thesis by (simp add: group_by_table_def)
qed

lemma group_keys: "distinct (map fst (group_by_table refs)) \<and> fst ` set (group_by_table refs) = ref_tableId ` set refs"
proof -
  have "distinct (map fst m) \<longrightarrow> distinct (map fst (fold (\<lambda>r m. AList.update (ref_tableId r) (get_or [] m (ref_tableId r) @ [r]) m) refs m))"
    for m by (induction refs arbitrary: m) (auto simp: distinct_update)
  moreover have "fst ` set (fold (\<lambda>r m. AList.update (ref_tableId r) (get_or [] m (ref_tableId r) @ [r]) m) refs m)
      = fst ` set m \<union> ref_tableId ` set refs" for m
    by (induction refs arbitrary: m) (auto simp: dom_update)
  ultimately show ?thesis by (auto simp: group_by_table_def)
qed

lemma group_entry: "(t, rs) \<in> set (group_by_table refs) \<Longrightarrow> rs = filter (\<lambda>r. ref_tableId r = t) refs"
  using group_members [of refs t] group_keys [of refs] by (simp add: get_or_def)

lemma at_most_one:
  assumes "distinct (map key ms)" and "\<And>m. P m \<Longrightarrow> key m = k"
  shows "length (filter P ms) \<le> 1"
proof -
  have "filter P ms = filter P (filter (\<lambda>m. key m = k) ms)" using assms(2) by (induction ms) auto
  then show ?thesis using one_match [OF assms(1), of k] length_filter_le order_trans by metis
qed

lemma available_ids:
  assumes keys: "distinct (map row_id (g_rows db))" "distinct (map table_id (g_tables db))"
  shows "distinct (map row_id (available_rows w t ids db))"
    and "row_id ` set (available_rows w t ids db) = {i \<in> set ids. row_available w db \<lparr>ref_rowId = i, ref_tableId = t\<rparr>}"
proof -
  have "length (filter (\<lambda>x. table_id x = row_tableId r \<and> table_workspaceId x = row_workspaceId r
       \<and> row_workspaceId r = w \<and> row_tableId r = t \<and> row_id r \<in> set ids \<and> row_archivedAt r = None \<and> table_archivedAt x = None)
      (g_tables db)) \<le> 1" for r
    by (rule at_most_one [OF keys(2)]) simp
  then show "distinct (map row_id (available_rows w t ids db))"
    unfolding available_rows_def by (intro joined_distinct [OF _ keys(1)])
  show "row_id ` set (available_rows w t ids db) = {i \<in> set ids. row_available w db \<lparr>ref_rowId = i, ref_tableId = t\<rparr>}"
    by (auto simp: available_rows_def row_available_def image_iff split: if_splits)
qed

lemma all_available:
  assumes keys: "distinct (map row_id (g_rows db))" "distinct (map table_id (g_tables db))"
  shows "length (available_rows w t ids db) = length ids
    \<longleftrightarrow> distinct ids \<and> (\<forall>i \<in> set ids. row_available w db \<lparr>ref_rowId = i, ref_tableId = t\<rparr>)"
proof -
  note a = available_ids [OF keys, of w t ids]
  let ?A = "{i \<in> set ids. row_available w db \<lparr>ref_rowId = i, ref_tableId = t\<rparr>}"
  have n: "length (available_rows w t ids db) = card ?A"
    using distinct_card [OF a(1)] a(2) by simp
  have le: "card ?A \<le> card (set ids)" "card (set ids) \<le> length ids" by (auto intro: card_mono card_length)
  have "card ?A = card (set ids) \<longleftrightarrow> ?A = set ids"
    by (metis (no_types, lifting) List.finite_set card_subset_eq mem_Collect_eq subsetI)
  moreover have "card (set ids) = length ids \<longleftrightarrow> distinct ids" using card_distinct distinct_card by blast
  ultimately show ?thesis unfolding n using le by auto
qed

lemma partition_jobs:
  "fold_result (partition_chunk h w tree db) jobs M =
     (if \<forall>(t, c) \<in> set jobs. length (available_rows w t c db) = length c
      then Inr (fold (\<lambda>(t, c). fold set_add (map row_id (matching_rows h w t c tree db))) jobs M) else Inl WorkflowRowsRefused)"
  by (induction jobs arbitrary: M) (auto simp: partition_chunk_def)

lemma matched_jobs:
  "set (fold (\<lambda>(t, c). fold set_add (map row_id (matching_rows h w t c tree db))) jobs M) =
     set M \<union> {i. \<exists>(t, c) \<in> set jobs. i \<in> row_id ` set (matching_rows h w t c tree db)}"
  by (induction jobs arbitrary: M) (auto simp: set_fold_set_add)

definition batch_jobs :: "row_reference list \<Rightarrow> (jsstr \<times> jsstr list) list" where
  "batch_jobs batch = [(tableId, chunk). (tableId, refs) \<leftarrow> group_by_table batch, chunk \<leftarrow> chunks 200 (map ref_rowId refs)]"

text \<open>
  The code compares the number of rows it finds with the length of the slice, so it takes a
  repetition within a slice for an unavailable row. Repetitions in different slices pass.
\<close>

definition slices_distinct :: "row_reference list \<Rightarrow> bool" where
  "slices_distinct batch \<longleftrightarrow> (\<forall>t. \<forall>slice \<in> set (chunks 200 (map ref_rowId (filter (\<lambda>r. ref_tableId r = t) batch))). distinct slice)"

lemma chunk_ids: "c \<in> set (chunks n xs) \<Longrightarrow> set c \<subseteq> set xs \<and> (distinct xs \<longrightarrow> distinct c)"
proof (induction n xs rule: chunks.induct)
  case (1 n xs)
  show ?case
  proof (cases "xs = [] \<or> n = 0 \<or> c = take n xs")
    case True
    then show ?thesis using "1.prems" by (auto simp: chunks.simps [of n xs] dest: in_set_takeD)
  next
    case False
    then have "c \<in> set (chunks n (drop n xs))" using "1.prems" by (auto simp: chunks.simps [of n xs])
    then have "set c \<subseteq> set (drop n xs) \<and> (distinct (drop n xs) \<longrightarrow> distinct c)" using "1.IH" False by blast
    then show ?thesis using set_drop_subset [of n xs] by auto
  qed
qed

lemma distinct_slices: "distinct (map ref_rowId batch) \<Longrightarrow> slices_distinct batch"
  using chunk_ids by (fastforce simp: slices_distinct_def distinct_map_filter)

lemma job_slice:
  assumes "(t, c) \<in> set (batch_jobs batch)"
  shows "c \<in> set (chunks 200 (map ref_rowId (filter (\<lambda>r. ref_tableId r = t) batch)))"
  using assms group_entry by (auto simp: batch_jobs_def)

lemma job_ids:
  assumes "(t, c) \<in> set (batch_jobs batch)"
  shows "set c \<subseteq> ref_rowId ` {r \<in> set batch. ref_tableId r = t}" and "slices_distinct batch \<Longrightarrow> distinct c"
  using chunk_ids [OF job_slice [OF assms]] job_slice [OF assms] by (auto simp: slices_distinct_def)

lemma jobs_slices:
  assumes a: "\<forall>(t, c) \<in> set (batch_jobs batch). distinct c"
  shows "slices_distinct batch"
  unfolding slices_distinct_def
proof (intro allI ballI)
  fix t slice
  assume c: "slice \<in> set (chunks 200 (map ref_rowId (filter (\<lambda>r. ref_tableId r = t) batch)))"
  show "distinct slice"
  proof (cases "t \<in> ref_tableId ` set batch")
    case True
    then obtain refs where r: "(t, refs) \<in> set (group_by_table batch)" using group_keys [of batch] by force
    then have "(t, slice) \<in> set (batch_jobs batch)" using c group_entry [OF r] by (auto simp: batch_jobs_def)
    then show ?thesis using a by blast
  next
    case False
    then have "filter (\<lambda>r. ref_tableId r = t) batch = []" by (auto simp: filter_empty_conv)
    then show ?thesis using c by (simp add: chunks.simps)
  qed
qed

lemma job_exists:
  assumes "ref \<in> set batch"
  shows "\<exists>c. (ref_tableId ref, c) \<in> set (batch_jobs batch) \<and> ref_rowId ref \<in> set c"
proof -
  obtain refs where r: "(ref_tableId ref, refs) \<in> set (group_by_table batch)"
    using group_keys [of batch] assms by (metis (no_types, opaque_lifting) fst_conv image_iff prod.collapse)
  have "ref_rowId ref \<in> set (concat (chunks 200 (map ref_rowId refs)))"
    using group_entry [OF r] assms by (simp add: concat_chunks)
  then show ?thesis using r by (force simp: batch_jobs_def)
qed

text \<open>
  C35. Splitting a batch by a filter. The loop over the tables of the batch and over slices of two
  hundred rows computes the plain split: the references whose row satisfies the filter, in order,
  and the others, exactly if every referenced row is active in an active table of the workspace
  and no slice refers to a row twice; otherwise the split is refused. So a batch without
  repetitions, such as the selections of a trigger, is split whenever its rows are available.
\<close>

theorem partition_is_filter:
  assumes keys: "distinct (map row_id (g_rows db))" "distinct (map table_id (g_tables db))"
    and b: "workflowRowBatch h batch = Inr batch" and f: "gridViewFilterTree h tree"
  shows "partitionSqliteWorkflowRowBatch h batch tree w db =
    (if list_all (row_available w db) batch \<and> slices_distinct batch
     then Inr (filter (row_matches h tree db) batch, filter (\<lambda>r. \<not> row_matches h tree db r) batch)
     else Inl WorkflowRowsRefused)
    \<and> (distinct (map ref_rowId batch) \<longrightarrow> slices_distinct batch)"
proof -
  have avail: "(\<forall>(t, c) \<in> set (batch_jobs batch). length (available_rows w t c db) = length c)
      \<longleftrightarrow> list_all (row_available w db) batch \<and> slices_distinct batch"
  proof
    assume a: "\<forall>(t, c) \<in> set (batch_jobs batch). length (available_rows w t c db) = length c"
    have "slices_distinct batch" by (rule jobs_slices) (use a all_available [OF keys] in blast)
    moreover have "list_all (row_available w db) batch" unfolding list_all_iff
    proof
      fix ref
      assume "ref \<in> set batch"
      then obtain c where c: "(ref_tableId ref, c) \<in> set (batch_jobs batch)" "ref_rowId ref \<in> set c" using job_exists by blast
      then have "row_available w db \<lparr>ref_rowId = ref_rowId ref, ref_tableId = ref_tableId ref\<rparr>"
        using a all_available [OF keys] by blast
      then show "row_available w db ref" by (simp add: row_available_def)
    qed
    ultimately show "list_all (row_available w db) batch \<and> slices_distinct batch" by blast
  next
    assume "list_all (row_available w db) batch \<and> slices_distinct batch"
    then have a: "list_all (row_available w db) batch" and d: "slices_distinct batch" by simp_all
    have "length (available_rows w t c db) = length c" if j: "(t, c) \<in> set (batch_jobs batch)" for t c
    proof -
      have "row_available w db \<lparr>ref_rowId = i, ref_tableId = t\<rparr>" if "i \<in> set c" for i
      proof -
        obtain ref where "ref \<in> set batch" "ref_tableId ref = t" "ref_rowId ref = i" using job_ids(1) [OF j] \<open>i \<in> set c\<close> by blast
        then show ?thesis using a by (auto simp: list_all_iff row_available_def)
      qed
      then show ?thesis using all_available [OF keys] job_ids(2) [OF j d] by blast
    qed
    then show "\<forall>(t, c) \<in> set (batch_jobs batch). length (available_rows w t c db) = length c" by blast
  qed
  define M where "M = fold (\<lambda>(t, c). fold set_add (map row_id (matching_rows h w t c tree db))) (batch_jobs batch) []"
  have matched: "ref_rowId ref \<in> set M \<longleftrightarrow> row_matches h tree db ref" if av: "list_all (row_available w db) batch" and mem: "ref \<in> set batch" for ref
  proof
    assume "ref_rowId ref \<in> set M"
    then show "row_matches h tree db ref" unfolding M_def matched_jobs
      by (auto simp: matching_rows_def select_where_def row_matches_def)
  next
    assume m: "row_matches h tree db ref"
    obtain c where c: "(ref_tableId ref, c) \<in> set (batch_jobs batch)" "ref_rowId ref \<in> set c" using job_exists [OF mem] by blast
    obtain r where r: "r \<in> set (g_rows db)" "row_id r = ref_rowId ref" "row_tableId r = ref_tableId ref" "row_workspaceId r = w" "row_archivedAt r = None"
      using av mem by (auto simp: list_all_iff row_available_def)
    obtain r' where "r' \<in> set (g_rows db)" "row_id r' = ref_rowId ref" "filterTreePredicate h (filter_cells h db r') tree"
      using m by (auto simp: row_matches_def)
    then have "filterTreePredicate h (filter_cells h db r) tree" using unique_row [OF keys(1), of r' r] r by simp
    then have "r \<in> set (matching_rows h w (ref_tableId ref) c tree db)" using r c(2) by (simp add: matching_rows_def select_where_def)
    then show "ref_rowId ref \<in> set M" unfolding M_def matched_jobs using c(1) r(2) by force
  qed
  have e: "filter (\<lambda>r. ref_rowId r \<in> set M) batch = filter (row_matches h tree db) batch"
    "filter (\<lambda>r. ref_rowId r \<notin> set M) batch = filter (\<lambda>r. \<not> row_matches h tree db r) batch" if "list_all (row_available w db) batch"
    using matched [OF that] by (auto intro: filter_cong)
  show ?thesis
    using b f avail e distinct_slices by (simp add: partitionSqliteWorkflowRowBatch_def batch_jobs_def [symmetric] partition_jobs M_def [symmetric])
qed

definition split_tree :: filter_group where
  "split_tree = FilterGroup [Leaf (TextFilter (paged_id 65) Text_contains (js ''YZ''))] And"

definition split_batch :: "row_reference list" where
  "split_batch = [\<lparr>ref_rowId = paged_id 50, ref_tableId = js ''t''\<rparr>, \<lparr>ref_rowId = paged_id 51, ref_tableId = js ''t''\<rparr>]"

theorem partition_is_filter_witness:
  "partitionSqliteWorkflowRowBatch ascii_host split_batch split_tree (js ''w'') paged_grid =
     Inr ([\<lparr>ref_rowId = paged_id 51, ref_tableId = js ''t''\<rparr>], [\<lparr>ref_rowId = paged_id 50, ref_tableId = js ''t''\<rparr>])"
proof -
  have keys: "distinct (map row_id (g_rows paged_grid))" "distinct (map table_id (g_tables paged_grid))"
    by (simp_all add: paged_grid_def paged_row_def paged_id_def)
  have "workflowRowBatch ascii_host split_batch = Inr split_batch"
    by (simp add: workflowRowBatch_def split_batch_def MAXIMUM_WORKFLOW_ROW_BATCH_SIZE_def ascii_host_def paged_id_def js_eval)
  moreover have "gridViewFilterTree ascii_host split_tree" by code_simp
  moreover have "slices_distinct split_batch" by (rule distinct_slices) (simp add: split_batch_def paged_id_def)
  moreover have "list_all (row_available (js ''w'') paged_grid) split_batch"
    by (simp add: split_batch_def row_available_def paged_grid_def paged_row_def)
  moreover have "row_matches ascii_host split_tree paged_grid \<lparr>ref_rowId = paged_id 51, ref_tableId = js ''t''\<rparr>"
    "\<not> row_matches ascii_host split_tree paged_grid \<lparr>ref_rowId = paged_id 50, ref_tableId = js ''t''\<rparr>"
    unfolding row_matches_def by code_simp+
  ultimately show ?thesis using partition_is_filter [OF keys, of ascii_host split_batch split_tree "js ''w''"]
    by (simp add: split_batch_def)
qed

end
