(* ===== verification/RowCopies.thy ===== *)
theory RowCopies
  imports RowBatches
begin

text \<open>
  Copying a batch of rows into a table (\<open>writeSqliteWorkflowRowBatch\<close> of
  \<open>packages/db/src/sqlite/workflow-data.ts\<close>), the effect of a write-table step. The new rows and
  cells have identifiers derived from the run and the step, so that a step that runs again after
  a crash finds what it has written.
\<close>

section \<open>Derived identifiers\<close>

text \<open>SHA-256 is the platform's; \<open>sha256\<close> gives its 32 bytes.\<close>

definition hex_byte :: "8 word \<Rightarrow> jsstr" where
  "hex_byte b = [hex_digit (unat b div 16), hex_digit (unat b mod 16)]"

definition deterministicWorkflowUuid :: "(jsstr \<Rightarrow> 8 word list) \<Rightarrow> jsstr \<Rightarrow> jsstr" where
  "deterministicWorkflowUuid sha256 value =
     (let bytes = take 16 (sha256 value);
          bytes = bytes[6 := or (and (bytes ! 6) 0x0F) 0x40];
          bytes = bytes[8 := or (and (bytes ! 8) 0x3F) 0x80];
          hex = concat (map hex_byte bytes)
      in take 8 hex @ [45] @ take 4 (drop 8 hex) @ [45] @ take 4 (drop 12 hex) @ [45]
         @ take 4 (drop 16 hex) @ [45] @ drop 20 hex)"

section \<open>The sources\<close>

record copy_input =
  cp_batch :: "row_reference list"
  cp_mappings :: "column_mapping list"
  cp_runId :: jsstr
  cp_stepId :: jsstr
  cp_tableId :: jsstr
  cp_workspaceId :: jsstr

definition colon_join :: "jsstr list \<Rightarrow> jsstr" where
  "colon_join parts = join_with [58] parts"

definition active_columns :: "jsstr \<Rightarrow> jsstr \<Rightarrow> jsstr list \<Rightarrow> grid_db \<Rightarrow> column_row list" where
  "active_columns workspaceId tableId ids db =
     select_where (\<lambda>c. col_workspaceId c = workspaceId \<and> col_tableId c = tableId \<and> col_id c \<in> set ids
       \<and> col_archivedAt c = None) (g_columns db)"

definition copied_types :: "column_row list \<Rightarrow> jsstr \<Rightarrow> value_type option" where
  "copied_types cs = map_of (map_from (map (\<lambda>c. (col_id c, col_valueType c)) cs))"

definition source_columns :: "copy_input \<Rightarrow> jsstr list" where
  "source_columns inp = set_from (map sourceColumnId (cp_mappings inp))"

definition source_rows :: "copy_input \<Rightarrow> jsstr \<Rightarrow> jsstr list \<Rightarrow> grid_db \<Rightarrow> grid_row list" where
  "source_rows inp tableId ids db =
     select_where (\<lambda>r. row_workspaceId r = cp_workspaceId inp \<and> row_tableId r = tableId \<and> row_id r \<in> set ids
       \<and> row_archivedAt r = None) (g_rows db)"

definition source_cells :: "copy_input \<Rightarrow> jsstr \<Rightarrow> jsstr list \<Rightarrow> grid_db \<Rightarrow> grid_cell list" where
  "source_cells inp tableId ids db =
     select_where (\<lambda>c. gc_workspaceId c = cp_workspaceId inp \<and> gc_tableId c = tableId \<and> gc_rowId c \<in> set ids
       \<and> gc_columnId c \<in> set (source_columns inp)) (g_cells db)"

definition source_key :: "jsstr \<Rightarrow> jsstr \<Rightarrow> jsstr \<Rightarrow> jsstr" where
  "source_key tableId rowId columnId = colon_join [tableId, rowId, columnId]"

text \<open>One table of the batch: its columns, types and rows are checked, then its values are read.\<close>

definition load_source :: "host \<Rightarrow> copy_input \<Rightarrow> (jsstr \<Rightarrow> value_type option) \<Rightarrow> grid_db \<Rightarrow> jsstr \<times> row_reference list
    \<Rightarrow> (jsstr \<times> cell_value) list \<Rightarrow> grid_error + (jsstr \<times> cell_value) list" where
  "load_source h inp targetTypes db = (\<lambda>(tableId, references) sourceCells.
     let sourceColumns = active_columns (cp_workspaceId inp) tableId (source_columns inp) db;
         ids = map ref_rowId references
     in if length sourceColumns \<noteq> length (source_columns inp) then Inl WorkflowRowsRefused
        else if list_ex (\<lambda>m. copied_types sourceColumns (sourceColumnId m) \<noteq> targetTypes (targetColumnId m)) (cp_mappings inp)
        then Inl WorkflowRowsRefused
        else if length (source_rows inp tableId ids db) \<noteq> length ids then Inl WorkflowRowsRefused
        else fold_result (\<lambda>c m.
               case deserializeSqliteCellValue h (gc_value c) of
                 None \<Rightarrow> Inl StoredValueInvalid
               | Some v \<Rightarrow> Inr (AList.update (source_key tableId (gc_rowId c) (gc_columnId c)) v m))
             (source_cells inp tableId ids db) sourceCells)"

section \<open>The copies\<close>

definition target_id :: "(jsstr \<Rightarrow> 8 word list) \<Rightarrow> copy_input \<Rightarrow> row_reference \<Rightarrow> jsstr" where
  "target_id sha256 inp ref =
     deterministicWorkflowUuid sha256 (colon_join [cp_runId inp, cp_stepId inp, ref_tableId ref, ref_rowId ref])"

definition target_rows :: "(jsstr \<Rightarrow> 8 word list) \<Rightarrow> int \<Rightarrow> copy_input \<Rightarrow> grid_row list" where
  "target_rows sha256 now inp = map (\<lambda>(index, ref).
     \<lparr>row_id = target_id sha256 inp ref, row_workspaceId = cp_workspaceId inp, row_tableId = cp_tableId inp,
      row_position = colon_join [js ''workflow'', cp_runId inp, cp_stepId inp, pad 6 (int index)],
      row_version = 1, row_archivedAt = None, row_updatedAt = now\<rparr>) (enumerate 0 (cp_batch inp))"

text \<open>\<open>onConflictDoNothing\<close> with \<open>returning\<close>.\<close>

definition insert_row :: "grid_row \<Rightarrow> grid_row list \<times> jsstr list \<Rightarrow> grid_row list \<times> jsstr list" where
  "insert_row r = (\<lambda>(rs, created).
     if row_id r \<in> row_id ` set rs then (rs, created) else (rs @ [r], created @ [row_id r]))"

definition target_cells :: "host \<Rightarrow> (jsstr \<Rightarrow> 8 word list) \<Rightarrow> int \<Rightarrow> copy_input \<Rightarrow> (jsstr \<times> cell_value) list \<Rightarrow> grid_cell list" where
  "target_cells h sha256 now inp sourceCells =
     concat (map (\<lambda>ref. concat (map (\<lambda>m.
       case map_of sourceCells (source_key (ref_tableId ref) (ref_rowId ref) (sourceColumnId m)) of
         None \<Rightarrow> []
       | Some v \<Rightarrow>
           [\<lparr>gc_id = deterministicWorkflowUuid sha256
                (colon_join [cp_runId inp, cp_stepId inp, ref_tableId ref, ref_rowId ref, targetColumnId m]),
             gc_workspaceId = cp_workspaceId inp, gc_tableId = cp_tableId inp, gc_rowId = target_id sha256 inp ref,
             gc_columnId = targetColumnId m, gc_value = serializeSqliteCellValue h v, gc_status = Idle,
             gc_version = 1, gc_updatedAt = now\<rparr>]) (cp_mappings inp))) (cp_batch inp))"

definition insert_cell :: "grid_cell \<Rightarrow> grid_cell list \<Rightarrow> grid_cell list" where
  "insert_cell c cs = (if gc_id c \<in> gc_id ` set cs \<or> cell_key c \<in> cell_key ` set cs then cs else cs @ [c])"

definition settle_copy :: "host \<Rightarrow> (nat \<Rightarrow> jsstr) \<Rightarrow> int \<Rightarrow> copy_input \<Rightarrow> jsstr \<Rightarrow> grid_db \<Rightarrow> grid_error + grid_db" where
  "settle_copy h uuid now inp rowId db =
     (let changed = map targetColumnId (cp_mappings inp);
          s = \<lparr>sc_rowId = rowId, sc_tableId = cp_tableId inp, sc_workspaceId = cp_workspaceId inp\<rparr>
      in and_then (recomputeDependentSqliteFormulasForRow h uuid now s changed db) (\<lambda>(db1, formulas).
         and_then (recordSqliteRowMutationAndMaybeQueueSettlement h uuid now s (changed @ formulas) db1) (\<lambda>(db2, _).
           Inr db2)))"

definition check_copy :: "host \<Rightarrow> copy_input \<Rightarrow> grid_error + unit" where
  "check_copy h inp = and_then (workflowRowBatch h (cp_batch inp)) (\<lambda>batch.
     if cp_mappings inp = [] then Inl WorkflowRowsRefused
     else if length (set_from (map targetColumnId (cp_mappings inp))) \<noteq> length (cp_mappings inp) then Inl WorkflowRowsRefused
     else if MAXIMUM_WORKFLOW_WRITE_CELLS < length batch * length (cp_mappings inp) then Inl WorkflowRowsRefused
     else Inr ())"

definition copy_sources :: "host \<Rightarrow> copy_input \<Rightarrow> grid_db \<Rightarrow> grid_error + (jsstr \<times> cell_value) list" where
  "copy_sources h inp db =
     (case first_row (select_where (\<lambda>t. table_id t = cp_tableId inp \<and> table_workspaceId t = cp_workspaceId inp
             \<and> table_archivedAt t = None) (g_tables db)) of
        None \<Rightarrow> Inl WorkflowRowsRefused
      | Some _ \<Rightarrow>
          let ids = map targetColumnId (cp_mappings inp);
              targetColumns = active_columns (cp_workspaceId inp) (cp_tableId inp) ids db
          in if length targetColumns \<noteq> length ids \<or> list_ex (\<lambda>c. col_kind c \<noteq> Input_column) targetColumns
             then Inl WorkflowRowsRefused
             else fold_result (load_source h inp (copied_types targetColumns) db) (group_by_table (cp_batch inp)) [])"

definition writeSqliteWorkflowRowBatch :: "host \<Rightarrow> (jsstr \<Rightarrow> 8 word list) \<Rightarrow> (nat \<Rightarrow> jsstr) \<Rightarrow> int \<Rightarrow> copy_input \<Rightarrow> grid_db
    \<Rightarrow> grid_error + (grid_db \<times> row_reference list)" where
  "writeSqliteWorkflowRowBatch h sha256 uuid now inp db =
     and_then (check_copy h inp) (\<lambda>_.
     and_then (copy_sources h inp db) (\<lambda>sourceCells.
       case fold insert_row (target_rows sha256 now inp) (g_rows db, []) of
         (rs, created) \<Rightarrow>
           let targetCells = target_cells h sha256 now inp sourceCells;
               cs = fold (fold insert_cell) (chunks 100 targetCells) (g_cells db)
           in and_then (fold_result (settle_copy h uuid now inp) created (db\<lparr>g_rows := rs, g_cells := cs\<rparr>)) (\<lambda>db'.
              and_then (workflowRowBatch h (map (\<lambda>ref. \<lparr>ref_rowId = target_id sha256 inp ref, ref_tableId = cp_tableId inp\<rparr>)
                (cp_batch inp))) (\<lambda>out. Inr (db', out)))))"

section \<open>What an operation on some rows leaves alone\<close>

definition keeps_outside :: "jsstr set \<Rightarrow> grid_db \<Rightarrow> grid_db \<Rightarrow> bool" where
  "keeps_outside C db db' \<longleftrightarrow>
     g_members db' = g_members db \<and> g_tables db' = g_tables db \<and> g_columns db' = g_columns db
     \<and> g_dependencies db' = g_dependencies db
     \<and> filter (\<lambda>r. row_id r \<notin> C) (g_rows db') = filter (\<lambda>r. row_id r \<notin> C) (g_rows db)
     \<and> filter (\<lambda>c. gc_rowId c \<notin> C) (g_cells db') = filter (\<lambda>c. gc_rowId c \<notin> C) (g_cells db)
     \<and> row_id ` set (g_rows db) \<subseteq> row_id ` set (g_rows db')
     \<and> gc_id ` set (g_cells db) \<subseteq> gc_id ` set (g_cells db')
     \<and> cell_key ` set (g_cells db) \<subseteq> cell_key ` set (g_cells db')"

lemma keeps_outside_refl [simp]: "keeps_outside C db db"
  by (simp add: keeps_outside_def)

lemma keeps_outside_trans: "keeps_outside C db db1 \<Longrightarrow> keeps_outside C db1 db2 \<Longrightarrow> keeps_outside C db db2"
  unfolding keeps_outside_def
  by (elim conjE, intro conjI) (erule (1) trans | erule (1) subset_trans)+

lemma filter_update_where:
  assumes "\<And>x. x \<in> set xs \<Longrightarrow> P x \<Longrightarrow> \<not> Q x \<and> \<not> Q (f x)"
  shows "filter Q (update_where P f xs) = filter Q xs"
  using assms by (induction xs) (auto simp: update_where_def)

lemma set_map_from: "set (map_from es) \<subseteq> set es"
proof -
  have "set (AList.update k v m) \<subseteq> insert (k, v) (set m)" for k v and m :: "('a \<times> 'b) list"
    by (induction m) auto
  then have "set (fold (\<lambda>(k, v) m. AList.update k v m) es m) \<subseteq> set m \<union> set es" for m :: "('a \<times> 'b) list"
    by (induction es arbitrary: m) (auto, blast+)
  from this [of "[]"] show ?thesis by (simp add: map_from_def)
qed

text \<open>While the formulas of a row are recomputed: the remembered cells are cells of the row.\<close>

definition recomputing :: "jsstr set \<Rightarrow> grid_db \<Rightarrow> recomputation \<Rightarrow> bool" where
  "recomputing C db0 st \<longleftrightarrow> keeps_outside C db0 (rc_db st) \<and> distinct (map gc_id (g_cells (rc_db st)))
     \<and> (\<forall>(f, cid) \<in> set (rc_cells st). \<forall>c \<in> set (g_cells (rc_db st)). gc_id c = cid \<longrightarrow> gc_rowId c \<in> C)"

lemma cells_changed:
  assumes "\<And>x. x \<in> set (g_cells db) \<Longrightarrow> P x \<Longrightarrow> gc_rowId x \<in> C"
  shows "keeps_outside C db (db\<lparr>g_cells := update_where P (set_cell h now v) (g_cells db)\<rparr>)"
proof -
  have k: "gc_id (set_cell h now v x) = gc_id x" "cell_key (set_cell h now v x) = cell_key x" "gc_rowId (set_cell h now v x) = gc_rowId x" for x
    by (simp_all add: set_cell_def cell_key_def)
  have "map gc_id (update_where P (set_cell h now v) (g_cells db)) = map gc_id (g_cells db)"
    "map cell_key (update_where P (set_cell h now v) (g_cells db)) = map cell_key (g_cells db)"
    by (simp_all add: update_where_def k)
  then have "gc_id ` set (update_where P (set_cell h now v) (g_cells db)) = gc_id ` set (g_cells db)"
    "cell_key ` set (update_where P (set_cell h now v) (g_cells db)) = cell_key ` set (g_cells db)"
    by (metis set_map)+
  moreover have "filter (\<lambda>c. gc_rowId c \<notin> C) (update_where P (set_cell h now v) (g_cells db)) = filter (\<lambda>c. gc_rowId c \<notin> C) (g_cells db)"
    using assms by (intro filter_update_where) (simp add: k)
  ultimately show ?thesis by (simp add: keeps_outside_def)
qed

lemma cell_added: "gc_rowId c \<in> C \<Longrightarrow> keeps_outside C db (db\<lparr>g_fresh := n, g_cells := g_cells db @ [c]\<rparr>)"
  by (auto simp: keeps_outside_def)

lemma store_formula_keeps:
  assumes r: "recomputing C db0 st" and s: "sc_rowId s \<in> C" and e: "store_formula h uuid now s f v st = Inr st'"
  shows "recomputing C db0 st'"
proof (cases "map_of (rc_cells st) f")
  case (Some cid)
  have m: "(f, cid) \<in> set (rc_cells st)" using Some by (rule map_of_SomeD)
  let ?db' = "(rc_db st)\<lparr>g_cells := update_where (\<lambda>c. gc_id c = cid) (set_cell h now v) (g_cells (rc_db st))\<rparr>"
  have "keeps_outside C (rc_db st) ?db'"
    by (rule cells_changed) (use r m in \<open>auto simp: recomputing_def\<close>)
  then have k: "keeps_outside C db0 ?db'" using r keeps_outside_trans by (auto simp: recomputing_def)
  have i: "map gc_id (update_where (\<lambda>c. gc_id c = cid) (set_cell h now v) cs) = map gc_id cs" for cs
    by (simp add: update_where_def set_cell_def)
  have x: "x \<in> set (update_where (\<lambda>c. gc_id c = cid) (set_cell h now v) cs) \<Longrightarrow>
      \<exists>y \<in> set cs. gc_id y = gc_id x \<and> gc_rowId y = gc_rowId x" for x cs
    by (auto simp: update_where_def set_cell_def split: if_splits)
  have cells: "\<forall>(g, cid') \<in> set (rc_cells st). \<forall>c \<in> set (g_cells ?db'). gc_id c = cid' \<longrightarrow> gc_rowId c \<in> C"
    using r x unfolding recomputing_def by (fastforce dest!: x)
  have "st' = st \<or> rc_db st' = ?db' \<and> rc_cells st' = rc_cells st"
    using Some e by (auto simp: store_formula_def split: if_splits)
  then show ?thesis
  proof
    assume st': "rc_db st' = ?db' \<and> rc_cells st' = rc_cells st"
    have d: "distinct (map gc_id (g_cells ?db'))" using r i by (simp add: recomputing_def)
    show ?thesis unfolding recomputing_def conjunct1 [OF st'] conjunct2 [OF st'] by (intro conjI k d cells)
  qed (use r in simp)
next
  case None
  show ?thesis
  proof (cases "v = CEmpty")
    case True
    then show ?thesis using None e r by (simp add: store_formula_def)
  next
    case False
    let ?cid = "uuid (g_fresh (rc_db st))"
    let ?c = "new_cell h now s ?cid f v"
    have new: "?cid \<notin> gc_id ` set (g_cells (rc_db st))"
      and st': "st' = st\<lparr>rc_db := (rc_db st)\<lparr>g_fresh := Suc (g_fresh (rc_db st)), g_cells := g_cells (rc_db st) @ [?c]\<rparr>,
                 rc_cells := AList.update f ?cid (rc_cells st), rc_changed := rc_changed st @ [f]\<rparr>"
      using None False e by (auto simp: store_formula_def new_uuid_def split: if_splits)
    have c: "gc_rowId ?c \<in> C" "gc_id ?c = ?cid" using s by (simp_all add: new_cell_def)
    have k: "keeps_outside C db0 ((rc_db st)\<lparr>g_fresh := Suc (g_fresh (rc_db st)), g_cells := g_cells (rc_db st) @ [?c]\<rparr>)"
      by (rule keeps_outside_trans [OF _ cell_added [OF c(1)]]) (use r in \<open>simp add: recomputing_def\<close>)
    have u: "set (AList.update f ?cid (rc_cells st)) \<subseteq> insert (f, ?cid) (set (rc_cells st))"
    proof -
      have "set (AList.update a b m) \<subseteq> insert (a, b) (set m)" for a :: jsstr and b :: jsstr and m by (induction m) auto
      then show ?thesis .
    qed
    have cells: "gc_rowId x \<in> C"
      if g: "(g, gc_id x) \<in> set (AList.update f ?cid (rc_cells st))" and x: "x \<in> set (g_cells (rc_db st) @ [?c])" for g x
    proof (cases "x = ?c")
      case False
      then have m: "x \<in> set (g_cells (rc_db st))" using x by simp
      then have "gc_id x \<noteq> ?cid" using new by (metis imageI)
      then have "(g, gc_id x) \<in> set (rc_cells st)" using g u by blast
      then show ?thesis using r m by (auto simp: recomputing_def)
    qed (use c(1) in simp)
    have d: "distinct (map gc_id (g_cells (rc_db st) @ [?c]))" using r new c(2) by (simp add: recomputing_def)
    show ?thesis unfolding st' recomputing_def using k d cells by auto
  qed
qed

lemma recompute_formulas_keeps:
  assumes "sc_rowId s \<in> C"
  shows "recomputing C db0 st \<Longrightarrow> fold_result (recompute_formula h uuid now s formulas) ord st = Inr st' \<Longrightarrow> recomputing C db0 st'"
proof (induction ord arbitrary: st)
  case (Cons f ord)
  obtain st1 where s1: "recompute_formula h uuid now s formulas f st = Inr st1"
    "fold_result (recompute_formula h uuid now s formulas) ord st1 = Inr st'"
    using Cons.prems(2) by (auto simp: and_then_eq_Inr)
  have m: "recomputing C db0 (st\<lparr>rc_values := m\<rparr>)" for m using Cons.prems(1) by (simp add: recomputing_def)
  have "st1 = st \<or> (\<exists>v m. store_formula h uuid now s f v (st\<lparr>rc_values := m\<rparr>) = Inr st1)"
    using s1(1) by (auto simp: recompute_formula_def Let_def split: option.splits if_splits)
  then have "recomputing C db0 st1" using Cons.prems(1) store_formula_keeps [OF m assms] by blast
  then show ?case by (rule Cons.IH) (rule s1(2))
qed simp

lemma recompute_keeps:
  assumes e: "recomputeDependentSqliteFormulasForRow h uuid now s changed db = Inr (db', ids)"
    and s: "sc_rowId s \<in> C" and d: "distinct (map gc_id (g_cells db))"
  shows "keeps_outside C db db' \<and> distinct (map gc_id (g_cells db'))"
proof (cases "db' = db")
  case False
  let ?cs = "row_cells (sc_rowId s) (sc_tableId s) (sc_workspaceId s) db"
  obtain ord vals st' where f: "fold_result (recompute_formula h uuid now s
      (map_from (map (\<lambda>c. (col_id c, c)) (active_formulas (sc_tableId s) (sc_workspaceId s) db)))) ord
      \<lparr>rc_db = db, rc_values = map_from vals, rc_cells = map_from (map (\<lambda>c. (gc_columnId c, gc_id c)) ?cs), rc_changed = []\<rparr> = Inr st'"
    "db' = rc_db st'"
    using e False by (auto simp: recomputeDependentSqliteFormulasForRow_def Let_def and_then_eq_Inr split: if_splits)
  have "gc_rowId c \<in> C" if "(g, gc_id c) \<in> set (map_from (map (\<lambda>c. (gc_columnId c, gc_id c)) ?cs))" "c \<in> set (g_cells db)" for g c
  proof -
    have "(g, gc_id c) \<in> set (map (\<lambda>c. (gc_columnId c, gc_id c)) ?cs)" using that(1) by (rule subsetD [OF set_map_from])
    then obtain x where x: "x \<in> set ?cs" "gc_id x = gc_id c" by auto
    then have "x \<in> set (g_cells db)" "gc_rowId x = sc_rowId s" by (auto simp: row_cells_def select_where_def)
    then show ?thesis using unique_row [OF d _ that(2)] x(2) s by metis
  qed
  then have "recomputing C db \<lparr>rc_db = db, rc_values = map_from vals,
      rc_cells = map_from (map (\<lambda>c. (gc_columnId c, gc_id c)) ?cs), rc_changed = []\<rparr>"
    using d by (auto simp: recomputing_def)
  then have "recomputing C db st'" by (rule recompute_formulas_keeps [OF s _ f(1)])
  then show ?thesis by (simp add: recomputing_def f(2))
qed (use d in simp)

lemma queue_keeps:
  assumes "queue_settlement uuid now s changed n db = (db', x)"
  shows "g_rows db' = g_rows db \<and> g_cells db' = g_cells db \<and> g_members db' = g_members db \<and> g_tables db' = g_tables db
    \<and> g_columns db' = g_columns db \<and> g_dependencies db' = g_dependencies db"
  using assms by (auto simp: queue_settlement_def new_uuid_def split: if_splits)

lemma record_keeps:
  assumes e: "recordSqliteRowMutationAndMaybeQueueSettlement h uuid now s changed db = Inr (db', v, sid)" and s: "sc_rowId s \<in> C"
  shows "keeps_outside C db db' \<and> g_cells db' = g_cells db"
proof -
  have i: "map row_id (update_where (row_in_scope s) (raise_version now) (g_rows db)) = map row_id (g_rows db)"
    by (simp add: update_where_def raise_version_def)
  have "row_id ` set (update_where (row_in_scope s) (raise_version now) (g_rows db)) = row_id ` set (g_rows db)"
    using i by (metis set_map)
  moreover have "filter (\<lambda>r. row_id r \<notin> C) (update_where (row_in_scope s) (raise_version now) (g_rows db)) = filter (\<lambda>r. row_id r \<notin> C) (g_rows db)"
    using s by (intro filter_update_where) (auto simp: row_in_scope_def raise_version_def)
  moreover have "g_rows db' = update_where (row_in_scope s) (raise_version now) (g_rows db) \<and> g_cells db' = g_cells db
      \<and> g_members db' = g_members db \<and> g_tables db' = g_tables db \<and> g_columns db' = g_columns db \<and> g_dependencies db' = g_dependencies db"
  proof -
    let ?db1 = "db\<lparr>g_rows := update_where (row_in_scope s) (raise_version now) (g_rows db)\<rparr>"
    obtain n where "db' = ?db1 \<or> queue_settlement uuid now s (sort (set_from changed)) n ?db1 = (db', sid)"
      using e unfolding recordSqliteRowMutationAndMaybeQueueSettlement_def Let_def
      by (auto simp: and_then_eq_Inr split: option.splits if_splits prod.splits)
    then show ?thesis by (auto dest: queue_keeps)
  qed
  ultimately show ?thesis by (simp add: keeps_outside_def)
qed

lemma settle_copies_keep:
  "fold_result (settle_copy h uuid now inp) created db = Inr db' \<Longrightarrow> set created \<subseteq> C \<Longrightarrow> distinct (map gc_id (g_cells db))
    \<Longrightarrow> keeps_outside C db db'"
proof (induction created arbitrary: db)
  case (Cons i created)
  obtain db2 where c: "settle_copy h uuid now inp i db = Inr db2" "fold_result (settle_copy h uuid now inp) created db2 = Inr db'"
    using Cons.prems(1) by (auto simp: and_then_eq_Inr)
  obtain db1 ids v sid where s: "recomputeDependentSqliteFormulasForRow h uuid now
      \<lparr>sc_rowId = i, sc_tableId = cp_tableId inp, sc_workspaceId = cp_workspaceId inp\<rparr> (map targetColumnId (cp_mappings inp)) db = Inr (db1, ids)"
    "recordSqliteRowMutationAndMaybeQueueSettlement h uuid now
      \<lparr>sc_rowId = i, sc_tableId = cp_tableId inp, sc_workspaceId = cp_workspaceId inp\<rparr> (map targetColumnId (cp_mappings inp) @ ids) db1 = Inr (db2, v, sid)"
    using c(1) by (auto simp: settle_copy_def Let_def and_then_eq_Inr)
  have k: "keeps_outside C db db1" "distinct (map gc_id (g_cells db1))"
    using recompute_keeps [OF s(1) _ Cons.prems(3), of C] Cons.prems(2) by auto
  moreover have k2: "keeps_outside C db1 db2" "g_cells db2 = g_cells db1" using record_keeps [OF s(2), of C] Cons.prems(2) by auto
  moreover have "keeps_outside C db2 db'" by (rule Cons.IH [OF c(2)]) (use Cons.prems(2) k(2) k2(2) in auto)
  ultimately show ?case using keeps_outside_trans by blast
qed simp

section \<open>A step that runs again\<close>

definition target_ids :: "(jsstr \<Rightarrow> 8 word list) \<Rightarrow> copy_input \<Rightarrow> jsstr set" where
  "target_ids sha256 inp = target_id sha256 inp ` set (cp_batch inp)"

lemma rows_inserted:
  "fold insert_row ts (rs, created) = (rs', created') \<Longrightarrow> row_id ` set ts \<subseteq> C \<Longrightarrow>
     filter (\<lambda>r. row_id r \<notin> C) rs' = filter (\<lambda>r. row_id r \<notin> C) rs
     \<and> row_id ` set rs \<union> row_id ` set ts \<subseteq> row_id ` set rs' \<and> set created' \<subseteq> set created \<union> C"
proof (induction ts arbitrary: rs created)
  case (Cons t ts)
  obtain rs1 c1 where i: "insert_row t (rs, created) = (rs1, c1)" by (cases "insert_row t (rs, created)")
  have f: "filter (\<lambda>r. row_id r \<notin> C) rs1 = filter (\<lambda>r. row_id r \<notin> C) rs"
    and sub: "row_id ` set rs \<subseteq> row_id ` set rs1" "row_id t \<in> row_id ` set rs1" and c: "set c1 \<subseteq> set created \<union> C"
    using i Cons.prems(2) by (auto simp: insert_row_def split: if_splits)
  have grow': "A \<subseteq> B \<union> C \<Longrightarrow> R \<subseteq> A \<union> C \<Longrightarrow> R \<subseteq> B \<union> C" for A B R :: "jsstr set" by blast
  show ?case using Cons.IH [of rs1 c1] Cons.prems f grow' [OF c] subset_trans [OF sub(1), of "row_id ` set rs'"]
      subsetD [OF _ sub(2), of "row_id ` set rs'"] by (simp add: i)
qed simp

lemma rows_present: "row_id ` set ts \<subseteq> row_id ` set rs \<Longrightarrow> fold insert_row ts (rs, created) = (rs, created)"
  by (induction ts) (auto simp: insert_row_def)

lemma cells_inserted:
  "gc_rowId ` set ts \<subseteq> C \<Longrightarrow>
     filter (\<lambda>c. gc_rowId c \<notin> C) (fold insert_cell ts cs) = filter (\<lambda>c. gc_rowId c \<notin> C) cs
     \<and> gc_id ` set cs \<subseteq> gc_id ` set (fold insert_cell ts cs)
     \<and> cell_key ` set cs \<subseteq> cell_key ` set (fold insert_cell ts cs)
     \<and> (distinct (map gc_id cs) \<longrightarrow> distinct (map gc_id (fold insert_cell ts cs)))"
proof (induction ts arbitrary: cs)
  case (Cons t ts)
  have sub: "gc_id ` set cs \<subseteq> gc_id ` set (insert_cell t cs)" "cell_key ` set cs \<subseteq> cell_key ` set (insert_cell t cs)"
    and f: "filter (\<lambda>c. gc_rowId c \<notin> C) (insert_cell t cs) = filter (\<lambda>c. gc_rowId c \<notin> C) cs"
    and d: "distinct (map gc_id cs) \<longrightarrow> distinct (map gc_id (insert_cell t cs))"
    using Cons.prems by (auto simp: insert_cell_def)
  have ts: "gc_rowId ` set ts \<subseteq> C" using Cons.prems by simp
  note ih = Cons.IH [OF ts, of "insert_cell t cs"]
  show ?case unfolding fold_simps
    using ih f d subset_trans [OF sub(1), of "gc_id ` set (fold insert_cell ts (insert_cell t cs))"]
      subset_trans [OF sub(2), of "cell_key ` set (fold insert_cell ts (insert_cell t cs))"] by simp
qed simp

definition cell_conflicts :: "grid_cell list \<Rightarrow> grid_cell \<Rightarrow> bool" where
  "cell_conflicts cs c \<longleftrightarrow> gc_id c \<in> gc_id ` set cs \<or> cell_key c \<in> cell_key ` set cs"

lemma inserted_conflict: "t \<in> set ts \<Longrightarrow> cell_conflicts (fold insert_cell ts cs) t"
proof (induction ts arbitrary: cs)
  case (Cons a ts)
  show ?case
  proof (cases "t = a")
    case True
    then have "cell_conflicts (insert_cell a cs) t" by (auto simp: cell_conflicts_def insert_cell_def)
    then show ?thesis using cells_inserted [of ts UNIV "insert_cell a cs"] by (auto simp: cell_conflicts_def)
  qed (use Cons in auto)
qed simp

lemma cells_present: "(\<And>t. t \<in> set ts \<Longrightarrow> cell_conflicts cs t) \<Longrightarrow> fold insert_cell ts cs = cs"
  by (induction ts) (auto simp: insert_cell_def cell_conflicts_def)

lemma fold_chunks: "0 < n \<Longrightarrow> fold (fold f) (chunks n xs) s = fold f xs s"
proof -
  have "fold (fold f) xss s = fold f (concat xss) s" for xss by (induction xss arbitrary: s) auto
  then show "0 < n \<Longrightarrow> fold (fold f) (chunks n xs) s = fold f xs s" by (simp add: concat_chunks)
qed

lemma fold_result_cong: "(\<And>x s. x \<in> set xs \<Longrightarrow> f x s = g x s) \<Longrightarrow> fold_result f xs s = fold_result g xs s"
proof (induction xs arbitrary: s)
  case (Cons x xs)
  then show ?case by (cases "g x s") auto
qed simp

lemma filter_outside:
  assumes "filter (\<lambda>x. k x \<notin> C) xs' = filter (\<lambda>x. k x \<notin> C) xs" and "\<And>x. P x \<Longrightarrow> k x \<notin> C"
  shows "filter P xs' = filter P xs"
proof -
  have "filter P ys = filter P (filter (\<lambda>x. k x \<notin> C) ys)" for ys using assms(2) by (induction ys) auto
  then show ?thesis using assms(1) by metis
qed

lemma sources_kept:
  assumes k: "keeps_outside C db db'" and d: "\<And>r. r \<in> set (cp_batch inp) \<Longrightarrow> ref_rowId r \<notin> C"
  shows "copy_sources h inp db' = copy_sources h inp db"
proof -
  have cols: "active_columns w t ids db' = active_columns w t ids db" for w t ids
    using k by (simp add: active_columns_def keeps_outside_def)
  have "load_source h inp types db' (t, refs) m = load_source h inp types db (t, refs) m"
    if "(t, refs) \<in> set (group_by_table (cp_batch inp))" for types t refs m
  proof -
    have ids: "i \<notin> C" if "i \<in> set (map ref_rowId refs)" for i
      using that d group_entry [OF \<open>(t, refs) \<in> set (group_by_table (cp_batch inp))\<close>] by auto
    have "source_rows inp t (map ref_rowId refs) db' = source_rows inp t (map ref_rowId refs) db"
      unfolding source_rows_def select_where_def
      by (rule filter_outside [where k = row_id and C = C]) (use k ids in \<open>simp_all add: keeps_outside_def\<close>)
    moreover have "source_cells inp t (map ref_rowId refs) db' = source_cells inp t (map ref_rowId refs) db"
      unfolding source_cells_def select_where_def
      by (rule filter_outside [where k = gc_rowId and C = C]) (use k ids in \<open>simp_all add: keeps_outside_def\<close>)
    ultimately show ?thesis by (simp add: load_source_def cols Let_def)
  qed
  then have "fold_result (load_source h inp types db') (group_by_table (cp_batch inp)) []
      = fold_result (load_source h inp types db) (group_by_table (cp_batch inp)) []" for types
    by (intro fold_result_cong) auto
  moreover have "g_tables db' = g_tables db" using k by (simp add: keeps_outside_def)
  ultimately show ?thesis by (simp add: copy_sources_def cols Let_def split: option.split)
qed

lemma target_row_ids: "row_id ` set (target_rows sha256 now inp) = target_ids sha256 inp"
proof -
  have "map row_id (target_rows sha256 now inp) = map (target_id sha256 inp) (cp_batch inp)"
    using arg_cong [OF map_snd_enumerate [of 0 "cp_batch inp"], of "map (target_id sha256 inp)"]
    by (simp add: target_rows_def split_beta o_def del: map_snd_enumerate)
  then show ?thesis unfolding target_ids_def by (metis set_map)
qed

lemma target_cell_keys:
  "map (\<lambda>c. (gc_id c, cell_key c)) (target_cells h sha256 now inp src) = map (\<lambda>c. (gc_id c, cell_key c)) (target_cells h sha256 now' inp src)"
  by (simp add: target_cells_def map_concat o_def cell_key_def option.case_distrib cong: option.case_cong)

lemma target_cell_rows: "gc_rowId ` set (target_cells h sha256 now inp src) \<subseteq> target_ids sha256 inp"
  by (auto simp: target_cells_def target_ids_def split: option.splits)

lemma copy_parts:
  assumes "writeSqliteWorkflowRowBatch h sha256 uuid now inp db = Inr (db', out)"
  obtains src rs created where "check_copy h inp = Inr ()" "copy_sources h inp db = Inr src"
    "fold insert_row (target_rows sha256 now inp) (g_rows db, []) = (rs, created)"
    "fold_result (settle_copy h uuid now inp) created
      (db\<lparr>g_rows := rs, g_cells := fold insert_cell (target_cells h sha256 now inp src) (g_cells db)\<rparr>) = Inr db'"
    "workflowRowBatch h (map (\<lambda>ref. \<lparr>ref_rowId = target_id sha256 inp ref, ref_tableId = cp_tableId inp\<rparr>) (cp_batch inp)) = Inr out"
proof -
  obtain rs created where i: "fold insert_row (target_rows sha256 now inp) (g_rows db, []) = (rs, created)"
    by (cases "fold insert_row (target_rows sha256 now inp) (g_rows db, [])")
  obtain src where c: "check_copy h inp = Inr ()" "copy_sources h inp db = Inr src"
    using assms by (auto simp: writeSqliteWorkflowRowBatch_def and_then_eq_Inr)
  show ?thesis by (rule that [OF c i]) (use assms c i in \<open>auto simp: writeSqliteWorkflowRowBatch_def Let_def and_then_eq_Inr fold_chunks\<close>)
qed

lemma copy_keeps:
  assumes w: "writeSqliteWorkflowRowBatch h sha256 uuid now inp db = Inr (db', out)" and d: "distinct (map gc_id (g_cells db))"
  shows "keeps_outside (target_ids sha256 inp) db db'" and "target_ids sha256 inp \<subseteq> row_id ` set (g_rows db')"
    and "\<exists>src. copy_sources h inp db = Inr src
      \<and> (\<forall>c \<in> set (target_cells h sha256 now inp src). cell_conflicts (g_cells db') c)"
proof -
  let ?C = "target_ids sha256 inp"
  obtain src rs created where p: "copy_sources h inp db = Inr src"
    "fold insert_row (target_rows sha256 now inp) (g_rows db, []) = (rs, created)"
    "fold_result (settle_copy h uuid now inp) created
      (db\<lparr>g_rows := rs, g_cells := fold insert_cell (target_cells h sha256 now inp src) (g_cells db)\<rparr>) = Inr db'"
    by (rule copy_parts [OF w])
  let ?cs = "fold insert_cell (target_cells h sha256 now inp src) (g_cells db)"
  let ?db1 = "db\<lparr>g_rows := rs, g_cells := ?cs\<rparr>"
  note r = rows_inserted [OF p(2) eq_refl [OF target_row_ids]]
  note c = cells_inserted [OF target_cell_rows [of h sha256 now inp src], of "g_cells db"]
  have k1: "keeps_outside ?C db ?db1" using r c by (simp add: keeps_outside_def)
  have "set created \<subseteq> ?C" using r by simp
  then have k2: "keeps_outside ?C ?db1 db'" by (rule settle_copies_keep [OF p(3)]) (use c d in simp)
  show "keeps_outside ?C db db'" by (rule keeps_outside_trans [OF k1 k2])
  have "?C \<subseteq> row_id ` set rs" using r by (simp add: target_row_ids)
  then show "?C \<subseteq> row_id ` set (g_rows db')" using k2 by (auto simp: keeps_outside_def)
  have "cell_conflicts (g_cells db') t" if "t \<in> set (target_cells h sha256 now inp src)" for t
    using inserted_conflict [OF that, of "g_cells db"] k2 by (auto simp: cell_conflicts_def keeps_outside_def)
  then show "\<exists>src. copy_sources h inp db = Inr src
      \<and> (\<forall>c \<in> set (target_cells h sha256 now inp src). cell_conflicts (g_cells db') c)" using p(1) by blast
qed

lemma conflicts_later:
  assumes "\<forall>c \<in> set (target_cells h sha256 now inp src). cell_conflicts cs c" and "t \<in> set (target_cells h sha256 now' inp src)"
  shows "cell_conflicts cs t"
proof -
  have "(gc_id t, cell_key t) \<in> set (map (\<lambda>c. (gc_id c, cell_key c)) (target_cells h sha256 now inp src))"
    using assms(2) unfolding target_cell_keys [of h sha256 now inp src now'] by simp
  then show ?thesis using assms(1) by (auto simp: cell_conflicts_def)
qed

lemma copy_again:
  assumes w: "writeSqliteWorkflowRowBatch h sha256 uuid now inp db = Inr (db', out)" and d: "distinct (map gc_id (g_cells db))"
    and s: "ref_rowId ` set (cp_batch inp) \<inter> target_ids sha256 inp = {}"
  shows "writeSqliteWorkflowRowBatch h sha256 uuid' now' inp db' = Inr (db', out)"
proof -
  note k = copy_keeps [OF w d]
  obtain src where src: "copy_sources h inp db = Inr src" "\<forall>c \<in> set (target_cells h sha256 now inp src). cell_conflicts (g_cells db') c"
    using k(3) by blast
  have "copy_sources h inp db' = Inr src" using sources_kept [OF k(1)] s src(1) by (metis disjoint_iff imageI)
  moreover have "fold insert_row (target_rows sha256 now' inp) (g_rows db', []) = (g_rows db', [])"
    by (rule rows_present) (use k(2) in \<open>simp add: target_row_ids\<close>)
  moreover have "fold insert_cell (target_cells h sha256 now' inp src) (g_cells db') = g_cells db'"
    by (rule cells_present) (rule conflicts_later [OF src(2)])
  moreover obtain "check_copy h inp = Inr ()"
    "workflowRowBatch h (map (\<lambda>ref. \<lparr>ref_rowId = target_id sha256 inp ref, ref_tableId = cp_tableId inp\<rparr>) (cp_batch inp)) = Inr out"
    by (rule copy_parts [OF w])
  ultimately show ?thesis by (simp add: writeSqliteWorkflowRowBatch_def Let_def fold_chunks)
qed

text \<open>
  C36. Copying a batch can be repeated. If a write-table step has written its rows and runs again,
  as it does after a crash between the write and the completion of the step, the second write
  returns the same rows and changes nothing: no row, no cell, no version, no event. And a write
  leaves everything outside its own rows alone: the tables, the columns, the other rows and
  their cells. The identifiers that the hash gives must not be those of rows of the batch.
\<close>

theorem copy_retry:
  assumes "writeSqliteWorkflowRowBatch h sha256 uuid now inp db = Inr (db', out)"
    and "distinct (map gc_id (g_cells db))" and "ref_rowId ` set (cp_batch inp) \<inter> target_ids sha256 inp = {}"
  shows "writeSqliteWorkflowRowBatch h sha256 uuid' now' inp db' = Inr (db', out)
    \<and> keeps_outside (target_ids sha256 inp) db db' \<and> target_ids sha256 inp \<subseteq> row_id ` set (g_rows db')"
  using copy_again [OF assms] copy_keeps(1,2) [OF assms(1,2)] by simp

definition copy_sample :: copy_input where
  "copy_sample = \<lparr>cp_batch = [\<lparr>ref_rowId = paged_id 49, ref_tableId = js ''t''\<rparr>],
     cp_mappings = [\<lparr>sourceColumnId = paged_id 65, targetColumnId = paged_id 65\<rparr>],
     cp_runId = js ''run'', cp_stepId = js ''step'', cp_tableId = js ''t'', cp_workspaceId = js ''w''\<rparr>"

definition zero_hash :: "jsstr \<Rightarrow> 8 word list" where
  "zero_hash s = replicate 32 0"

lemma copy_sample_written:
  "(case writeSqliteWorkflowRowBatch ascii_host zero_hash (\<lambda>_. []) 5 copy_sample paged_grid of
      Inr (db', out) \<Rightarrow> length (g_rows db') = 4 \<and> length (g_cells db') = 4 \<and> map ref_rowId out = [paged_id 48] | Inl _ \<Rightarrow> False)"
  by code_simp

theorem copy_retry_witness:
  "\<exists>db' out. length (g_rows db') = 4
    \<and> writeSqliteWorkflowRowBatch ascii_host zero_hash (\<lambda>_. []) 9 copy_sample db' = Inr (db', out)"
proof -
  obtain db' out where w: "writeSqliteWorkflowRowBatch ascii_host zero_hash (\<lambda>_. []) 5 copy_sample paged_grid = Inr (db', out)"
    "length (g_rows db') = 4"
    using copy_sample_written by (auto split: sum.splits prod.splits)
  have "distinct (map gc_id (g_cells paged_grid))" by (simp add: paged_grid_def paged_cell_def)
  moreover have "target_ids zero_hash copy_sample = {paged_id 48}" by code_simp
  moreover have "ref_rowId ` set (cp_batch copy_sample) = {paged_id 49}" by (simp add: copy_sample_def)
  ultimately show ?thesis using copy_retry [OF w(1)] w(2) by (fastforce simp: paged_id_def)
qed

end
