(* ===== verification/WorkflowWorker.thy ===== *)
theory WorkflowWorker
  imports RowCopies RunProperties
begin

text \<open>
  The worker that executes a run (\<open>apps/workflow-worker/src/execute-workflow-run.ts\<close>,
  \<open>execute-step.ts\<close>): it claims one step of the run after the other, does what the node of the
  step asks, and completes the step; a step that throws fails, and the run with it.
\<close>

section \<open>The values between steps\<close>

definition reference_json :: "row_reference \<Rightarrow> json" where
  "reference_json r = JObj [(js ''rowId'', JStr (ref_rowId r)), (js ''tableId'', JStr (ref_tableId r))]"

definition batch_json :: "row_reference list \<Rightarrow> json" where
  "batch_json batch = JObj [(js ''rows'', JArr (map reference_json batch)), (js ''schemaVersion'', JNum (Fin 1))]"

text \<open>\<open>strictObject\<close>: these keys and no other.\<close>

definition strict_keys :: "string list \<Rightarrow> (jsstr \<times> json) list \<Rightarrow> bool" where
  "strict_keys keys props \<longleftrightarrow> list_all (\<lambda>(k, _). k \<in> set (map js keys)) props"

fun workflowRowReference :: "json \<Rightarrow> row_reference option" where
  "workflowRowReference (JObj props) =
     (case (map_of props (js ''rowId''), map_of props (js ''tableId'')) of
        (Some (JStr r), Some (JStr t)) \<Rightarrow>
          if strict_keys [''rowId'', ''tableId''] props then Some \<lparr>ref_rowId = r, ref_tableId = t\<rparr> else None
      | _ \<Rightarrow> None)"
| "workflowRowReference _ = None"

fun read_batch :: "host \<Rightarrow> json \<Rightarrow> row_reference list option" where
  "read_batch h (JObj props) =
     (case (map_of props (js ''rows''), map_of props (js ''schemaVersion'')) of
        (Some (JArr items), Some (JNum (Fin v))) \<Rightarrow>
          if v = 1 \<and> strict_keys [''rows'', ''schemaVersion''] props \<and> list_all (\<lambda>i. workflowRowReference i \<noteq> None) items
          then (case workflowRowBatch h (map (\<lambda>i. the (workflowRowReference i)) items) of Inr b \<Rightarrow> Some b | Inl _ \<Rightarrow> None)
          else None
      | _ \<Rightarrow> None)"
| "read_batch h _ = None"

text \<open>Why a step failed; its message is an argument of the loop.\<close>

datatype step_failure =
    DataFailure grid_error
  | LedgerFailure run_error
  | ServiceFailure jsstr
  | InvalidOutput
  | InvalidNode

definition readWorkflowRowBatchOutput :: "host \<Rightarrow> json option \<Rightarrow> jsstr \<Rightarrow> step_failure + row_reference list" where
  "readWorkflowRowBatchOutput h out handle =
     (case out of
        Some (JObj props) \<Rightarrow>
          (case Option.bind (map_of props handle) (read_batch h) of None \<Rightarrow> Inl InvalidOutput | Some b \<Rightarrow> Inr b)
      | _ \<Rightarrow> Inl InvalidOutput)"

lemma reference_read: "workflowRowReference (reference_json r) = Some r"
  by (simp add: reference_json_def strict_keys_def js_eval)

text \<open>A step reads from its predecessor the rows the predecessor gave.\<close>

lemma batch_read:
  assumes "workflowRowBatch h batch = Inr batch" and "map_of props handle = Some (batch_json batch)"
  shows "readWorkflowRowBatchOutput h (Some (JObj props)) handle = Inr batch"
proof -
  have "map (\<lambda>i. the (workflowRowReference i)) (map reference_json batch) = batch"
    by (simp add: o_def reference_read)
  moreover have "list_all (\<lambda>i. workflowRowReference i \<noteq> None) (map reference_json batch)"
    by (simp add: list_all_iff reference_read)
  ultimately have "read_batch h (batch_json batch) = Some batch"
    using assms(1) by (simp add: batch_json_def strict_keys_def js_eval del: map_map list.map_comp)
  then show ?thesis using assms(2) by (simp add: readWorkflowRowBatchOutput_def)
qed

section \<open>One step\<close>

text \<open>
  What the steps use besides the tables: the search text of the cells, SHA-256, random
  identifiers, and the services for enrichment and webhooks, which queue their jobs in the
  database and call remote hosts; a service returns its message when it throws, or the number of jobs.
\<close>

record step_services =
  sv_searchText :: "grid_cell \<Rightarrow> jsstr"
  sv_sha256 :: "jsstr \<Rightarrow> 8 word list"
  sv_uuid :: "nat \<Rightarrow> jsstr"
  sv_enrich :: "claimed_step \<Rightarrow> row_reference list \<Rightarrow> jsstr \<Rightarrow> bulk_run_mode \<Rightarrow> grid_db \<Rightarrow> grid_db \<times> (jsstr + nat)"
  sv_webhook :: "claimed_step \<Rightarrow> row_reference list \<Rightarrow> jsstr \<Rightarrow> grid_db \<Rightarrow> grid_db \<times> (jsstr + nat)"

type_synonym step_result = "jsstr list \<times> json"

definition requireSingleInbound :: "step_execution \<Rightarrow> step_failure + inbound_output" where
  "requireSingleInbound execution =
     (case inbound execution of [x] \<Rightarrow> Inr x | _ \<Rightarrow> Inl (LedgerFailure RunValidation))"

definition inbound_rows :: "host \<Rightarrow> step_execution \<Rightarrow> step_failure + row_reference list" where
  "inbound_rows h execution =
     and_then (requireSingleInbound execution) (\<lambda>x. readWorkflowRowBatchOutput h (in_output x) (in_sourceHandle x))"

definition data_result :: "grid_error + 'a \<Rightarrow> step_failure + 'a" where
  "data_result m = (case m of Inl e \<Rightarrow> Inl (DataFailure e) | Inr x \<Rightarrow> Inr x)"

definition parsed_step :: "host \<Rightarrow> compiled_step \<Rightarrow> step_failure + configuration" where
  "parsed_step h s =
     (if kind_of (step_configuration s) = step_kind s \<and> valid_uuid h (stepId s) \<and> workflowName h (step_name s) \<noteq> None
         \<and> configuration_ok h (step_configuration s)
      then Inr (parsed_configuration h (step_configuration s)) else Inl InvalidNode)"

definition count_json :: "nat \<Rightarrow> json" where
  "count_json n = JNum (Fin (of_nat n))"

text \<open>A service on the rows of the predecessor.\<close>

definition serve :: "(row_reference list \<Rightarrow> grid_db \<Rightarrow> grid_db \<times> (jsstr + nat)) \<Rightarrow> (row_reference list \<Rightarrow> nat \<Rightarrow> step_result)
    \<Rightarrow> step_failure + row_reference list \<Rightarrow> grid_db \<Rightarrow> grid_db \<times> (step_failure + step_result)" where
  "serve service result refs db =
     (case refs of
        Inl f \<Rightarrow> (db, Inl f)
      | Inr b \<Rightarrow> (case service b db of
            (db', Inl m) \<Rightarrow> (db', Inl (ServiceFailure m))
          | (db', Inr n) \<Rightarrow> (db', Inr (result b n))))"

fun execute_node :: "host \<Rightarrow> step_services \<Rightarrow> int \<Rightarrow> claimed_step \<Rightarrow> step_execution \<Rightarrow> saved_view_row list
    \<Rightarrow> configuration \<Rightarrow> grid_db \<Rightarrow> grid_db \<times> (step_failure + step_result)" where
  "execute_node h sv now claim execution views (TableRows query tableId viewId) db =
     (db, and_then (data_result (selectSqliteWorkflowRowBatch h (sv_searchText sv)
            \<lparr>sl_searchQuery = query, sl_tableId = tableId, sl_userId = exec_userId execution, sl_viewId = viewId,
             sl_workspaceId = cs_workspaceId claim\<rparr> db views)) (\<lambda>refs.
          Inr (if refs \<noteq> [] then [js ''rows''] else [], JObj [(js ''rows'', batch_json refs)])))"
| "execute_node h sv now claim execution views (FilterRows filterTree) db =
     (db, and_then (inbound_rows h execution) (\<lambda>refs.
          and_then (data_result (partitionSqliteWorkflowRowBatch h refs filterTree (cs_workspaceId claim) db)) (\<lambda>(matched, rejected).
          let connected = map route_sourceHandle (outboundRoutes (exec_step execution))
          in Inr ((if matched \<noteq> [] \<and> js ''matched'' \<in> set connected then [js ''matched''] else [])
                  @ (if rejected \<noteq> [] \<and> js ''rejected'' \<in> set connected then [js ''rejected''] else []),
                JObj [(js ''matched'', batch_json matched), (js ''rejected'', batch_json rejected)]))))"
| "execute_node h sv now claim execution views (WriteTable mappings tableId) db =
     (case and_then (inbound_rows h execution) (\<lambda>refs.
             data_result (writeSqliteWorkflowRowBatch h (sv_sha256 sv) (sv_uuid sv) now
               \<lparr>cp_batch = refs, cp_mappings = mappings, cp_runId = cs_runId claim, cp_stepId = cs_stepId claim,
                cp_tableId = tableId, cp_workspaceId = cs_workspaceId claim\<rparr> db)) of
        Inl f \<Rightarrow> (db, Inl f)
      | Inr (db', written) \<Rightarrow>
          (db', Inr ([], JObj [(js ''tableId'', JStr tableId), (js ''writtenRows'', count_json (length written))])))"
| "execute_node h sv now claim execution views (EnrichColumn columnId mode) db =
     serve (\<lambda>refs. sv_enrich sv claim refs columnId mode)
       (\<lambda>refs n. (if refs \<noteq> [] then [js ''rows''] else [],
                   JObj [(js ''enrichedRows'', count_json n), (js ''rows'', batch_json refs)]))
       (inbound_rows h execution) db"
| "execute_node h sv now claim execution views (SendWebhook destinationId) db =
     serve (\<lambda>refs. sv_webhook sv claim refs destinationId)
       (\<lambda>refs n. ([], JObj [(js ''deliveredRows'', count_json n), (js ''destinationId'', JStr destinationId)]))
       (inbound_rows h execution) db"

definition executeClaimedWorkflowStep :: "host \<Rightarrow> step_services \<Rightarrow> int \<Rightarrow> claimed_step \<Rightarrow> step_execution
    \<Rightarrow> saved_view_row list \<Rightarrow> grid_db \<Rightarrow> grid_db \<times> (step_failure + step_result)" where
  "executeClaimedWorkflowStep h sv now claim execution views db =
     (case parsed_step h (exec_step execution) of
        Inl f \<Rightarrow> (db, Inl f)
      | Inr c \<Rightarrow> execute_node h sv now claim execution views c db)"

section \<open>The run\<close>

datatype run_outcome = Drained nat | StepThrew jsstr | LedgerThrew run_error

text \<open>
  What a turn of the loop takes from outside: the identifier of its claim, the time when it
  claims, executes and settles the step, and the message of a failure.
\<close>

record worker =
  wk_claimId :: "nat \<Rightarrow> jsstr"
  wk_clock :: "nat \<Rightarrow> int"
  wk_execution :: "nat \<Rightarrow> int"
  wk_settlement :: "nat \<Rightarrow> int"
  wk_message :: "step_failure \<Rightarrow> jsstr"
  wk_services :: step_services
  wk_views :: "saved_view_row list"

definition claim_input :: "worker \<Rightarrow> nat \<Rightarrow> jsstr \<Rightarrow> jsstr \<Rightarrow> claim_steps_input" where
  "claim_input w i rid workspaceId =
     \<lparr>step_claimId_in = wk_claimId w i, step_leaseSeconds_in = None, step_limit_in = Some 1,
      step_now_in = wk_clock w i, step_runId_in = Some rid, step_workspaceId_in = Some workspaceId\<rparr>"

definition claim_ref :: "jsstr \<Rightarrow> claimed_step \<Rightarrow> step_ref" where
  "claim_ref c claim = \<lparr>ref_claimId = c, ref_runId = cs_runId claim, ref_stepId = cs_stepId claim,
     ref_workspaceId = cs_workspaceId claim\<rparr>"

text \<open>The body of the \<open>try\<close> block: the tables it leaves, and the failure or the ledger.\<close>

definition try_step :: "host \<Rightarrow> worker \<Rightarrow> nat \<Rightarrow> claimed_step \<Rightarrow> ledger \<Rightarrow> grid_db \<Rightarrow> grid_db \<times> (step_failure + ledger)" where
  "try_step h w i claim led db =
     (let ref = claim_ref (wk_claimId w i) claim
      in case getClaimedSqliteWorkflowStepExecution ref led of
           Inl e \<Rightarrow> (db, Inl (LedgerFailure e))
         | Inr execution \<Rightarrow>
             (case executeClaimedWorkflowStep h (wk_services w) (wk_execution w i) claim execution (wk_views w) db of
                (db', Inl f) \<Rightarrow> (db', Inl f)
              | (db', Inr (handles, out)) \<Rightarrow>
                  (db', case completeSqliteWorkflowStep ref handles (Some out) (wk_settlement w i) led of
                          Inl e \<Rightarrow> Inl (LedgerFailure e)
                        | Inr (led', _) \<Rightarrow> Inr led')))"

text \<open>The endless loop with a bound on its turns; \<open>None\<close> if the bound was too small.\<close>

fun executeWorkflowRun :: "nat \<Rightarrow> host \<Rightarrow> worker \<Rightarrow> nat \<Rightarrow> jsstr \<Rightarrow> jsstr \<Rightarrow> ledger \<Rightarrow> grid_db
    \<Rightarrow> (run_outcome \<times> ledger \<times> grid_db) option" where
  "executeWorkflowRun 0 h w completed rid workspaceId led db = None"
| "executeWorkflowRun (Suc fuel) h w completed rid workspaceId led db =
     (case claimSqliteWorkflowSteps (claim_input w completed rid workspaceId) led of
        Inl e \<Rightarrow> Some (LedgerThrew e, led, db)
      | Inr (led1, []) \<Rightarrow> Some (Drained completed, led1, db)
      | Inr (led1, claim # _) \<Rightarrow>
          (case try_step h w completed claim led1 db of
             (db', Inr led2) \<Rightarrow> executeWorkflowRun fuel h w (completed + 1) rid workspaceId led2 db'
           | (db', Inl f) \<Rightarrow>
               (case failSqliteWorkflowStep (claim_ref (wk_claimId w completed) claim) (js ''workflow_step_failed'')
                      (wk_message w f) (wk_settlement w completed) led1 of
                  Inl e \<Rightarrow> Some (LedgerThrew e, led1, db')
                | Inr led2 \<Rightarrow> Some (StepThrew (wk_message w f), led2, db'))))"

end
