(* ===== verification/WorkerProofs.thy ===== *)
theory WorkerProofs
  imports WorkflowWorker
begin

text \<open>
  The loop of \<open>WorkflowWorker\<close> terminates: as long as nobody else works on the run, every turn
  claims a waiting step and either completes it, so that fewer steps remain, or fails the run.
\<close>

section \<open>A worker alone with a run\<close>

text \<open>No step of the run is running, and every step that waits for a retry may start.\<close>

definition lone :: "(nat \<Rightarrow> int) \<Rightarrow> jsstr \<Rightarrow> ledger \<Rightarrow> bool" where
  "lone clock rid led \<longleftrightarrow> (\<forall>s \<in> set (step_runs led). step_runId s = rid \<longrightarrow>
     step_status s \<noteq> StepRunning \<and> (case nextAttemptAt s of None \<Rightarrow> True | Some t \<Rightarrow> \<forall>i. t \<le> clock i))"

definition run_at :: "ledger \<Rightarrow> jsstr \<Rightarrow> jsstr \<Rightarrow> run_status \<Rightarrow> bool" where
  "run_at led rid workspaceId st \<longleftrightarrow> (\<exists>r \<in> set (runs led). run_id r = rid \<and> run_workspaceId r = workspaceId \<and> run_status r = st)"

lemma lone_claim:
  assumes ok: "ledger_ok h led" and r: "run_at led rid ws st" "open_run st" and ne: "rid \<noteq> []" "ws \<noteq> []"
    and lone: "lone (wk_clock w) rid led" and c: "valid_claim_id (wk_claimId w i)"
  obtains s led1 where "s \<in> set (step_runs led)" "step_runId s = rid" "step_workspaceId s = ws" "step_status s = StepReady"
    "claimSqliteWorkflowSteps (claim_input w i rid ws) led = Inr (led1, [claimed_step_of (mark_step (wk_claimId w i) (wk_clock w i) s)])"
    "led1 = led\<lparr>step_runs := map (\<lambda>x. if x = s then mark_step (wk_claimId w i) (wk_clock w i) x else x) (step_runs led),
       runs := update_where (\<lambda>r. run_id r = rid \<and> run_status r = RunQueued) (start_run (wk_clock w i)) (runs led)\<rparr>"
proof -
  let ?inp = "claim_input w i rid ws"
  let ?m = "mark_step (wk_claimId w i) (wk_clock w i)"
  obtain run where run: "run \<in> set (runs led)" "run_id run = rid" "run_workspaceId run = ws" "open_run (run_status run)"
    using r by (auto simp: run_at_def)
  obtain led1 out where cl: "claimSqliteWorkflowSteps ?inp led = Inr (led1, out)"
    using claim_valid [OF ok, of ?inp] c ne by (auto simp: claim_input_def truthy_def)
  obtain taken where t: "set taken \<subseteq> ?m ` {s \<in> set (step_runs led). workflowStepEligibility (Some rid, Some ws, runs led)
         (wk_clock w i) (stale_before (wk_clock w i) None) s}"
    "distinct (map step_key taken)" "out = map claimed_step_of taken"
    "led1 = led\<lparr>step_runs := update_where (\<lambda>s. step_key s \<in> step_key ` set taken) ?m (step_runs led),
      runs := update_where (\<lambda>r. run_id r \<in> step_runId ` set taken \<and> run_status r = RunQueued)
        (start_run (wk_clock w i)) (runs led)\<rparr>"
    "claim_rows step_key (\<lambda>s. (step_updatedAt s, step_id s)) (nat (clamp 1 250 25 (Some 1)))
       (workflowStepEligibility (Some rid, Some ws, runs led) (wk_clock w i) (stale_before (wk_clock w i) None))
       ?m (step_runs led) = Some (step_runs led1, taken)"
    using claim_result [OF ok cl] by (auto simp: claim_input_def)
  have d: "distinct (map step_key (step_runs led))" using ok by (simp add: ledger_ok_def)
  have "length taken \<le> nat (clamp 1 250 25 (Some 1))" by (rule step_lease.claim_effect(3) [OF d t(5)])
  then have len: "length taken \<le> 1" by (simp add: clamp_def)
  obtain P where P: "plan_ok P" "machine_ok (plan_ids P) (plan_parent P) (machine_of led run)"
    using ledger_plan [OF ok run(1)] by blast
  have fo: "forest (plan_ids P) (plan_parent P)" using P(1) by (simp add: plan_ok_def)
  obtain sid where sid: "snd (machine_of led run) sid = Some StepReady \<or> snd (machine_of led run) sid = Some StepRunning"
    using machine_progress [OF _ fo run(4), of "snd (machine_of led run)"] P(2) by (auto simp: machine_of_def)
  then obtain y where at: "step_at led (run_id run) sid = Some y" and st: "step_status y = StepReady \<or> step_status y = StepRunning"
    by (auto simp: machine_of_def)
  note y = step_at_scope [OF ok run(1) at]
  have yl: "step_status y = StepReady" "case nextAttemptAt y of None \<Rightarrow> True | Some t \<Rightarrow> t \<le> wk_clock w i"
    using lone y st run(2) by (auto simp: lone_def split: option.splits)
  have "workflowStepEligibility (Some rid, Some ws, runs led) (wk_clock w i) (stale_before (wk_clock w i) None) y"
    using y yl run ne by (auto simp: workflowStepEligibility_def truthy_def list_ex_iff)
  then have "out \<noteq> []" using claim_takes [OF ok cl, of y] y by (simp add: claim_input_def)
  then obtain x where tx: "taken = [x]" using len t(3) by (cases taken) auto
  then obtain s where s: "s \<in> set (step_runs led)" "x = ?m s"
    "workflowStepEligibility (Some rid, Some ws, runs led) (wk_clock w i) (stale_before (wk_clock w i) None) s"
    using t(1) by auto
  have se: "step_runId s = rid" "step_workspaceId s = ws" "step_status s = StepReady \<or> step_status s = StepRunning"
    using s(3) ne by (auto simp: workflowStepEligibility_def truthy_def)
  have "step_status s = StepReady" using se lone s(1) by (auto simp: lone_def)
  moreover have "update_where (\<lambda>z. step_key z \<in> step_key ` set taken) ?m (step_runs led)
      = map (\<lambda>z. if z = s then ?m z else z) (step_runs led)"
    unfolding update_where_def using unique_row [OF d _ s(1)] by (auto simp: tx s(2) step_lease.key_mark)
  moreover have "step_runId x = rid" using se(1) by (simp add: s(2) mark_step_def)
  ultimately show thesis using that [OF s(1) se(1,2)] cl t(3,4) by (simp add: tx s(2))
qed

lemma fewer_remaining:
  assumes s: "s \<in> set rows" "step_runId s = rid" "active_status (step_status s)" "\<not> active_status (step_status (F s))"
    and F: "\<And>x. x \<in> set rows \<Longrightarrow> step_runId (F x) = step_runId x \<and> (active_status (step_status (F x)) \<longrightarrow> active_status (step_status x))"
  shows "remaining_steps rid (map F rows) < remaining_steps rid rows"
proof -
  obtain a b where ab: "rows = a @ s # b" using s(1) by (meson split_list)
  have le: "length (filter (\<lambda>x. step_runId (F x) = rid \<and> active_status (step_status (F x))) xs)
      \<le> length (filter (\<lambda>x. step_runId x = rid \<and> active_status (step_status x)) xs)" if "set xs \<subseteq> set rows" for xs
    using that by (induction xs) (use F in \<open>auto simp: le_Suc_eq\<close>)
  have "set a \<subseteq> set rows" "set b \<subseteq> set rows" using ab by auto
  then show ?thesis using le [of a] le [of b] s(2-4)
    by (simp add: remaining_steps_def select_where_def ab filter_map o_def)
qed

lemma remaining_same:
  assumes "\<And>x. x \<in> set rows \<Longrightarrow> step_runId (F x) = step_runId x \<and> active_status (step_status (F x)) = active_status (step_status x)"
  shows "remaining_steps rid (map F rows) = remaining_steps rid rows"
  using assms by (induction rows) (auto simp: remaining_steps_def select_where_def)

lemma run_at_unique:
  assumes "ledger_ok h led" and "run_at led rid ws st" and "r \<in> set (runs led)" "run_id r = rid"
  shows "run_status r = st" "run_workspaceId r = ws"
  using assms ledger_run_unique by (auto simp: run_at_def)

lemma claimed_held:
  assumes "ref = claim_ref c (claimed_step_of (mark_step c t s))" "s \<in> set (step_runs led)"
    "step_runs led1 = map (\<lambda>x. if x = s then mark_step c t x else x) (step_runs led)"
  shows "select_where (stepClaimScope ref) (step_runs led1) \<noteq> []" and "stepClaimScope ref (mark_step c t s)"
proof -
  show o: "stepClaimScope ref (mark_step c t s)"
    by (simp add: assms(1) stepClaimScope_def claim_ref_def claimed_step_of_def step_owned_def mark_step_def)
  have "mark_step c t s \<in> set (step_runs led1)" using assms(2,3) by auto
  then show "select_where (stepClaimScope ref) (step_runs led1) \<noteq> []" using o by (auto simp: select_where_empty)
qed

lemma completed_row_next:
  "nextAttemptAt (completed_row ref freed skipped out now x) \<in> {None, nextAttemptAt x}
   \<and> (step_status (completed_row ref freed skipped out now x) = StepRunning \<longrightarrow> step_status x = StepRunning \<and> \<not> stepClaimScope ref x)
   \<and> step_runId (completed_row ref freed skipped out now x) = step_runId x
   \<and> (active_status (step_status (completed_row ref freed skipped out now x)) \<longrightarrow> active_status (step_status x))"
  by (auto simp: completed_row_def Let_def complete_row_def ready_row_def skip_row_def blocked_in_def active_status_def)

lemma lone_complete:
  assumes ok: "ledger_ok h led" and lone: "lone clock rid led" and s: "s \<in> set (step_runs led)" "step_runId s = rid" "step_workspaceId s = ws"
      "step_status s = StepReady"
    and led1: "led1 = led\<lparr>step_runs := map (\<lambda>x. if x = s then mark_step c t x else x) (step_runs led), runs := rs\<rparr>"
    and ok1: "ledger_ok h led1" and run: "run_at led1 rid ws RunRunning"
    and ref: "ref = claim_ref c (claimed_step_of (mark_step c t s))"
    and e: "completeSqliteWorkflowStep ref handles out now led1 = Inr (led2, progress)"
  shows "lone clock rid led2" and "remaining_steps rid (step_runs led2) < remaining_steps rid (step_runs led)"
    and "run_at led2 rid ws RunSucceeded \<or> run_at led2 rid ws RunRunning \<and> lone clock rid led2"
proof -
  let ?m = "\<lambda>x. if x = s then mark_step c t x else x"
  have r: "ref_runId ref = rid" "ref_workspaceId ref = ws" using s by (simp_all add: ref claim_ref_def claimed_step_of_def mark_step_def)
  obtain freed skipped outp rows where rows: "rows = map (completed_row ref freed skipped outp now) (step_runs led1)"
    and led2: "led2 = led1\<lparr>step_runs := rows, runs := map (finish_if (remaining_steps rid rows = 0) ref now) (runs led1)\<rparr>"
    using complete_result [OF e] r by metis
  have held: "stepClaimScope ref (mark_step c t s)" using claimed_held(2) [OF ref s(1), of led1] by (simp add: led1)
  show lone2: "lone clock rid led2"
    unfolding lone_def
  proof (intro ballI impI)
    fix x
    assume "x \<in> set (step_runs led2)" "step_runId x = rid"
    then obtain y where y: "y \<in> set (step_runs led)" "x = completed_row ref freed skipped outp now (?m y)"
      by (auto simp: led2 rows led1)
    note n = completed_row_next [of ref freed skipped outp now "?m y"]
    have ry: "step_runId y = rid" using n \<open>step_runId x = rid\<close> by (auto simp: y(2) mark_step_def split: if_splits)
    show "step_status x \<noteq> StepRunning \<and> (case nextAttemptAt x of None \<Rightarrow> True | Some t \<Rightarrow> \<forall>i. t \<le> clock i)"
    proof (cases "y = s")
      case True
      then show ?thesis using n held by (auto simp: y(2) mark_step_def split: option.split)
    next
      case False
      then have "step_status y \<noteq> StepRunning \<and> (case nextAttemptAt y of None \<Rightarrow> True | Some t \<Rightarrow> \<forall>i. t \<le> clock i)"
        using lone y(1) ry by (simp add: lone_def)
      then show ?thesis using n False by (auto simp: y(2) split: option.splits)
    qed
  qed
  have sel: "remaining_steps rid (map ?m (step_runs led)) = remaining_steps rid (step_runs led)"
    by (rule remaining_same) (use s(4) in \<open>auto simp: mark_step_def active_status_def\<close>)
  have "remaining_steps rid rows < remaining_steps rid (step_runs led1)" unfolding rows
  proof (rule fewer_remaining)
    show "mark_step c t s \<in> set (step_runs led1)" using s(1) by (auto simp: led1)
    show "step_runId (mark_step c t s) = rid" "active_status (step_status (mark_step c t s))"
      using s by (simp_all add: mark_step_def active_status_def)
    show "\<not> active_status (step_status (completed_row ref freed skipped outp now (mark_step c t s)))"
      using held by (simp add: completed_row_def Let_def complete_row_def blocked_in_def active_status_def)
  qed (use completed_row_next in blast)
  then show "remaining_steps rid (step_runs led2) < remaining_steps rid (step_runs led)"
    using sel by (simp add: led2 led1)
  obtain run1 where run1: "run1 \<in> set (runs led1)" "run_id run1 = rid" "run_workspaceId run1 = ws" "run_status run1 = RunRunning"
    using run by (auto simp: run_at_def)
  have fin: "run_at led2 rid ws (if remaining_steps rid rows = 0 then RunSucceeded else RunRunning)"
    unfolding run_at_def
    by (rule bexI [of _ "finish_if (remaining_steps rid rows = 0) ref now run1"])
      (use run1 r in \<open>auto simp: led2 finish_if_def finish_run_def\<close>)
  then show "run_at led2 rid ws RunSucceeded \<or> run_at led2 rid ws RunRunning \<and> lone clock rid led2"
    using lone2 by (auto split: if_splits)
qed

text \<open>On a finished run a claim takes nothing.\<close>

lemma finished_claim:
  assumes ok: "ledger_ok h led" and r: "run_at led rid ws st" "\<not> open_run st" and ne: "rid \<noteq> []" "ws \<noteq> []"
    and c: "valid_claim_id (wk_claimId w i)"
  obtains led1 where "claimSqliteWorkflowSteps (claim_input w i rid ws) led = Inr (led1, [])" "runs led1 = runs led"
proof -
  let ?inp = "claim_input w i rid ws"
  obtain led1 out where cl: "claimSqliteWorkflowSteps ?inp led = Inr (led1, out)"
    using claim_valid [OF ok, of ?inp] c ne by (auto simp: claim_input_def truthy_def)
  obtain taken where t: "set taken \<subseteq> mark_step (wk_claimId w i) (wk_clock w i) `
      {s \<in> set (step_runs led). workflowStepEligibility (Some rid, Some ws, runs led) (wk_clock w i) (stale_before (wk_clock w i) None) s}"
    "out = map claimed_step_of taken"
    "led1 = led\<lparr>step_runs := update_where (\<lambda>s. step_key s \<in> step_key ` set taken) (mark_step (wk_claimId w i) (wk_clock w i)) (step_runs led),
      runs := update_where (\<lambda>r. run_id r \<in> step_runId ` set taken \<and> run_status r = RunQueued) (start_run (wk_clock w i)) (runs led)\<rparr>"
    using claim_result [OF ok cl] by (auto simp: claim_input_def)
  have "\<not> workflowStepEligibility (Some rid, Some ws, runs led) (wk_clock w i) (stale_before (wk_clock w i) None) s" for s
    using run_at_unique(1) [OF ok r(1)] r(2) ne by (auto simp: workflowStepEligibility_def truthy_def list_ex_iff)
  then have "taken = []" using t(1) by auto
  then show thesis using that cl t(2,3) by (simp add: update_where_def)
qed

definition run_ended :: "worker \<Rightarrow> jsstr \<Rightarrow> jsstr \<Rightarrow> run_outcome \<Rightarrow> ledger \<Rightarrow> bool" where
  "run_ended w rid workspaceId outcome led \<longleftrightarrow>
     (\<exists>k. outcome = Drained k) \<and> run_at led rid workspaceId RunSucceeded
     \<or> (\<exists>f. outcome = StepThrew (wk_message w f)) \<and> run_at led rid workspaceId RunFailed"

lemma lone_fail:
  assumes ok: "ledger_ok h led" and held: "select_where (stepClaimScope ref) (step_runs led) \<noteq> []"
    and r: "run_at led (ref_runId ref) (ref_workspaceId ref) RunRunning" and c: "valid_claim_id (ref_claimId ref)"
    and m: "safeMessage message = Inr m"
  obtains led' where "failSqliteWorkflowStep ref (js ''workflow_step_failed'') message now led = Inr led'"
    and "run_at led' (ref_runId ref) (ref_workspaceId ref) RunFailed"
proof -
  have code: "safeCode (js ''workflow_step_failed'') = Inr (js ''workflow_step_failed'')" by code_simp
  obtain led' where f: "failSqliteWorkflowStep ref (js ''workflow_step_failed'') message now led = Inr led'"
    using held c m by (simp add: failSqliteWorkflowStep_def assertClaimId_def code)
  obtain ec em where l: "led' = led\<lparr>step_runs := map (failed_row ref now ec em) (step_runs led),
       runs := map (failed_run ref now ec em) (runs led)\<rparr>"
    by (rule fail_result [OF f])
  obtain run where "run \<in> set (runs led)" "run_id run = ref_runId ref" "run_workspaceId run = ref_workspaceId ref" "run_status run = RunRunning"
    using r by (auto simp: run_at_def)
  then have "run_at led' (ref_runId ref) (ref_workspaceId ref) RunFailed"
    unfolding run_at_def by (intro bexI [of _ "failed_run ref now ec em run"]) (auto simp: l failed_run_def fail_run_def open_run_def)
  then show thesis using that f by blast
qed

lemma worker_loop:
  assumes ids: "\<forall>i. valid_claim_id (wk_claimId w i)" and msg: "\<forall>f. \<exists>m. safeMessage (wk_message w f) = Inr m"
    and ne: "rid \<noteq> []" "ws \<noteq> []"
  shows "ledger_ok h led \<Longrightarrow>
      run_at led rid ws RunSucceeded \<and> 0 < fuel
      \<or> run_at led rid ws st \<and> open_run st \<and> lone (wk_clock w) rid led \<and> remaining_steps rid (step_runs led) < fuel \<Longrightarrow>
    \<exists>outcome led' db'. executeWorkflowRun fuel h w n rid ws led db = Some (outcome, led', db')
      \<and> ledger_ok h led' \<and> run_ended w rid ws outcome led'"
proof (induction fuel arbitrary: n led db st)
  case (Suc fuel)
  show ?case
  proof (cases "run_at led rid ws RunSucceeded")
    case True
    have no: "\<not> open_run RunSucceeded" by (simp add: open_run_def)
    obtain led1 where c: "claimSqliteWorkflowSteps (claim_input w n rid ws) led = Inr (led1, [])" "runs led1 = runs led"
      by (rule finished_claim [OF Suc.prems(1) True no ne spec [OF ids]])
    have "ledger_ok h led1" using ledger_claim [OF Suc.prems(1) c(1)] by simp
    then show ?thesis using c True by (auto simp: run_ended_def run_at_def)
  next
    case False
    then have r: "run_at led rid ws st" "open_run st" and lone: "lone (wk_clock w) rid led"
      and fuel: "remaining_steps rid (step_runs led) < Suc fuel" using Suc.prems(2) by auto
    define c where "c = wk_claimId w n"
    define t where "t = wk_clock w n"
    define u where "u = wk_settlement w n"
    obtain s led1 where s: "s \<in> set (step_runs led)" "step_runId s = rid" "step_workspaceId s = ws" "step_status s = StepReady"
      and cl: "claimSqliteWorkflowSteps (claim_input w n rid ws) led = Inr (led1, [claimed_step_of (mark_step c t s)])"
      and led1: "led1 = led\<lparr>step_runs := map (\<lambda>x. if x = s then mark_step c t x else x) (step_runs led),
        runs := update_where (\<lambda>r. run_id r = rid \<and> run_status r = RunQueued) (start_run t) (runs led)\<rparr>"
      unfolding c_def t_def by (rule lone_claim [OF Suc.prems(1) r ne lone spec [OF ids, of n]])
    have ok1: "ledger_ok h led1" using ledger_claim [OF Suc.prems(1) cl] by simp
    define claim where "claim = claimed_step_of (mark_step c t s)"
    define ref where "ref = claim_ref c claim"
    have rr: "ref_runId ref = rid" "ref_workspaceId ref = ws" "ref_claimId ref = c"
      using s by (simp_all add: ref_def claim_def claim_ref_def claimed_step_of_def mark_step_def)
    have refeq: "ref = claim_ref c (claimed_step_of (mark_step c t s))" by (simp add: ref_def claim_def)
    have held: "select_where (stepClaimScope ref) (step_runs led1) \<noteq> []"
      using claimed_held(1) [OF refeq s(1), of led1] by (simp add: led1)
    obtain run where run: "run \<in> set (runs led1)" "run_id run = ref_runId ref" "run_status run = RunRunning"
      by (rule run_of_held [OF ok1 held])
    have "run_workspaceId run = ws"
    proof -
      obtain x where "x \<in> set (step_runs led1)" "stepClaimScope ref x" using held by (auto simp: select_where_empty)
      then show ?thesis using ledger_workspace [OF ok1, of x run] run rr by (simp add: stepClaimScope_def)
    qed
    then have running: "run_at led1 rid ws RunRunning" using run rr by (auto simp: run_at_def)
    obtain db' res where try': "try_step h w n claim led1 db = (db', res)" by (cases "try_step h w n claim led1 db")
    show ?thesis
    proof (cases res)
      case (Inl f)
      obtain m where m: "safeMessage (wk_message w f) = Inr m" using msg by blast
      have vc: "valid_claim_id (ref_claimId ref)" using ids by (simp add: rr(3) c_def)
      have rn: "run_at led1 (ref_runId ref) (ref_workspaceId ref) RunRunning" using running by (simp add: rr)
      obtain led2 where f2: "failSqliteWorkflowStep ref (js ''workflow_step_failed'') (wk_message w f) u led1 = Inr led2"
        and failed: "run_at led2 rid ws RunFailed"
        by (rule lone_fail [OF ok1 held rn vc m, of u]) (simp add: rr)
      have "ledger_ok h led2" using ledger_fail [OF ok1 f2] by simp
      moreover have "executeWorkflowRun (Suc fuel) h w n rid ws led db = Some (StepThrew (wk_message w f), led2, db')"
        using cl try' Inl f2 by (simp add: claim_def [symmetric] c_def [symmetric] u_def [symmetric] ref_def [symmetric])
      ultimately show ?thesis using failed by (auto simp: run_ended_def)
    next
      case (Inr led2)
      then obtain handles out progress where e: "completeSqliteWorkflowStep ref handles (Some out) u led1 = Inr (led2, progress)"
        using try' by (auto simp: try_step_def Let_def c_def u_def ref_def split: sum.splits prod.splits)
      have ok2: "ledger_ok h led2" using ledger_complete [OF ok1 e] by simp
      note l = lone_complete [OF Suc.prems(1) lone s led1 ok1 running refeq e]
      have "executeWorkflowRun (Suc fuel) h w n rid ws led db = executeWorkflowRun fuel h w (n + 1) rid ws led2 db'"
        using cl try' Inr by (simp add: claim_def [symmetric])
      moreover have "\<exists>outcome led' db''. executeWorkflowRun fuel h w (n + 1) rid ws led2 db' = Some (outcome, led', db'')
          \<and> ledger_ok h led' \<and> run_ended w rid ws outcome led'"
        by (rule Suc.IH [OF ok2, of RunRunning]) (use l fuel in \<open>auto simp: open_run_def\<close>)
      ultimately show ?thesis by simp
    qed
  qed
qed simp

text \<open>
  C37. A worker that is alone with an open run finishes it: after at most as many turns as steps
  remain, its loop ends, with the run succeeded if every step was completed, and with the run
  failed, and the message of the failure thrown, if one of them threw. It never ends with an error
  of the ledger. Alone means that no step of the run is held by another worker or waits for a
  later time; the identifiers must be accepted by the claim, and no failure may have a message
  that the ledger refuses.
  The host's \<open>normalize('NFKC')\<close> must obey the laws of Unicode in \<open>unicode_host\<close>.
\<close>

theorem worker_finishes_run:
  assumes "(ledger_step h)\<^sup>*\<^sup>* empty_ledger led" and "unicode_host h"
    and r: "r \<in> set (runs led)" "open_run (run_status r)" and ne: "run_id r \<noteq> []" "run_workspaceId r \<noteq> []"
    and lone: "lone (wk_clock w) (run_id r) led"
    and ids: "\<forall>i. valid_claim_id (wk_claimId w i)" and msg: "\<forall>f. \<exists>m. safeMessage (wk_message w f) = Inr m"
  shows "\<exists>outcome led' db'. executeWorkflowRun (remaining_steps (run_id r) (step_runs led) + 1) h w 0
      (run_id r) (run_workspaceId r) led db = Some (outcome, led', db')
      \<and> run_ended w (run_id r) (run_workspaceId r) outcome led'"
proof -
  have ok: "ledger_ok h led" by (rule ledger_reachable [OF assms(1,2)])
  have "run_at led (run_id r) (run_workspaceId r) (run_status r)" using r by (auto simp: run_at_def)
  from worker_loop [OF ids msg ne ok disjI2 [OF conjI [OF this conjI [OF r(2) conjI [OF lone]]]]]
  show ?thesis by (meson less_add_one)
qed

definition sample_worker :: worker where
  "sample_worker = \<lparr>wk_claimId = (\<lambda>_. js ''c1''), wk_clock = (\<lambda>i. 20 + int i), wk_execution = (\<lambda>i. 20 + int i),
     wk_settlement = (\<lambda>i. 20 + int i), wk_message = (\<lambda>_. js ''x''),
     wk_services = \<lparr>sv_searchText = (\<lambda>_. []), sv_sha256 = (\<lambda>_. replicate 32 0), sv_uuid = (\<lambda>_. []),
       sv_enrich = (\<lambda>_ _ _ _ db. (db, Inr 0)), sv_webhook = (\<lambda>_ _ _ db. (db, Inr 0))\<rparr>,
     wk_views = []\<rparr>"

theorem worker_finishes_run_witness:
  "\<exists>outcome led' db'. executeWorkflowRun (remaining_steps (js ''r1'') (step_runs sample_led1) + 1) ascii_host sample_worker 0
      (js ''r1'') (js ''s'') sample_led1 paged_grid = Some (outcome, led', db')
      \<and> run_ended sample_worker (js ''r1'') (js ''s'') outcome led'"
proof -
  have r: "sample_run \<in> set (runs sample_led1)" by (simp add: sample_led1_def)
  have o: "open_run (run_status sample_run)" "run_id sample_run \<noteq> []" "run_workspaceId sample_run \<noteq> []"
    by (simp_all add: sample_run_sel open_run_def js_eval)
  have l: "lone (wk_clock sample_worker) (run_id sample_run) sample_led1"
    by (simp add: lone_def sample_led1_def sample_step_def)
  have c: "\<forall>i. valid_claim_id (wk_claimId sample_worker i)" by (simp add: sample_worker_def sample_step_claim_valid)
  have x: "safeMessage (js ''x'') = Inr (js ''x'')" by code_simp
  have m: "\<forall>f. \<exists>m. safeMessage (wk_message sample_worker f) = Inr m" by (simp add: sample_worker_def x)
  show ?thesis
    using worker_finishes_run [OF sample_reachable(2) ascii_unicode r o l c m] unfolding sample_run_sel by simp
qed

end
