(* ===== verification/WorkspaceTables.thy ===== *)
theory WorkspaceTables
  imports SavedViews
begin

text \<open>
  The tables of a workspace and their input columns (\<open>packages/db/src/sqlite/tables.ts\<close>, the
  request schemas of \<open>packages/domain/src/table-policy.ts\<close>), and what the schema of a workspace
  keeps: unique names, limits, no table without an active column, no active column that
  depends on an archived one.
\<close>

section \<open>Requests\<close>

definition MAXIMUM_WORKSPACE_TABLES :: nat where
  "MAXIMUM_WORKSPACE_TABLES = 100"

definition displayName :: "host \<Rightarrow> jsstr \<Rightarrow> jsstr option" where
  "displayName h value =
     (let name = nfkc h (trim value)
      in if 1 \<le> length name \<and> length name \<le> 120 \<and> plain_name name then Some name else None)"

record create_table_input =
  ct_firstColumnName :: jsstr
  ct_firstColumnValueType :: value_type
  ct_name :: jsstr
  ct_userId :: jsstr
  ct_workspaceId :: jsstr

section \<open>Operations\<close>

definition requireWorkspaceMember :: "jsstr \<Rightarrow> jsstr \<Rightarrow> grid_db \<Rightarrow> grid_error + unit" where
  "requireWorkspaceMember userId workspaceId db =
     (case first_row (select_where (\<lambda>m. member_workspaceId m = workspaceId \<and> member_userId m = userId) (g_members db)) of
        None \<Rightarrow> Inl GridAccess
      | Some _ \<Rightarrow> Inr ())"

definition requireTableMembership :: "grid_scope \<Rightarrow> grid_db \<Rightarrow> grid_error + unit" where
  "requireTableMembership sc db = and_then (requireTableAccess sc db) (\<lambda>_. Inr ())"

definition workspace_tables :: "jsstr \<Rightarrow> grid_db \<Rightarrow> table_row list" where
  "workspace_tables workspaceId db = select_where (\<lambda>t. table_workspaceId t = workspaceId) (g_tables db)"

text \<open>The insertion of an input column, with the primary key and the unique index on the table and the name.\<close>

definition insert_input_column :: "(nat \<Rightarrow> jsstr) \<Rightarrow> jsstr \<Rightarrow> jsstr \<Rightarrow> jsstr \<Rightarrow> value_type \<Rightarrow> jsstr \<Rightarrow> grid_db
    \<Rightarrow> grid_error + (grid_db \<times> column_row)" where
  "insert_input_column uuid workspaceId tableId name t position db =
     (case new_uuid uuid db of
        (cid, db1) \<Rightarrow>
          let column = \<lparr>col_id = cid, col_workspaceId = workspaceId, col_tableId = tableId, col_name = name,
                col_kind = Input_column, col_valueType = t, col_position = position,
                col_configuration = OtherConfiguration, col_archivedAt = None\<rparr>
          in if cid \<in> col_id ` set (g_columns db1)
                \<or> (tableId, name) \<in> (\<lambda>c. (col_tableId c, col_name c)) ` set (g_columns db1) then Inl GridConstraint
             else Inr (db1\<lparr>g_columns := g_columns db1 @ [column]\<rparr>, column))"

definition createSqliteWorkspaceTable :: "host \<Rightarrow> (nat \<Rightarrow> jsstr) \<Rightarrow> create_table_input \<Rightarrow> grid_db
    \<Rightarrow> grid_error + (grid_db \<times> table_row \<times> column_row)" where
  "createSqliteWorkspaceTable h uuid inp db =
     (case (displayName h (ct_name inp), displayName h (ct_firstColumnName inp)) of
        (Some name, Some columnName) \<Rightarrow>
          if ct_firstColumnValueType inp = TEmpty then Inl GridValidation
          else and_then (requireWorkspaceMember (ct_userId inp) (ct_workspaceId inp) db) (\<lambda>_.
            let existing = workspace_tables (ct_workspaceId inp) db
            in if MAXIMUM_WORKSPACE_TABLES \<le> length existing then Inl GridValidation
               else if list_ex (\<lambda>t. ascii_lower (table_name t) = ascii_lower name) existing then Inl GridConflict
               else (case new_uuid uuid db of
                 (tid, db1) \<Rightarrow>
                   let table = \<lparr>table_id = tid, table_workspaceId = ct_workspaceId inp, table_name = name,
                         table_archivedAt = None\<rparr>
                   in if tid \<in> table_id ` set (g_tables db1) then Inl GridConstraint
                      else and_then (insert_input_column uuid (ct_workspaceId inp) tid columnName
                               (ct_firstColumnValueType inp) (js ''a0'') (db1\<lparr>g_tables := g_tables db1 @ [table]\<rparr>))
                             (\<lambda>(db2, column). Inr (db2, table, column))))
      | _ \<Rightarrow> Inl GridValidation)"

definition renameSqliteWorkspaceTable :: "host \<Rightarrow> grid_scope \<Rightarrow> jsstr \<Rightarrow> grid_db \<Rightarrow> grid_error + (grid_db \<times> jsstr \<times> jsstr)" where
  "renameSqliteWorkspaceTable h sc newName db =
     (case displayName h newName of
        None \<Rightarrow> Inl GridValidation
      | Some name \<Rightarrow>
          and_then (requireTableMembership sc db) (\<lambda>_.
            if list_ex (\<lambda>t. table_id t \<noteq> gs_tableId sc \<and> ascii_lower (table_name t) = ascii_lower name)
                 (workspace_tables (gs_workspaceId sc) db) then Inl GridConflict
            else let target = (\<lambda>t. table_id t = gs_tableId sc \<and> table_workspaceId t = gs_workspaceId sc
                       \<and> table_archivedAt t = None)
                 in (case first_row (select_where target (g_tables db)) of
                       None \<Rightarrow> Inl GridAccess
                     | Some t \<Rightarrow> Inr (db\<lparr>g_tables := update_where target (\<lambda>t. t\<lparr>table_name := name\<rparr>) (g_tables db)\<rparr>,
                                      table_id t, name))))"

definition createSqliteInputColumn :: "host \<Rightarrow> (nat \<Rightarrow> jsstr) \<Rightarrow> int \<Rightarrow> grid_scope \<Rightarrow> jsstr \<Rightarrow> value_type \<Rightarrow> grid_db
    \<Rightarrow> grid_error + (grid_db \<times> column_row)" where
  "createSqliteInputColumn h uuid now sc newName t db =
     (case displayName h newName of
        None \<Rightarrow> Inl GridValidation
      | Some name \<Rightarrow>
          if t = TEmpty then Inl GridValidation
          else and_then (requireTableMembership sc db) (\<lambda>_.
            let existing = table_columns (gs_tableId sc) (gs_workspaceId sc) db
            in if MAXIMUM_TABLE_COLUMNS \<le> length existing then Inl GridValidation
               else if list_ex (\<lambda>c. ascii_lower (col_name c) = ascii_lower name) existing then Inl GridConflict
               else (case new_uuid uuid db of
                 (suffix, db1) \<Rightarrow>
                   insert_input_column uuid (gs_workspaceId sc) (gs_tableId sc) name t
                     (js ''x-manual-'' @ decimal_digits (nat now) @ js ''-'' @ suffix) db1)))"

section \<open>A well-formed schema\<close>

text \<open>Names are unique up to ASCII case within a scope.\<close>

definition distinct_names :: "('r \<Rightarrow> jsstr) \<Rightarrow> ('r \<Rightarrow> jsstr) \<Rightarrow> 'r list \<Rightarrow> bool" where
  "distinct_names scope name rows \<longleftrightarrow> distinct (map (\<lambda>r. (scope r, ascii_lower (name r))) rows)"

text \<open>
  The tables \<open>T\<close> are those to which imports, sources and ingestion endpoints add columns: these
  writers compare the names with the active columns only and do not count the columns, so names
  up to case and the number of columns are promised for the other tables.
\<close>

definition names_ok :: "jsstr set \<Rightarrow> grid_db \<Rightarrow> bool" where
  "names_ok T db \<longleftrightarrow> distinct (map table_id (g_tables db)) \<and> distinct (map col_id (g_columns db))
     \<and> distinct_names table_workspaceId table_name (g_tables db)
     \<and> distinct_names col_tableId col_name (filter (\<lambda>c. col_tableId c \<notin> T) (g_columns db))"

definition limits_ok :: "jsstr set \<Rightarrow> grid_db \<Rightarrow> bool" where
  "limits_ok T db \<longleftrightarrow> (\<forall>w. length (workspace_tables w db) \<le> MAXIMUM_WORKSPACE_TABLES)
     \<and> (\<forall>t w. t \<notin> T \<longrightarrow> length (table_columns t w db) \<le> MAXIMUM_TABLE_COLUMNS)"

text \<open>A column is in a table of its workspace.\<close>

definition columns_placed :: "grid_db \<Rightarrow> bool" where
  "columns_placed db \<longleftrightarrow> (\<forall>c \<in> set (g_columns db). \<exists>t \<in> set (g_tables db).
     table_id t = col_tableId c \<and> table_workspaceId t = col_workspaceId c)"

text \<open>Every table, archived or not, keeps an active column; every workspace with tables keeps an active one.\<close>

definition tables_filled :: "grid_db \<Rightarrow> bool" where
  "tables_filled db \<longleftrightarrow> (\<forall>t \<in> set (g_tables db).
       (\<exists>c \<in> set (g_columns db). col_tableId c = table_id t \<and> col_archivedAt c = None)
     \<and> (\<exists>u \<in> set (g_tables db). table_workspaceId u = table_workspaceId t \<and> table_archivedAt u = None))"

text \<open>A dependency connects two columns of its table, and an active column depends on active ones.\<close>

definition dependency_ok :: "column_row list \<Rightarrow> dependency_row \<Rightarrow> bool" where
  "dependency_ok cs d \<longleftrightarrow> (\<exists>c \<in> set cs. \<exists>s \<in> set cs. col_id c = dep_columnId d \<and> col_id s = dependsOnColumnId d
     \<and> col_tableId c = dep_tableId d \<and> col_tableId s = dep_tableId d
     \<and> col_workspaceId c = dep_workspaceId d \<and> col_workspaceId s = dep_workspaceId d
     \<and> (col_archivedAt c = None \<longrightarrow> col_archivedAt s = None))"

definition dependencies_active :: "grid_db \<Rightarrow> bool" where
  "dependencies_active db \<longleftrightarrow> (\<forall>d \<in> set (g_dependencies db). dependency_ok (g_columns db) d)"

definition schema_ok :: "jsstr set \<Rightarrow> grid_db \<Rightarrow> bool" where
  "schema_ok T db \<longleftrightarrow> names_ok T db \<and> limits_ok T db \<and> columns_placed db \<and> tables_filled db \<and> dependencies_active db"

lemmas schema_defs = names_ok_def limits_ok_def columns_placed_def tables_filled_def dependencies_active_def

text \<open>Operations on rows and cells do not touch the schema.\<close>

definition schema_kept :: "grid_db \<Rightarrow> grid_db \<Rightarrow> bool" where
  "schema_kept db db' \<longleftrightarrow> g_tables db' = g_tables db \<and> g_columns db' = g_columns db \<and> g_dependencies db' = g_dependencies db"

lemma schema_kept_ok: "schema_kept db db' \<Longrightarrow> schema_ok T db' = schema_ok T db"
  by (simp add: schema_kept_def schema_ok_def schema_defs workspace_tables_def table_columns_def)

lemma column_table:
  "schema_ok T db \<Longrightarrow> d \<in> set (g_columns db)
    \<Longrightarrow> \<exists>u \<in> set (g_tables db). table_id u = col_tableId d \<and> table_workspaceId u = col_workspaceId d"
  unfolding schema_ok_def columns_placed_def by blast

lemma dependency_more: "dependency_ok cs d \<Longrightarrow> dependency_ok (cs @ extra) d"
  unfolding dependency_ok_def set_append by (elim bexE) (intro bexI UnI1)

lemma distinct_names_snoc:
  "distinct_names scope name rows \<Longrightarrow> (\<And>r. r \<in> set rows \<Longrightarrow> scope r = scope x \<Longrightarrow> ascii_lower (name r) \<noteq> ascii_lower (name x))
    \<Longrightarrow> distinct_names scope name (rows @ [x])"
  by (simp add: distinct_names_def image_iff) metis

lemma filled_more:
  assumes "tables_filled db" and "g_tables db' = g_tables db @ ts" and "g_columns db' = g_columns db @ cs"
    and "\<forall>t \<in> set ts. table_archivedAt t = None \<and> (\<exists>c \<in> set cs. col_tableId c = table_id t \<and> col_archivedAt c = None)"
  shows "tables_filled db'"
  using assms(1,4) unfolding tables_filled_def assms(2,3) set_append by blast

lemma new_table_ok:
  assumes ok: "schema_ok T db" and t: "table_id t \<notin> table_id ` set (g_tables db)" "table_archivedAt t = None"
    and n: "length (workspace_tables (table_workspaceId t) db) < MAXIMUM_WORKSPACE_TABLES"
      "\<forall>u \<in> set (workspace_tables (table_workspaceId t) db). ascii_lower (table_name u) \<noteq> ascii_lower (table_name t)"
    and c: "col_id c \<notin> col_id ` set (g_columns db)" "col_tableId c = table_id t" "col_workspaceId c = table_workspaceId t" "col_archivedAt c = None"
    and db': "g_tables db' = g_tables db @ [t]" "g_columns db' = g_columns db @ [c]" "g_dependencies db' = g_dependencies db"
  shows "schema_ok T db'"
proof -
  have other: "col_tableId d \<noteq> table_id t" if d: "d \<in> set (g_columns db)" for d
    using column_table [OF ok d] t(1) by (metis imageI)
  have fresh_name: "ascii_lower (table_name u) \<noteq> ascii_lower (table_name t)"
    if "u \<in> set (g_tables db)" "table_workspaceId u = table_workspaceId t" for u
    using n(2) that by (simp add: workspace_tables_def select_where_def)
  have "names_ok T db'"
    using ok t(1) c(1) distinct_names_snoc [of col_tableId col_name "filter (\<lambda>c. col_tableId c \<notin> T) (g_columns db)" c] other c(2)
    by (simp add: schema_ok_def names_ok_def db' distinct_names_snoc fresh_name)
  moreover have "table_columns (table_id t) w db = []" for w
    using other by (auto simp: table_columns_def select_where_def filter_empty_conv)
  then have "limits_ok T db'" using ok n(1)
    by (auto simp: schema_ok_def limits_ok_def db' workspace_tables_def table_columns_def select_where_def c(2) MAXIMUM_TABLE_COLUMNS_def)
  moreover have "columns_placed db'" using ok c(2,3) unfolding schema_ok_def columns_placed_def db' by auto
  moreover have "tables_filled db'" by (rule filled_more [OF _ db'(1,2)]) (use ok t c in \<open>simp_all add: schema_ok_def\<close>)
  moreover have "dependencies_active db'" using ok dependency_more by (simp add: schema_ok_def dependencies_active_def db')
  ultimately show ?thesis by (simp add: schema_ok_def)
qed

lemma new_column_ok:
  assumes ok: "schema_ok T db" and c: "col_id c \<notin> col_id ` set (g_columns db)"
    and t: "t \<in> set (g_tables db)" "col_tableId c = table_id t" "col_workspaceId c = table_workspaceId t"
    and n: "col_tableId c \<notin> T \<Longrightarrow> length (table_columns (col_tableId c) (col_workspaceId c) db) < MAXIMUM_TABLE_COLUMNS"
      "col_tableId c \<notin> T \<Longrightarrow> \<forall>d \<in> set (table_columns (col_tableId c) (col_workspaceId c) db). ascii_lower (col_name d) \<noteq> ascii_lower (col_name c)"
    and deps: "\<forall>d \<in> set deps. dependency_ok (g_columns db @ [c]) d"
    and db': "g_tables db' = g_tables db" "g_columns db' = g_columns db @ [c]" "g_dependencies db' = g_dependencies db @ deps"
  shows "schema_ok T db'"
proof -
  have dt: "distinct (map table_id (g_tables db))" using ok by (simp add: schema_ok_def names_ok_def)
  have fresh_name: "ascii_lower (col_name d) \<noteq> ascii_lower (col_name c)"
    if d: "d \<in> set (g_columns db)" "col_tableId d = col_tableId c" and out: "col_tableId c \<notin> T" for d
  proof -
    obtain u where u: "u \<in> set (g_tables db)" "table_id u = col_tableId d" "table_workspaceId u = col_workspaceId d"
      using column_table [OF ok d(1)] by blast
    then have "u = t" using unique_row [OF dt u(1) t(1)] t(2) d(2) by simp
    then show ?thesis using n(2) [OF out] d u t by (simp add: table_columns_def select_where_def)
  qed
  have "names_ok T db'"
    using ok c distinct_names_snoc [of col_tableId col_name "filter (\<lambda>c. col_tableId c \<notin> T) (g_columns db)" c]
    by (auto simp: schema_ok_def names_ok_def db' dest: fresh_name)
  moreover have "limits_ok T db'" using ok n(1)
    by (auto simp: schema_ok_def limits_ok_def db' workspace_tables_def table_columns_def select_where_def)
  moreover have "columns_placed db'" using ok t unfolding schema_ok_def columns_placed_def db' by auto
  moreover have "tables_filled db'"
    by (rule filled_more [of db _ "[]" "[c]"]) (use ok in \<open>simp_all add: schema_ok_def db'\<close>)
  moreover have "dependencies_active db'" using ok deps dependency_more by (auto simp: schema_ok_def dependencies_active_def db')
  ultimately show ?thesis by (simp add: schema_ok_def)
qed

text \<open>A change of tables and columns in place that keeps what identifies them.\<close>

lemma changed_in_place_ok:
  assumes ok: "schema_ok T db"
    and f: "\<And>t. table_id (f t) = table_id t \<and> table_workspaceId (f t) = table_workspaceId t"
    and g: "\<And>c. col_id (g c) = col_id c \<and> col_tableId (g c) = col_tableId c \<and> col_workspaceId (g c) = col_workspaceId c \<and> col_name (g c) = col_name c"
    and names: "distinct_names table_workspaceId table_name (map f (g_tables db))"
    and db': "g_tables db' = map f (g_tables db)" "g_columns db' = map g (g_columns db)" "g_dependencies db' = g_dependencies db"
    and filled: "tables_filled db'" "dependencies_active db'"
  shows "schema_ok T db'"
proof -
  have m: "map table_id (map f ts) = map table_id ts" "map col_id (map g cs) = map col_id cs" for ts cs
    using f g by simp_all
  have "distinct_names col_tableId col_name (filter (\<lambda>c. col_tableId c \<notin> T) (map g cs))
      = distinct_names col_tableId col_name (filter (\<lambda>c. col_tableId c \<notin> T) cs)" for cs
    using g by (simp add: distinct_names_def filter_map o_def)
  then have "names_ok T db'"
    using ok names m by (simp add: schema_ok_def names_ok_def db' del: map_map list.map_comp)
  moreover have "limits_ok T db'"
    using ok f g by (simp add: schema_ok_def limits_ok_def workspace_tables_def table_columns_def select_where_def db' filter_map o_def)
  moreover have "columns_placed db'" using ok f g by (simp add: schema_ok_def columns_placed_def db')
  ultimately show ?thesis using filled by (simp add: schema_ok_def)
qed

section \<open>What the operations do to the schema\<close>

lemma table_access:
  assumes "requireTableAccess sc db = Inr x"
  obtains t where "t \<in> set (g_tables db)" "table_id t = gs_tableId sc" "table_workspaceId t = gs_workspaceId sc" "table_archivedAt t = None"
proof -
  obtain y where "first_row [(table_id t, table_name t). t \<leftarrow> g_tables db, m \<leftarrow> g_members db,
      grid_member sc (table_workspaceId t) m \<and> table_id t = gs_tableId sc
      \<and> table_workspaceId t = gs_workspaceId sc \<and> table_archivedAt t = None] = Some y"
    using assms by (auto simp: requireTableAccess_def split: option.splits)
  from first_row_mem [OF this] that show thesis by auto
qed

lemma inserted_input_column:
  assumes "insert_input_column uuid w t name ty pos db = Inr (db', c)"
  shows "col_id c \<notin> col_id ` set (g_columns db)" "col_tableId c = t" "col_workspaceId c = w" "col_name c = name" "col_archivedAt c = None"
    "g_tables db' = g_tables db" "g_columns db' = g_columns db @ [c]" "g_dependencies db' = g_dependencies db"
  using assms by (auto simp: insert_input_column_def new_uuid_def Let_def split: if_splits)

lemma table_created_ok:
  assumes ok: "schema_ok T db" and e: "createSqliteWorkspaceTable h uuid inp db = Inr (db', t, c)"
  shows "schema_ok T db'"
proof -
  obtain name columnName where n: "displayName h (ct_name inp) = Some name" "displayName h (ct_firstColumnName inp) = Some columnName"
    using e by (auto simp: createSqliteWorkspaceTable_def split: option.splits)
  have x: "length (workspace_tables (ct_workspaceId inp) db) < MAXIMUM_WORKSPACE_TABLES"
    "\<forall>u \<in> set (workspace_tables (ct_workspaceId inp) db). ascii_lower (table_name u) \<noteq> ascii_lower name"
    "uuid (g_fresh db) \<notin> table_id ` set (g_tables db)"
    "t = \<lparr>table_id = uuid (g_fresh db), table_workspaceId = ct_workspaceId inp, table_name = name, table_archivedAt = None\<rparr>"
    "insert_input_column uuid (ct_workspaceId inp) (uuid (g_fresh db)) columnName (ct_firstColumnValueType inp) (js ''a0'')
       (db\<lparr>g_fresh := Suc (g_fresh db), g_tables := g_tables db @ [t]\<rparr>) = Inr (db', c)"
    using e n by (auto simp: createSqliteWorkspaceTable_def and_then_eq_Inr Let_def new_uuid_def list_ex_iff split: if_splits)
  note i = inserted_input_column [OF x(5)]
  show ?thesis
    by (rule new_table_ok [OF ok, of t c]) (use x(1-3) i in \<open>simp_all add: x(4)\<close>)
qed

lemma input_column_created_ok:
  assumes ok: "schema_ok T db" and e: "createSqliteInputColumn h uuid now sc newName ty db = Inr (db', c)"
  shows "schema_ok T db'"
proof -
  obtain name where n: "displayName h newName = Some name"
    using e by (auto simp: createSqliteInputColumn_def split: option.splits)
  obtain pos x where x: "requireTableAccess sc db = Inr x"
    "length (table_columns (gs_tableId sc) (gs_workspaceId sc) db) < MAXIMUM_TABLE_COLUMNS"
    "\<forall>d \<in> set (table_columns (gs_tableId sc) (gs_workspaceId sc) db). ascii_lower (col_name d) \<noteq> ascii_lower name"
    "insert_input_column uuid (gs_workspaceId sc) (gs_tableId sc) name ty pos (db\<lparr>g_fresh := Suc (g_fresh db)\<rparr>) = Inr (db', c)"
    using e n by (auto simp: createSqliteInputColumn_def requireTableMembership_def and_then_eq_Inr Let_def new_uuid_def list_ex_iff split: if_splits)
  obtain t where t: "t \<in> set (g_tables db)" "table_id t = gs_tableId sc" "table_workspaceId t = gs_workspaceId sc"
    by (rule table_access [OF x(1)])
  note i = inserted_input_column [OF x(4)]
  show ?thesis
    by (rule new_column_ok [OF ok, of c t "[]"]) (use x(2,3) t i in simp_all)
qed

lemma renamed_filled:
  assumes "tables_filled db" and "\<And>t. table_id (f t) = table_id t \<and> table_workspaceId (f t) = table_workspaceId t
      \<and> table_archivedAt (f t) = table_archivedAt t"
    and "g_tables db' = map f (g_tables db)" and "g_columns db' = g_columns db"
  shows "tables_filled db'"
  using assms(1,2) by (simp add: tables_filled_def assms(3,4))

lemma distinct_names_update:
  assumes d: "distinct_names scope name rows" and k: "distinct (map key rows)"
    and P: "\<And>r s. r \<in> set rows \<Longrightarrow> s \<in> set rows \<Longrightarrow> P r \<Longrightarrow> P s \<Longrightarrow> key r = key s"
    and f: "\<And>r. scope (f r) = scope r \<and> name (f r) = n"
    and new: "\<And>r s. r \<in> set rows \<Longrightarrow> s \<in> set rows \<Longrightarrow> P r \<Longrightarrow> \<not> P s \<Longrightarrow> scope s = scope r \<Longrightarrow> ascii_lower (name s) \<noteq> ascii_lower n"
  shows "distinct_names scope name (update_where P f rows)"
proof -
  have u: "distinct rows" "inj_on key (set rows)" using k by (simp_all add: distinct_map)
  have "inj_on (\<lambda>r. (scope r, ascii_lower (name r))) (set rows)" using d by (simp add: distinct_names_def distinct_map)
  then have "inj_on (\<lambda>r. let x = if P r then f r else r in (scope x, ascii_lower (name x))) (set rows)"
    using P new u(2) f unfolding inj_on_def by (smt (verit) prod.inject)
  then show ?thesis using u(1) by (simp add: distinct_names_def update_where_def distinct_map o_def Let_def)
qed

lemma table_renamed_ok:
  assumes ok: "schema_ok T db" and e: "renameSqliteWorkspaceTable h sc newName db = Inr (db', r)"
  shows "schema_ok T db'"
proof -
  obtain name where n: "displayName h newName = Some name"
    using e by (auto simp: renameSqliteWorkspaceTable_def split: option.splits)
  define P :: "table_row \<Rightarrow> bool" where "P = (\<lambda>t. table_id t = gs_tableId sc \<and> table_workspaceId t = gs_workspaceId sc \<and> table_archivedAt t = None)"
  have dup: "\<not> list_ex (\<lambda>t. table_id t \<noteq> gs_tableId sc \<and> ascii_lower (table_name t) = ascii_lower name)
        (workspace_tables (gs_workspaceId sc) db)"
    and db': "db' = db\<lparr>g_tables := update_where P (\<lambda>t. t\<lparr>table_name := name\<rparr>) (g_tables db)\<rparr>"
    using e n by (auto simp: renameSqliteWorkspaceTable_def requireTableMembership_def and_then_eq_Inr Let_def P_def split: if_splits option.splits)
  have k: "distinct (map table_id (g_tables db))" "distinct_names table_workspaceId table_name (g_tables db)"
    using ok by (simp_all add: schema_ok_def names_ok_def)
  have names: "distinct_names table_workspaceId table_name (update_where P (\<lambda>t. t\<lparr>table_name := name\<rparr>) (g_tables db))"
  proof (rule distinct_names_update [OF k(2,1), where n = name])
    fix t u
    assume a: "t \<in> set (g_tables db)" "u \<in> set (g_tables db)" "P t" "\<not> P u" "table_workspaceId u = table_workspaceId t"
    have "table_id u \<noteq> gs_tableId sc" using unique_row [OF k(1) a(2,1)] a(3,4) by (auto simp: P_def)
    then show "ascii_lower (table_name u) \<noteq> ascii_lower name"
      using dup a(2,3,5) by (auto simp: workspace_tables_def select_where_def list_ex_iff P_def)
  qed (simp_all add: P_def)
  let ?f = "\<lambda>t. if P t then t\<lparr>table_name := name\<rparr> else t"
  have t: "g_tables db' = map ?f (g_tables db)" by (simp add: db' update_where_def)
  show ?thesis
  proof (rule changed_in_place_ok [OF ok, where f = ?f and g = "\<lambda>c. c"])
    show "tables_filled db'" by (rule renamed_filled [where f = ?f and db = db]) (use ok t in \<open>simp_all add: schema_ok_def db'\<close>)
    show "dependencies_active db'" using ok by (simp add: schema_ok_def dependencies_active_def db')
    show "distinct_names table_workspaceId table_name (map ?f (g_tables db))" using names by (simp add: update_where_def)
  qed (use t in \<open>simp_all add: db'\<close>)
qed

end
