(* ===== verification/SchemaLifecycle.thy ===== *)
theory SchemaLifecycle
  imports WorkspaceTables Keyset
begin

text \<open>
  Archiving and restoring tables and columns and converting the type of a column
  (\<open>packages/db/src/sqlite/schema-lifecycle.ts\<close>): the previews with their blockers, the
  operations that recompute the preview in their transaction, and the digest by which a
  conversion recognises that the column is still the one that was previewed.
\<close>

section \<open>The other tables a preview reads\<close>

text \<open>Imports, source runs, ingestion batches, deliveries and bulk runs: only the status is read.\<close>

datatype job_status =
    Job_staging | Job_queued | Job_running | Job_succeeded | Job_completed | Job_failed | Job_cancelled

record job_row =
  job_workspaceId :: jsstr
  job_tableId :: jsstr
  job_status :: job_status

record source_row =
  so_workspaceId :: jsstr
  so_tableId :: jsstr
  so_status :: destination_status
  so_fieldColumnIds :: "jsstr list option"

record endpoint_row =
  ep_workspaceId :: jsstr
  ep_tableId :: jsstr
  ep_fieldColumnIds :: "jsstr list option"
  ep_revokedAt :: "int option"

text \<open>The identifier of an event and the time of its insertion, which nothing reads, are left out.\<close>

datatype lifecycle_action = Column_archived | Column_restored | Column_type_converted | Table_archived | Table_restored

record lifecycle_event =
  le_action :: lifecycle_action
  le_actorUserId :: jsstr
  le_columnId :: "jsstr option"
  le_snapshot :: json
  le_tableId :: jsstr
  le_workspaceId :: jsstr

record lifecycle_db =
  lc_grid :: grid_db
  lc_views :: "saved_view_row list"
  lc_imports :: "job_row list"
  lc_sources :: "source_row list"
  lc_sourceRuns :: "job_row list"
  lc_endpoints :: "endpoint_row list"
  lc_ingestionBatches :: "job_row list"
  lc_webhookDeliveries :: "job_row list"
  lc_writebackDeliveries :: "job_row list"
  lc_bulkRuns :: "job_row list"
  lc_events :: "lifecycle_event list"

section \<open>Blockers\<close>

datatype blocker_code =
    Active_sources | Active_ingestion | Active_webhooks | Active_work | Active_writebacks | Dependent_columns
  | Conversion_failures | Last_column | Last_table | Saved_views | Source_mappings | Writeback_mappings

fun blocker_name :: "blocker_code \<Rightarrow> jsstr" where
  "blocker_name Active_sources = js ''active_sources''"
| "blocker_name Active_ingestion = js ''active_ingestion''"
| "blocker_name Active_webhooks = js ''active_webhooks''"
| "blocker_name Active_work = js ''active_work''"
| "blocker_name Active_writebacks = js ''active_writebacks''"
| "blocker_name Dependent_columns = js ''dependent_columns''"
| "blocker_name Conversion_failures = js ''conversion_failures''"
| "blocker_name Last_column = js ''last_column''"
| "blocker_name Last_table = js ''last_table''"
| "blocker_name Saved_views = js ''saved_views''"
| "blocker_name Source_mappings = js ''source_mappings''"
| "blocker_name Writeback_mappings = js ''writeback_mappings''"

text \<open>A blocker with its count; its message is determined by the code.\<close>

type_synonym blocker = "blocker_code \<times> nat"

definition pushBlocker :: "blocker \<Rightarrow> blocker list \<Rightarrow> blocker list" where
  "pushBlocker b blockers = (if 0 < snd b then blockers @ [b] else blockers)"

lemma push_empty: "pushBlocker b bs = [] \<longleftrightarrow> bs = [] \<and> snd b = 0"
  by (simp add: pushBlocker_def)

definition requireNoBlockers :: "blocker list \<Rightarrow> grid_error + unit" where
  "requireNoBlockers blockers = (if blockers \<noteq> [] then Inl GridConflict else Inr ())"

definition requireArchiveConfirmation :: "jsstr \<Rightarrow> jsstr \<Rightarrow> grid_error + unit" where
  "requireArchiveConfirmation actual expected = (if actual \<noteq> expected then Inl GridValidation else Inr ())"

definition requireConversionConfirmation :: "jsstr \<Rightarrow> jsstr \<Rightarrow> grid_error + unit" where
  "requireConversionConfirmation actual expected = (if actual \<noteq> expected then Inl GridValidation else Inr ())"

section \<open>Access\<close>

definition requireSchemaManager :: "jsstr \<Rightarrow> jsstr \<Rightarrow> grid_db \<Rightarrow> grid_error + unit" where
  "requireSchemaManager userId workspaceId db =
     (case first_row (select_where (\<lambda>m. member_workspaceId m = workspaceId \<and> member_userId m = userId) (g_members db)) of
        None \<Rightarrow> Inl GridAccess
      | Some m \<Rightarrow> if hasWorkspacePermission (member_role m) Schema_manage then Inr () else Inl GridAccess)"

definition active_table :: "grid_scope \<Rightarrow> table_row \<Rightarrow> bool" where
  "active_table sc t \<longleftrightarrow> table_id t = gs_tableId sc \<and> table_workspaceId t = gs_workspaceId sc \<and> table_archivedAt t = None"

definition requireActiveTable :: "grid_scope \<Rightarrow> grid_db \<Rightarrow> grid_error + table_row" where
  "requireActiveTable sc db =
     (case first_row (select_where (active_table sc) (g_tables db)) of None \<Rightarrow> Inl GridAccess | Some t \<Rightarrow> Inr t)"

definition column_in :: "grid_scope \<Rightarrow> jsstr \<Rightarrow> column_row \<Rightarrow> bool" where
  "column_in sc columnId c \<longleftrightarrow> col_id c = columnId \<and> col_workspaceId c = gs_workspaceId sc \<and> col_tableId c = gs_tableId sc"

definition active_column :: "grid_scope \<Rightarrow> jsstr \<Rightarrow> column_row \<Rightarrow> bool" where
  "active_column sc columnId c \<longleftrightarrow> column_in sc columnId c \<and> col_archivedAt c = None"

definition requireActiveColumn :: "grid_scope \<Rightarrow> jsstr \<Rightarrow> grid_db \<Rightarrow> grid_error + column_row" where
  "requireActiveColumn sc columnId db =
     (case first_row (select_where (active_column sc columnId) (g_columns db)) of None \<Rightarrow> Inl GridAccess | Some c \<Rightarrow> Inr c)"

definition listSqliteArchivedWorkspaceTables :: "jsstr \<Rightarrow> jsstr \<Rightarrow> grid_db \<Rightarrow> grid_error + (int \<times> jsstr \<times> jsstr) list" where
  "listSqliteArchivedWorkspaceTables userId workspaceId db =
     and_then (requireSchemaManager userId workspaceId db) (\<lambda>_.
       Inr (sort_key fst [(the (table_archivedAt t), table_id t, table_name t). t \<leftarrow> g_tables db,
         table_workspaceId t = workspaceId \<and> table_archivedAt t \<noteq> None]))"

definition listSqliteArchivedTableColumns :: "grid_scope \<Rightarrow> grid_db
    \<Rightarrow> grid_error + (int \<times> jsstr \<times> column_kind \<times> jsstr) list" where
  "listSqliteArchivedTableColumns sc db =
     and_then (requireSchemaManager (gs_userId sc) (gs_workspaceId sc) db) (\<lambda>_.
     and_then (requireActiveTable sc db) (\<lambda>_.
       Inr (sort_key fst [(the (col_archivedAt c), col_id c, col_kind c, col_name c). c \<leftarrow> g_columns db,
         col_workspaceId c = gs_workspaceId sc \<and> col_tableId c = gs_tableId sc \<and> col_archivedAt c \<noteq> None])))"

section \<open>Counting\<close>

definition count_where :: "('r \<Rightarrow> bool) \<Rightarrow> 'r list \<Rightarrow> nat" where
  "count_where P rows = length (select_where P rows)"

definition count_jobs :: "grid_scope \<Rightarrow> job_status list \<Rightarrow> job_row list \<Rightarrow> nat" where
  "count_jobs sc statuses = count_where (\<lambda>j. job_workspaceId j = gs_workspaceId sc \<and> job_tableId j = gs_tableId sc
     \<and> job_status j \<in> set statuses)"

definition retained_jobs :: "grid_scope \<Rightarrow> job_row list \<Rightarrow> nat" where
  "retained_jobs sc = count_where (\<lambda>j. job_workspaceId j = gs_workspaceId sc \<and> job_tableId j = gs_tableId sc)"

definition cell_in_table :: "grid_scope \<Rightarrow> grid_cell \<Rightarrow> bool" where
  "cell_in_table sc x \<longleftrightarrow> gc_workspaceId x = gs_workspaceId sc \<and> gc_tableId x = gs_tableId sc"

definition cell_in_column :: "grid_scope \<Rightarrow> jsstr \<Rightarrow> grid_cell \<Rightarrow> bool" where
  "cell_in_column sc columnId x \<longleftrightarrow> cell_in_table sc x \<and> gc_columnId x = columnId"

section \<open>Mappings\<close>

definition selectSourceMappings :: "grid_scope \<Rightarrow> lifecycle_db \<Rightarrow> source_row list" where
  "selectSourceMappings sc lc =
     select_where (\<lambda>s. so_workspaceId s = gs_workspaceId sc \<and> so_tableId s = gs_tableId sc) (lc_sources lc)"

definition selectIngestionMappings :: "grid_scope \<Rightarrow> lifecycle_db \<Rightarrow> endpoint_row list" where
  "selectIngestionMappings sc lc =
     select_where (\<lambda>e. ep_workspaceId e = gs_workspaceId sc \<and> ep_tableId e = gs_tableId sc) (lc_endpoints lc)"

definition selectWritebackMappings :: "grid_scope \<Rightarrow> lifecycle_db \<Rightarrow> writeback_row list" where
  "selectWritebackMappings sc lc =
     select_where (\<lambda>w. wb_workspaceId w = gs_workspaceId sc \<and> wb_tableId w = gs_tableId sc) (g_writebacks (lc_grid lc))"

definition selectSavedViewMappings :: "grid_scope \<Rightarrow> lifecycle_db \<Rightarrow> saved_view_row list" where
  "selectSavedViewMappings sc lc = select_where (in_view_scope sc) (lc_views lc)"

definition maps_column :: "jsstr list option \<Rightarrow> jsstr \<Rightarrow> bool" where
  "maps_column fieldMapping columnId \<longleftrightarrow> columnId \<in> set (case fieldMapping of None \<Rightarrow> [] | Some ids \<Rightarrow> ids)"

text \<open>A stored filter that is neither form of a tree is an error of the schema library.\<close>

definition tree_references :: "host \<Rightarrow> persisted_filters \<Rightarrow> jsstr \<Rightarrow> grid_error + bool" where
  "tree_references h p columnId =
     (case normalizeGridViewFilterTree h p of
        None \<Rightarrow> Inl StoredValueInvalid
      | Some tree \<Rightarrow> Inr (list_ex (\<lambda>f. filter_column f = columnId) (gridViewFilterLeaves tree)))"

definition writebackReferencesColumn :: "host \<Rightarrow> jsstr \<Rightarrow> writeback_row \<Rightarrow> grid_error + bool" where
  "writebackReferencesColumn h columnId w =
     (if wb_recordIdColumnId w = columnId \<or> columnId \<in> set (wb_fieldColumnIds w) then Inr True
      else tree_references h (wb_filterTree w) columnId)"

definition viewReferencesColumn :: "host \<Rightarrow> jsstr \<Rightarrow> saved_view_row \<Rightarrow> grid_error + bool" where
  "viewReferencesColumn h columnId v =
     (if map_option sort_columnId (view_sort v) = Some columnId then Inr True
      else tree_references h (view_filters v) columnId)"

fun filter_result :: "('a \<Rightarrow> 'e + bool) \<Rightarrow> 'a list \<Rightarrow> 'e + 'a list" where
  "filter_result P [] = Inr []"
| "filter_result P (x # xs) =
     and_then (P x) (\<lambda>b. and_then (filter_result P xs) (\<lambda>ys. Inr (if b then x # ys else ys)))"

text \<open>The active columns that depend on a column.\<close>

definition dependent_columns :: "grid_scope \<Rightarrow> jsstr \<Rightarrow> grid_db \<Rightarrow> column_row list" where
  "dependent_columns sc columnId db =
     [c. d \<leftarrow> g_dependencies db, c \<leftarrow> g_columns db, col_id c = dep_columnId d \<and> dep_workspaceId d = gs_workspaceId sc
       \<and> dep_tableId d = gs_tableId sc \<and> dependsOnColumnId d = columnId \<and> col_archivedAt c = None]"

text \<open>The sources and endpoints that write into a column now.\<close>

definition active_source_mappings :: "grid_scope \<Rightarrow> jsstr \<Rightarrow> lifecycle_db \<Rightarrow> source_row list" where
  "active_source_mappings sc columnId lc =
     filter (\<lambda>s. so_status s = Destination_active \<and> maps_column (so_fieldColumnIds s) columnId) (selectSourceMappings sc lc)"

definition active_ingestion_mappings :: "grid_scope \<Rightarrow> jsstr \<Rightarrow> lifecycle_db \<Rightarrow> endpoint_row list" where
  "active_ingestion_mappings sc columnId lc =
     filter (\<lambda>e. ep_revokedAt e = None \<and> maps_column (ep_fieldColumnIds e) columnId) (selectIngestionMappings sc lc)"

section \<open>Archiving a table\<close>

record table_impact =
  ti_columns :: nat
  ti_rows :: nat
  ti_savedViews :: nat
  ti_retainedRuns :: nat

record table_preview =
  tp_blockers :: "blocker list"
  tp_impact :: table_impact
  tp_table :: table_row

definition table_work :: "grid_scope \<Rightarrow> lifecycle_db \<Rightarrow> nat" where
  "table_work sc lc =
     count_where (\<lambda>x. cell_in_table sc x \<and> gc_status x \<in> {Queued, Running}) (g_cells (lc_grid lc))
     + count_jobs sc [Job_staging, Job_queued, Job_running] (lc_imports lc)
     + count_jobs sc [Job_queued, Job_running] (lc_sourceRuns lc)
     + count_jobs sc [Job_queued, Job_running] (lc_ingestionBatches lc)
     + count_jobs sc [Job_queued, Job_running] (lc_webhookDeliveries lc)
     + count_jobs sc [Job_queued, Job_running] (lc_writebackDeliveries lc)
     + count_jobs sc [Job_queued, Job_running] (lc_bulkRuns lc)
     + count_where (\<lambda>s. settlement_workspaceId s = gs_workspaceId sc \<and> settlement_tableId s = gs_tableId sc
         \<and> settlement_status s \<in> {Settlement_queued, Settlement_running}) (g_settlements (lc_grid lc))"

definition buildTableArchivePreview :: "grid_scope \<Rightarrow> lifecycle_db \<Rightarrow> grid_error + table_preview" where
  "buildTableArchivePreview sc lc =
     and_then (requireActiveTable sc (lc_grid lc)) (\<lambda>table.
       let db = lc_grid lc; w = gs_workspaceId sc; t = gs_tableId sc;
           activeTables = count_where (\<lambda>x. table_workspaceId x = w \<and> table_archivedAt x = None) (g_tables db);
           blockers = fold pushBlocker
             [(Last_table, if activeTables \<le> 1 then 1 else 0),
              (Active_work, table_work sc lc),
              (Active_sources, count_where (\<lambda>s. so_workspaceId s = w \<and> so_tableId s = t \<and> so_status s = Destination_active) (lc_sources lc)),
              (Active_ingestion, count_where (\<lambda>e. ep_workspaceId e = w \<and> ep_tableId e = t \<and> ep_revokedAt e = None) (lc_endpoints lc)),
              (Active_webhooks, count_where (\<lambda>x. wh_workspaceId x = w \<and> wh_tableId x = t \<and> wh_status x = Destination_active) (g_webhooks db)),
              (Active_writebacks, count_where (\<lambda>x. wb_workspaceId x = w \<and> wb_tableId x = t \<and> wb_status x = Destination_active) (g_writebacks db))] []
       in Inr \<lparr>tp_blockers = blockers,
               tp_impact = \<lparr>ti_columns = count_where (\<lambda>c. col_workspaceId c = w \<and> col_tableId c = t \<and> col_archivedAt c = None) (g_columns db),
                 ti_rows = count_where (\<lambda>r. row_workspaceId r = w \<and> row_tableId r = t \<and> row_archivedAt r = None) (g_rows db),
                 ti_savedViews = count_where (in_view_scope sc) (lc_views lc),
                 ti_retainedRuns = retained_jobs sc (lc_sourceRuns lc) + retained_jobs sc (lc_webhookDeliveries lc)
                   + retained_jobs sc (lc_writebackDeliveries lc) + retained_jobs sc (lc_bulkRuns lc)\<rparr>,
               tp_table = table\<rparr>)"

definition previewSqliteTableArchive :: "grid_scope \<Rightarrow> lifecycle_db \<Rightarrow> grid_error + table_preview" where
  "previewSqliteTableArchive sc lc =
     and_then (requireSchemaManager (gs_userId sc) (gs_workspaceId sc) (lc_grid lc)) (\<lambda>_. buildTableArchivePreview sc lc)"

definition nat_json :: "nat \<Rightarrow> json" where
  "nat_json n = JNum (Fin (of_nat n))"

definition table_impact_json :: "table_impact \<Rightarrow> json" where
  "table_impact_json i = JObj [(js ''columns'', nat_json (ti_columns i)), (js ''retainedRuns'', nat_json (ti_retainedRuns i)),
     (js ''rows'', nat_json (ti_rows i)), (js ''savedViews'', nat_json (ti_savedViews i))]"

definition lifecycle_entry :: "lifecycle_action \<Rightarrow> grid_scope \<Rightarrow> jsstr option \<Rightarrow> json \<Rightarrow> lifecycle_event" where
  "lifecycle_entry action sc columnId snapshot = \<lparr>le_action = action, le_actorUserId = gs_userId sc, le_columnId = columnId,
     le_snapshot = snapshot, le_tableId = gs_tableId sc, le_workspaceId = gs_workspaceId sc\<rparr>"

definition set_tables :: "table_row list \<Rightarrow> lifecycle_event \<Rightarrow> lifecycle_db \<Rightarrow> lifecycle_db" where
  "set_tables ts e lc = lc\<lparr>lc_grid := (lc_grid lc)\<lparr>g_tables := ts\<rparr>, lc_events := lc_events lc @ [e]\<rparr>"

definition set_columns :: "column_row list \<Rightarrow> lifecycle_event \<Rightarrow> lifecycle_db \<Rightarrow> lifecycle_db" where
  "set_columns cs e lc = lc\<lparr>lc_grid := (lc_grid lc)\<lparr>g_columns := cs\<rparr>, lc_events := lc_events lc @ [e]\<rparr>"

definition archiveSqliteWorkspaceTable :: "host \<Rightarrow> int \<Rightarrow> grid_scope \<Rightarrow> jsstr \<Rightarrow> lifecycle_db \<Rightarrow> grid_error + lifecycle_db" where
  "archiveSqliteWorkspaceTable h now sc confirmationInput lc =
     (case displayName h confirmationInput of
        None \<Rightarrow> Inl GridValidation
      | Some confirmationName \<Rightarrow>
          and_then (requireSchemaManager (gs_userId sc) (gs_workspaceId sc) (lc_grid lc)) (\<lambda>_.
          and_then (buildTableArchivePreview sc lc) (\<lambda>preview.
          and_then (requireArchiveConfirmation confirmationName (table_name (tp_table preview))) (\<lambda>_.
          and_then (requireNoBlockers (tp_blockers preview)) (\<lambda>_.
            case first_row (select_where (active_table sc) (g_tables (lc_grid lc))) of
              None \<Rightarrow> Inl GridAccess
            | Some archived \<Rightarrow>
                Inr (set_tables (update_where (active_table sc) (\<lambda>t. t\<lparr>table_archivedAt := Some now\<rparr>) (g_tables (lc_grid lc)))
                  (lifecycle_entry Table_archived sc None
                    (JObj [(js ''impact'', table_impact_json (tp_impact preview)), (js ''name'', JStr (table_name archived))])) lc))))))"

definition restoreSqliteWorkspaceTable :: "grid_scope \<Rightarrow> lifecycle_db \<Rightarrow> grid_error + lifecycle_db" where
  "restoreSqliteWorkspaceTable sc lc =
     and_then (requireSchemaManager (gs_userId sc) (gs_workspaceId sc) (lc_grid lc)) (\<lambda>_.
       case first_row (select_where (\<lambda>t. table_id t = gs_tableId sc \<and> table_workspaceId t = gs_workspaceId sc
              \<and> table_archivedAt t \<noteq> None) (g_tables (lc_grid lc))) of
         None \<Rightarrow> Inl GridAccess
       | Some table \<Rightarrow>
           Inr (set_tables (update_where (\<lambda>t. table_id t = table_id table) (\<lambda>t. t\<lparr>table_archivedAt := None\<rparr>) (g_tables (lc_grid lc)))
             (lifecycle_entry Table_restored sc None
               (JObj [(js ''archivedAt'', JStr (toISOString (the (table_archivedAt table)))), (js ''name'', JStr (table_name table))])) lc))"

section \<open>Archiving a column\<close>

record column_impact =
  ci_cells :: nat
  ci_pausedSourceMappings :: nat
  ci_pausedWritebackMappings :: nat
  ci_savedViews :: nat

record column_preview =
  cp_blockers :: "blocker list"
  cp_column :: column_row
  cp_impact :: column_impact
  cp_table :: table_row

definition buildColumnArchivePreview :: "host \<Rightarrow> grid_scope \<Rightarrow> jsstr \<Rightarrow> lifecycle_db \<Rightarrow> grid_error + column_preview" where
  "buildColumnArchivePreview h sc columnId lc =
     and_then (requireActiveTable sc (lc_grid lc)) (\<lambda>table.
     and_then (requireActiveColumn sc columnId (lc_grid lc)) (\<lambda>column.
     and_then (filter_result (writebackReferencesColumn h columnId) (selectWritebackMappings sc lc)) (\<lambda>mappedWritebacks.
     and_then (filter_result (viewReferencesColumn h columnId) (selectSavedViewMappings sc lc)) (\<lambda>referencingViews.
       let db = lc_grid lc;
           activeColumns = count_where (\<lambda>c. col_workspaceId c = gs_workspaceId sc \<and> col_tableId c = gs_tableId sc
             \<and> col_archivedAt c = None) (g_columns db);
           mappedSources = filter (\<lambda>s. maps_column (so_fieldColumnIds s) columnId) (selectSourceMappings sc lc);
           activeSourceMappings = active_source_mappings sc columnId lc;
           activeWritebackMappings = filter (\<lambda>w. wb_status w = Destination_active) mappedWritebacks;
           blockers = fold pushBlocker
             [(Last_column, if activeColumns \<le> 1 then 1 else 0),
              (Active_work, count_where (\<lambda>x. cell_in_column sc columnId x \<and> gc_status x \<in> {Queued, Running}) (g_cells db)),
              (Dependent_columns, length (dependent_columns sc columnId db)),
              (Source_mappings, length activeSourceMappings),
              (Active_ingestion, length (active_ingestion_mappings sc columnId lc)),
              (Writeback_mappings, length activeWritebackMappings),
              (Saved_views, length referencingViews)] []
       in Inr \<lparr>cp_blockers = blockers, cp_column = column,
               cp_impact = \<lparr>ci_cells = count_where (cell_in_column sc columnId) (g_cells db),
                 ci_pausedSourceMappings = length mappedSources - length activeSourceMappings,
                 ci_pausedWritebackMappings = length mappedWritebacks - length activeWritebackMappings,
                 ci_savedViews = length referencingViews\<rparr>,
               cp_table = table\<rparr>))))"

definition previewSqliteColumnArchive :: "host \<Rightarrow> grid_scope \<Rightarrow> jsstr \<Rightarrow> lifecycle_db \<Rightarrow> grid_error + column_preview" where
  "previewSqliteColumnArchive h sc columnId lc =
     and_then (requireSchemaManager (gs_userId sc) (gs_workspaceId sc) (lc_grid lc)) (\<lambda>_. buildColumnArchivePreview h sc columnId lc)"

definition column_impact_json :: "column_impact \<Rightarrow> json" where
  "column_impact_json i = JObj [(js ''cells'', nat_json (ci_cells i)),
     (js ''pausedSourceMappings'', nat_json (ci_pausedSourceMappings i)),
     (js ''pausedWritebackMappings'', nat_json (ci_pausedWritebackMappings i)), (js ''savedViews'', nat_json (ci_savedViews i))]"

fun column_kind_name :: "column_kind \<Rightarrow> jsstr" where
  "column_kind_name Input_column = js ''input''"
| "column_kind_name Formula_column = js ''formula''"
| "column_kind_name Connector_column = js ''connector''"
| "column_kind_name Function_column = js ''function''"

definition archiveSqliteWorkspaceColumn :: "host \<Rightarrow> int \<Rightarrow> grid_scope \<Rightarrow> jsstr \<Rightarrow> jsstr \<Rightarrow> lifecycle_db \<Rightarrow> grid_error + lifecycle_db" where
  "archiveSqliteWorkspaceColumn h now sc columnId confirmationInput lc =
     (case displayName h confirmationInput of
        None \<Rightarrow> Inl GridValidation
      | Some confirmationName \<Rightarrow>
          and_then (requireSchemaManager (gs_userId sc) (gs_workspaceId sc) (lc_grid lc)) (\<lambda>_.
          and_then (buildColumnArchivePreview h sc columnId lc) (\<lambda>preview.
          and_then (requireArchiveConfirmation confirmationName (col_name (cp_column preview))) (\<lambda>_.
          and_then (requireNoBlockers (cp_blockers preview)) (\<lambda>_.
            case first_row (select_where (active_column sc columnId) (g_columns (lc_grid lc))) of
              None \<Rightarrow> Inl GridAccess
            | Some archived \<Rightarrow>
                Inr (set_columns (update_where (active_column sc columnId) (\<lambda>c. c\<lparr>col_archivedAt := Some now\<rparr>) (g_columns (lc_grid lc)))
                  (lifecycle_entry Column_archived sc (Some (col_id archived))
                    (JObj [(js ''impact'', column_impact_json (cp_impact preview)),
                      (js ''kind'', JStr (column_kind_name (col_kind (cp_column preview)))),
                      (js ''name'', JStr (col_name archived))])) lc))))))"

text \<open>The archived columns that a column depends on.\<close>

definition missing_dependencies :: "grid_scope \<Rightarrow> jsstr \<Rightarrow> grid_db \<Rightarrow> column_row list" where
  "missing_dependencies sc columnId db =
     [c. d \<leftarrow> g_dependencies db, c \<leftarrow> g_columns db, col_id c = dependsOnColumnId d \<and> dep_workspaceId d = gs_workspaceId sc
       \<and> dep_tableId d = gs_tableId sc \<and> dep_columnId d = columnId \<and> col_archivedAt c \<noteq> None]"

definition restoreSqliteWorkspaceColumn :: "grid_scope \<Rightarrow> jsstr \<Rightarrow> lifecycle_db \<Rightarrow> grid_error + lifecycle_db" where
  "restoreSqliteWorkspaceColumn sc columnId lc =
     and_then (requireSchemaManager (gs_userId sc) (gs_workspaceId sc) (lc_grid lc)) (\<lambda>_.
     and_then (requireActiveTable sc (lc_grid lc)) (\<lambda>table.
       case first_row (select_where (\<lambda>c. column_in sc columnId c \<and> col_archivedAt c \<noteq> None) (g_columns (lc_grid lc))) of
         None \<Rightarrow> Inl GridAccess
       | Some column \<Rightarrow>
           if missing_dependencies sc columnId (lc_grid lc) \<noteq> [] then Inl GridConflict
           else Inr (set_columns (update_where (\<lambda>c. col_id c = col_id column) (\<lambda>c. c\<lparr>col_archivedAt := None\<rparr>) (g_columns (lc_grid lc)))
             (lifecycle_entry Column_restored sc (Some (col_id column))
               (JObj [(js ''archivedAt'', JStr (toISOString (the (col_archivedAt column)))), (js ''name'', JStr (col_name column)),
                 (js ''tableName'', JStr (table_name table))])) lc)))"

end
