(* ===== verification/SchemaConversion.thy ===== *)
theory SchemaConversion
  imports SchemaLifecycle
begin

text \<open>
  Converting the type of an input column (\<open>packages/db/src/sqlite/schema-lifecycle.ts\<close>). The
  preview scans the cells of the column in pages and hashes their identifiers, versions and
  types; the conversion repeats the preview in its transaction and goes on only if the digest is
  the one that was confirmed.
\<close>

section \<open>The scan\<close>

definition CONVERSION_PAGE_SIZE :: nat where
  "CONVERSION_PAGE_SIZE = 1000"

definition FAILURE_SAMPLE_SIZE :: nat where
  "FAILURE_SAMPLE_SIZE = 10"

datatype failure_code = Stored_type_mismatch | Cell_conversion conversion_error | Conversion_failed

record conversion_failure =
  fl_code :: failure_code
  fl_rowId :: jsstr
  fl_rowPosition :: jsstr

text \<open>\<open>scan_hashed\<close> is the text that the digest was updated with.\<close>

record scan_state =
  scan_hashed :: jsstr
  scan_failures :: "conversion_failure list"
  scan_convertible :: nat
  scan_empty :: nat
  scan_failed :: nat
  scan_total :: nat

definition with_nul :: "jsstr \<Rightarrow> jsstr" where
  "with_nul s = s @ [0]"

definition scan_prefix :: "grid_scope \<Rightarrow> jsstr \<Rightarrow> value_type \<Rightarrow> value_type \<Rightarrow> jsstr" where
  "scan_prefix sc columnId currentType targetType =
     concat (map with_nul [js ''column-conversion-v1'', gs_workspaceId sc, gs_tableId sc, columnId,
       type_name currentType, type_name targetType])"

definition cell_print :: "grid_cell \<Rightarrow> jsstr" where
  "cell_print c = with_nul (gc_id c) @ with_nul (decimal_digits (gc_version c)) @ with_nul (type_name (valueType (gc_value c)))"

text \<open>\<open>convertColumnCellValue(deserializeSqliteCellValue(cell), targetType)\<close> inside a \<open>try\<close>.\<close>

definition convert_stored :: "host \<Rightarrow> value_type \<Rightarrow> stored_value \<Rightarrow> failure_code + cell_value" where
  "convert_stored h targetType stored =
     (case deserializeSqliteCellValue h stored of
        None \<Rightarrow> Inl Conversion_failed
      | Some v \<Rightarrow> (case convertColumnCellValue h v targetType of Inl e \<Rightarrow> Inl (Cell_conversion e) | Inr w \<Rightarrow> Inr w))"

definition scan_cell :: "host \<Rightarrow> value_type \<Rightarrow> value_type \<Rightarrow> grid_cell \<times> jsstr \<Rightarrow> scan_state \<Rightarrow> scan_state" where
  "scan_cell h currentType targetType = (\<lambda>(cell, position) st.
     let st1 = st\<lparr>scan_total := scan_total st + 1, scan_hashed := scan_hashed st @ cell_print cell\<rparr>;
         failed = (\<lambda>code. st1\<lparr>scan_failed := scan_failed st1 + 1,
           scan_failures := (if length (scan_failures st1) < FAILURE_SAMPLE_SIZE
             then scan_failures st1 @ [\<lparr>fl_code = code, fl_rowId = gc_rowId cell, fl_rowPosition = position\<rparr>]
             else scan_failures st1)\<rparr>)
     in if valueType (gc_value cell) = TEmpty then st1\<lparr>scan_empty := scan_empty st1 + 1\<rparr>
        else if valueType (gc_value cell) \<noteq> currentType then failed Stored_type_mismatch
        else (case convert_stored h targetType (gc_value cell) of
                Inr _ \<Rightarrow> st1\<lparr>scan_convertible := scan_convertible st1 + 1\<rparr>
              | Inl code \<Rightarrow> failed code))"

text \<open>The cells of the column, archived rows included, with the positions of their rows.\<close>

definition column_cells :: "grid_scope \<Rightarrow> jsstr \<Rightarrow> grid_db \<Rightarrow> (grid_cell \<times> jsstr) list" where
  "column_cells sc columnId db =
     [(c, row_position r). c \<leftarrow> g_cells db, r \<leftarrow> g_rows db, row_id r = gc_rowId c \<and> row_tableId r = gc_tableId c
       \<and> row_workspaceId r = gc_workspaceId c \<and> cell_in_column sc columnId c]"

definition cell_order :: "grid_cell \<times> jsstr \<Rightarrow> grid_cell \<times> jsstr \<Rightarrow> int" where
  "cell_order = compare_with (\<lambda>x. gc_id (fst x))"

definition cell_after :: "jsstr \<Rightarrow> grid_cell \<times> jsstr \<Rightarrow> bool" where
  "cell_after lastCellId x \<longleftrightarrow> lastCellId < gc_id (fst x)"

text \<open>
  The \<open>while (true)\<close> over the pages. The code drops the condition for an empty identifier, which no
  cell has.
\<close>

function scan_pages :: "host \<Rightarrow> value_type \<Rightarrow> value_type \<Rightarrow> (grid_cell \<times> jsstr) list \<Rightarrow> jsstr option \<Rightarrow> scan_state \<Rightarrow> scan_state" where
  "scan_pages h currentType targetType cs lastCellId st =
     (let page = page_rows cell_order cell_after CONVERSION_PAGE_SIZE lastCellId cs;
          st1 = fold (scan_cell h currentType targetType) page st
      in if length page < CONVERSION_PAGE_SIZE then st1
         else scan_pages h currentType targetType cs (Some (gc_id (fst (last page)))) st1)"
  by pat_completeness auto
termination
proof (relation "measure (\<lambda>(h, u, t, cs, k, st). length (filter (\<lambda>x. case k of None \<Rightarrow> True | Some i \<Rightarrow> cell_after i x) cs))",
    goal_cases)
  case (2 h u t cs k st page st1)
  let ?P = "\<lambda>x. case k of None \<Rightarrow> True | Some i \<Rightarrow> cell_after i x"
  let ?Q = "cell_after (gc_id (fst (last page)))"
  have "page \<noteq> []" using 2 by (auto simp: CONVERSION_PAGE_SIZE_def)
  then have "last page \<in> set page" by simp
  then have l: "last page \<in> set cs" "?P (last page)"
    using 2(1) by (auto simp: page_rows_def dest: in_set_takeD)
  have "length (filter ?Q (filter ?P cs)) < length (filter ?P cs)"
    by (rule length_filter_less [of "last page"]) (use l in \<open>simp_all add: cell_after_def\<close>)
  moreover have "?P x" if "?Q x" for x
    using l(2) that by (auto simp: cell_after_def split: option.splits)
  then have "filter ?Q (filter ?P cs) = filter ?Q cs" by (auto intro: filter_cong)
  ultimately show ?case by simp
qed simp

declare scan_pages.simps [simp del]

definition scanColumnTypeConversion :: "host \<Rightarrow> grid_scope \<Rightarrow> jsstr \<Rightarrow> value_type \<Rightarrow> value_type \<Rightarrow> grid_db \<Rightarrow> scan_state" where
  "scanColumnTypeConversion h sc columnId currentType targetType db =
     scan_pages h currentType targetType (column_cells sc columnId db) None
       \<lparr>scan_hashed = scan_prefix sc columnId currentType targetType, scan_failures = [], scan_convertible = 0,
        scan_empty = 0, scan_failed = 0, scan_total = 0\<rparr>"

section \<open>The preview\<close>

record conversion_preview =
  cv_blockers :: "blocker list"
  cv_column :: column_row
  cv_scan :: scan_state
  cv_previewDigest :: jsstr
  cv_table :: table_row

definition countActiveColumnConversionWork :: "grid_scope \<Rightarrow> jsstr \<Rightarrow> lifecycle_db \<Rightarrow> nat" where
  "countActiveColumnConversionWork sc columnId lc =
     count_where (\<lambda>x. cell_in_column sc columnId x \<and> gc_status x \<in> {Queued, Running}) (g_cells (lc_grid lc))
     + count_jobs sc [Job_staging, Job_queued, Job_running] (lc_imports lc)
     + count_jobs sc [Job_queued, Job_running] (lc_sourceRuns lc)
     + count_jobs sc [Job_queued, Job_running] (lc_ingestionBatches lc)"

definition blockers_json :: "blocker list \<Rightarrow> json" where
  "blockers_json bs = JArr (map (\<lambda>(code, n). JObj [(js ''code'', JStr (blocker_name code)), (js ''count'', nat_json n)]) bs)"

definition buildColumnTypeConversionPreview :: "host \<Rightarrow> (jsstr \<Rightarrow> jsstr) \<Rightarrow> grid_scope \<Rightarrow> jsstr \<Rightarrow> value_type
    \<Rightarrow> lifecycle_db \<Rightarrow> grid_error + conversion_preview" where
  "buildColumnTypeConversionPreview h sha256_hex sc columnId targetType lc =
     and_then (requireActiveTable sc (lc_grid lc)) (\<lambda>table.
     and_then (requireActiveColumn sc columnId (lc_grid lc)) (\<lambda>column.
       if col_kind column \<noteq> Input_column \<or> col_valueType column = TEmpty then Inl GridValidation
       else if col_valueType column = targetType then Inl GridValidation
       else and_then (filter_result (writebackReferencesColumn h columnId) (selectWritebackMappings sc lc)) (\<lambda>referencingWritebacks.
            and_then (filter_result (viewReferencesColumn h columnId) (selectSavedViewMappings sc lc)) (\<lambda>referencingViews.
              let db = lc_grid lc;
                  scan = scanColumnTypeConversion h sc columnId (col_valueType column) targetType db;
                  blockers = fold pushBlocker
                    [(Active_work, countActiveColumnConversionWork sc columnId lc),
                     (Dependent_columns, length (dependent_columns sc columnId db)),
                     (Source_mappings, length (active_source_mappings sc columnId lc)),
                     (Active_ingestion, length (active_ingestion_mappings sc columnId lc)),
                     (Writeback_mappings, length referencingWritebacks),
                     (Saved_views, length referencingViews),
                     (Conversion_failures, scan_failed scan)] []
              in Inr \<lparr>cv_blockers = blockers, cv_column = column, cv_scan = scan,
                      cv_previewDigest = sha256_hex (scan_hashed scan @ stringify (blockers_json blockers)),
                      cv_table = table\<rparr>))))"

definition previewSqliteColumnTypeConversion :: "host \<Rightarrow> (jsstr \<Rightarrow> jsstr) \<Rightarrow> grid_scope \<Rightarrow> jsstr \<Rightarrow> value_type
    \<Rightarrow> lifecycle_db \<Rightarrow> grid_error + conversion_preview" where
  "previewSqliteColumnTypeConversion h sha256_hex sc columnId targetType lc =
     (if targetType \<notin> set editable_types then Inl GridValidation
      else and_then (requireSchemaManager (gs_userId sc) (gs_workspaceId sc) (lc_grid lc)) (\<lambda>_.
             buildColumnTypeConversionPreview h sha256_hex sc columnId targetType lc))"

section \<open>The conversion\<close>

definition conversion_error_of :: "failure_code \<Rightarrow> grid_error" where
  "conversion_error_of code = (case code of Cell_conversion e \<Rightarrow> ColumnConversion e | _ \<Rightarrow> StoredValueInvalid)"

definition converted_cell :: "host \<Rightarrow> int \<Rightarrow> cell_value \<Rightarrow> grid_cell \<Rightarrow> grid_cell" where
  "converted_cell h now v c = c\<lparr>gc_value := serializeSqliteCellValue h v, gc_status := Idle, gc_updatedAt := now,
     gc_version := gc_version c + 1\<rparr>"

definition convert_cell :: "host \<Rightarrow> int \<Rightarrow> value_type \<Rightarrow> grid_cell \<Rightarrow> grid_cell list \<Rightarrow> grid_error + grid_cell list" where
  "convert_cell h now targetType cell cs =
     (case convert_stored h targetType (gc_value cell) of
        Inl code \<Rightarrow> Inl (conversion_error_of code)
      | Inr v \<Rightarrow> Inr (update_where (\<lambda>c. gc_id c = gc_id cell) (converted_cell h now v) cs))"

definition stored_cells :: "grid_scope \<Rightarrow> jsstr \<Rightarrow> grid_db \<Rightarrow> grid_cell list" where
  "stored_cells sc columnId db =
     sort_by (compare_with gc_id) (select_where (\<lambda>c. cell_in_column sc columnId c \<and> valueType (gc_value c) \<noteq> TEmpty) (g_cells db))"

definition applyColumnTypeConversion :: "host \<Rightarrow> int \<Rightarrow> grid_scope \<Rightarrow> jsstr \<Rightarrow> value_type \<Rightarrow> grid_db \<Rightarrow> grid_error + (grid_db \<times> nat)" where
  "applyColumnTypeConversion h now sc columnId targetType db =
     and_then (fold_result (convert_cell h now targetType) (stored_cells sc columnId db) (g_cells db)) (\<lambda>cs.
       Inr (db\<lparr>g_cells := cs\<rparr>, length (stored_cells sc columnId db)))"

text \<open>\<open>z.string().regex(/^[0-9a-f]{64}$/)\<close>.\<close>

definition hex_digest :: "jsstr \<Rightarrow> bool" where
  "hex_digest s \<longleftrightarrow> length s = 64 \<and> list_all (\<lambda>c. is_digit c \<or> 97 \<le> c \<and> c \<le> 102) s"

record conversion_input =
  ci_confirmationName :: jsstr
  ci_previewDigest :: jsstr
  ci_targetType :: value_type

record conversion_result =
  cr_convertedCells :: nat
  cr_fromValueType :: value_type
  cr_id :: jsstr
  cr_name :: jsstr
  cr_toValueType :: value_type

definition conversion_entry :: "grid_scope \<Rightarrow> conversion_preview \<Rightarrow> value_type \<Rightarrow> nat \<Rightarrow> column_row \<Rightarrow> lifecycle_event" where
  "conversion_entry sc preview targetType convertedCells updated = lifecycle_entry Column_type_converted sc (Some (col_id updated))
     (JObj [(js ''convertedCells'', nat_json convertedCells), (js ''emptyCells'', nat_json (scan_empty (cv_scan preview))),
       (js ''failurePolicy'', JStr (js ''atomic'')), (js ''fromValueType'', JStr (type_name (col_valueType (cv_column preview)))),
       (js ''name'', JStr (col_name updated)), (js ''previewDigest'', JStr (cv_previewDigest preview)),
       (js ''toValueType'', JStr (type_name targetType))])"

definition convertSqliteWorkspaceColumnType :: "host \<Rightarrow> (jsstr \<Rightarrow> jsstr) \<Rightarrow> int \<Rightarrow> grid_scope \<Rightarrow> jsstr \<Rightarrow> conversion_input
    \<Rightarrow> lifecycle_db \<Rightarrow> grid_error + (lifecycle_db \<times> conversion_result)" where
  "convertSqliteWorkspaceColumnType h sha256_hex now sc columnId inp lc =
     (case displayName h (ci_confirmationName inp) of
        None \<Rightarrow> Inl GridValidation
      | Some confirmationName \<Rightarrow>
          if \<not> hex_digest (ci_previewDigest inp) \<or> ci_targetType inp \<notin> set editable_types then Inl GridValidation
          else and_then (requireSchemaManager (gs_userId sc) (gs_workspaceId sc) (lc_grid lc)) (\<lambda>_.
               and_then (buildColumnTypeConversionPreview h sha256_hex sc columnId (ci_targetType inp) lc) (\<lambda>preview.
               and_then (requireConversionConfirmation confirmationName (col_name (cv_column preview))) (\<lambda>_.
                 if cv_previewDigest preview \<noteq> ci_previewDigest inp then Inl GridConflict
                 else and_then (requireNoBlockers (cv_blockers preview)) (\<lambda>_.
                      and_then (applyColumnTypeConversion h now sc columnId (ci_targetType inp) (lc_grid lc)) (\<lambda>(db1, convertedCells).
                        let target = (\<lambda>c. active_column sc columnId c \<and> col_kind c = Input_column
                              \<and> col_valueType c = col_valueType (cv_column preview));
                            changed = (\<lambda>c. c\<lparr>col_valueType := ci_targetType inp\<rparr>)
                        in (case first_row (select_where target (g_columns db1)) of
                              None \<Rightarrow> Inl GridConflict
                            | Some updated \<Rightarrow>
                                Inr (lc\<lparr>lc_grid := db1\<lparr>g_columns := update_where target changed (g_columns db1)\<rparr>,
                                       lc_events := lc_events lc @ [conversion_entry sc preview (ci_targetType inp) convertedCells updated]\<rparr>,
                                     \<lparr>cr_convertedCells = convertedCells, cr_fromValueType = col_valueType (cv_column preview),
                                      cr_id = col_id updated, cr_name = col_name updated,
                                      cr_toValueType = ci_targetType inp\<rparr>))))))))"

end
