(* ===== verification/SchemaProofs.thy ===== *)
theory SchemaProofs
  imports SchemaConversion RowCopies
begin

text \<open>
  The schema of a workspace stays well formed over every history of requests: creating,
  renaming, archiving and restoring tables and columns, converting columns, and the operations
  on rows and cells, which do not touch it.
\<close>

section \<open>Operations that leave the schema alone\<close>

lemma schema_kept_refl [simp]: "schema_kept db db"
  by (simp add: schema_kept_def)

lemma schema_kept_trans: "schema_kept db db1 \<Longrightarrow> schema_kept db1 db2 \<Longrightarrow> schema_kept db db2"
  by (simp add: schema_kept_def)

lemma store_formula_schema: "store_formula h uuid now s f v st = Inr st' \<Longrightarrow> schema_kept (rc_db st) (rc_db st')"
  by (auto simp: store_formula_def Let_def schema_kept_def new_uuid_def split: option.splits if_splits prod.splits)

lemma recompute_formulas_schema:
  "fold_result (recompute_formula h uuid now s formulas) ord st = Inr st' \<Longrightarrow> schema_kept (rc_db st) (rc_db st')"
proof (induction ord arbitrary: st)
  case (Cons f ord)
  obtain st1 where s1: "recompute_formula h uuid now s formulas f st = Inr st1"
    "fold_result (recompute_formula h uuid now s formulas) ord st1 = Inr st'"
    using Cons.prems by (auto simp: and_then_eq_Inr)
  have "st1 = st \<or> (\<exists>v m. store_formula h uuid now s f v (st\<lparr>rc_values := m\<rparr>) = Inr st1)"
    using s1(1) by (auto simp: recompute_formula_def Let_def split: option.splits if_splits)
  then have "schema_kept (rc_db st) (rc_db st1)" using store_formula_schema by fastforce
  then show ?case using Cons.IH [OF s1(2)] schema_kept_trans by blast
qed simp

lemma recompute_schema:
  "recomputeDependentSqliteFormulasForRow h uuid now s changed db = Inr (db', ids) \<Longrightarrow> schema_kept db db'"
  by (auto simp: recomputeDependentSqliteFormulasForRow_def Let_def and_then_eq_Inr split: if_splits
      dest!: recompute_formulas_schema)

lemma record_schema:
  assumes e: "recordSqliteRowMutationAndMaybeQueueSettlement h uuid now s changed db = Inr (db', v, sid)"
  shows "schema_kept db db'"
proof -
  have "keeps_outside UNIV db db'" using record_keeps [OF e, of UNIV] by simp
  then show ?thesis by (simp add: schema_kept_def keeps_outside_def)
qed

lemma settle_edit_schema: "settle_edit h uuid now s c db = Inr db' \<Longrightarrow> schema_kept db db'"
  by (auto simp: settle_edit_def and_then_eq_Inr intro: schema_kept_trans [OF recompute_schema record_schema])

lemma settle_copy_schema: "settle_copy h uuid now inp i db = Inr db' \<Longrightarrow> schema_kept db db'"
  by (auto simp: settle_copy_def Let_def and_then_eq_Inr intro: schema_kept_trans [OF recompute_schema record_schema])

lemma settle_row_schema: "settle_row h uuid now ids r db = Inr db' \<Longrightarrow> schema_kept db db'"
  by (auto simp: settle_row_def and_then_eq_Inr split: if_splits
      intro: schema_kept_trans [OF recompute_schema record_schema] recompute_schema)

lemma fold_schema:
  "(\<And>x d d'. f x d = Inr d' \<Longrightarrow> schema_kept d d') \<Longrightarrow> fold_result f xs db = Inr db' \<Longrightarrow> schema_kept db db'"
proof (induction xs arbitrary: db)
  case (Cons x xs)
  obtain d where d: "f x db = Inr d" "fold_result f xs d = Inr db'" using Cons.prems(2) by (auto simp: and_then_eq_Inr)
  show ?case by (rule schema_kept_trans [OF Cons.prems(1) [OF d(1)] Cons.IH [OF Cons.prems(1) d(2)]])
qed simp

lemma row_created_schema: "createSqliteGridRow uuid now sc db = Inr (db', r) \<Longrightarrow> schema_kept db db'"
  by (auto simp: createSqliteGridRow_def and_then_eq_Inr new_uuid_def Let_def schema_kept_def split: if_splits)

lemma put_cell_schema: "put_cell h uuid now inp db = Inr (db', c) \<Longrightarrow> schema_kept db db'"
  by (auto simp: put_cell_def Let_def new_uuid_def schema_kept_def split: option.splits if_splits)

lemma cell_written_schema: "writeSqliteGridCell h uuid now inp db = Inr (db', c) \<Longrightarrow> schema_kept db db'"
  by (auto simp: writeSqliteGridCell_def and_then_eq_Inr split: if_splits option.splits
      intro: schema_kept_trans [OF put_cell_schema settle_edit_schema])

lemma batch_copied_schema:
  assumes w: "writeSqliteWorkflowRowBatch h sha256 uuid now inp db = Inr (db', out)"
  shows "schema_kept db db'"
proof -
  obtain src rs created where "fold_result (settle_copy h uuid now inp) created
      (db\<lparr>g_rows := rs, g_cells := fold insert_cell (target_cells h sha256 now inp src) (g_cells db)\<rparr>) = Inr db'"
    by (rule copy_parts [OF w])
  from fold_schema [OF settle_copy_schema this] show ?thesis by (simp add: schema_kept_def)
qed

section \<open>Formula columns\<close>

lemma formula_access:
  assumes "requireFormulaTableAccess inp db = Inr x"
  obtains t where "t \<in> set (g_tables db)" "table_id t = cf_tableId inp" "table_workspaceId t = cf_workspaceId inp"
proof -
  obtain m where "first_row [m. t \<leftarrow> g_tables db, m \<leftarrow> g_members db,
      member_workspaceId m = table_workspaceId t \<and> member_userId m = cf_userId inp
      \<and> table_id t = cf_tableId inp \<and> table_workspaceId t = cf_workspaceId inp \<and> table_archivedAt t = None] = Some m"
    using assms by (auto simp: requireFormulaTableAccess_def split: option.splits)
  from first_row_mem [OF this] that show thesis by auto
qed

lemma formula_created_schema_ok:
  assumes ok: "schema_ok T db" and e: "createSqliteFormulaColumn h uuid now inp db = Inr (db', c)"
  shows "schema_ok T db'"
proof -
  obtain name ex ids ty db1 where n: "check_name inp db = Inr name"
    and ce: "check_expression h ex (available_columns inp db) = Inr (ids, ty)"
    and ins: "insert_formula uuid now inp name ex ids ty db = Inr (db1, c)"
    and loop: "fold_result (settle_row h uuid now ids) (active_rows (cf_tableId inp) (cf_workspaceId inp) db1) db1 = Inr db'"
    using e by (auto simp: createSqliteFormulaColumn_def and_then_eq_Inr split: if_splits)
  obtain x where acc: "requireFormulaTableAccess inp db = Inr x"
    and lim: "length (table_columns (cf_tableId inp) (cf_workspaceId inp) db) < MAXIMUM_TABLE_COLUMNS"
    and dup: "\<forall>d \<in> set (table_columns (cf_tableId inp) (cf_workspaceId inp) db). ascii_lower (col_name d) \<noteq> ascii_lower name"
    using n by (auto simp: check_name_def Let_def and_then_eq_Inr list_ex_iff split: if_splits)
  obtain t where t: "t \<in> set (g_tables db)" "table_id t = cf_tableId inp" "table_workspaceId t = cf_workspaceId inp"
    by (rule formula_access [OF acc])
  let ?cid = "uuid (Suc (g_fresh db))"
  let ?deps = "map (\<lambda>d. \<lparr>dep_workspaceId = cf_workspaceId inp, dep_tableId = cf_tableId inp,
     dep_columnId = ?cid, dependsOnColumnId = d\<rparr>) ids"
  have c: "col_id c = ?cid" "col_id c \<notin> col_id ` set (g_columns db)" "col_tableId c = cf_tableId inp"
      "col_workspaceId c = cf_workspaceId inp" "col_name c = name" "col_archivedAt c = None"
    and db1: "g_tables db1 = g_tables db" "g_columns db1 = g_columns db @ [c]" "g_dependencies db1 = g_dependencies db @ ?deps"
    using ins by (auto simp: insert_formula_def new_uuid_def Let_def formula_column_def split: if_splits)
  have "distinct (map col_id (available_columns inp db))"
    using ok by (simp add: schema_ok_def names_ok_def available_columns_def table_columns_def select_where_def distinct_map_filter)
  then have sub: "set ids \<subseteq> col_id ` set (available_columns inp db)" using checked_expression [OF _ ce] by blast
  have "dependency_ok (g_columns db @ [c]) d" if dd: "d \<in> set ?deps" for d
  proof -
    obtain s where s: "s \<in> set (available_columns inp db)" "dependsOnColumnId d = col_id s" "dep_columnId d = ?cid"
        "dep_tableId d = cf_tableId inp" "dep_workspaceId d = cf_workspaceId inp"
      using dd sub by auto
    have "s \<in> set (g_columns db)" "col_tableId s = cf_tableId inp" "col_workspaceId s = cf_workspaceId inp" "col_archivedAt s = None"
      using s(1) by (simp_all add: available_columns_def table_columns_def select_where_def)
    then show ?thesis unfolding dependency_ok_def using s c by (intro bexI [of _ c] bexI [of _ s]) simp_all
  qed
  then have "schema_ok T db1"
    using new_column_ok [OF ok c(2) t(1), of ?deps db1] t c lim dup db1 by simp
  then show ?thesis using schema_kept_ok [OF fold_schema [OF settle_row_schema loop]] by simp
qed

section \<open>Archiving and restoring\<close>

lemma another_row:
  assumes "distinct (map key rows)" and "\<not> count_where P rows \<le> 1"
  shows "\<exists>x \<in> set rows. P x \<and> key x \<noteq> k"
proof (rule ccontr)
  assume "\<not> ?thesis"
  then have "filter P rows = filter (\<lambda>x. P x \<and> key x = k) rows" by (intro filter_cong) auto
  moreover have "length (filter (\<lambda>x. P x \<and> key x = k) rows) \<le> 1" by (rule at_most_one [OF assms(1)]) simp
  ultimately show False using assms(2) by (simp add: count_where_def select_where_def)
qed

definition archived_tables :: "(table_row \<Rightarrow> bool) \<Rightarrow> int option \<Rightarrow> grid_db \<Rightarrow> grid_db" where
  "archived_tables P a db = db\<lparr>g_tables := update_where P (\<lambda>t. t\<lparr>table_archivedAt := a\<rparr>) (g_tables db)\<rparr>"

definition archived_columns :: "(column_row \<Rightarrow> bool) \<Rightarrow> int option \<Rightarrow> grid_db \<Rightarrow> grid_db" where
  "archived_columns P a db = db\<lparr>g_columns := update_where P (\<lambda>c. c\<lparr>col_archivedAt := a\<rparr>) (g_columns db)\<rparr>"

lemma tables_changed_ok:
  assumes ok: "schema_ok T db"
    and keep: "\<And>t. t \<in> set (g_tables db) \<Longrightarrow> \<exists>u \<in> set (g_tables db). table_workspaceId u = table_workspaceId t
      \<and> (if P u then a = None else table_archivedAt u = None)"
  shows "schema_ok T (archived_tables P a db)"
proof -
  let ?f = "\<lambda>t. if P t then t\<lparr>table_archivedAt := a\<rparr> else t"
  have t: "g_tables (archived_tables P a db) = map ?f (g_tables db)" "g_columns (archived_tables P a db) = map (\<lambda>c. c) (g_columns db)"
    "g_dependencies (archived_tables P a db) = g_dependencies db"
    by (simp_all add: archived_tables_def update_where_def)
  have f: "table_id (?f t) = table_id t \<and> table_workspaceId (?f t) = table_workspaceId t" for t by simp
  have n: "table_name (?f t) = table_name t" for t by simp
  have act: "table_archivedAt (?f u) = None \<longleftrightarrow> (if P u then a = None else table_archivedAt u = None)" for u by simp
  show ?thesis
  proof (rule changed_in_place_ok [OF ok f _ _ t])
    show "distinct_names table_workspaceId table_name (map ?f (g_tables db))"
      using ok by (simp add: schema_ok_def names_ok_def distinct_names_def o_def f n del: if_image_distrib cong: if_cong)
    show "tables_filled (archived_tables P a db)"
      unfolding tables_filled_def t
    proof (intro ballI conjI)
      fix x
      assume "x \<in> set (map ?f (g_tables db))"
      then obtain y where y: "y \<in> set (g_tables db)" "x = ?f y" by auto
      have fl: "\<exists>c \<in> set (g_columns db). col_tableId c = table_id y \<and> col_archivedAt c = None"
        using ok y(1) unfolding schema_ok_def tables_filled_def by blast
      then show "\<exists>c \<in> set (map (\<lambda>c. c) (g_columns db)). col_tableId c = table_id x \<and> col_archivedAt c = None"
        by (simp add: y(2))
      obtain u where "u \<in> set (g_tables db)" "table_workspaceId u = table_workspaceId y"
          "if P u then a = None else table_archivedAt u = None" using keep [OF y(1)] by blast
      then show "\<exists>u \<in> set (map ?f (g_tables db)). table_workspaceId u = table_workspaceId x \<and> table_archivedAt u = None"
        by (intro bexI [of _ "?f u"]) (auto simp: y(2))
    qed
    show "dependencies_active (archived_tables P a db)" using ok by (simp add: schema_ok_def dependencies_active_def t)
  qed simp
qed

lemma dependency_okI:
  "c \<in> set cs \<Longrightarrow> s \<in> set cs \<Longrightarrow> col_id c = dep_columnId d \<Longrightarrow> col_id s = dependsOnColumnId d \<Longrightarrow> col_tableId c = dep_tableId d
    \<Longrightarrow> col_tableId s = dep_tableId d \<Longrightarrow> col_workspaceId c = dep_workspaceId d \<Longrightarrow> col_workspaceId s = dep_workspaceId d
    \<Longrightarrow> (col_archivedAt c = None \<longrightarrow> col_archivedAt s = None) \<Longrightarrow> dependency_ok cs d"
  unfolding dependency_ok_def by (intro bexI [of _ c] bexI [of _ s] conjI)

lemma dependency_okE:
  assumes "dependency_ok cs d"
  obtains c s where "c \<in> set cs" "s \<in> set cs" "col_id c = dep_columnId d" "col_id s = dependsOnColumnId d" "col_tableId c = dep_tableId d"
    "col_tableId s = dep_tableId d" "col_workspaceId c = dep_workspaceId d" "col_workspaceId s = dep_workspaceId d"
    "col_archivedAt c = None \<longrightarrow> col_archivedAt s = None"
  using assms unfolding dependency_ok_def by (elim bexE conjE) (rule that)

lemma columns_changed_ok:
  assumes ok: "schema_ok T db"
    and keep: "\<And>t. t \<in> set (g_tables db) \<Longrightarrow> \<exists>c \<in> set (g_columns db). col_tableId c = table_id t
      \<and> (if P c then a = None else col_archivedAt c = None)"
    and deps: "\<And>d c s. d \<in> set (g_dependencies db) \<Longrightarrow> c \<in> set (g_columns db) \<Longrightarrow> s \<in> set (g_columns db)
      \<Longrightarrow> col_id c = dep_columnId d \<Longrightarrow> col_id s = dependsOnColumnId d \<Longrightarrow> col_tableId c = dep_tableId d \<Longrightarrow> col_tableId s = dep_tableId d
      \<Longrightarrow> col_workspaceId c = dep_workspaceId d \<Longrightarrow> col_workspaceId s = dep_workspaceId d
      \<Longrightarrow> (col_archivedAt c = None \<longrightarrow> col_archivedAt s = None)
      \<Longrightarrow> (if P c then a = None else col_archivedAt c = None) \<Longrightarrow> (if P s then a = None else col_archivedAt s = None)"
  shows "schema_ok T (archived_columns P a db)"
proof -
  let ?g = "\<lambda>c. if P c then c\<lparr>col_archivedAt := a\<rparr> else c"
  have t: "g_tables (archived_columns P a db) = map (\<lambda>t. t) (g_tables db)" "g_columns (archived_columns P a db) = map ?g (g_columns db)"
    "g_dependencies (archived_columns P a db) = g_dependencies db"
    by (simp_all add: archived_columns_def update_where_def)
  have g: "col_id (?g c) = col_id c \<and> col_tableId (?g c) = col_tableId c \<and> col_workspaceId (?g c) = col_workspaceId c \<and> col_name (?g c) = col_name c" for c
    by simp
  have act: "col_archivedAt (?g c) = None \<longleftrightarrow> (if P c then a = None else col_archivedAt c = None)" for c by simp
  show ?thesis
  proof (rule changed_in_place_ok [OF ok _ g _ t])
    show "distinct_names table_workspaceId table_name (map (\<lambda>t. t) (g_tables db))"
      using ok by (simp add: schema_ok_def names_ok_def)
    show "tables_filled (archived_columns P a db)"
      unfolding tables_filled_def t
    proof (intro ballI conjI)
      fix x
      assume "x \<in> set (map (\<lambda>t. t) (g_tables db))"
      then have x: "x \<in> set (g_tables db)" by simp
      show "\<exists>u \<in> set (map (\<lambda>t. t) (g_tables db)). table_workspaceId u = table_workspaceId x \<and> table_archivedAt u = None"
        using ok x unfolding schema_ok_def tables_filled_def by simp
      obtain c where "c \<in> set (g_columns db)" "col_tableId c = table_id x"
          "if P c then a = None else col_archivedAt c = None" using keep [OF x] by blast
      then show "\<exists>c \<in> set (map ?g (g_columns db)). col_tableId c = table_id x \<and> col_archivedAt c = None"
        by (intro bexI [of _ "?g c"]) auto
    qed
    show "dependencies_active (archived_columns P a db)" unfolding dependencies_active_def t
    proof
      fix d
      assume d: "d \<in> set (g_dependencies db)"
      then have "dependency_ok (g_columns db) d" using ok by (simp add: schema_ok_def dependencies_active_def)
      then obtain c s where cs: "c \<in> set (g_columns db)" "s \<in> set (g_columns db)" "col_id c = dep_columnId d" "col_id s = dependsOnColumnId d"
          "col_tableId c = dep_tableId d" "col_tableId s = dep_tableId d" "col_workspaceId c = dep_workspaceId d" "col_workspaceId s = dep_workspaceId d"
          "col_archivedAt c = None \<longrightarrow> col_archivedAt s = None"
        by (rule dependency_okE)
      show "dependency_ok (map ?g (g_columns db)) d"
      proof (rule dependency_okI [of "?g c" _ "?g s"])
        show "?g c \<in> set (map ?g (g_columns db))" "?g s \<in> set (map ?g (g_columns db))"
          unfolding list.set_map by (rule imageI, rule cs(1), rule imageI, rule cs(2))
        show "col_archivedAt (?g c) = None \<longrightarrow> col_archivedAt (?g s) = None"
          unfolding act by (rule impI) (rule deps [OF d cs])
      qed (simp_all only: g cs(3-8))
    qed
  qed simp
qed

lemma active_found:
  "requireActiveTable sc db = Inr t \<Longrightarrow> t \<in> set (g_tables db) \<and> active_table sc t"
  "requireActiveColumn sc columnId db = Inr c \<Longrightarrow> c \<in> set (g_columns db) \<and> active_column sc columnId c"
  by (auto simp: requireActiveTable_def requireActiveColumn_def select_where_def split: option.splits dest: first_row_mem)

lemma table_archived_ok:
  assumes ok: "schema_ok T (lc_grid lc)" and e: "archiveSqliteWorkspaceTable h now sc name lc = Inr lc'"
  shows "schema_ok T (lc_grid lc')"
proof -
  let ?db = "lc_grid lc"
  obtain preview where p: "buildTableArchivePreview sc lc = Inr preview" "tp_blockers preview = []"
    and lc': "lc_grid lc' = archived_tables (active_table sc) (Some now) ?db"
    using e by (auto simp: archiveSqliteWorkspaceTable_def and_then_eq_Inr requireNoBlockers_def archived_tables_def set_tables_def
        split: option.splits if_splits)
  have "\<not> count_where (\<lambda>x. table_workspaceId x = gs_workspaceId sc \<and> table_archivedAt x = None) (g_tables ?db) \<le> 1"
    using p by (auto simp: buildTableArchivePreview_def and_then_eq_Inr Let_def push_empty split: if_splits)
  then obtain other where o: "other \<in> set (g_tables ?db)" "table_workspaceId other = gs_workspaceId sc" "table_archivedAt other = None"
      "table_id other \<noteq> gs_tableId sc"
    using another_row [of table_id "g_tables ?db"] ok by (auto simp: schema_ok_def names_ok_def)
  show ?thesis unfolding lc'
  proof (rule tables_changed_ok [OF ok])
    fix t
    assume t: "t \<in> set (g_tables ?db)"
    show "\<exists>u \<in> set (g_tables ?db). table_workspaceId u = table_workspaceId t
        \<and> (if active_table sc u then Some now = None else table_archivedAt u = None)"
    proof (cases "table_workspaceId t = gs_workspaceId sc")
      case True
      then show ?thesis using o by (intro bexI [of _ other]) (simp_all add: active_table_def)
    next
      case False
      obtain u where "u \<in> set (g_tables ?db)" "table_workspaceId u = table_workspaceId t" "table_archivedAt u = None"
        using ok t unfolding schema_ok_def tables_filled_def by blast
      then show ?thesis using False by (intro bexI [of _ u]) (auto simp: active_table_def)
    qed
  qed
qed

lemma table_restored_ok:
  assumes ok: "schema_ok T (lc_grid lc)" and e: "restoreSqliteWorkspaceTable sc lc = Inr lc'"
  shows "schema_ok T (lc_grid lc')"
proof -
  obtain k where lc': "lc_grid lc' = archived_tables (\<lambda>t. table_id t = k) None (lc_grid lc)"
    using e by (auto simp: restoreSqliteWorkspaceTable_def and_then_eq_Inr archived_tables_def set_tables_def split: option.splits)
  show ?thesis unfolding lc'
  proof (rule tables_changed_ok [OF ok])
    fix t
    assume "t \<in> set (g_tables (lc_grid lc))"
    then obtain u where "u \<in> set (g_tables (lc_grid lc))" "table_workspaceId u = table_workspaceId t" "table_archivedAt u = None"
      using ok unfolding schema_ok_def tables_filled_def by blast
    then show "\<exists>u \<in> set (g_tables (lc_grid lc)). table_workspaceId u = table_workspaceId t
        \<and> (if table_id u = k then None = None else table_archivedAt u = None)" by auto
  qed
qed

lemma dependentI:
  "d \<in> set (g_dependencies db) \<Longrightarrow> c \<in> set (g_columns db) \<Longrightarrow> col_archivedAt c = None \<Longrightarrow> col_id c = dep_columnId d
    \<Longrightarrow> dep_workspaceId d = gs_workspaceId sc \<Longrightarrow> dep_tableId d = gs_tableId sc \<Longrightarrow> dependsOnColumnId d = columnId
    \<Longrightarrow> c \<in> set (dependent_columns sc columnId db)"
  unfolding dependent_columns_def by fastforce

lemma column_archived_ok:
  assumes ok: "schema_ok T (lc_grid lc)" and e: "archiveSqliteWorkspaceColumn h now sc columnId name lc = Inr lc'"
  shows "schema_ok T (lc_grid lc')"
proof -
  let ?db = "lc_grid lc"
  obtain preview where p: "buildColumnArchivePreview h sc columnId lc = Inr preview" "cp_blockers preview = []"
    and lc': "lc_grid lc' = archived_columns (active_column sc columnId) (Some now) ?db"
    using e by (auto simp: archiveSqliteWorkspaceColumn_def and_then_eq_Inr requireNoBlockers_def archived_columns_def set_columns_def
        split: option.splits if_splits)
  have last: "\<not> count_where (\<lambda>c. col_workspaceId c = gs_workspaceId sc \<and> col_tableId c = gs_tableId sc \<and> col_archivedAt c = None) (g_columns ?db) \<le> 1"
    and dep: "dependent_columns sc columnId ?db = []"
    using p by (auto simp: buildColumnArchivePreview_def and_then_eq_Inr Let_def push_empty split: if_splits)
  have keys: "distinct (map col_id (g_columns ?db))" using ok by (simp add: schema_ok_def names_ok_def)
  obtain other where o: "other \<in> set (g_columns ?db)" "col_tableId other = gs_tableId sc" "col_archivedAt other = None" "col_id other \<noteq> columnId"
    using another_row [OF keys last] by auto
  show ?thesis unfolding lc'
  proof (rule columns_changed_ok [OF ok])
    fix t
    assume t: "t \<in> set (g_tables ?db)"
    show "\<exists>c \<in> set (g_columns ?db). col_tableId c = table_id t
        \<and> (if active_column sc columnId c then Some now = None else col_archivedAt c = None)"
    proof (cases "table_id t = gs_tableId sc")
      case True
      then show ?thesis using o by (intro bexI [of _ other]) (simp_all add: active_column_def column_in_def)
    next
      case False
      obtain c where "c \<in> set (g_columns ?db)" "col_tableId c = table_id t" "col_archivedAt c = None"
        using ok t unfolding schema_ok_def tables_filled_def by blast
      then show ?thesis using False by (intro bexI [of _ c]) (auto simp: active_column_def column_in_def)
    qed
  next
    fix d c s
    assume d: "d \<in> set (g_dependencies ?db)" and c: "c \<in> set (g_columns ?db)" "s \<in> set (g_columns ?db)" "col_id c = dep_columnId d"
      "col_id s = dependsOnColumnId d" "col_tableId s = dep_tableId d" "col_workspaceId s = dep_workspaceId d"
      "col_archivedAt c = None \<longrightarrow> col_archivedAt s = None" "if active_column sc columnId c then Some now = None else col_archivedAt c = None"
    have ac: "col_archivedAt c = None" using c(8) by (simp split: if_splits)
    have "\<not> active_column sc columnId s"
    proof
      assume "active_column sc columnId s"
      then have "dep_workspaceId d = gs_workspaceId sc" "dep_tableId d = gs_tableId sc" "dependsOnColumnId d = columnId"
        using c(4-6) by (simp_all add: active_column_def column_in_def)
      then have "c \<in> set (dependent_columns sc columnId ?db)" by (intro dependentI [OF d c(1) ac c(3)])
      then show False using dep by simp
    qed
    then show "if active_column sc columnId s then Some now = None else col_archivedAt s = None"
      using c(7,8) by (simp split: if_splits)
  qed
qed

lemma column_restored_ok:
  assumes ok: "schema_ok T (lc_grid lc)" and e: "restoreSqliteWorkspaceColumn sc columnId lc = Inr lc'"
  shows "schema_ok T (lc_grid lc')"
proof -
  let ?db = "lc_grid lc"
  obtain column where col: "first_row (select_where (\<lambda>c. column_in sc columnId c \<and> col_archivedAt c \<noteq> None) (g_columns ?db)) = Some column"
    and dep: "missing_dependencies sc columnId ?db = []"
    and lc': "lc_grid lc' = archived_columns (\<lambda>c. col_id c = col_id column) None ?db"
    using e by (auto simp: restoreSqliteWorkspaceColumn_def and_then_eq_Inr archived_columns_def set_columns_def split: option.splits if_splits)
  have cm: "column \<in> set (g_columns ?db)" "column_in sc columnId column"
    using first_row_mem [OF col] by (simp_all add: select_where_def)
  have keys: "distinct (map col_id (g_columns ?db))" using ok by (simp add: schema_ok_def names_ok_def)
  show ?thesis unfolding lc'
  proof (rule columns_changed_ok [OF ok])
    fix t
    assume "t \<in> set (g_tables ?db)"
    then obtain c where "c \<in> set (g_columns ?db)" "col_tableId c = table_id t" "col_archivedAt c = None"
      using ok unfolding schema_ok_def tables_filled_def by blast
    then show "\<exists>c \<in> set (g_columns ?db). col_tableId c = table_id t
        \<and> (if col_id c = col_id column then None = None else col_archivedAt c = None)" by auto
  next
    fix d c s
    assume d: "d \<in> set (g_dependencies ?db)" and c: "c \<in> set (g_columns ?db)" "s \<in> set (g_columns ?db)" "col_id c = dep_columnId d"
      "col_id s = dependsOnColumnId d" "col_tableId c = dep_tableId d" "col_workspaceId c = dep_workspaceId d"
      "col_archivedAt c = None \<longrightarrow> col_archivedAt s = None" "if col_id c = col_id column then None = None else col_archivedAt c = None"
    show "if col_id s = col_id column then None = None else col_archivedAt s = None"
    proof (cases "col_id c = col_id column")
      case True
      then have "c = column" by (rule unique_row [OF keys c(1) cm(1)])
      then have "s \<in> set (missing_dependencies sc columnId ?db)" if "col_archivedAt s \<noteq> None"
        using d c cm(2) that unfolding missing_dependencies_def by (auto simp: column_in_def)
      then have "col_archivedAt s = None" using dep by fastforce
      then show ?thesis by simp
    qed (use c(7,8) in simp)
  qed
qed

lemma column_converted_ok:
  assumes ok: "schema_ok T (lc_grid lc)" and e: "convertSqliteWorkspaceColumnType h sha256_hex now sc columnId inp lc = Inr (lc', r)"
  shows "schema_ok T (lc_grid lc')"
proof -
  let ?db = "lc_grid lc"
  obtain cs P where lc': "lc_grid lc' = ?db\<lparr>g_cells := cs, g_columns := update_where P (\<lambda>c. c\<lparr>col_valueType := ci_targetType inp\<rparr>) (g_columns ?db)\<rparr>"
    using e by (auto simp: convertSqliteWorkspaceColumnType_def and_then_eq_Inr Let_def applyColumnTypeConversion_def
        split: option.splits if_splits)
  let ?g = "\<lambda>c. if P c then c\<lparr>col_valueType := ci_targetType inp\<rparr> else c"
  have t: "g_tables (lc_grid lc') = map (\<lambda>t. t) (g_tables ?db)" "g_columns (lc_grid lc') = map ?g (g_columns ?db)"
    "g_dependencies (lc_grid lc') = g_dependencies ?db" by (simp_all add: lc' update_where_def)
  have g: "col_id (?g c) = col_id c \<and> col_tableId (?g c) = col_tableId c \<and> col_workspaceId (?g c) = col_workspaceId c \<and> col_name (?g c) = col_name c" for c
    by simp
  have a: "col_archivedAt (?g c) = col_archivedAt c" for c by simp
  show ?thesis
  proof (rule changed_in_place_ok [OF ok _ g _ t])
    show "distinct_names table_workspaceId table_name (map (\<lambda>t. t) (g_tables ?db))"
      using ok by (simp add: schema_ok_def names_ok_def)
    show "tables_filled (lc_grid lc')"
      using ok by (simp only: schema_ok_def tables_filled_def t list.set_map ball_simps bex_simps g a) simp
    show "dependencies_active (lc_grid lc')" unfolding dependencies_active_def t
    proof
      fix d
      assume "d \<in> set (g_dependencies ?db)"
      then have "dependency_ok (g_columns ?db) d" using ok by (simp add: schema_ok_def dependencies_active_def)
      then obtain c s where cs: "c \<in> set (g_columns ?db)" "s \<in> set (g_columns ?db)" "col_id c = dep_columnId d" "col_id s = dependsOnColumnId d"
          "col_tableId c = dep_tableId d" "col_tableId s = dep_tableId d" "col_workspaceId c = dep_workspaceId d" "col_workspaceId s = dep_workspaceId d"
          "col_archivedAt c = None \<longrightarrow> col_archivedAt s = None"
        by (rule dependency_okE)
      show "dependency_ok (map ?g (g_columns ?db)) d"
      proof (rule dependency_okI [of "?g c" _ "?g s"])
        show "?g c \<in> set (map ?g (g_columns ?db))" "?g s \<in> set (map ?g (g_columns ?db))"
          unfolding list.set_map by (rule imageI, rule cs(1), rule imageI, rule cs(2))
        show "col_archivedAt (?g c) = None \<longrightarrow> col_archivedAt (?g s) = None" unfolding a by (rule cs(9))
      qed (simp_all only: g cs(3-8))
    qed
  qed simp
qed

section \<open>Columns and tables that other requests create\<close>

text \<open>
  Requests that are not modelled create columns and tables too. Imports, sources and ingestion
  endpoints (\<open>imports.ts\<close>, \<open>sources.ts\<close>, \<open>ingestion.ts\<close>) add active input columns without the checks of
  \<open>createSqliteInputColumn\<close>; connector columns (\<open>enrichments.ts\<close>) are checked like input columns and depend
  on active columns of their table; a new workspace (\<open>workspaces.ts\<close>) starts with one table of two
  columns; a purge deletes a workspace with everything in it.
\<close>

definition fresh_column :: "grid_db \<Rightarrow> column_row \<Rightarrow> bool" where
  "fresh_column db c \<longleftrightarrow> col_id c \<notin> col_id ` set (g_columns db) \<and> col_archivedAt c = None
     \<and> (\<exists>t \<in> set (g_tables db). table_id t = col_tableId c \<and> table_workspaceId t = col_workspaceId c)"

definition checked_column :: "grid_db \<Rightarrow> column_row \<Rightarrow> bool" where
  "checked_column db c \<longleftrightarrow> length (table_columns (col_tableId c) (col_workspaceId c) db) < MAXIMUM_TABLE_COLUMNS
     \<and> (\<forall>d \<in> set (table_columns (col_tableId c) (col_workspaceId c) db). ascii_lower (col_name d) \<noteq> ascii_lower (col_name c))"

definition connector_dependency :: "grid_db \<Rightarrow> column_row \<Rightarrow> dependency_row \<Rightarrow> bool" where
  "connector_dependency db c d \<longleftrightarrow> dep_columnId d = col_id c \<and> dep_tableId d = col_tableId c \<and> dep_workspaceId d = col_workspaceId c
     \<and> (\<exists>s \<in> set (g_columns db). col_id s = dependsOnColumnId d \<and> col_tableId s = col_tableId c
          \<and> col_workspaceId s = col_workspaceId c \<and> col_archivedAt s = None)"

definition starter_table :: "table_row \<Rightarrow> column_row \<Rightarrow> column_row \<Rightarrow> bool" where
  "starter_table t company domain \<longleftrightarrow> table_archivedAt t = None \<and> table_name t = js ''Companies''
     \<and> col_name company = js ''Company'' \<and> col_name domain = js ''Domain''
     \<and> (\<forall>c \<in> {company, domain}. col_tableId c = table_id t \<and> col_workspaceId c = table_workspaceId t \<and> col_archivedAt c = None)"

definition purged :: "jsstr \<Rightarrow> grid_db \<Rightarrow> grid_db" where
  "purged w db = db\<lparr>g_members := filter (\<lambda>m. member_workspaceId m \<noteq> w) (g_members db),
     g_tables := filter (\<lambda>t. table_workspaceId t \<noteq> w) (g_tables db),
     g_columns := filter (\<lambda>c. col_workspaceId c \<noteq> w) (g_columns db),
     g_rows := filter (\<lambda>r. row_workspaceId r \<noteq> w) (g_rows db),
     g_cells := filter (\<lambda>c. gc_workspaceId c \<noteq> w) (g_cells db),
     g_dependencies := filter (\<lambda>d. dep_workspaceId d \<noteq> w) (g_dependencies db)\<rparr>"

lemma column_imported_ok:
  assumes ok: "schema_ok T db" and c: "fresh_column db c" "col_tableId c \<in> T"
  shows "schema_ok T (db\<lparr>g_columns := g_columns db @ [c]\<rparr>)"
proof -
  obtain t where t: "t \<in> set (g_tables db)" "col_tableId c = table_id t" "col_workspaceId c = table_workspaceId t"
    using c(1) by (auto simp: fresh_column_def)
  show ?thesis by (rule new_column_ok [OF ok _ t, where deps = "[]"]) (use c in \<open>simp_all add: fresh_column_def\<close>)
qed

lemma connector_column_ok:
  assumes ok: "schema_ok T db" and c: "fresh_column db c" "checked_column db c" "list_all (connector_dependency db c) deps"
  shows "schema_ok T (db\<lparr>g_columns := g_columns db @ [c], g_dependencies := g_dependencies db @ deps\<rparr>)"
proof -
  obtain t where t: "t \<in> set (g_tables db)" "col_tableId c = table_id t" "col_workspaceId c = table_workspaceId t"
    using c(1) by (auto simp: fresh_column_def)
  have "dependency_ok (g_columns db @ [c]) d" if d: "d \<in> set deps" for d
  proof -
    have "connector_dependency db c d" using c(3) d by (simp add: list_all_iff)
    then obtain s where "s \<in> set (g_columns db)" "col_id s = dependsOnColumnId d" "col_tableId s = col_tableId c"
        "col_workspaceId s = col_workspaceId c" "col_archivedAt s = None"
        "dep_columnId d = col_id c" "dep_tableId d = col_tableId c" "dep_workspaceId d = col_workspaceId c"
      unfolding connector_dependency_def by blast
    then show ?thesis unfolding dependency_ok_def by (intro bexI [of _ c] bexI [of _ s]) simp_all
  qed
  then show ?thesis
    by (intro new_column_ok [OF ok _ t, where deps = deps]) (use c in \<open>simp_all add: fresh_column_def checked_column_def\<close>)
qed

lemma starter_table_ok:
  assumes ok: "schema_ok T db" and s: "starter_table t company domain"
    and t: "table_id t \<notin> table_id ` set (g_tables db)" "\<forall>u \<in> set (g_tables db). table_workspaceId u \<noteq> table_workspaceId t"
    and c: "col_id company \<notin> col_id ` set (g_columns db)" "col_id domain \<notin> insert (col_id company) (col_id ` set (g_columns db))"
  shows "schema_ok T (db\<lparr>g_tables := g_tables db @ [t], g_columns := g_columns db @ [company, domain]\<rparr>)"
proof -
  let ?db1 = "db\<lparr>g_tables := g_tables db @ [t], g_columns := g_columns db @ [company]\<rparr>"
  have none: "workspace_tables (table_workspaceId t) db = []"
    using t(2) by (simp add: workspace_tables_def select_where_def filter_empty_conv)
  have ok1: "schema_ok T ?db1"
    by (rule new_table_ok [OF ok t(1), of company])
      (use s c(1) none in \<open>simp_all add: starter_table_def MAXIMUM_WORKSPACE_TABLES_def\<close>)
  have other: "col_tableId d \<noteq> table_id t" if "d \<in> set (g_columns db)" for d
    using column_table [OF ok that] t(1) by (metis imageI)
  have "table_columns (table_id t) w db = []" for w
    using other by (auto simp: table_columns_def select_where_def filter_empty_conv)
  then have only: "set (table_columns (table_id t) w ?db1) \<subseteq> {company}" "length (table_columns (table_id t) w ?db1) \<le> 1" for w
    by (auto simp: table_columns_def select_where_def)
  have "checked_column ?db1 domain"
    unfolding checked_column_def
  proof
    have "length (table_columns (col_tableId domain) (col_workspaceId domain) ?db1) \<le> 1" using only(2) s by (simp add: starter_table_def)
    then show "length (table_columns (col_tableId domain) (col_workspaceId domain) ?db1) < MAXIMUM_TABLE_COLUMNS"
      by (simp add: MAXIMUM_TABLE_COLUMNS_def)
    have "ascii_lower (js ''Company'') \<noteq> ascii_lower (js ''Domain'')" by code_simp
    then show "\<forall>d \<in> set (table_columns (col_tableId domain) (col_workspaceId domain) ?db1). ascii_lower (col_name d) \<noteq> ascii_lower (col_name domain)"
      using only(1) [of "col_workspaceId domain"] s by (auto simp: starter_table_def)
  qed
  moreover have "fresh_column ?db1 domain" using c(2) s by (auto simp: fresh_column_def starter_table_def)
  ultimately show ?thesis using connector_column_ok [OF ok1, of domain "[]"] by simp
qed

lemma distinct_names_filter: "distinct_names scope name xs \<Longrightarrow> distinct_names scope name (filter P xs)"
  by (simp add: distinct_names_def distinct_map_filter)

lemma length_filter_subset: "length (filter (\<lambda>x. P x \<and> Q x) xs) \<le> length (filter P xs)" "length (filter (\<lambda>x. Q x \<and> P x) xs) \<le> length (filter P xs)"
  by (induction xs) auto

lemma purged_ok:
  assumes ok: "schema_ok T db"
  shows "schema_ok T (purged w db)"
proof -
  have "distinct_names col_tableId col_name (filter (\<lambda>c. col_workspaceId c \<noteq> w) (filter (\<lambda>c. col_tableId c \<notin> T) (g_columns db)))"
    "distinct_names table_workspaceId table_name (filter (\<lambda>t. table_workspaceId t \<noteq> w) (g_tables db))"
    by (rule distinct_names_filter, use ok in \<open>simp add: schema_ok_def names_ok_def\<close>)+
  then have "names_ok T (purged w db)"
    using ok by (simp add: schema_ok_def names_ok_def purged_def distinct_map_filter conj_commute)
  moreover have "length (workspace_tables v (purged w db)) \<le> length (workspace_tables v db)"
    "length (table_columns t v (purged w db)) \<le> length (table_columns t v db)" for t v
    by (simp_all add: workspace_tables_def table_columns_def select_where_def purged_def length_filter_subset)
  then have "limits_ok T (purged w db)" using ok unfolding schema_ok_def limits_ok_def by (meson order_trans)
  moreover have "columns_placed (purged w db)" using ok by (fastforce simp: schema_ok_def columns_placed_def purged_def)
  moreover have "tables_filled (purged w db)" unfolding tables_filled_def
  proof
    fix t
    assume "t \<in> set (g_tables (purged w db))"
    then have t: "t \<in> set (g_tables db)" "table_workspaceId t \<noteq> w" by (simp_all add: purged_def)
    obtain c where c: "c \<in> set (g_columns db)" "col_tableId c = table_id t" "col_archivedAt c = None"
      using ok t(1) unfolding schema_ok_def tables_filled_def by blast
    obtain u where u: "u \<in> set (g_tables db)" "table_id u = col_tableId c" "table_workspaceId u = col_workspaceId c"
      using column_table [OF ok c(1)] by blast
    have "u = t" using unique_row [of table_id "g_tables db" u t] ok t(1) u c(2) by (simp add: schema_ok_def names_ok_def)
    then have "c \<in> set (g_columns (purged w db))" using c(1) u(3) t(2) by (simp add: purged_def)
    moreover obtain v where "v \<in> set (g_tables db)" "table_workspaceId v = table_workspaceId t" "table_archivedAt v = None"
      using ok t(1) unfolding schema_ok_def tables_filled_def by blast
    moreover from this t(2) have "v \<in> set (g_tables (purged w db))" by (simp add: purged_def)
    ultimately show "(\<exists>c \<in> set (g_columns (purged w db)). col_tableId c = table_id t \<and> col_archivedAt c = None)
        \<and> (\<exists>u \<in> set (g_tables (purged w db)). table_workspaceId u = table_workspaceId t \<and> table_archivedAt u = None)"
      using c by blast
  qed
  moreover have "dependencies_active (purged w db)" unfolding dependencies_active_def
  proof
    fix d
    assume "d \<in> set (g_dependencies (purged w db))"
    then have d: "d \<in> set (g_dependencies db)" "dep_workspaceId d \<noteq> w" by (simp_all add: purged_def)
    then have "dependency_ok (g_columns db) d" using ok by (simp add: schema_ok_def dependencies_active_def)
    then obtain c s where cs: "c \<in> set (g_columns db)" "s \<in> set (g_columns db)" "col_id c = dep_columnId d" "col_id s = dependsOnColumnId d"
        "col_tableId c = dep_tableId d" "col_tableId s = dep_tableId d" "col_workspaceId c = dep_workspaceId d"
        "col_workspaceId s = dep_workspaceId d" "col_archivedAt c = None \<longrightarrow> col_archivedAt s = None"
      by (rule dependency_okE)
    show "dependency_ok (g_columns (purged w db)) d"
      by (rule dependency_okI [of c _ s]) (use cs d(2) in \<open>simp_all add: purged_def\<close>)
  qed
  ultimately show ?thesis by (simp add: schema_ok_def)
qed

section \<open>Histories\<close>

text \<open>
  A request that succeeds, one of the requests above on the tables of the model, or a change of
  other tables. \<open>T\<close> are the tables that imports, sources and ingestion add columns to.
\<close>

inductive lifecycle_step :: "host \<Rightarrow> jsstr set \<Rightarrow> lifecycle_db \<Rightarrow> lifecycle_db \<Rightarrow> bool" for h T where
  table_created: "createSqliteWorkspaceTable h uuid inp (lc_grid lc) = Inr (db', t, c) \<Longrightarrow> lifecycle_step h T lc (lc\<lparr>lc_grid := db'\<rparr>)"
| table_renamed: "renameSqliteWorkspaceTable h sc name (lc_grid lc) = Inr (db', r) \<Longrightarrow> lifecycle_step h T lc (lc\<lparr>lc_grid := db'\<rparr>)"
| input_column_created: "createSqliteInputColumn h uuid now sc name ty (lc_grid lc) = Inr (db', c) \<Longrightarrow> lifecycle_step h T lc (lc\<lparr>lc_grid := db'\<rparr>)"
| formula_column_created: "createSqliteFormulaColumn h uuid now finp (lc_grid lc) = Inr (db', c) \<Longrightarrow> lifecycle_step h T lc (lc\<lparr>lc_grid := db'\<rparr>)"
| grid_row_created: "createSqliteGridRow uuid now sc (lc_grid lc) = Inr (db', r) \<Longrightarrow> lifecycle_step h T lc (lc\<lparr>lc_grid := db'\<rparr>)"
| grid_cell_written: "writeSqliteGridCell h uuid now winp (lc_grid lc) = Inr (db', v) \<Longrightarrow> lifecycle_step h T lc (lc\<lparr>lc_grid := db'\<rparr>)"
| batch_copied: "writeSqliteWorkflowRowBatch h sha256 uuid now cinp (lc_grid lc) = Inr (db', out) \<Longrightarrow> lifecycle_step h T lc (lc\<lparr>lc_grid := db'\<rparr>)"
| table_archived: "archiveSqliteWorkspaceTable h now sc name lc = Inr lc' \<Longrightarrow> lifecycle_step h T lc lc'"
| table_restored: "restoreSqliteWorkspaceTable sc lc = Inr lc' \<Longrightarrow> lifecycle_step h T lc lc'"
| column_archived: "archiveSqliteWorkspaceColumn h now sc i name lc = Inr lc' \<Longrightarrow> lifecycle_step h T lc lc'"
| column_restored: "restoreSqliteWorkspaceColumn sc i lc = Inr lc' \<Longrightarrow> lifecycle_step h T lc lc'"
| column_converted: "convertSqliteWorkspaceColumnType h sha256_hex now sc i kinp lc = Inr (lc', res) \<Longrightarrow> lifecycle_step h T lc lc'"
| column_imported: "fresh_column (lc_grid lc) c \<Longrightarrow> col_tableId c \<in> T
    \<Longrightarrow> lifecycle_step h T lc (lc\<lparr>lc_grid := (lc_grid lc)\<lparr>g_columns := g_columns (lc_grid lc) @ [c]\<rparr>\<rparr>)"
| connector_column_created: "fresh_column (lc_grid lc) c \<Longrightarrow> checked_column (lc_grid lc) c \<Longrightarrow> list_all (connector_dependency (lc_grid lc) c) deps
    \<Longrightarrow> lifecycle_step h T lc (lc\<lparr>lc_grid := (lc_grid lc)\<lparr>g_columns := g_columns (lc_grid lc) @ [c], g_dependencies := g_dependencies (lc_grid lc) @ deps\<rparr>\<rparr>)"
| workspace_created: "starter_table t company domain \<Longrightarrow> table_id t \<notin> table_id ` set (g_tables (lc_grid lc))
    \<Longrightarrow> \<forall>u \<in> set (g_tables (lc_grid lc)). table_workspaceId u \<noteq> table_workspaceId t
    \<Longrightarrow> col_id company \<notin> col_id ` set (g_columns (lc_grid lc))
    \<Longrightarrow> col_id domain \<notin> insert (col_id company) (col_id ` set (g_columns (lc_grid lc)))
    \<Longrightarrow> lifecycle_step h T lc (lc\<lparr>lc_grid := (lc_grid lc)\<lparr>g_tables := g_tables (lc_grid lc) @ [t], g_columns := g_columns (lc_grid lc) @ [company, domain]\<rparr>\<rparr>)"
| workspace_purged: "lifecycle_step h T lc (lc\<lparr>lc_grid := purged w (lc_grid lc)\<rparr>)"
| elsewhere: "schema_kept (lc_grid lc) (lc_grid lc') \<Longrightarrow> lifecycle_step h T lc lc'"

definition empty_grid :: grid_db where
  "empty_grid = \<lparr>g_members = [], g_tables = [], g_columns = [], g_rows = [], g_cells = [], g_dependencies = [],
     g_webhooks = [], g_writebacks = [], g_settlements = [], g_outbox = [], g_fresh = 0\<rparr>"

definition empty_lifecycle :: lifecycle_db where
  "empty_lifecycle = \<lparr>lc_grid = empty_grid, lc_views = [], lc_imports = [], lc_sources = [], lc_sourceRuns = [],
     lc_endpoints = [], lc_ingestionBatches = [], lc_webhookDeliveries = [], lc_writebackDeliveries = [], lc_bulkRuns = [],
     lc_events = []\<rparr>"

lemma empty_schema_ok: "schema_ok T (lc_grid empty_lifecycle)"
  by (simp add: schema_ok_def schema_defs distinct_names_def workspace_tables_def table_columns_def select_where_def
      empty_lifecycle_def empty_grid_def)

lemma lifecycle_step_ok: "lifecycle_step h T lc lc' \<Longrightarrow> schema_ok T (lc_grid lc) \<Longrightarrow> schema_ok T (lc_grid lc')"
  by (induction rule: lifecycle_step.induct)
    (auto intro: table_created_ok table_renamed_ok input_column_created_ok formula_created_schema_ok table_archived_ok
      table_restored_ok column_archived_ok column_restored_ok column_converted_ok
      column_imported_ok connector_column_ok starter_table_ok purged_ok
      simp: schema_kept_ok [OF row_created_schema] schema_kept_ok [OF cell_written_schema]
        schema_kept_ok [OF batch_copied_schema] schema_kept_ok)

text \<open>
  C38. Over any history of a workspace, whatever is created, renamed, archived, restored,
  converted, imported or purged in any order: no two tables of a workspace have the same name up to
  ASCII case and a workspace has at most a hundred tables, archived ones included; every column is
  in a table of its workspace, every table keeps an active column and every workspace that has tables
  an active one; and an active column never depends on an archived one, so that the sources of every
  active formula are there. Names of columns differ up to ASCII case, and their number is at most
  256, in every table to which no import, source or ingestion adds columns (the tables outside
  \<open>T\<close>): those writers check neither.
\<close>

theorem schema_history:
  assumes "(lifecycle_step h T)\<^sup>*\<^sup>* empty_lifecycle lc"
  shows "schema_ok T (lc_grid lc)"
  using assms by (induction rule: rtranclp_induct) (auto simp: empty_schema_ok dest: lifecycle_step_ok)

definition lifecycle_start :: lifecycle_db where
  "lifecycle_start = empty_lifecycle\<lparr>lc_grid := empty_grid\<lparr>g_members :=
     [\<lparr>member_workspaceId = js ''w'', member_userId = js ''u'', member_role = Owner\<rparr>]\<rparr>\<rparr>"

definition lifecycle_table :: create_table_input where
  "lifecycle_table = \<lparr>ct_firstColumnName = js ''N'', ct_firstColumnValueType = TText, ct_name = js ''T'',
     ct_userId = js ''u'', ct_workspaceId = js ''w''\<rparr>"

lemma lifecycle_table_created:
  "(case createSqliteWorkspaceTable ascii_host (\<lambda>n. decimal_digits n) lifecycle_table (lc_grid lifecycle_start) of
      Inr (db', t, c) \<Rightarrow> length (g_columns db') = 1 | Inl _ \<Rightarrow> False)"
  by code_simp

theorem schema_history_witness:
  "\<exists>lc :: lifecycle_db. schema_ok {} (lc_grid lc) \<and> length (g_columns (lc_grid lc)) = 1"
proof -
  obtain db' t c where d: "createSqliteWorkspaceTable ascii_host (\<lambda>n. decimal_digits n) lifecycle_table (lc_grid lifecycle_start) = Inr (db', t, c)"
    "length (g_columns db') = 1"
    using lifecycle_table_created by (auto split: sum.splits prod.splits)
  have "lifecycle_step ascii_host {} empty_lifecycle lifecycle_start"
    by (rule elsewhere) (simp add: schema_kept_def lifecycle_start_def empty_lifecycle_def)
  moreover have "lifecycle_step ascii_host {} lifecycle_start (lifecycle_start\<lparr>lc_grid := db'\<rparr>)" by (rule table_created [OF d(1)])
  ultimately have "(lifecycle_step ascii_host {})\<^sup>*\<^sup>* empty_lifecycle (lifecycle_start\<lparr>lc_grid := db'\<rparr>)"
    by (meson r_into_rtranclp rtranclp_trans)
  from schema_history [OF this] show ?thesis using d(2) by (intro exI [of _ "lifecycle_start\<lparr>lc_grid := db'\<rparr>"]) simp
qed

end
