(* ===== verification/ConversionProofs.thy ===== *)
theory ConversionProofs
  imports SchemaConversion RowBatches
begin

text \<open>
  What a conversion does: the scan in pages is a fold over the cells in order, the preview
  decides the outcome, and the digest fixes the cells that were previewed.
\<close>

section \<open>The pages of the scan are the cells in order\<close>

interpretation cell_pages: keyset cell_order cell_after "\<lambda>x. gc_id (fst x)" "\<lambda>_. True"
  by unfold_locales (simp_all add: cell_order_def cell_after_def compare_with_iff)

definition cursor_filter :: "jsstr option \<Rightarrow> grid_cell \<times> jsstr \<Rightarrow> bool" where
  "cursor_filter k x = (case k of None \<Rightarrow> True | Some i \<Rightarrow> cell_after i x)"

lemma cursor_filter_fun: "cursor_filter k = (\<lambda>x. case k of None \<Rightarrow> True | Some i \<Rightarrow> cell_after i x)"
  by (rule ext) (simp add: cursor_filter_def)

lemma cell_suffix:
  assumes d: "distinct (map (\<lambda>x. gc_id (fst x)) cs)" and i: "i < length (sort_by cell_order cs)"
  shows "sort_by cell_order (filter (cursor_filter (Some (gc_id (fst (sort_by cell_order cs ! i))))) cs)
    = drop (Suc i) (sort_by cell_order cs)"
proof -
  have "sort_by cell_order (filter (cell_after (gc_id (fst (sort_by cell_order cs ! i)))) cs) = drop (Suc i) (sort_by cell_order cs)"
  proof (rule cell_pages.after_suffix)
    show "distinct cs" using d unfolding distinct_map by (rule conjunct1)
    show "x = y" if "x \<in> set cs" "y \<in> set cs" "cell_order x y = 0" for x y
      using unique_row [OF d that(1,2)] that(3) by (simp add: cell_order_def compare_with_iff)
    show "i < length cs" using i by (metis mset_sort_by mset_eq_length)
  qed simp
  moreover have "cursor_filter (Some k) = cell_after k" for k by (rule ext) (simp add: cursor_filter_def)
  ultimately show ?thesis by simp
qed

lemma scan_from:
  assumes d: "distinct (map (\<lambda>x. gc_id (fst x)) cs)"
  shows "sort_by cell_order (filter (cursor_filter k) cs) = drop p (sort_by cell_order cs)
    \<Longrightarrow> scan_pages h u t cs k st = fold (scan_cell h u t) (drop p (sort_by cell_order cs)) st"
proof (induction "length cs - p" arbitrary: p k st rule: less_induct)
  case less
  let ?S = "sort_by cell_order cs"
  let ?page = "take CONVERSION_PAGE_SIZE (drop p ?S)"
  have page: "page_rows cell_order cell_after CONVERSION_PAGE_SIZE k cs = ?page"
    using less.prems unfolding page_rows_def cursor_filter_fun [symmetric] by simp
  have len: "length ?S = length cs" by (metis mset_sort_by mset_eq_length)
  show ?case
  proof (cases "length ?page < CONVERSION_PAGE_SIZE")
    case True
    then have "?page = drop p ?S" by simp
    then show ?thesis using True by (subst scan_pages.simps) (simp only: page Let_def if_True)
  next
    case False
    have n: "0 < CONVERSION_PAGE_SIZE" by (simp add: CONVERSION_PAGE_SIZE_def)
    define q where "q = p + CONVERSION_PAGE_SIZE - 1"
    have q: "q < length ?S" "Suc q = p + CONVERSION_PAGE_SIZE" using False n by (simp_all add: q_def)
    have ne: "?page \<noteq> []" using False n by auto
    have "length ?page = CONVERSION_PAGE_SIZE" using False by simp
    then have "last ?page = ?page ! (CONVERSION_PAGE_SIZE - 1)" using last_conv_nth [OF ne] by metis
    also have "\<dots> = ?S ! q" using n q by (simp add: q_def add.commute)
    finally have l: "last ?page = ?S ! q" .
    have "scan_pages h u t cs (Some (gc_id (fst (last ?page)))) (fold (scan_cell h u t) ?page st)
        = fold (scan_cell h u t) (drop (Suc q) ?S) (fold (scan_cell h u t) ?page st)"
      by (rule less.hyps) (use q n len in \<open>simp_all add: l cell_suffix [OF d q(1)]\<close>)
    also have "\<dots> = fold (scan_cell h u t) (?page @ drop CONVERSION_PAGE_SIZE (drop p ?S)) st"
      by (simp add: q(2) add.commute)
    finally show ?thesis using False by (subst scan_pages.simps) (simp only: page Let_def if_False append_take_drop_id)
  qed
qed

lemma scan_is_fold:
  assumes "distinct (map (\<lambda>x. gc_id (fst x)) cs)"
  shows "scan_pages h u t cs None st = fold (scan_cell h u t) (sort_by cell_order cs) st"
  using scan_from [OF assms, of None 0] by (simp add: cursor_filter_def)

section \<open>What a scan finds\<close>

definition cell_converts :: "host \<Rightarrow> value_type \<Rightarrow> value_type \<Rightarrow> grid_cell \<Rightarrow> bool" where
  "cell_converts h u t c \<longleftrightarrow> valueType (gc_value c) = TEmpty
     \<or> valueType (gc_value c) = u \<and> (\<exists>v. convert_stored h t (gc_value c) = Inr v)"

lemma scan_cell_effect:
  "scan_failed (scan_cell h u t x st) = scan_failed st + (if cell_converts h u t (fst x) then 0 else 1)"
  "scan_empty (scan_cell h u t x st) = scan_empty st + (if valueType (gc_value (fst x)) = TEmpty then 1 else 0)"
  "scan_hashed (scan_cell h u t x st) = scan_hashed st @ cell_print (fst x)"
  by (cases x; simp add: scan_cell_def Let_def cell_converts_def split: sum.split)+

lemma scan_effect:
  "scan_failed (fold (scan_cell h u t) xs st) = scan_failed st + length (filter (\<lambda>x. \<not> cell_converts h u t (fst x)) xs)"
  "scan_hashed (fold (scan_cell h u t) xs st) = scan_hashed st @ concat (map (\<lambda>x. cell_print (fst x)) xs)"
  by (induction xs arbitrary: st) (simp_all add: scan_cell_effect)

text \<open>Every cell has its row: the foreign key of the table of cells.\<close>

definition cells_placed :: "grid_db \<Rightarrow> bool" where
  "cells_placed db \<longleftrightarrow> (\<forall>c \<in> set (g_cells db). \<exists>r \<in> set (g_rows db). row_id r = gc_rowId c \<and> row_tableId r = gc_tableId c
     \<and> row_workspaceId r = gc_workspaceId c)"

lemma column_cells_fst:
  assumes keys: "distinct (map row_id (g_rows db))" and placed: "cells_placed db"
  shows "map fst (column_cells sc i db) = filter (cell_in_column sc i) (g_cells db)"
proof -
  have one: "map fst (concat (map (\<lambda>r. if row_id r = gc_rowId c \<and> row_tableId r = gc_tableId c \<and> row_workspaceId r = gc_workspaceId c
          \<and> cell_in_column sc i c then [(c, row_position r)] else []) (g_rows db)))
      = (if cell_in_column sc i c then [c] else [])" if c: "c \<in> set (g_cells db)" for c
  proof -
    let ?P = "\<lambda>r. row_id r = gc_rowId c \<and> row_tableId r = gc_tableId c \<and> row_workspaceId r = gc_workspaceId c \<and> cell_in_column sc i c"
    have x1: "map fst (concat (map (\<lambda>r. if ?P r then [(c, row_position r)] else []) rs)) = replicate (length (filter ?P rs)) c" for rs
      by (induction rs) auto
    have x2: "length (filter ?P (g_rows db)) = (if cell_in_column sc i c then 1 else 0)"
    proof (cases "cell_in_column sc i c")
      case True
      obtain r where r: "r \<in> set (g_rows db)" "?P r" using placed c True unfolding cells_placed_def by blast
      then have "filter ?P (g_rows db) \<noteq> []" by (metis (mono_tags, lifting) filter_empty_conv)
      moreover have "length (filter ?P (g_rows db)) \<le> 1" by (rule at_most_one [OF keys]) simp
      ultimately show ?thesis using True by (simp add: le_Suc_eq)
    qed simp
    show ?thesis unfolding x1 x2 by simp
  qed
  have "map fst (concat (map (\<lambda>c. concat (map (\<lambda>r. if row_id r = gc_rowId c \<and> row_tableId r = gc_tableId c \<and> row_workspaceId r = gc_workspaceId c
          \<and> cell_in_column sc i c then [(c, row_position r)] else []) (g_rows db))) cs)) = filter (cell_in_column sc i) cs"
    if "set cs \<subseteq> set (g_cells db)" for cs
    using that by (induction cs) (simp_all add: one)
  then show ?thesis unfolding column_cells_def by blast
qed

section \<open>What a conversion writes\<close>

definition to_convert :: "grid_scope \<Rightarrow> jsstr \<Rightarrow> grid_cell \<Rightarrow> bool" where
  "to_convert sc columnId c \<longleftrightarrow> cell_in_column sc columnId c \<and> valueType (gc_value c) \<noteq> TEmpty"

definition converted_value :: "host \<Rightarrow> value_type \<Rightarrow> grid_cell \<Rightarrow> cell_value" where
  "converted_value h t c = (case convert_stored h t (gc_value c) of Inr v \<Rightarrow> v | Inl _ \<Rightarrow> CEmpty)"

text \<open>The tables after a conversion: the type of the column and its cells that are not empty.\<close>

definition converted_grid :: "host \<Rightarrow> int \<Rightarrow> grid_scope \<Rightarrow> jsstr \<Rightarrow> value_type \<Rightarrow> grid_db \<Rightarrow> grid_db" where
  "converted_grid h now sc columnId t db =
     db\<lparr>g_columns := map (\<lambda>c. if col_id c = columnId then c\<lparr>col_valueType := t\<rparr> else c) (g_columns db),
        g_cells := map (\<lambda>c. if to_convert sc columnId c
          then c\<lparr>gc_value := serializeSqliteCellValue h (converted_value h t c), gc_status := Idle, gc_version := Suc (gc_version c),
            gc_updatedAt := now\<rparr>
          else c) (g_cells db)\<rparr>"

lemma convert_cells:
  assumes "\<forall>x \<in> set xs. \<exists>v. convert_stored h t (gc_value x) = Inr v"
  shows "fold_result (convert_cell h now t) xs cs
    = Inr (map (\<lambda>c. fold (\<lambda>x c. if gc_id c = gc_id x then converted_cell h now (converted_value h t x) c else c) xs c) cs)"
  using assms
proof (induction xs arbitrary: cs)
  case (Cons x xs)
  then obtain v where "convert_stored h t (gc_value x) = Inr v" by auto
  then show ?case using Cons by (simp add: convert_cell_def converted_value_def update_where_def o_def)
qed simp

lemma convert_one:
  assumes "distinct (map gc_id xs)"
  shows "fold (\<lambda>x c. if gc_id c = gc_id x then converted_cell h now (w x) c else c) xs c =
    (case find (\<lambda>x. gc_id x = gc_id c) xs of None \<Rightarrow> c | Some x \<Rightarrow> converted_cell h now (w x) c)"
  using assms
proof (induction xs arbitrary: c)
  case (Cons x xs)
  have k: "gc_id (converted_cell h now (w x) c) = gc_id c" by (simp add: converted_cell_def)
  show ?case
  proof (cases "gc_id x = gc_id c")
    case True
    have "find (\<lambda>y. gc_id y = gc_id c) xs = None" using Cons.prems True by (simp add: find_None_iff image_iff) metis
    then show ?thesis using Cons True k by simp
  next
    case False
    then show ?thesis using Cons by simp
  qed
qed simp

lemma applied:
  assumes d: "distinct (map gc_id (g_cells db))"
    and c: "\<And>x. x \<in> set (g_cells db) \<Longrightarrow> to_convert sc i x \<Longrightarrow> \<exists>v. convert_stored h t (gc_value x) = Inr v"
  shows "applyColumnTypeConversion h now sc i t db = Inr (db\<lparr>g_cells := map (\<lambda>c. if to_convert sc i c
      then converted_cell h now (converted_value h t c) c else c) (g_cells db)\<rparr>, length (filter (to_convert sc i) (g_cells db)))"
proof -
  let ?xs = "stored_cells sc i db"
  have m: "mset ?xs = mset (filter (to_convert sc i) (g_cells db))"
    by (simp add: stored_cells_def select_where_def to_convert_def [abs_def])
  then have xs: "set ?xs = {x \<in> set (g_cells db). to_convert sc i x}" by (metis set_filter set_mset_mset)
  have dx: "distinct (map gc_id ?xs)"
    using m d by (metis distinct_map_filter mset_map mset_eq_imp_distinct_iff)
  have "fold (\<lambda>x c. if gc_id c = gc_id x then converted_cell h now (converted_value h t x) c else c) ?xs c
      = (if to_convert sc i c then converted_cell h now (converted_value h t c) c else c)" if cm: "c \<in> set (g_cells db)" for c
  proof (cases "to_convert sc i c")
    case True
    then have "c \<in> set ?xs" using xs cm by simp
    then have "find (\<lambda>x. gc_id x = gc_id c) ?xs \<noteq> None" by (auto simp: find_None_iff)
    then obtain x where x: "find (\<lambda>x. gc_id x = gc_id c) ?xs = Some x" by blast
    then have "x \<in> set ?xs" "gc_id x = gc_id c" by (auto simp: find_Some_iff)
    then have "x = c" using unique_row [OF d _ cm] xs by simp
    then show ?thesis using x True by (simp add: convert_one [OF dx])
  next
    case False
    have "find (\<lambda>x. gc_id x = gc_id c) ?xs = None"
      using unique_row [OF d _ cm] xs False by (auto simp: find_None_iff)
    then show ?thesis using False by (simp add: convert_one [OF dx])
  qed
  then have "map (\<lambda>c. fold (\<lambda>x c. if gc_id c = gc_id x then converted_cell h now (converted_value h t x) c else c) ?xs c) (g_cells db)
      = map (\<lambda>c. if to_convert sc i c then converted_cell h now (converted_value h t c) c else c) (g_cells db)" by simp
  moreover have "\<forall>x \<in> set ?xs. \<exists>v. convert_stored h t (gc_value x) = Inr v" using xs c by simp
  moreover have "length ?xs = length (filter (to_convert sc i) (g_cells db))" using m by (metis size_mset)
  ultimately show ?thesis unfolding applyColumnTypeConversion_def by (simp add: convert_cells)
qed

section \<open>The preview decides\<close>

lemma column_cell_ids:
  assumes "distinct (map row_id (g_rows db))" "cells_placed db" "distinct (map gc_id (g_cells db))"
  shows "distinct (map (\<lambda>x. gc_id (fst x)) (column_cells sc i db))"
proof -
  have "map (\<lambda>x. gc_id (fst x)) (column_cells sc i db) = map gc_id (map fst (column_cells sc i db))" by simp
  also have "\<dots> = map gc_id (filter (cell_in_column sc i) (g_cells db))" by (simp only: column_cells_fst [OF assms(1,2)])
  finally show ?thesis using assms(3) by (simp add: distinct_map_filter)
qed

lemma scanned:
  assumes k: "distinct (map row_id (g_rows db))" "cells_placed db" "distinct (map gc_id (g_cells db))"
  shows "scan_failed (scanColumnTypeConversion h sc i u t db) = 0
    \<longleftrightarrow> (\<forall>c \<in> set (g_cells db). cell_in_column sc i c \<longrightarrow> cell_converts h u t c)"
    and "scan_hashed (scanColumnTypeConversion h sc i u t db) = scan_prefix sc i u t
      @ concat (map (\<lambda>x. cell_print (fst x)) (sort_by cell_order (column_cells sc i db)))"
proof -
  note f = scan_is_fold [OF column_cell_ids [OF k, of sc i], of h u t]
  show "scan_hashed (scanColumnTypeConversion h sc i u t db) = scan_prefix sc i u t
      @ concat (map (\<lambda>x. cell_print (fst x)) (sort_by cell_order (column_cells sc i db)))"
    by (simp add: scanColumnTypeConversion_def f scan_effect)
  have "scan_failed (scanColumnTypeConversion h sc i u t db) = 0
      \<longleftrightarrow> (\<forall>x \<in> set (column_cells sc i db). cell_converts h u t (fst x))"
    by (simp add: scanColumnTypeConversion_def f scan_effect filter_empty_conv)
  also have "\<dots> \<longleftrightarrow> (\<forall>c \<in> set (map fst (column_cells sc i db)). cell_converts h u t c)" by simp
  also have "\<dots> \<longleftrightarrow> (\<forall>c \<in> set (g_cells db). cell_in_column sc i c \<longrightarrow> cell_converts h u t c)"
    unfolding column_cells_fst [OF k(1,2)] by auto
  finally show "scan_failed (scanColumnTypeConversion h sc i u t db) = 0
    \<longleftrightarrow> (\<forall>c \<in> set (g_cells db). cell_in_column sc i c \<longrightarrow> cell_converts h u t c)" .
qed

lemma preview_parts:
  assumes "buildColumnTypeConversionPreview h sha256_hex sc i t lc = Inr preview"
  shows "cv_column preview \<in> set (g_columns (lc_grid lc))" "active_column sc i (cv_column preview)"
    "col_kind (cv_column preview) = Input_column"
    "cv_scan preview = scanColumnTypeConversion h sc i (col_valueType (cv_column preview)) t (lc_grid lc)"
    "cv_previewDigest preview = sha256_hex (scan_hashed (cv_scan preview) @ stringify (blockers_json (cv_blockers preview)))"
    "cv_blockers preview = [] \<Longrightarrow> scan_failed (cv_scan preview) = 0"
  using assms
  by (auto simp: buildColumnTypeConversionPreview_def and_then_eq_Inr Let_def push_empty requireActiveColumn_def select_where_def
      split: if_splits option.splits dest: first_row_mem)

text \<open>The outcome of a conversion, as the preview on the same tables foretells it.\<close>

definition conversion_outcome :: "host \<Rightarrow> int \<Rightarrow> grid_scope \<Rightarrow> jsstr \<Rightarrow> jsstr \<Rightarrow> jsstr \<Rightarrow> value_type \<Rightarrow> conversion_preview
    \<Rightarrow> lifecycle_db \<Rightarrow> grid_error + (lifecycle_db \<times> conversion_result)" where
  "conversion_outcome h now sc columnId name digest t preview lc =
     (if name \<noteq> col_name (cv_column preview) then Inl GridValidation
      else if cv_previewDigest preview \<noteq> digest \<or> cv_blockers preview \<noteq> [] then Inl GridConflict
      else let n = length (filter (to_convert sc columnId) (g_cells (lc_grid lc))); column = cv_column preview
           in Inr (lc\<lparr>lc_grid := converted_grid h now sc columnId t (lc_grid lc),
                     lc_events := lc_events lc @ [conversion_entry sc preview t n column]\<rparr>,
                   \<lparr>cr_convertedCells = n, cr_fromValueType = col_valueType column, cr_id = columnId,
                    cr_name = col_name column, cr_toValueType = t\<rparr>))"

lemma find_only: "x \<in> set xs \<Longrightarrow> (\<And>y. y \<in> set xs \<Longrightarrow> P y \<longleftrightarrow> y = x) \<Longrightarrow> find P xs = Some x"
  by (induction xs) auto

lemma conversion_is_foretold:
  assumes keys: "distinct (map col_id (g_columns (lc_grid lc)))" "distinct (map row_id (g_rows (lc_grid lc)))"
      "distinct (map gc_id (g_cells (lc_grid lc)))" "cells_placed (lc_grid lc)"
    and p: "previewSqliteColumnTypeConversion h sha256_hex sc i t lc = Inr preview"
    and n: "displayName h confirmation = Some name" "hex_digest digest"
  shows "convertSqliteWorkspaceColumnType h sha256_hex now sc i
      \<lparr>ci_confirmationName = confirmation, ci_previewDigest = digest, ci_targetType = t\<rparr> lc
    = conversion_outcome h now sc i name digest t preview lc"
    and "cv_blockers preview = [] \<Longrightarrow> c \<in> set (g_cells (lc_grid lc)) \<Longrightarrow> to_convert sc i c
      \<Longrightarrow> \<exists>v w. deserializeSqliteCellValue h (gc_value c) = Some v \<and> type_of v = col_valueType (cv_column preview)
        \<and> convertColumnCellValue h v t = Inr w \<and> converted_value h t c = w"
proof -
  let ?db = "lc_grid lc"
  have b: "buildColumnTypeConversionPreview h sha256_hex sc i t lc = Inr preview"
    and m: "requireSchemaManager (gs_userId sc) (gs_workspaceId sc) ?db = Inr ()" and ty: "t \<in> set editable_types"
    using p by (auto simp: previewSqliteColumnTypeConversion_def and_then_eq_Inr split: if_splits)
  note q = preview_parts [OF b]
  have conv: "cell_converts h (col_valueType (cv_column preview)) t c"
    if "cv_blockers preview = []" "c \<in> set (g_cells ?db)" "to_convert sc i c" for c
    using q(6) [OF that(1)] that(2,3) scanned(1) [OF keys(2,4,3), of h sc i] by (simp add: q(4) to_convert_def)
  show "\<exists>v w. deserializeSqliteCellValue h (gc_value c) = Some v \<and> type_of v = col_valueType (cv_column preview)
      \<and> convertColumnCellValue h v t = Inr w \<and> converted_value h t c = w"
    if "cv_blockers preview = []" "c \<in> set (g_cells ?db)" "to_convert sc i c"
    using conv [OF that] that(3) deserialized_type
    by (auto simp: cell_converts_def to_convert_def convert_stored_def converted_value_def split: option.splits sum.splits)
  show "convertSqliteWorkspaceColumnType h sha256_hex now sc i
      \<lparr>ci_confirmationName = confirmation, ci_previewDigest = digest, ci_targetType = t\<rparr> lc
    = conversion_outcome h now sc i name digest t preview lc"
  proof (cases "name = col_name (cv_column preview) \<and> cv_previewDigest preview = digest \<and> cv_blockers preview = []")
    case False
    then show ?thesis using n ty m b
      by (auto simp: convertSqliteWorkspaceColumnType_def conversion_outcome_def requireConversionConfirmation_def requireNoBlockers_def)
  next
    case True
    have apply': "applyColumnTypeConversion h now sc i t ?db = Inr (?db\<lparr>g_cells := map (\<lambda>c. if to_convert sc i c
        then converted_cell h now (converted_value h t c) c else c) (g_cells ?db)\<rparr>, length (filter (to_convert sc i) (g_cells ?db)))"
      by (rule applied [OF keys(3)]) (use conv True in \<open>auto simp: cell_converts_def to_convert_def\<close>)
    let ?target = "\<lambda>c. active_column sc i c \<and> col_kind c = Input_column \<and> col_valueType c = col_valueType (cv_column preview)"
    have tgt: "?target c \<longleftrightarrow> c = cv_column preview" if "c \<in> set (g_columns ?db)" for c
      using unique_row [OF keys(1) that q(1)] q(2,3) by (auto simp: active_column_def column_in_def)
    have "first_row (select_where ?target (g_columns ?db)) = Some (cv_column preview)"
      unfolding first_row_find by (rule find_only [OF q(1) tgt])
    moreover have idi: "col_id c = i \<longleftrightarrow> c = cv_column preview" if "c \<in> set (g_columns ?db)" for c
      using unique_row [OF keys(1) that q(1)] q(2) by (auto simp: active_column_def column_in_def)
    have "update_where ?target (\<lambda>c. c\<lparr>col_valueType := t\<rparr>) (g_columns ?db)
        = map (\<lambda>c. if col_id c = i then c\<lparr>col_valueType := t\<rparr> else c) (g_columns ?db)"
      unfolding update_where_def by (rule map_cong [OF refl]) (simp add: tgt idi)
    moreover have "col_id (cv_column preview) = i" using q(2) by (simp add: active_column_def column_in_def)
    ultimately show ?thesis using n ty m b True
      by (simp add: convertSqliteWorkspaceColumnType_def conversion_outcome_def requireConversionConfirmation_def requireNoBlockers_def
          apply' converted_grid_def converted_cell_def Let_def cong: map_cong)
  qed
qed

section \<open>The digest\<close>

lemma with_nul_split:
  "0 \<notin> set x \<Longrightarrow> 0 \<notin> set y \<Longrightarrow> with_nul x @ a = with_nul y @ b \<Longrightarrow> x = y \<and> a = b"
proof (induction x arbitrary: y)
  case Nil
  then show ?case by (cases y) (auto simp: with_nul_def)
next
  case (Cons c x)
  then show ?case by (cases y) (auto simp: with_nul_def)
qed

lemma nul_tokens:
  assumes "\<forall>x \<in> set xs. 0 \<notin> set x" "\<forall>y \<in> set ys. 0 \<notin> set y" "0 \<notin> set a" "0 \<notin> set b"
    and "concat (map with_nul xs) @ a = concat (map with_nul ys) @ b"
  shows "xs = ys \<and> a = b"
  using assms
proof (induction xs arbitrary: ys)
  case Nil
  show ?case
  proof (cases ys)
    case (Cons y zs)
    then have "0 \<in> set a" using Nil.prems(5) by (simp add: with_nul_def)
    then show ?thesis using Nil.prems(3) by simp
  qed (use Nil in simp)
next
  case (Cons x xs)
  show ?case
  proof (cases ys)
    case Nil
    then have "b = with_nul x @ concat (map with_nul xs) @ a" using Cons.prems(5) by simp
    then have "0 \<in> set b" by (simp add: with_nul_def)
    then show ?thesis using Cons.prems(4) by simp
  next
    case (Cons y zs)
    then have "with_nul x @ concat (map with_nul xs) @ a = with_nul y @ concat (map with_nul zs) @ b" using Cons.prems(5) by simp
    note e = this
    have n: "0 \<notin> set x" "0 \<notin> set y" using Cons.prems(1,2) Cons by simp_all
    note xy = with_nul_split [OF n e]
    have "xs = zs \<and> a = b" by (rule Cons.IH) (use Cons.prems(1-4) Cons xy in simp_all)
    then show ?thesis using Cons xy by simp
  qed
qed

definition cell_tokens :: "grid_cell \<Rightarrow> jsstr list" where
  "cell_tokens c = [gc_id c, decimal_digits (gc_version c), type_name (valueType (gc_value c))]"

definition fingerprint :: "grid_cell \<Rightarrow> jsstr \<times> nat \<times> value_type" where
  "fingerprint c = (gc_id c, gc_version c, valueType (gc_value c))"

lemma type_name_inj: "type_name a = type_name b \<Longrightarrow> a = b"
  by (cases a; cases b; simp add: js_eval)

lemma decimal_digits_inj: "decimal_digits a = decimal_digits b \<Longrightarrow> a = b"
  by (metis digits_value_decimal)

lemma tokens_length: "length (cell_tokens c) = 3"
  by (simp add: cell_tokens_def)

lemma tokens_determine:
  "concat (map cell_tokens xs) = concat (map cell_tokens ys) \<Longrightarrow> map fingerprint xs = map fingerprint ys"
proof (induction xs arbitrary: ys)
  case Nil
  then show ?case by (cases ys) (simp_all add: cell_tokens_def)
next
  case (Cons x xs)
  show ?case
  proof (cases ys)
    case Nil
    then show ?thesis using Cons.prems by (simp add: cell_tokens_def)
  next
    case (Cons y zs)
    then have e: "cell_tokens x = cell_tokens y" "concat (map cell_tokens xs) = concat (map cell_tokens zs)"
      using Cons.prems append_eq_append_conv [of "cell_tokens x" "cell_tokens y"] by (simp_all add: tokens_length)
    have "fingerprint x = fingerprint y"
      using e(1) type_name_inj [of "valueType (gc_value x)" "valueType (gc_value y)"] decimal_digits_inj [of "gc_version x" "gc_version y"]
      by (simp add: cell_tokens_def fingerprint_def)
    then show ?thesis using Cons.IH [OF e(2)] Cons by simp
  qed
qed

lemma print_tokens: "concat (map cell_print cs) = concat (map with_nul (concat (map cell_tokens cs)))"
  by (induction cs) (simp_all add: cell_print_def cell_tokens_def)

lemma digits_no_nul: "0 \<notin> set (decimal_digits n)"
  using decimal_digits_digits [of 0 n] by (auto simp: is_digit_def)

lemma type_name_no_nul: "0 \<notin> set (type_name t)"
  by (cases t) (simp_all add: js_eval)

lemma tokens_no_nul: "0 \<notin> set (gc_id c) \<Longrightarrow> x \<in> set (cell_tokens c) \<Longrightarrow> 0 \<notin> set x"
  by (auto simp: cell_tokens_def digits_no_nul type_name_no_nul)

section \<open>The text of the blockers\<close>

lemma place_point_no_nul: "0 \<notin> set ds \<Longrightarrow> 0 \<notin> set (place_point ds n)"
  by (auto simp: place_point_def Let_def digits_no_nul dest: in_set_takeD in_set_dropD)

lemma number_no_nul: "0 \<notin> set (number_to_string (Fin x))"
proof -
  have "0 \<notin> set (positive_to_string y)" for y
    by (auto simp: positive_to_string_def Let_def place_point_no_nul digits_no_nul split: option.splits)
  then show ?thesis by (simp add: js_eval)
qed

lemma quoted_no_nul: "0 \<notin> set (quote_string (js ''code''))" "0 \<notin> set (quote_string (js ''count''))"
  by code_simp+

lemma blocker_no_nul: "0 \<notin> set (quote_string (blocker_name b))"
  by (cases b; hypsubst; code_simp)

lemma joined_no_nul: "0 \<notin> set sep \<Longrightarrow> \<forall>x \<in> set xs. 0 \<notin> set x \<Longrightarrow> 0 \<notin> set (join_with sep xs)"
  by (induction sep xs rule: join_with.induct) auto

lemma blockers_no_nul: "0 \<notin> set (stringify (blockers_json bs))"
proof -
  let ?j = "\<lambda>(code, n). JObj [(js ''code'', JStr (blocker_name code)), (js ''count'', nat_json n)]"
  have "0 \<notin> set (stringify (?j b))" for b
    using number_no_nul [of "of_nat (snd b)"]
    by (cases b) (simp add: nat_json_def quoted_no_nul blocker_no_nul del: number_to_string.simps)
  then have "0 \<notin> set (join_with [44] (map stringify (map ?j bs)))"
    by (intro joined_no_nul) auto
  then show ?thesis unfolding blockers_json_def stringify.simps by simp
qed

lemma blockers_text: "stringify (blockers_json bs) = [91, 93] \<Longrightarrow> bs = []"
  by (cases bs rule: remdups_adj.cases) (auto simp: blockers_json_def)

section \<open>Properties\<close>

definition conversion_text :: "conversion_preview \<Rightarrow> jsstr" where
  "conversion_text preview = scan_hashed (cv_scan preview) @ stringify (blockers_json (cv_blockers preview))"

text \<open>The tables satisfy their keys, and no identifier of a cell contains a NUL.\<close>

definition lifecycle_keys :: "lifecycle_db \<Rightarrow> bool" where
  "lifecycle_keys lc \<longleftrightarrow> distinct (map col_id (g_columns (lc_grid lc))) \<and> distinct (map row_id (g_rows (lc_grid lc)))
     \<and> distinct (map gc_id (g_cells (lc_grid lc))) \<and> cells_placed (lc_grid lc)
     \<and> (\<forall>c \<in> set (g_cells (lc_grid lc)). 0 \<notin> set (gc_id c))"

lemma same_text:
  assumes keys: "lifecycle_keys lc" "lifecycle_keys lc'"
    and b: "buildColumnTypeConversionPreview h sha256_hex sc i t lc = Inr p" "buildColumnTypeConversionPreview h sha256_hex sc i t lc' = Inr p'"
    and e: "conversion_text p = conversion_text p'"
  shows "fingerprint ` {c \<in> set (g_cells (lc_grid lc)). cell_in_column sc i c} = fingerprint ` {c \<in> set (g_cells (lc_grid lc')). cell_in_column sc i c}
    \<and> col_valueType (cv_column p) = col_valueType (cv_column p')
    \<and> stringify (blockers_json (cv_blockers p)) = stringify (blockers_json (cv_blockers p'))"
proof -
  let ?S = "\<lambda>lc. map fst (sort_by cell_order (column_cells sc i (lc_grid lc)))"
  let ?ts = "\<lambda>u lc. type_name u # type_name t # concat (map cell_tokens (?S lc))"
  let ?pre = "concat (map with_nul [js ''column-conversion-v1'', gs_workspaceId sc, gs_tableId sc, i])"
  have S: "set (?S l) = {c \<in> set (g_cells (lc_grid l)). cell_in_column sc i c}" if "lifecycle_keys l" for l
  proof -
    have "set (?S l) = set (map fst (column_cells sc i (lc_grid l)))" by simp
    also have "\<dots> = {c \<in> set (g_cells (lc_grid l)). cell_in_column sc i c}"
      using that by (simp only: column_cells_fst lifecycle_keys_def set_filter)
    finally show ?thesis .
  qed
  have printed: "conversion_text q = ?pre @ concat (map with_nul (?ts (col_valueType (cv_column q)) l)) @ stringify (blockers_json (cv_blockers q))"
    if "lifecycle_keys l" "buildColumnTypeConversionPreview h sha256_hex sc i t l = Inr q" for l q
    using that(1) print_tokens [of "?S l"]
    by (simp add: conversion_text_def preview_parts(4) [OF that(2)] scanned(2) lifecycle_keys_def scan_prefix_def o_def)
  have n: "\<forall>x \<in> set (?ts u l). 0 \<notin> set x" if "lifecycle_keys l" for u l
    using S [OF that] that by (auto simp: type_name_no_nul lifecycle_keys_def dest!: tokens_no_nul [rotated])
  have "?ts (col_valueType (cv_column p)) lc = ?ts (col_valueType (cv_column p')) lc'
      \<and> stringify (blockers_json (cv_blockers p)) = stringify (blockers_json (cv_blockers p'))"
    by (rule nul_tokens [OF n [OF keys(1)] n [OF keys(2)] blockers_no_nul blockers_no_nul])
      (use e printed [OF keys(1) b(1)] printed [OF keys(2) b(2)] in simp)
  then have x: "type_name (col_valueType (cv_column p)) = type_name (col_valueType (cv_column p'))"
    "concat (map cell_tokens (?S lc)) = concat (map cell_tokens (?S lc'))"
    "stringify (blockers_json (cv_blockers p)) = stringify (blockers_json (cv_blockers p'))" by simp_all
  have "fingerprint ` set (?S lc) = fingerprint ` set (?S lc')"
    using tokens_determine [OF x(2)] by (metis list.set_map)
  then show ?thesis using type_name_inj [OF x(1)] x(3) S [OF keys(1)] S [OF keys(2)] by simp
qed

text \<open>
  C39. The preview of a conversion foretells its outcome. On the tables of the preview, the
  conversion refuses a wrong confirmation, another digest and any blocker; otherwise it
  succeeds, and the errors inside it are unreachable: every cell of the column that is not empty
  gets the conversion of its value at the next version, the column gets its new type, one event
  is recorded and nothing else changes. The scan page by page is part of the preview.
\<close>

theorem conversion_effect:
  assumes "lifecycle_keys lc" and "previewSqliteColumnTypeConversion h sha256_hex sc i t lc = Inr preview"
    and "displayName h confirmation = Some name" "hex_digest digest"
  shows "convertSqliteWorkspaceColumnType h sha256_hex now sc i
      \<lparr>ci_confirmationName = confirmation, ci_previewDigest = digest, ci_targetType = t\<rparr> lc
    = conversion_outcome h now sc i name digest t preview lc
    \<and> (cv_blockers preview = [] \<longrightarrow> (\<forall>c \<in> set (g_cells (lc_grid lc)). to_convert sc i c \<longrightarrow>
        (\<exists>v w. deserializeSqliteCellValue h (gc_value c) = Some v \<and> type_of v = col_valueType (cv_column preview)
          \<and> convertColumnCellValue h v t = Inr w \<and> converted_value h t c = w)))"
proof -
  have k: "distinct (map col_id (g_columns (lc_grid lc)))" "distinct (map row_id (g_rows (lc_grid lc)))"
    "distinct (map gc_id (g_cells (lc_grid lc)))" "cells_placed (lc_grid lc)"
    using assms(1) by (simp_all add: lifecycle_keys_def)
  show ?thesis
    using conversion_is_foretold(1) [OF k assms(2-4), of now] conversion_is_foretold(2) [OF k assms(2-4)] by blast
qed

text \<open>
  C40. A conversion changes what was previewed. If a conversion with the digest of an earlier
  preview succeeds, whatever happened in between, then the cells of the column have the
  identifiers, versions and types that they had in the preview, the column has the type it
  had, and the preview had no blockers; provided that the hash does not collide on the two texts.
\<close>

theorem conversion_as_previewed:
  assumes "lifecycle_keys lc" "lifecycle_keys lc'"
    and p: "previewSqliteColumnTypeConversion h sha256_hex sc i t lc = Inr preview"
    and hash: "\<And>p'. sha256_hex (conversion_text preview) = sha256_hex (conversion_text p') \<Longrightarrow>
      buildColumnTypeConversionPreview h sha256_hex sc i t lc' = Inr p' \<Longrightarrow> conversion_text preview = conversion_text p'"
    and c: "convertSqliteWorkspaceColumnType h sha256_hex now sc i
      \<lparr>ci_confirmationName = confirmation, ci_previewDigest = cv_previewDigest preview, ci_targetType = t\<rparr> lc' = Inr (lc'', result)"
  shows "fingerprint ` {c \<in> set (g_cells (lc_grid lc')). cell_in_column sc i c} = fingerprint ` {c \<in> set (g_cells (lc_grid lc)). cell_in_column sc i c}
    \<and> cr_fromValueType result = col_valueType (cv_column preview) \<and> cv_blockers preview = []"
proof -
  have b: "buildColumnTypeConversionPreview h sha256_hex sc i t lc = Inr preview"
    using p by (auto simp: previewSqliteColumnTypeConversion_def and_then_eq_Inr split: if_splits)
  obtain p' where p': "buildColumnTypeConversionPreview h sha256_hex sc i t lc' = Inr p'" "cv_previewDigest p' = cv_previewDigest preview"
    "cv_blockers p' = []" "cr_fromValueType result = col_valueType (cv_column p')"
    using c by (auto simp: convertSqliteWorkspaceColumnType_def and_then_eq_Inr Let_def requireNoBlockers_def split: option.splits if_splits)
  have "conversion_text preview = conversion_text p'"
    using hash [OF _ p'(1)] p'(2) preview_parts(5) [OF b] preview_parts(5) [OF p'(1)] by (simp add: conversion_text_def)
  from same_text [OF assms(1,2) b p'(1) this] p'(3,4) show ?thesis
    using blockers_text [of "cv_blockers preview"] by (simp add: blockers_json_def)
qed

section \<open>A sample\<close>

definition flag_lc :: lifecycle_db where
  "flag_lc = \<lparr>lc_grid = \<lparr>g_members = [\<lparr>member_workspaceId = js ''w'', member_userId = js ''u'', member_role = Owner\<rparr>],
       g_tables = [\<lparr>table_id = js ''t'', table_workspaceId = js ''w'', table_name = js ''T'', table_archivedAt = None\<rparr>],
       g_columns = [\<lparr>col_id = js ''c'', col_workspaceId = js ''w'', col_tableId = js ''t'', col_name = js ''C'',
         col_kind = Input_column, col_valueType = TBoolean, col_position = js ''a0'', col_configuration = OtherConfiguration,
         col_archivedAt = None\<rparr>],
       g_rows = [\<lparr>row_id = js ''r'', row_workspaceId = js ''w'', row_tableId = js ''t'', row_position = js ''p'',
         row_version = 1, row_archivedAt = None, row_updatedAt = 0\<rparr>],
       g_cells = [\<lparr>gc_id = js ''x'', gc_workspaceId = js ''w'', gc_tableId = js ''t'', gc_rowId = js ''r'', gc_columnId = js ''c'',
         gc_value = serializeSqliteCellValue ascii_host (CBoolean True), gc_status = Idle, gc_version = 1, gc_updatedAt = 0\<rparr>],
       g_dependencies = [], g_webhooks = [], g_writebacks = [], g_settlements = [], g_outbox = [], g_fresh = 0\<rparr>,
     lc_views = [], lc_imports = [], lc_sources = [], lc_sourceRuns = [], lc_endpoints = [], lc_ingestionBatches = [],
     lc_webhookDeliveries = [], lc_writebackDeliveries = [], lc_bulkRuns = [], lc_events = []\<rparr>"

definition flag_scope :: grid_scope where
  "flag_scope = \<lparr>gs_tableId = js ''t'', gs_userId = js ''u'', gs_workspaceId = js ''w''\<rparr>"

definition flag_hash :: "jsstr \<Rightarrow> jsstr" where
  "flag_hash s = replicate 64 48"

lemma flag_keys: "lifecycle_keys flag_lc"
  by (simp add: lifecycle_keys_def flag_lc_def cells_placed_def js_eval)

lemma flag_name: "displayName ascii_host (js ''C'') = Some (js ''C'')"
  by code_simp

lemma flag_scan: "scan_failed (scanColumnTypeConversion ascii_host flag_scope (js ''c'') TBoolean TJson (lc_grid flag_lc)) = 0"
proof -
  have "distinct (map (\<lambda>x. gc_id (fst x)) (column_cells flag_scope (js ''c'') (lc_grid flag_lc)))"
    by (rule column_cell_ids) (use flag_keys in \<open>simp_all add: lifecycle_keys_def\<close>)
  note f = scan_is_fold [OF this, of ascii_host TBoolean TJson]
  have "filter (\<lambda>x. \<not> cell_converts ascii_host TBoolean TJson (fst x)) (column_cells flag_scope (js ''c'') (lc_grid flag_lc)) = []"
  proof -
    have "convertColumnCellValue ascii_host (CBoolean True) TJson = Inr (CJson (JBool True))"
      by (simp add: convertColumnCellValue_def validateConvertedValue_def editable_cell_value_def
          editableCellByteLength_def json_finite.simps stringify.simps)
    then show ?thesis
      by (auto simp: filter_empty_conv cell_converts_def convert_stored_def column_cells_def flag_lc_def deserializeSqliteCellValue_def no_value_def)
  qed
  then show ?thesis by (simp add: scanColumnTypeConversion_def f scan_effect filter_empty_conv)
qed

lemma flag_preview:
  "(case previewSqliteColumnTypeConversion ascii_host flag_hash flag_scope (js ''c'') TJson flag_lc of
      Inl _ \<Rightarrow> False
    | Inr p \<Rightarrow> cv_blockers p = [] \<and> col_name (cv_column p) = js ''C'' \<and> col_valueType (cv_column p) = TBoolean
        \<and> cv_previewDigest p = replicate 64 48)"
proof -
  let ?c = "hd (g_columns (lc_grid flag_lc))"
  have c: "requireActiveColumn flag_scope (js ''c'') (lc_grid flag_lc) = Inr ?c" "col_kind ?c = Input_column"
    "col_valueType ?c = TBoolean" "col_name ?c = js ''C''" by code_simp+
  obtain t where t: "requireActiveTable flag_scope (lc_grid flag_lc) = Inr t"
    by (simp add: requireActiveTable_def flag_lc_def active_table_def flag_scope_def select_where_def first_row_def)
  have m: "requireSchemaManager (gs_userId flag_scope) (gs_workspaceId flag_scope) (lc_grid flag_lc) = Inr ()" by code_simp
  have r: "filter_result (writebackReferencesColumn ascii_host (js ''c'')) (selectWritebackMappings flag_scope flag_lc) = Inr []"
    "filter_result (viewReferencesColumn ascii_host (js ''c'')) (selectSavedViewMappings flag_scope flag_lc) = Inr []" by code_simp+
  have z: "countActiveColumnConversionWork flag_scope (js ''c'') flag_lc = 0" "dependent_columns flag_scope (js ''c'') (lc_grid flag_lc) = []"
    "active_source_mappings flag_scope (js ''c'') flag_lc = []" "active_ingestion_mappings flag_scope (js ''c'') flag_lc = []" by code_simp+
  have e: "TJson \<in> set editable_types" by code_simp
  show ?thesis
    by (simp add: previewSqliteColumnTypeConversion_def buildColumnTypeConversionPreview_def e m t c r z flag_scan pushBlocker_def
        Let_def flag_hash_def)
qed

lemma flag_previewed:
  obtains p where "previewSqliteColumnTypeConversion ascii_host flag_hash flag_scope (js ''c'') TJson flag_lc = Inr p"
    "cv_blockers p = []" "col_name (cv_column p) = js ''C''" "col_valueType (cv_column p) = TBoolean" "cv_previewDigest p = replicate 64 48"
  using flag_preview that by (auto split: sum.splits)

lemma flag_digest: "hex_digest (replicate 64 48)"
  by code_simp

theorem conversion_effect_witness:
  "\<exists>lc result. convertSqliteWorkspaceColumnType ascii_host flag_hash 9 flag_scope (js ''c'')
      \<lparr>ci_confirmationName = js ''C'', ci_previewDigest = replicate 64 48, ci_targetType = TJson\<rparr> flag_lc = Inr (lc, result)
    \<and> cr_convertedCells result = 1"
proof -
  obtain p where p: "previewSqliteColumnTypeConversion ascii_host flag_hash flag_scope (js ''c'') TJson flag_lc = Inr p"
    "cv_blockers p = []" "col_name (cv_column p) = js ''C''" "cv_previewDigest p = replicate 64 48"
    by (rule flag_previewed)
  have "length (filter (to_convert flag_scope (js ''c'')) (g_cells (lc_grid flag_lc))) = 1" by code_simp
  then show ?thesis
    using conversion_effect [OF flag_keys p(1) flag_name flag_digest, of 9] p(2-4) by (simp add: conversion_outcome_def Let_def)
qed

lemma flag_converted:
  assumes "previewSqliteColumnTypeConversion ascii_host flag_hash flag_scope (js ''c'') TJson flag_lc = Inr p"
    "cv_blockers p = []" "col_name (cv_column p) = js ''C''" "cv_previewDigest p = replicate 64 48"
  shows "\<exists>lc result. convertSqliteWorkspaceColumnType ascii_host flag_hash 9 flag_scope (js ''c'')
      \<lparr>ci_confirmationName = js ''C'', ci_previewDigest = cv_previewDigest p, ci_targetType = TJson\<rparr> flag_lc = Inr (lc, result)"
  using conversion_is_foretold(1) [OF _ _ _ _ assms(1) flag_name flag_digest, of 9] flag_keys assms(2-4)
  by (simp add: conversion_outcome_def lifecycle_keys_def Let_def)

theorem conversion_as_previewed_witness:
  "\<exists>p lc result. previewSqliteColumnTypeConversion ascii_host flag_hash flag_scope (js ''c'') TJson flag_lc = Inr p
    \<and> convertSqliteWorkspaceColumnType ascii_host flag_hash 9 flag_scope (js ''c'')
      \<lparr>ci_confirmationName = js ''C'', ci_previewDigest = cv_previewDigest p, ci_targetType = TJson\<rparr> flag_lc = Inr (lc, result)
    \<and> cr_fromValueType result = col_valueType (cv_column p)"
proof -
  obtain p where p: "previewSqliteColumnTypeConversion ascii_host flag_hash flag_scope (js ''c'') TJson flag_lc = Inr p"
    "cv_blockers p = []" "col_name (cv_column p) = js ''C''" "cv_previewDigest p = replicate 64 48"
    by (rule flag_previewed)
  obtain lc result where c: "convertSqliteWorkspaceColumnType ascii_host flag_hash 9 flag_scope (js ''c'')
      \<lparr>ci_confirmationName = js ''C'', ci_previewDigest = cv_previewDigest p, ci_targetType = TJson\<rparr> flag_lc = Inr (lc, result)"
    using flag_converted [OF p] by blast
  have b: "buildColumnTypeConversionPreview ascii_host flag_hash flag_scope (js ''c'') TJson flag_lc = Inr p"
    using p(1) by (auto simp: previewSqliteColumnTypeConversion_def and_then_eq_Inr split: if_splits)
  have "conversion_text p = conversion_text p'"
    if "buildColumnTypeConversionPreview ascii_host flag_hash flag_scope (js ''c'') TJson flag_lc = Inr p'" for p'
    using that b by simp
  from conversion_as_previewed [OF flag_keys flag_keys p(1) this c] show ?thesis using p(1) c by blast
qed

end
