(* ===== verification/Spec2Isabelle.thy ===== *)
theory Spec2Isabelle
  imports CellValues GridView WorkflowPlans Outbox WorkflowStoreProofs RunProperties FormulaRoundTrip
    WorkerProofs SchemaProofs ConversionProofs
begin

text \<open>
  BYOK Grid is a workspace of tables whose columns hold typed input, formulas and enrichments, with
  workflows that select rows, filter them, copy them and hand them to remote services. This
  development models the core of its server on SQLite: the domain rules of \<open>packages/domain/src\<close>,
  the transactions of \<open>packages/db/src/sqlite\<close> and the two loops of \<open>apps/workflow-worker/src\<close>
  that drive them.

  The parts and how they interact.
  A request edits the grid (\<open>grid.ts\<close>), its schema (\<open>tables.ts\<close>, \<open>formulas.ts\<close>,
  \<open>schema-lifecycle.ts\<close>) or its saved views (\<open>grid-views.ts\<close>). An edit of a cell recomputes the
  formulas of its row (\<open>formulas.ts\<close>) and settles the row (\<open>row-mutations.ts\<close>), which writes events
  to the outbox. A dispatcher leases these events and runs their tasks (\<open>outbox.ts\<close>,
  \<open>local-dispatcher.ts\<close>). A workflow is drafted as a graph, checked (\<open>workflow-policy.ts\<close>), compiled
  to a plan (\<open>workflow-compiler.ts\<close>) and published as a version (\<open>workflows.ts\<close>). A run of a version is
  a ledger of steps (\<open>workflow-runs.ts\<close>); a worker leases one step at a time, executes it on batches
  of rows (\<open>workflow-data.ts\<close>) and completes or fails it (\<open>execute-workflow-run.ts\<close>,
  \<open>execute-step.ts\<close>).

  How the model reads. A table is the list of its rows and a transaction is a function from
  the tables to an error or the new tables: a transaction that fails changes nothing, and
  transactions are serial, as SQLite runs them. Strings are lists of 16-bit UTF-16 code units,
  numbers are IEEE 754 binary64 values, objects are records and unions are datatypes with one
  constructor per variant. Exceptions are the left injections of a sum, one constructor per
  error class; the wording of a message is kept only where code reads it. A request schema is
  a function that refuses or returns the parsed request.

  The theories, in the order of their imports.

  Shared: \<open>Prelude\<close> (strings, insertion-ordered maps, errors, lemma collections), \<open>Comparators\<close>
  (\<open>Array.prototype.sort\<close> and \<open>order by\<close>), \<open>JsNumber\<close>, \<open>JsNumeral\<close> and \<open>JsJson\<close> (arithmetic, numerals
  and JSON as ECMAScript defines them), \<open>NumeralRoundTrip\<close> and \<open>JsonRoundTrip\<close> (what \<open>String\<close> and
  \<open>JSON.stringify\<close> print, \<open>Number\<close> and \<open>JSON.parse\<close> read back), \<open>Worklist\<close> (Kahn's algorithm), \<open>Leases\<close> and \<open>Rows\<close>
  (the claim transaction of the job tables, rows by key), \<open>Keyset\<close> (paging by cursors).

  Cells and formulas: \<open>CellValues\<close> (\<open>cell-values.ts\<close>, \<open>column-conversion-policy.ts\<close>: a draft that
  parses has the type of its column and fits its limit, what is shown for a cell reads back as the
  cell, a conversion yields the target type), \<open>Formulas\<close> (\<open>formulas.ts\<close>: a validated formula evaluates to
  an empty or valid value of its type, the validation decides exactly the limits and types),
  \<open>FormulaLanguage\<close> and \<open>FormulaRoundTrip\<close> (\<open>formula-language.ts\<close>: the parser always returns, stays
  within the limits, and inverts the formatter).

  The grid: \<open>GridTables\<close> (the tables of \<open>sqlite/schema.ts\<close>, \<open>sqlite/cell-values.ts\<close>),
  \<open>RowMutations\<close> (\<open>row-mutations.ts\<close>, limits of \<open>writeback-policy.ts\<close>), \<open>FormulaColumns\<close>,
  \<open>FormulaConsistency\<close> and \<open>FormulaCreation\<close> (\<open>sqlite/formulas.ts\<close>: incremental recomputation in
  dependency order agrees with evaluating every formula, and never fails on well-formed tables),
  \<open>GridEdits\<close> (\<open>grid.ts\<close>: optimistic concurrency of cell writes; over any history of edits every
  formula cell stays current), \<open>GridPaging\<close> (the paged and searched snapshot),
  \<open>WorkspacePolicy\<close> (\<open>workspace-policy.ts\<close>: the order of the roles).

  Saved views: \<open>GridView\<close> (\<open>grid-view-policy.ts\<close>, \<open>grid-view-query.ts\<close>: limits of filter trees and
  their meaning on a row) and \<open>SavedViews\<close> (\<open>grid-views.ts\<close>: names and number of views over any
  history).

  The schema: \<open>WorkspaceTables\<close> (\<open>tables.ts\<close>, \<open>table-policy.ts\<close>), \<open>SchemaLifecycle\<close> and
  \<open>SchemaConversion\<close> (\<open>schema-lifecycle.ts\<close>: archival, restoration and type conversion with their
  previews), \<open>SchemaProofs\<close> (the invariant \<open>schema_ok\<close> over any history of all modelled requests,
  those of the grid included, and of the columns and tables that other requests create; its bounds on
  columns leave out the tables to which imports, sources and ingestion add columns) and \<open>ConversionProofs\<close> (the preview foretells the conversion, and its
  digest fixes the cells that are converted).

  Workflows: \<open>WorkflowPolicy\<close>, \<open>WorkflowGraphs\<close> (\<open>workflow-policy.ts\<close>, \<open>grid-search-policy.ts\<close>: what the
  validations decide), \<open>WorkflowCompiler\<close>, \<open>WorkflowPlans\<close> (\<open>workflow-compiler.ts\<close>: totality,
  topological order, independence of the presentation), \<open>WorkflowStore\<close>, \<open>WorkflowStoreProofs\<close>
  (\<open>workflows.ts\<close>: versions never change and have no gaps), \<open>WorkflowRuns\<close> (\<open>workflow-runs.ts\<close>),
  \<open>RunMachine\<close>, \<open>RunPlans\<close>, \<open>WorkflowRunProofs\<close>, \<open>RunSamples\<close>, \<open>RunProperties\<close> (the ledger refines an
  abstract machine over the forest of the plan; its invariants, fencing and progress follow from
  the machine), \<open>WorkflowData\<close>, \<open>RowBatches\<close>, \<open>RowCopies\<close> (\<open>workflow-data.ts\<close>, \<open>workflow-rows.ts\<close>:
  selecting page by page is listing, splitting slice by slice is filtering, copying is idempotent),
  \<open>WorkflowWorker\<close>, \<open>WorkerProofs\<close> (\<open>execute-workflow-run.ts\<close>, \<open>execute-step.ts\<close>: a worker that is
  alone with a run finishes it).

  The outbox: \<open>Outbox\<close> (\<open>outbox.ts\<close>, \<open>local-dispatcher.ts\<close>, limits of \<open>task-handlers.ts\<close>).

  The interfaces. \<open>lease_table\<close> states what a job table promises to the claim transaction; it is
  interpreted on the outbox and on the steps of the ledger, and gives both their mutual exclusion and
  fencing. \<open>bystanders\<close> states what a dispatcher needs of the transactions that run beside its batch;
  it is interpreted on those that only insert events and on those of other workers that respect the
  leases. \<open>kahn_loop\<close> states what the three topological sorts of the program share; it is
  interpreted on the draft validation (a stack), the compiler (a sorted queue) and the
  recomputation of formulas. \<open>keyset\<close> states what a cursor promises; it is interpreted on the
  two orders of the grid snapshot and on the scan of a conversion, and gives that the pages
  together are the ordered listing.

  Bounds and fuel. The work-list loops, the pages and the scans are functions with a
  termination proof. The parser of formulas recurses by the depth limit 12 of the source and its
  loop over the arguments of a call has the length of the source plus one as fuel, which it cannot
  exhaust, because every turn consumes a character. The digits of a number are searched for with fuel 1100,
  more than the significant decimal digits a binary64 value can have (\<open>shortest_digits\<close>). The loop of a worker has the remaining steps plus one as
  fuel; \<open>worker_finishes_run\<close> shows that this is enough. The dispatcher is modelled batch by batch,
  since its outer loop ends only with the process. Versions, revisions and counters are unbounded,
  as the code keeps them in numbers below the exact range; the limits that the code checks (500
  rows of a batch, slices and pages of 200, scans of 1000, 250 leases, 128 nodes of a formula, 100
  tables, 256 columns, 50 views) are constants of the model.

  Parameters. The host functions of JavaScript that rest on the tables of Unicode (case, normal forms,
  locale comparison) and the formats of dates and UUIDs are one record; what a property relies on is a
  hypothesis: the laws of NFKC (\<open>unicode_host\<close>), a comparison that tells UUIDs apart
  (\<open>distinguishes_ids\<close>), a \<open>Date.parse\<close> that reads the timestamps at hand. SHA-256 and \<open>randomUUID\<close> are functions, \<open>Date.now()\<close> is an
  argument of every operation, the search text of a row is an argument because triggers of the
  migrations keep it, and the tasks of the dispatcher and the steps of remote services are functions.

  Not modelled.
  \<^item> Enrichment columns and cell runs (\<open>enrichments.ts\<close>, \<open>bulk-runs.ts\<close>, \<open>row-automations.ts\<close>,
    \<open>execute-cell-run.ts\<close>, \<open>waterfall.ts\<close>): their values come from connectors outside the repository. What
    a row mutation queues for them is in \<open>RowMutations\<close>; the step of a worker that waits for them
    is a parameter of \<open>WorkflowWorker\<close>.
  \<^item> Sources, ingestion and imports (\<open>sources.ts\<close>, \<open>ingestion.ts\<close>, \<open>imports.ts\<close>), webhooks and
    writebacks (\<open>webhooks.ts\<close>, \<open>writebacks.ts\<close>) and the policies of these modules: they are reached
    only as the rows that the previews of an archival count and that a row mutation writes.
  \<^item> Workspaces, invitations and credentials (\<open>workspaces.ts\<close>, \<open>collaboration.ts\<close>,
    \<open>credentials.ts\<close>, \<open>packages/security\<close>): members are a table that the operations read.
  \<^item> The listing of the tables of a workspace in \<open>grid.ts\<close>, a selection without a decision.
  \<^item> The character position and the wording of error messages, and the generated SQL text: the
    model states which rows a statement selects.
  \<^item> The Postgres store (\<open>packages/db/src/*.ts\<close>, \<open>apps/worker\<close>), a second implementation of the
    same operations on row locks and policies of its server.
  \<^item> Input and output: connections, migrations, backups and drills of \<open>packages/db/src/sqlite\<close>,
    metrics and analytics, the start of the worker and the Hatchet service, \<open>packages/connectors\<close>,
    \<open>packages/connector-sdk\<close>, \<open>apps/connector-runner\<close>, \<open>packages/airbyte-destination\<close>, \<open>apps/web\<close>,
    \<open>apps/marketing\<close>.
\<close>

end
